(* ===== verification/Prelude.thy ===== *)
theory Prelude
  imports Complex_Main "HOL-Library.AList" "HOL-Library.Multiset" "HOL-Library.List_Lexorder"
    "HOL-Library.Char_ord"
begin

text \<open>
  The prelude of the development: the types every component shares, the reading of
  JavaScript's \<open>Map\<close> and stable \<open>sort\<close>, and the lemmas that carry the proofs of
  the components.

  \<^item> A \<open>Date\<close> (or the ISO string it is parsed from) is its instant, an \<open>int\<close> number
    of milliseconds: what the source's \<open>new Date(x).getTime()\<close> computes. Malformed
    dates are not modelled.
  \<^item> A JavaScript \<open>Map\<close> is an association list in insertion order. \<open>m.set(k, v)\<close>
    is \<open>AList.update k v m\<close>, which overwrites in place or appends; \<open>m.get(k)\<close>
    is \<open>map_of m k\<close>; \<open>m.delete(k)\<close> is \<open>AList.delete k m\<close>.
  \<^item> \<open>xs.sort((a, b) => f(a) - f(b))\<close> is stable, as \<open>sort_key f xs\<close> is.
\<close>

type_synonym instant = int
type_synonym ('k, 'v) jsmap = "('k \<times> 'v) list"
type_synonym dims = "(string \<times> string) list"

named_theorems gp_bool \<open>definitions of the Boolean predicates the components state\<close>
named_theorems gp_inv \<open>preservation lemmas of the invariants\<close>

section \<open>JavaScript maps\<close>

lemma distinct_keys_update [gp_inv]:
  "distinct (map fst m) \<Longrightarrow> distinct (map fst (AList.update k v m))"
  by (rule distinct_update)

lemma set_update_distinct:
  "distinct (map fst m) \<Longrightarrow>
   set (AList.update k v m) = insert (k, v) {e \<in> set m. fst e \<noteq> k}"
  by (induction m) (auto simp: rev_image_eqI)

lemma length_update_le: "length (AList.update k v m) \<le> Suc (length m)"
  by (induction m) auto

section \<open>Stable sorting\<close>

lemma sort_key_filter_commute:
  "filter P (sort_key f xs) = sort_key f (filter P xs)"
  by (rule filter_sort)

lemma length_sort_key [simp]: "length (sort_key f xs) = length xs"
  by (rule length_sort)

lemma sort_key_desc_head:
  fixes f :: "'a \<Rightarrow> int"
  assumes "sort_key (\<lambda>x. - f x) xs = y # ys"
  shows "y \<in> set xs" and "x \<in> set xs \<Longrightarrow> f x \<le> f y"
proof -
  have s: "sorted (map (\<lambda>x. - f x) (y # ys))" by (simp flip: assms)
  have e: "set (y # ys) = set xs" by (simp flip: assms)
  from e show "y \<in> set xs" by auto
  assume "x \<in> set xs"
  with e have "x = y \<or> x \<in> set ys" by auto
  with s show "f x \<le> f y" by auto
qed

section \<open>Grouping\<close>

text \<open>
  The bucketing loop the code writes wherever it groups:
  \<open>const bucket = map.get(k); if (bucket) bucket.push(item); else map.set(k, [item])\<close>.
\<close>

definition push_bucket :: "('a \<Rightarrow> 'k) \<Rightarrow> 'a \<Rightarrow> ('k, 'a list) jsmap \<Rightarrow> ('k, 'a list) jsmap" where
  "push_bucket key x m =
     (let k = key x in
      case map_of m k of
        Some bucket \<Rightarrow> AList.update k (bucket @ [x]) m
      | None \<Rightarrow> AList.update k [x] m)"

definition groupBy :: "('a \<Rightarrow> 'k) \<Rightarrow> 'a list \<Rightarrow> ('k, 'a list) jsmap" where
  "groupBy key xs = fold (push_bucket key) xs []"

lemma push_bucket_keys:
  "map fst (push_bucket key x m) =
     (if key x \<in> set (map fst m) then map fst m else map fst m @ [key x])"
  by (simp add: push_bucket_def Let_def update_keys split: option.split)

lemma push_bucket_distinct [gp_inv]:
  "distinct (map fst m) \<Longrightarrow> distinct (map fst (push_bucket key x m))"
  by (simp add: push_bucket_keys)

lemma map_of_push_bucket:
  "map_of (push_bucket key x m) k =
     (if k = key x then Some ((case map_of m k of None \<Rightarrow> [] | Some b \<Rightarrow> b) @ [x])
      else map_of m k)"
  by (simp add: push_bucket_def Let_def update_conv' split: option.split)

lemma fold_push_bucket:
  "map_of (fold (push_bucket key) xs m) k =
     (if filter (\<lambda>x. key x = k) xs = [] then map_of m k
      else Some ((case map_of m k of None \<Rightarrow> [] | Some b \<Rightarrow> b) @ filter (\<lambda>x. key x = k) xs))"
proof (induction xs arbitrary: m)
  case Nil
  then show ?case by simp
next
  case (Cons x xs)
  show ?case
    by (simp add: Cons.IH map_of_push_bucket split: option.split)
qed

lemma fold_push_bucket_distinct:
  "distinct (map fst m) \<Longrightarrow> distinct (map fst (fold (push_bucket key) xs m))"
  by (induction xs arbitrary: m) (simp_all add: push_bucket_distinct)

text \<open>What grouping promises: one bucket per key that occurs, holding the items in order.\<close>

lemma map_of_groupBy:
  "map_of (groupBy key xs) k =
     (if filter (\<lambda>x. key x = k) xs = [] then None else Some (filter (\<lambda>x. key x = k) xs))"
  by (simp add: groupBy_def fold_push_bucket)

lemma groupBy_distinct [simp, gp_inv]: "distinct (map fst (groupBy key xs))"
  by (simp add: groupBy_def fold_push_bucket_distinct)

lemma groupBy_entry:
  assumes "(k, items) \<in> set (groupBy key xs)"
  shows "items = filter (\<lambda>x. key x = k) xs" and "items \<noteq> []"
proof -
  from assms have "map_of (groupBy key xs) k = Some items"
    by simp
  then show "items = filter (\<lambda>x. key x = k) xs" and "items \<noteq> []"
    by (auto simp: map_of_groupBy split: if_splits)
qed

lemma groupBy_keys: "fst ` set (groupBy key xs) = key ` set xs"
proof -
  have "k \<in> fst ` set (groupBy key xs) \<longleftrightarrow> k \<in> key ` set xs" for k
  proof -
    have "k \<in> fst ` set (groupBy key xs) \<longleftrightarrow> map_of (groupBy key xs) k \<noteq> None"
      by (auto simp: map_of_eq_None_iff)
    also have "\<dots> \<longleftrightarrow> k \<in> key ` set xs"
      by (auto simp: map_of_groupBy filter_empty_conv)
    finally show ?thesis .
  qed
  then show ?thesis by blast
qed

lemma groupBy_Nil [simp]: "groupBy key [] = []"
  by (simp add: groupBy_def)

lemma groupBy_bucket_member:
  "x \<in> set xs \<Longrightarrow> (key x, filter (\<lambda>y. key y = key x) xs) \<in> set (groupBy key xs)"
proof -
  assume "x \<in> set xs"
  then have "filter (\<lambda>y. key y = key x) xs \<noteq> []"
    by (auto simp: filter_empty_conv)
  then have "map_of (groupBy key xs) (key x) = Some (filter (\<lambda>y. key y = key x) xs)"
    by (simp add: map_of_groupBy)
  then show ?thesis by (rule map_of_SomeD)
qed

lemma push_bucket_mset:
  "distinct (map fst m) \<Longrightarrow>
   mset (concat (map snd (push_bucket key x m))) = add_mset x (mset (concat (map snd m)))"
proof (induction m)
  case Nil
  then show ?case by (simp add: push_bucket_def)
next
  case (Cons e m)
  obtain k b where e: "e = (k, b)" by (cases e)
  show ?case
  proof (cases "key x = k")
    case True
    with e show ?thesis by (simp add: push_bucket_def)
  next
    case False
    then have "push_bucket key x (e # m) = e # push_bucket key x m"
      using e by (auto simp: push_bucket_def Let_def split: option.split)
    with Cons show ?thesis by simp
  qed
qed

text \<open>Grouping neither loses nor duplicates an item.\<close>

lemma groupBy_mset: "mset (concat (map snd (groupBy key xs))) = mset xs"
proof -
  have "distinct (map fst m) \<Longrightarrow>
      mset (concat (map snd (fold (push_bucket key) xs m))) =
      mset xs + mset (concat (map snd m))" for m
    by (induction xs arbitrary: m) (simp_all add: push_bucket_distinct push_bucket_mset)
  from this [of "[]"] show ?thesis by (simp add: groupBy_def)
qed

lemma groupBy_sum_lengths: "sum_list (map (length \<circ> snd) (groupBy key xs)) = length xs"
proof -
  have "length (concat (map snd (groupBy key xs))) = length xs"
    by (metis groupBy_mset size_mset)
  then show ?thesis by (simp add: length_concat comp_def)
qed

text \<open>A quantity summed group by group is the quantity summed over the items.\<close>

lemma groupBy_sum:
  fixes h :: "'a \<Rightarrow> 'b :: comm_monoid_add"
  shows "sum_list (map (\<lambda>e. sum_list (map h (snd e))) (groupBy key xs)) = sum_list (map h xs)"
proof -
  have "sum_list (map (\<lambda>e. sum_list (map h (snd e))) m) = sum_list (map h (concat (map snd m)))"
    for m :: "('k \<times> 'a list) list" by (induction m) simp_all
  also have "sum_list (map h (concat (map snd (groupBy key xs)))) =
      sum_mset (image_mset h (mset (concat (map snd (groupBy key xs)))))"
    by (metis mset_map sum_mset_sum_list)
  also have "\<dots> = sum_list (map h xs)"
    unfolding groupBy_mset by (metis mset_map sum_mset_sum_list)
  finally show ?thesis .
qed

lemma length_filter_sum: "length (filter P xs) = sum_list (map (\<lambda>x. if P x then 1 else 0) xs)"
  by (induction xs) simp_all

lemma sum_length_filter_keys:
  assumes "distinct ks"
  shows "sum_list (map (\<lambda>k. length (filter (\<lambda>x. f x = k) xs)) ks) =
    length (filter (\<lambda>x. f x \<in> set ks) xs)"
  using assms
proof (induction ks)
  case (Cons k ks)
  have "length (filter (\<lambda>x. f x \<in> set (k # ks)) xs) =
      length (filter (\<lambda>x. f x = k) xs) + length (filter (\<lambda>x. f x \<in> set ks) xs)"
    using Cons.prems by (induction xs) auto
  with Cons show ?case by simp
qed simp

section \<open>Options\<close>

text \<open>JavaScript's nullish \<open>a ?? b\<close> on an optional pair.\<close>

definition orElse :: "'a option \<Rightarrow> 'a option \<Rightarrow> 'a option" where
  "orElse a b = (case a of Some x \<Rightarrow> Some x | None \<Rightarrow> b)"

lemma orElse_simps [simp]:
  "orElse (Some x) b = Some x" "orElse None b = b" "orElse a None = a"
  by (simp_all add: orElse_def split: option.split)

lemma orElse_assoc: "orElse (orElse a b) c = orElse a (orElse b c)"
  by (simp add: orElse_def split: option.split)

lemma orElse_Some_iff: "orElse a b = Some y \<longleftrightarrow> a = Some y \<or> (a = None \<and> b = Some y)"
  by (auto simp: orElse_def split: option.split)

lemma orElse_eq_None: "orElse a b = None \<longleftrightarrow> a = None \<and> b = None"
  by (auto simp: orElse_def split: option.split)

section \<open>Numbers in strings\<close>

text \<open>What a template literal prints for a whole number.\<close>

definition digit :: "nat \<Rightarrow> char" where
  "digit d = char_of (48 + d)"

fun showNat :: "nat \<Rightarrow> string" where
  "showNat n = (if n < 10 then [digit n] else showNat (n div 10) @ [digit (n mod 10)])"

declare showNat.simps [simp del]

definition showInt :: "int \<Rightarrow> string" where
  "showInt i = (if i < 0 then CHR ''-'' # showNat (nat (- i)) else showNat (nat i))"

definition readNat :: "string \<Rightarrow> nat" where
  "readNat s = foldl (\<lambda>n c. 10 * n + (of_char c - 48)) 0 s"

lemma of_char_digit: "d < 10 \<Longrightarrow> (of_char (digit d) :: nat) = 48 + d"
  by (simp add: digit_def of_char_of)

lemma readNat_showNat [simp]: "readNat (showNat n) = n"
proof (induction n rule: showNat.induct)
  case (1 n)
  show ?case
  proof (cases "n < 10")
    case True
    then show ?thesis by (simp add: showNat.simps [of n] readNat_def of_char_digit)
  next
    case False
    have "readNat (showNat (n div 10) @ [digit (n mod 10)]) = 10 * readNat (showNat (n div 10)) + n mod 10"
      by (simp add: readNat_def of_char_digit)
    with False 1 show ?thesis by (simp add: showNat.simps [of n])
  qed
qed

lemma showNat_inject [simp]: "showNat m = showNat n \<longleftrightarrow> m = n"
  by (metis readNat_showNat)

lemma showNat_digits: "c \<in> set (showNat n) \<Longrightarrow> \<exists>d < 10. c = digit d"
proof (induction n rule: showNat.induct)
  case (1 n)
  then show ?case
    by (cases "n < 10") (auto simp: showNat.simps [of n] intro: exI [of _ "n mod 10"])
qed

lemma showNat_no_minus: "CHR ''-'' \<notin> set (showNat n)"
  and showNat_no_colon: "CHR '':'' \<notin> set (showNat n)"
proof -
  have "(of_char c :: nat) \<ge> 48 \<and> (of_char c :: nat) \<le> 57" if "c \<in> set (showNat n)" for c
    using showNat_digits [OF that] by (auto simp: of_char_digit)
  from this [of "CHR ''-''"] this [of "CHR '':''"]
  show "CHR ''-'' \<notin> set (showNat n)" and "CHR '':'' \<notin> set (showNat n)" by auto
qed

lemma showInt_inject [simp]: "showInt i = showInt j \<longleftrightarrow> i = j"
proof -
  have no: "showNat n \<noteq> CHR ''-'' # s" for n s
    using showNat_no_minus [of n] by force
  show ?thesis
    using no by (auto simp: showInt_def) (metis no)+
qed

definition readInt :: "string \<Rightarrow> int" where
  "readInt s = (case s of c # r \<Rightarrow> if c = CHR ''-'' then - int (readNat r) else int (readNat s) | [] \<Rightarrow> 0)"

lemma showNat_ne [simp]: "showNat n \<noteq> []"
  by (simp add: showNat.simps [of n])

lemma showInt_ne: "showInt i \<noteq> []"
  by (simp add: showInt_def)

lemma readInt_showInt [simp]: "readInt (showInt i) = i"
proof (cases "i < 0")
  case False
  obtain c r where s: "showNat (nat i) = c # r" by (cases "showNat (nat i)") auto
  with showNat_no_minus [of "nat i"] have "c \<noteq> CHR ''-''" by auto
  with False s show ?thesis using readNat_showNat [of "nat i"] by (simp add: readInt_def showInt_def)
qed (simp add: readInt_def showInt_def)

lemma colon_not_in_showInt: "CHR '':'' \<notin> set (showInt i)"
  by (simp add: showInt_def showNat_no_colon)

text \<open>Identifiers spelled \<open>prefix:repo:number\<close> name their parts uniquely.\<close>

text \<open>A name that does not contain the separator is read back from a joined key.\<close>

lemma separated_inject:
  "c \<notin> set a \<Longrightarrow> c \<notin> set b \<Longrightarrow> a @ c # x = b @ c # y \<longleftrightarrow> a = b \<and> x = y"
proof (induction a arbitrary: b)
  case Nil
  then show ?case by (cases b) auto
next
  case (Cons d a)
  then show ?case by (cases b) auto
qed

lemma id_spelling_inject:
  "a @ '':'' @ showInt i = b @ '':'' @ showInt j \<longleftrightarrow> a = b \<and> i = j"
proof
  assume eq: "a @ '':'' @ showInt i = b @ '':'' @ showInt j"
  have last_colon: "rev (takeWhile (\<lambda>c. c \<noteq> CHR '':'') (rev (p @ '':'' @ showInt n))) = showInt n"
    for p n using colon_not_in_showInt [of n] by (auto simp: takeWhile_append takeWhile_eq_all_conv)
  from last_colon [of a i] last_colon [of b j] eq have "showInt i = showInt j" by metis
  with eq show "a = b \<and> i = j" by simp
qed simp

section \<open>Runs\<close>

text \<open>
  A component answering requests one after the other: what every allowed request keeps, every run
  of allowed requests keeps.
\<close>

locale run_invariant =
  fixes step :: "'req \<Rightarrow> 'st \<Rightarrow> 'st"
    and allowed :: "'req \<Rightarrow> bool"
    and kept :: "'st \<Rightarrow> bool"
  assumes step_kept: "allowed r \<Longrightarrow> kept s \<Longrightarrow> kept (step r s)"
begin

lemma run_kept: "list_all allowed rs \<Longrightarrow> kept s \<Longrightarrow> kept (fold step rs s)"
  by (induction rs arbitrary: s) (simp_all add: step_kept)

end

end
