(* ===== verification/Shared_Types.thy ===== *)
theory Shared_Types
  imports Prelude
begin

text \<open>
  The vocabulary of \<open>packages/shared/src/index.ts\<close> and of the connector interface
  (\<open>back/src/sources/connectors/source-connector.interface.ts\<close>) that several components
  speak: pipeline statuses, pull-request states, ticket references, and the shapes a
  connector or a webhook hands over. Dates travel as ISO strings there; here they are the
  instants those strings name.
\<close>

datatype PipelineStatus = Success | Failed | Running | Pending | Canceled | Skipped | Unknown

datatype PullRequestState = Open | Merged | Closed | Draft

datatype TrackerKind = Jira | Linear | GithubTracker | GitlabTracker

datatype TicketSource = Branch | Title | Body | Commit

record TicketRefTracker =
  trk_id :: string
  trk_name :: string
  trk_kind :: TrackerKind

record TicketRef =
  tk_key :: string
  tk_url :: "string option"
  tk_foundIn :: TicketSource
  tk_tracker :: TicketRefTracker

text \<open>A pull request as a connector or an event reports it.\<close>

record SourcePullRequest =
  spr_id :: string
  spr_number :: int
  spr_title :: string
  spr_state :: PullRequestState
  spr_author :: string
  spr_repo :: string
  spr_repoUrl :: string
  spr_url :: string
  spr_headRef :: string
  spr_createdAt :: instant
  spr_updatedAt :: instant
  spr_mergedAt :: "instant option"
  spr_reviewers :: int
  spr_ageHours :: rat
  spr_tickets :: "TicketRef list"
  spr_body :: string
  spr_labels :: "string list"

text \<open>A merged pull request as the merged listing reports it.\<close>

record SourceMergedPullRequest =
  smr_id :: string
  smr_repo :: string
  smr_number :: int
  smr_title :: string
  smr_url :: string
  smr_headRef :: string
  smr_openedAt :: instant
  smr_firstCommitAt :: "instant option"
  smr_firstReviewAt :: "instant option"
  smr_mergedAt :: instant
  smr_labels :: "string list"
  smr_body :: string

record Pipeline =
  pl_id :: string
  pl_repo :: string
  pl_repoUrl :: string
  pl_ref :: string
  pl_status :: PipelineStatus
  pl_url :: string
  pl_createdAt :: instant
  pl_updatedAt :: instant
  pl_durationSec :: "int option"

record Deployment =
  dp_id :: string
  dp_repo :: string
  dp_environment :: string
  dp_ref :: string
  dp_status :: PipelineStatus
  dp_createdAt :: instant
  dp_environmentUrl :: "string option"
  dp_url :: "string option"

text \<open>
  \<open>ageHours\<close> of \<open>scope.util.ts\<close>, with the clock as an argument: hours to one decimal,
  rounded half up as \<open>Math.round\<close> does, never negative.
\<close>

definition ageHours :: "instant \<Rightarrow> instant \<Rightarrow> rat" where
  "ageHours now createdAt =
     (let ms = now - createdAt in
      max 0 (of_int \<lfloor>of_int ms / 3600000 * 10 + 1 / 2 :: rat\<rfloor> / 10))"

end
