(* ===== verification/Merge.thy ===== *)
theory Merge
  imports Shared_Types
begin

text \<open>
  \<open>back/src/ingest/merge.ts\<close>: how an incoming reading merges into the stored row. Two feeds
  (the open and the merged listing) and two transports (synchronisation and webhooks) write
  the same rows, so these functions decide which value wins.

  The lemmas show that a status never becomes less settled, that a recorded merge and the
  lead-time segments are never lost, that a row never goes back in time, and that the row
  invariant \<open>pr_row_ok\<close> (a merge date excludes an open state) is established by every merge.
\<close>

section \<open>Rows\<close>

record PullRequestRow =
  pr_repo :: string
  pr_number :: int
  pr_title :: string
  pr_body :: "string option"
  pr_state :: PullRequestState
  pr_author :: "string option"
  pr_url :: string
  pr_repoUrl :: "string option"
  pr_headRef :: string
  pr_openedAt :: instant
  pr_updatedAt :: instant
  pr_mergedAt :: "instant option"
  pr_reviewers :: int
  pr_firstCommitAt :: "instant option"
  pr_firstReviewAt :: "instant option"
  pr_labels :: "string list"
  pr_seenAt :: instant

record PipelineRow =
  plr_repo :: string
  plr_externalId :: string
  plr_repoUrl :: "string option"
  plr_ref :: string
  plr_status :: PipelineStatus
  plr_url :: string
  plr_createdAt :: instant
  plr_updatedAt :: instant
  plr_durationSec :: "int option"
  plr_seenAt :: instant

record DeploymentRow =
  dpr_repo :: string
  dpr_externalId :: string
  dpr_environment :: string
  dpr_ref :: string
  dpr_status :: PipelineStatus
  dpr_environmentUrl :: "string option"
  dpr_url :: "string option"
  dpr_createdAt :: instant
  dpr_seenAt :: instant

section \<open>Statuses\<close>

fun STATUS_RANK :: "PipelineStatus \<Rightarrow> nat" where
  "STATUS_RANK Unknown = 0"
| "STATUS_RANK Pending = 1"
| "STATUS_RANK Running = 2"
| "STATUS_RANK Success = 3"
| "STATUS_RANK Failed = 3"
| "STATUS_RANK Canceled = 3"
| "STATUS_RANK Skipped = 3"

definition laterStatus :: "PipelineStatus option \<Rightarrow> PipelineStatus \<Rightarrow> PipelineStatus" where
  "laterStatus stored incoming =
     (case stored of
        None \<Rightarrow> incoming
      | Some s \<Rightarrow> if STATUS_RANK incoming \<ge> STATUS_RANK s then incoming else s)"

definition settledState :: "PullRequestState \<Rightarrow> instant option \<Rightarrow> PullRequestState" where
  "settledState state mergedAt =
     (if mergedAt \<noteq> None \<and> (state = Open \<or> state = Draft) then Merged else state)"

section \<open>Merging\<close>

definition mergeOpenPullRequest ::
  "PullRequestRow option \<Rightarrow> SourcePullRequest \<Rightarrow> instant \<Rightarrow> PullRequestRow option" where
  "mergeOpenPullRequest stored incoming seenAt =
     (let updatedAt = spr_updatedAt incoming in
      if (case stored of Some s \<Rightarrow> pr_updatedAt s > updatedAt | None \<Rightarrow> False) then None
      else
        let mergedAt = (case spr_mergedAt incoming of
                          Some m \<Rightarrow> Some m
                        | None \<Rightarrow> Option.bind stored pr_mergedAt)
        in Some \<lparr>
          pr_repo = spr_repo incoming,
          pr_number = spr_number incoming,
          pr_title = spr_title incoming,
          pr_body = Some (spr_body incoming),
          pr_state = settledState (spr_state incoming) mergedAt,
          pr_author = Some (spr_author incoming),
          pr_url = spr_url incoming,
          pr_repoUrl = Some (spr_repoUrl incoming),
          pr_headRef = spr_headRef incoming,
          pr_openedAt = spr_createdAt incoming,
          pr_updatedAt = updatedAt,
          pr_mergedAt = mergedAt,
          pr_reviewers = spr_reviewers incoming,
          pr_firstCommitAt = Option.bind stored pr_firstCommitAt,
          pr_firstReviewAt = Option.bind stored pr_firstReviewAt,
          pr_labels = spr_labels incoming,
          pr_seenAt = seenAt \<rparr>)"

definition mergeMergedPullRequest ::
  "PullRequestRow option \<Rightarrow> SourceMergedPullRequest \<Rightarrow> instant \<Rightarrow> PullRequestRow" where
  "mergeMergedPullRequest stored incoming seenAt =
     (let mergedAt = smr_mergedAt incoming;
          updatedAt = (case stored of
                         Some s \<Rightarrow> if pr_updatedAt s > mergedAt then pr_updatedAt s else mergedAt
                       | None \<Rightarrow> mergedAt)
      in \<lparr>
        pr_repo = smr_repo incoming,
        pr_number = smr_number incoming,
        pr_title = smr_title incoming,
        pr_body = Some (smr_body incoming),
        pr_state = Merged,
        pr_author = Option.bind stored pr_author,
        pr_url = smr_url incoming,
        pr_repoUrl = Option.bind stored pr_repoUrl,
        pr_headRef = smr_headRef incoming,
        pr_openedAt = smr_openedAt incoming,
        pr_updatedAt = updatedAt,
        pr_mergedAt = Some mergedAt,
        pr_reviewers = (case stored of Some s \<Rightarrow> pr_reviewers s | None \<Rightarrow> 0),
        pr_firstCommitAt =
          orElse (smr_firstCommitAt incoming) (Option.bind stored pr_firstCommitAt),
        pr_firstReviewAt =
          orElse (smr_firstReviewAt incoming) (Option.bind stored pr_firstReviewAt),
        pr_labels = smr_labels incoming,
        pr_seenAt = seenAt \<rparr>)"

definition mergePipeline ::
  "PipelineRow option \<Rightarrow> Pipeline \<Rightarrow> instant \<Rightarrow> PipelineRow option" where
  "mergePipeline stored incoming seenAt =
     (let updatedAt = pl_updatedAt incoming in
      if (case stored of Some s \<Rightarrow> plr_updatedAt s > updatedAt | None \<Rightarrow> False) then None
      else Some \<lparr>
        plr_repo = pl_repo incoming,
        plr_externalId = pl_id incoming,
        plr_repoUrl = Some (pl_repoUrl incoming),
        plr_ref = pl_ref incoming,
        plr_status = laterStatus (map_option plr_status stored) (pl_status incoming),
        plr_url = pl_url incoming,
        plr_createdAt = pl_createdAt incoming,
        plr_updatedAt = updatedAt,
        plr_durationSec = orElse (pl_durationSec incoming) (Option.bind stored plr_durationSec),
        plr_seenAt = seenAt \<rparr>)"

definition mergeDeployment ::
  "DeploymentRow option \<Rightarrow> Deployment \<Rightarrow> instant \<Rightarrow> DeploymentRow" where
  "mergeDeployment stored incoming seenAt = \<lparr>
     dpr_repo = dp_repo incoming,
     dpr_externalId = dp_id incoming,
     dpr_environment = dp_environment incoming,
     dpr_ref = dp_ref incoming,
     dpr_status = laterStatus (map_option dpr_status stored) (dp_status incoming),
     dpr_environmentUrl =
       orElse (dp_environmentUrl incoming) (Option.bind stored dpr_environmentUrl),
     dpr_url = orElse (dp_url incoming) (Option.bind stored dpr_url),
     dpr_createdAt = dp_createdAt incoming,
     dpr_seenAt = seenAt \<rparr>"

section \<open>Statuses only settle\<close>

lemma laterStatus_None [simp]: "laterStatus None i = i"
  by (simp add: laterStatus_def)

lemma laterStatus_rank:
  "STATUS_RANK (laterStatus (Some s) i) = max (STATUS_RANK s) (STATUS_RANK i)"
  by (simp add: laterStatus_def)

lemma laterStatus_cases: "laterStatus (Some s) i = s \<or> laterStatus (Some s) i = i"
  by (simp add: laterStatus_def)

text \<open>A run of readings folded into a stored status, as a feed delivers them one by one.\<close>

definition settle :: "PipelineStatus option \<Rightarrow> PipelineStatus list \<Rightarrow> PipelineStatus option" where
  "settle stored readings = fold (\<lambda>i s. Some (laterStatus s i)) readings stored"

lemma settle_Nil [simp]: "settle s [] = s"
  and settle_Cons [simp]: "settle s (i # is) = settle (Some (laterStatus s i)) is"
  by (simp_all add: settle_def)

lemma settle_rank:
  "settle (Some s) is = Some r \<Longrightarrow>
   STATUS_RANK r = Max (set (STATUS_RANK s # map STATUS_RANK is))"
proof (induction "is" arbitrary: s)
  case Nil
  then show ?case by simp
next
  case (Cons i "is")
  then have "STATUS_RANK r =
      Max (set (STATUS_RANK (laterStatus (Some s) i) # map STATUS_RANK is))"
    by simp
  also have "\<dots> = Max (set (STATUS_RANK s # map STATUS_RANK (i # is)))"
    by (cases "is = []") (simp_all add: laterStatus_rank max.assoc)
  finally show ?case .
qed

lemma settle_Some: "\<exists>r. settle (Some s) is = Some r"
  by (induction "is" arbitrary: s) auto

text \<open>Whatever order the readings of one run arrive in, and whatever was stored, the status
  that is kept is one of those seen and is as settled as the most settled of them: a reading
  that knows less never overwrites one that knows more.\<close>

theorem status_settles_to_most_settled:
  assumes "settle (Some s) readings = Some r"
  shows "r \<in> set (s # readings) \<and>
         (\<forall>q \<in> set (s # readings). STATUS_RANK q \<le> STATUS_RANK r)"
proof
  show "r \<in> set (s # readings)"
    using assms
  proof (induction readings arbitrary: s)
    case Nil
    then show ?case by simp
  next
    case (Cons i readings)
    then have "r \<in> set (laterStatus (Some s) i # readings)" by simp
    with laterStatus_cases [of s i] show ?case by auto
  qed
  show "\<forall>q \<in> set (s # readings). STATUS_RANK q \<le> STATUS_RANK r"
    unfolding settle_rank [OF assms] by (auto intro!: Max_ge)
qed

theorem status_settles_to_most_settled_witness:
  "settle (Some Pending) [Running, Success, Pending, Unknown] = Some Success \<and>
   Success \<in> set [Pending, Running, Success, Pending, Unknown] \<and>
   list_all (\<lambda>q. STATUS_RANK q \<le> STATUS_RANK Success) [Pending, Running, Success, Pending, Unknown]"
proof -
  have h: "settle (Some Pending) [Running, Success, Pending, Unknown] = Some Success"
    by (simp add: laterStatus_def)
  show ?thesis using h status_settles_to_most_settled [OF h] unfolding list_all_iff by blast
qed

section \<open>Pull requests\<close>

text \<open>The row invariant: a known merge date excludes a state that is still on the board.\<close>

definition pr_row_ok :: "PullRequestRow \<Rightarrow> bool" where
  [gp_bool]: "pr_row_ok r \<longleftrightarrow> (pr_mergedAt r \<noteq> None \<longrightarrow> pr_state r \<noteq> Open \<and> pr_state r \<noteq> Draft)"

lemma mergeOpen_stale:
  "mergeOpenPullRequest (Some s) i t = None \<longleftrightarrow> spr_updatedAt i < pr_updatedAt s"
  by (auto simp: mergeOpenPullRequest_def Let_def)

lemma mergeOpen_fresh: "mergeOpenPullRequest None i t \<noteq> None"
  by (simp add: mergeOpenPullRequest_def Let_def)

lemma mergeOpen_ok [gp_inv]: "mergeOpenPullRequest stored i t = Some r \<Longrightarrow> pr_row_ok r"
  by (auto simp: mergeOpenPullRequest_def Let_def settledState_def gp_bool split: if_splits)

lemma mergeMerged_ok [gp_inv]: "pr_row_ok (mergeMergedPullRequest stored i t)"
  by (simp add: mergeMergedPullRequest_def Let_def gp_bool)

lemma mergeOpen_updatedAt:
  "mergeOpenPullRequest stored i t = Some r \<Longrightarrow> pr_updatedAt r = spr_updatedAt i"
  by (auto simp: mergeOpenPullRequest_def Let_def split: if_splits)

lemma mergeOpen_seenAt:
  "mergeOpenPullRequest stored i t = Some r \<Longrightarrow> pr_seenAt r = t"
  by (auto simp: mergeOpenPullRequest_def Let_def split: if_splits)

lemma mergeMerged_fields [simp]:
  "pr_seenAt (mergeMergedPullRequest stored i t) = t"
  "pr_state (mergeMergedPullRequest stored i t) = Merged"
  "pr_mergedAt (mergeMergedPullRequest stored i t) = Some (smr_mergedAt i)"
  "pr_repo (mergeMergedPullRequest stored i t) = smr_repo i"
  by (simp_all add: mergeMergedPullRequest_def Let_def)

lemma mergeOpen_monotone:
  "mergeOpenPullRequest (Some s) i t = Some r \<Longrightarrow> pr_updatedAt s \<le> pr_updatedAt r"
  by (auto simp: mergeOpenPullRequest_def Let_def split: if_splits)

lemma mergeMerged_monotone:
  "pr_updatedAt s \<le> pr_updatedAt (mergeMergedPullRequest (Some s) i t)"
  by (simp add: mergeMergedPullRequest_def Let_def)

text \<open>
  One reading from either feed, applied to a stored row. \<open>None\<close> from the open feed leaves the
  row as it was.
\<close>

datatype Reading = OpenFeed SourcePullRequest instant | MergedFeed SourceMergedPullRequest instant

fun apply_reading :: "PullRequestRow option \<Rightarrow> Reading \<Rightarrow> PullRequestRow option" where
  "apply_reading stored (OpenFeed i t) =
     (case mergeOpenPullRequest stored i t of Some r \<Rightarrow> Some r | None \<Rightarrow> stored)"
| "apply_reading stored (MergedFeed i t) = Some (mergeMergedPullRequest stored i t)"

definition apply_readings :: "PullRequestRow option \<Rightarrow> Reading list \<Rightarrow> PullRequestRow option" where
  "apply_readings stored rs = fold (\<lambda>r s. apply_reading s r) rs stored"

lemma apply_readings_simps [simp]:
  "apply_readings s [] = s"
  "apply_readings s (r # rs) = apply_readings (apply_reading s r) rs"
  by (simp_all add: apply_readings_def)

text \<open>What no reading can undo, as a relation between a row and a later one.\<close>

definition preserves_facts :: "PullRequestRow \<Rightarrow> PullRequestRow \<Rightarrow> bool" where
  [gp_bool]: "preserves_facts s r \<longleftrightarrow>
     pr_updatedAt s \<le> pr_updatedAt r \<and>
     (pr_mergedAt s \<noteq> None \<longrightarrow> pr_mergedAt r \<noteq> None) \<and>
     (pr_firstCommitAt s \<noteq> None \<longrightarrow> pr_firstCommitAt r \<noteq> None) \<and>
     (pr_firstReviewAt s \<noteq> None \<longrightarrow> pr_firstReviewAt r \<noteq> None)"

lemma preserves_facts_refl [simp]: "preserves_facts s s"
  by (simp add: gp_bool)

lemma preserves_facts_trans: "preserves_facts a b \<Longrightarrow> preserves_facts b c \<Longrightarrow> preserves_facts a c"
  by (auto simp: gp_bool)

lemma apply_reading_preserves:
  assumes "pr_row_ok s"
  shows "\<exists>r. apply_reading (Some s) x = Some r \<and> preserves_facts s r \<and> pr_row_ok r"
proof (cases x)
  case (OpenFeed i t)
  show ?thesis
  proof (cases "mergeOpenPullRequest (Some s) i t")
    case None
    with OpenFeed assms show ?thesis by simp
  next
    case (Some r)
    then have "preserves_facts s r"
      by (auto simp: mergeOpenPullRequest_def Let_def gp_bool split: if_splits option.splits)
    with OpenFeed Some show ?thesis by (simp add: mergeOpen_ok)
  qed
next
  case (MergedFeed i t)
  have "preserves_facts s (mergeMergedPullRequest (Some s) i t)"
    by (auto simp: mergeMergedPullRequest_def Let_def gp_bool orElse_def split: option.splits)
  with MergedFeed show ?thesis by (simp add: mergeMerged_ok)
qed

text \<open>C1. However the two feeds interleave, a stored pull request only ever gains: its update date
  never goes back, a recorded merge and the lead-time dates are never lost, and a row that
  carries a merge date is never on the board.\<close>

theorem feeds_never_lose_facts:
  assumes "pr_row_ok s"
  shows "\<exists>r. apply_readings (Some s) rs = Some r \<and> preserves_facts s r \<and> pr_row_ok r"
  using assms
proof (induction rs arbitrary: s)
  case Nil
  then show ?case by simp
next
  case (Cons x rs)
  from apply_reading_preserves [OF Cons.prems, of x] obtain u where
    u: "apply_reading (Some s) x = Some u" "preserves_facts s u" "pr_row_ok u" by blast
  from Cons.IH [OF u(3)] obtain r where
    "apply_readings (Some u) rs = Some r" "preserves_facts u r" "pr_row_ok r" by blast
  with u show ?case by (auto intro: preserves_facts_trans)
qed

theorem feeds_never_lose_facts_witness:
  "\<exists>s i m. pr_row_ok s \<and>
     (\<exists>r. apply_readings (Some s) [MergedFeed m 30, OpenFeed i 40] = Some r \<and>
          preserves_facts s r \<and> pr_row_ok r)"
proof -
  let ?s = "\<lparr>pr_repo = ''api'', pr_number = 7, pr_title = ''t'', pr_body = None, pr_state = Open,
    pr_author = None, pr_url = [], pr_repoUrl = None, pr_headRef = ''b'', pr_openedAt = 1,
    pr_updatedAt = 10, pr_mergedAt = None, pr_reviewers = 0, pr_firstCommitAt = None,
    pr_firstReviewAt = None, pr_labels = [], pr_seenAt = 11\<rparr>"
  have h: "pr_row_ok ?s" by (simp add: gp_bool)
  show ?thesis using h feeds_never_lose_facts [OF h] by blast
qed

section \<open>Pipelines and deployments\<close>

lemma mergePipeline_stale:
  "mergePipeline (Some s) i t = None \<longleftrightarrow> pl_updatedAt i < plr_updatedAt s"
  by (auto simp: mergePipeline_def Let_def)

lemma mergePipeline_monotone:
  assumes "mergePipeline (Some s) i t = Some r"
  shows "plr_updatedAt s \<le> plr_updatedAt r"
    and "STATUS_RANK (plr_status s) \<le> STATUS_RANK (plr_status r)"
    and "plr_durationSec s \<noteq> None \<Longrightarrow> plr_durationSec r \<noteq> None"
  using assms
  by (auto simp: mergePipeline_def Let_def laterStatus_rank orElse_def
      split: if_splits option.splits)

lemma mergePipeline_fields:
  "mergePipeline stored i t = Some r \<Longrightarrow>
     plr_externalId r = pl_id i \<and> plr_repo r = pl_repo i \<and> plr_updatedAt r = pl_updatedAt i"
  by (auto simp: mergePipeline_def Let_def split: if_splits)

lemma mergeDeployment_fields [simp]:
  "dpr_externalId (mergeDeployment stored i t) = dp_id i"
  "dpr_repo (mergeDeployment stored i t) = dp_repo i"
  by (simp_all add: mergeDeployment_def)

lemma mergeDeployment_monotone:
  "STATUS_RANK (dpr_status s) \<le> STATUS_RANK (dpr_status (mergeDeployment (Some s) i t))"
  by (simp add: mergeDeployment_def laterStatus_rank)

text \<open>
  Unlike the settled statuses of one timestamp, two pipeline readings of different dates do
  depend on the order they arrive in: a success of noon followed by a re-run's \<open>running\<close> stays
  a success, where the same two readings the other way round leave it running.
\<close>

lemma pipeline_readings_do_not_commute:
  "\<exists>a b s1 s2 r1.
     mergePipeline None a 9 = Some s1 \<and> mergePipeline (Some s1) b 9 = Some s2 \<and>
     mergePipeline None b 9 = Some r1 \<and> mergePipeline (Some r1) a 9 = None \<and>
     plr_status s2 = Success \<and> plr_status r1 = Running"
proof -
  let ?a = "\<lparr>pl_id = ''gh:api:1'', pl_repo = ''api'', pl_repoUrl = [], pl_ref = ''main'',
    pl_status = Success, pl_url = [], pl_createdAt = 0, pl_updatedAt = 5, pl_durationSec = None\<rparr>"
  let ?b = "?a\<lparr>pl_status := Running, pl_updatedAt := 6\<rparr>"
  show ?thesis
    by (rule exI [of _ ?a], rule exI [of _ ?b]) (simp add: mergePipeline_def laterStatus_def Let_def)
qed

text \<open>A reading delivered twice is a reading delivered once: replaying any of the four merges on
  the row it produced changes nothing, so a redelivered webhook or an overlapping listing is
  harmless.\<close>

theorem redelivery_is_idempotent:
  "apply_reading (apply_reading stored x) x = apply_reading stored x \<and>
   (mergePipeline pstored p t = Some pr \<longrightarrow> mergePipeline (Some pr) p t = Some pr) \<and>
   mergeDeployment (Some (mergeDeployment dstored d t)) d t = mergeDeployment dstored d t"
proof (intro conjI impI)
  show "apply_reading (apply_reading stored x) x = apply_reading stored x"
  proof (cases x)
    case (OpenFeed i t)
    then show ?thesis
      by (cases stored)
        (auto simp: mergeOpenPullRequest_def Let_def split: option.splits if_splits)
  next
    case (MergedFeed i t)
    then show ?thesis
      by (cases stored)
        (auto simp: mergeMergedPullRequest_def Let_def orElse_def split: option.splits)
  qed
  show "mergePipeline (Some pr) p t = Some pr" if "mergePipeline pstored p t = Some pr"
    using that
    by (auto simp: mergePipeline_def Let_def laterStatus_def orElse_def
        split: if_splits option.splits)
  show "mergeDeployment (Some (mergeDeployment dstored d t)) d t = mergeDeployment dstored d t"
    by (auto simp: mergeDeployment_def laterStatus_def orElse_def split: option.splits)
qed

theorem redelivery_is_idempotent_witness:
  "\<exists>p pr. mergePipeline None p 9 = Some pr \<and> mergePipeline (Some pr) p 9 = Some pr"
proof -
  let ?p = "\<lparr>pl_id = ''gh:api:1'', pl_repo = ''api'', pl_repoUrl = [], pl_ref = ''main'',
    pl_status = Success, pl_url = [], pl_createdAt = 0, pl_updatedAt = 5, pl_durationSec = None\<rparr>"
  obtain pr where h: "mergePipeline None ?p 9 = Some pr"
    by (simp add: mergePipeline_def Let_def)
  have "mergePipeline (Some pr) ?p 9 = Some pr"
    using h redelivery_is_idempotent [where pstored = None and p = ?p and t = 9 and pr = pr]
    by blast
  with h show ?thesis by blast
qed

end
