(* ===== verification/Tables.thy ===== *)
theory Tables
  imports Prelude
begin

text \<open>
  A database table as the services use it through Prisma: rows under a unique key, here an
  association list. \<open>updateMany\<close>, \<open>deleteMany\<close> and \<open>findMany\<close> are what their \<open>where\<close>
  clauses say over the rows; \<open>create\<close> fails on a key that is taken, as the unique index does
  (Prisma's code P2002). What a query without an \<open>orderBy\<close> returns is the rows in insertion
  order; ties of an \<open>orderBy\<close> keep it.

  The locale \<open>keyed_store\<close> is the contract of such a table that the guarded writes of
  \<open>store.service.ts\<close> rely on; it is interpreted below on the association lists.
\<close>

type_synonym key = "string \<times> string"
type_synonym 'r table = "(key \<times> 'r) list"

definition unique_keys :: "'r table \<Rightarrow> bool" where
  "unique_keys t \<longleftrightarrow> distinct (map fst t)"

definition updateMany :: "(key \<Rightarrow> 'r \<Rightarrow> bool) \<Rightarrow> ('r \<Rightarrow> 'r) \<Rightarrow> 'r table \<Rightarrow> 'r table \<times> nat" where
  "updateMany P f t =
     (map (\<lambda>(k, r). (k, if P k r then f r else r)) t, length (filter (\<lambda>(k, r). P k r) t))"

definition createRow :: "key \<Rightarrow> 'r \<Rightarrow> 'r table \<Rightarrow> 'r table option" where
  "createRow k r t = (if k \<in> set (map fst t) then None else Some (t @ [(k, r)]))"

definition deleteMany :: "(key \<Rightarrow> 'r \<Rightarrow> bool) \<Rightarrow> 'r table \<Rightarrow> 'r table \<times> nat" where
  "deleteMany P t =
     (filter (\<lambda>(k, r). \<not> P k r) t, length (filter (\<lambda>(k, r). P k r) t))"

definition findMany :: "(key \<Rightarrow> 'r \<Rightarrow> bool) \<Rightarrow> 'r table \<Rightarrow> 'r table" where
  "findMany P t = filter (\<lambda>(k, r). P k r) t"

text \<open>The update of one row under a guard on what it holds.\<close>

definition updateRow :: "key \<Rightarrow> ('r \<Rightarrow> bool) \<Rightarrow> 'r \<Rightarrow> 'r table \<Rightarrow> 'r table \<times> nat" where
  "updateRow k P r t = updateMany (\<lambda>k' s. k' = k \<and> P s) (\<lambda>_. r) t"

lemma unique_updateMany [gp_inv]: "unique_keys t \<Longrightarrow> unique_keys (fst (updateMany P f t))"
  by (simp add: unique_keys_def updateMany_def comp_def split_def)

lemma unique_createRow [gp_inv]: "unique_keys t \<Longrightarrow> createRow k r t = Some t' \<Longrightarrow> unique_keys t'"
  by (auto simp: unique_keys_def createRow_def split: if_splits)

lemma unique_deleteMany [gp_inv]: "unique_keys t \<Longrightarrow> unique_keys (fst (deleteMany P t))"
  by (simp add: unique_keys_def deleteMany_def distinct_map_filter)

lemma map_of_updateMany:
  "map_of (fst (updateMany P f t)) k =
     map_option (\<lambda>r. if P k r then f r else r) (map_of t k)"
  by (simp add: updateMany_def) (induction t, auto)

lemma map_of_createRow:
  "createRow k r t = Some t' \<Longrightarrow> map_of t' j = (if j = k then Some r else map_of t j)"
proof -
  assume "createRow k r t = Some t'"
  then have "map_of t k = None" and "t' = t @ [(k, r)]"
    by (auto simp: createRow_def map_of_eq_None_iff split: if_splits)
  then show ?thesis by (auto simp: map_add_def split: option.split)
qed

lemma createRow_None: "createRow k r t = None \<longleftrightarrow> map_of t k \<noteq> None"
  by (simp add: createRow_def map_of_eq_None_iff)

lemma map_of_deleteMany:
  "unique_keys t \<Longrightarrow>
   map_of (fst (deleteMany P t)) k =
     (case map_of t k of Some r \<Rightarrow> if P k r then None else Some r | None \<Rightarrow> None)"
proof (induction t)
  case Nil
  then show ?case by (simp add: deleteMany_def)
next
  case (Cons e t)
  obtain k0 r0 where e: "e = (k0, r0)" by (cases e)
  have notin: "map_of t k0 = None"
    using Cons.prems e by (simp add: unique_keys_def map_of_eq_None_iff)
  have "map_of (fst (deleteMany P t)) k =
      (case map_of t k of Some r \<Rightarrow> if P k r then None else Some r | None \<Rightarrow> None)"
    using Cons by (simp add: unique_keys_def)
  with notin e show ?case by (auto simp: deleteMany_def)
qed

lemma filter_key_length:
  "unique_keys t \<Longrightarrow>
   length (filter (\<lambda>(k', s). k' = k \<and> P s) t) =
     (case map_of t k of Some s \<Rightarrow> if P s then 1 else 0 | None \<Rightarrow> 0)"
proof (induction t)
  case Nil
  then show ?case by simp
next
  case (Cons e t)
  obtain k0 r0 where e: "e = (k0, r0)" by (cases e)
  from Cons.prems e have u: "unique_keys t" and n: "map_of t k0 = None"
    by (simp_all add: unique_keys_def map_of_eq_None_iff)
  from Cons.IH [OF u] n e show ?case by auto
qed

section \<open>The contract of a table with one row per key\<close>

locale keyed_store =
  fixes find :: "'t \<Rightarrow> 'k \<Rightarrow> 'r option"
    and updRow :: "'k \<Rightarrow> ('r \<Rightarrow> bool) \<Rightarrow> 'r \<Rightarrow> 't \<Rightarrow> 't \<times> nat"
    and newRow :: "'k \<Rightarrow> 'r \<Rightarrow> 't \<Rightarrow> 't option"
    and invar :: "'t \<Rightarrow> bool"
  assumes find_updRow: "invar t \<Longrightarrow>
      find (fst (updRow k P r t)) j =
        (if j = k \<and> (\<exists>s. find t k = Some s \<and> P s) then Some r else find t j)"
    and updRow_count: "invar t \<Longrightarrow>
      snd (updRow k P r t) = (if \<exists>s. find t k = Some s \<and> P s then 1 else 0)"
    and newRow_None: "newRow k r t = None \<longleftrightarrow> find t k \<noteq> None"
    and find_newRow: "newRow k r t = Some t' \<Longrightarrow> find t' j = (if j = k then Some r else find t j)"
    and invar_updRow: "invar t \<Longrightarrow> invar (fst (updRow k P r t))"
    and invar_newRow: "invar t \<Longrightarrow> newRow k r t = Some t' \<Longrightarrow> invar t'"

text \<open>
  The write every table of the store goes through (\<open>writePullRequest\<close>, \<open>writePipeline\<close>,
  \<open>writeDeployment\<close>): an update guarded in its \<open>where\<close>, and where it matched nothing a
  creation that loses to a row already there (\<open>createOrLose\<close>).
\<close>

definition createOrLose :: "('t \<Rightarrow> 't option) \<Rightarrow> 't \<Rightarrow> 't \<times> nat" where
  "createOrLose create t = (case create t of Some t' \<Rightarrow> (t', 1) | None \<Rightarrow> (t, 0))"

definition guardedWrite ::
  "('k \<Rightarrow> ('r \<Rightarrow> bool) \<Rightarrow> 'r \<Rightarrow> 't \<Rightarrow> 't \<times> nat) \<Rightarrow> ('k \<Rightarrow> 'r \<Rightarrow> 't \<Rightarrow> 't option) \<Rightarrow>
   'k \<Rightarrow> ('r \<Rightarrow> bool) \<Rightarrow> 'r \<Rightarrow> 't \<Rightarrow> 't \<times> nat" where
  "guardedWrite upd crt k P row t =
     (case upd k P row t of
        (t', n) \<Rightarrow> if n > 0 then (t', n) else createOrLose (crt k row) t')"

context keyed_store
begin

lemma find_guardedWrite:
  assumes "invar t"
  shows "find (fst (guardedWrite updRow newRow k P row t)) j =
    (if j = k then (case find t k of
        None \<Rightarrow> Some row | Some s \<Rightarrow> if P s then Some row else Some s)
     else find t j)"
proof -
  obtain t' n where u: "updRow k P row t = (t', n)" by (cases "updRow k P row t")
  have f: "find t' j = (if j = k \<and> (\<exists>s. find t k = Some s \<and> P s) then Some row else find t j)" for j
    using find_updRow [OF assms, of k P row j] u by simp
  have c: "n = (if \<exists>s. find t k = Some s \<and> P s then 1 else 0)"
    using updRow_count [OF assms, of k P row] u by simp
  show ?thesis
    using f c newRow_None [of k row t'] find_newRow [of k row t' _ j]
    by (auto simp: guardedWrite_def createOrLose_def u split: option.splits if_splits)
qed

lemma invar_guardedWrite:
  "invar t \<Longrightarrow> invar (fst (guardedWrite updRow newRow k P row t))"
  using invar_updRow [of t k P row] invar_newRow [of _ k row]
  by (auto simp: guardedWrite_def createOrLose_def split: prod.splits option.splits)

lemma guardedWrite_count:
  assumes "invar t"
  shows "snd (guardedWrite updRow newRow k P row t) =
    (case find t k of None \<Rightarrow> 1 | Some s \<Rightarrow> if P s then 1 else 0)"
proof -
  obtain t' n where u: "updRow k P row t = (t', n)" by (cases "updRow k P row t")
  have f: "find t' k = (if \<exists>s. find t k = Some s \<and> P s then Some row else find t k)"
    using find_updRow [OF assms, of k P row k] u by simp
  have c: "n = (if \<exists>s. find t k = Some s \<and> P s then 1 else 0)"
    using updRow_count [OF assms, of k P row] u by simp
  show ?thesis
    using f c newRow_None [of k row t']
    by (auto simp: guardedWrite_def createOrLose_def u split: option.splits if_splits)
qed

text \<open>Guarded by a stamp, a write never replaces a row by one with a smaller stamp.\<close>

lemma guardedWrite_monotone:
  fixes stamp :: "'r \<Rightarrow> int"
  assumes "invar t" and "find t j = Some s"
  shows "\<exists>s'. find (fst (guardedWrite updRow newRow k (\<lambda>r. stamp r \<le> stamp row) row t)) j = Some s'
              \<and> stamp s \<le> stamp s'"
  using assms by (auto simp: find_guardedWrite)

lemma guardedWrite_unguarded:
  "invar t \<Longrightarrow>
   find (fst (guardedWrite updRow newRow k (\<lambda>_. True) row t)) j =
     (if j = k then Some row else find t j)"
  by (simp add: find_guardedWrite split: option.split)

end

interpretation tbl: keyed_store map_of updateRow createRow unique_keys
proof unfold_locales
  fix t :: "'r table" and k j P r
  assume u: "unique_keys t"
  show "map_of (fst (updateRow k P r t)) j =
      (if j = k \<and> (\<exists>s. map_of t k = Some s \<and> P s) then Some r else map_of t j)"
    by (cases "map_of t j") (auto simp: updateRow_def map_of_updateMany)
  show "snd (updateRow k P r t) = (if \<exists>s. map_of t k = Some s \<and> P s then 1 else 0)"
    using filter_key_length [OF u, of k P]
    by (simp add: updateRow_def updateMany_def split: option.split)
  show "unique_keys (fst (updateRow k P r t))"
    using u by (simp add: updateRow_def unique_updateMany)
  show "unique_keys t'" if "createRow k r t = Some t'" for t'
    using u that by (rule unique_createRow)
next
  fix k and r :: 'r and t
  show "(createRow k r t = None) = (map_of t k \<noteq> None)"
    by (rule createRow_None)
  show "map_of t' j = (if j = k then Some r else map_of t j)" if "createRow k r t = Some t'" for t' j
    using that by (rule map_of_createRow)
qed

text \<open>The rows under some external ids of one source, by external id.\<close>

definition loadRows :: "string \<Rightarrow> string list \<Rightarrow> 'r table \<Rightarrow> (string, 'r) jsmap" where
  "loadRows sourceId externalIds t =
     map (\<lambda>((_, e), r). (e, r))
       (findMany (\<lambda>(s, e) _. s = sourceId \<and> e \<in> set externalIds) t)"

lemma map_of_loadRows:
  "map_of (loadRows sourceId ids t) e = (if e \<in> set ids then map_of t (sourceId, e) else None)"
  by (induction t) (auto simp: loadRows_def findMany_def)

end
