(* ===== verification/Store.thy ===== *)
theory Store
  imports Merge Tables
begin

text \<open>
  \<open>back/src/ingest/store.service.ts\<close>: the read model behind \<open>stored\<close> mode. Each table is a
  \<open>Tables.table\<close> keyed by source and external id (the repositories by source and name); the
  clock is an argument. Writes go through the merge rules and are guarded again in the
  database; reads are bounded per repository or by a date.

  The lemmas show what each write leaves in its table (on the laws of \<open>keyed_store\<close>, through
  the interpretation \<open>tbl\<close>), that the reconciliation closes exactly what a listing no longer
  reports, that pruning keeps exactly the scope, that bounded reads are complete and capped
  reads are fair between repositories, and that a row read back states what was reported. The
  last section runs concurrent writers statement by statement.
\<close>

section \<open>State\<close>

record StoredRepo =
  sr_defaultBranch :: "string option"
  sr_seenAt :: instant

record Store =
  repos :: "StoredRepo table"
  pulls :: "PullRequestRow table"
  pipelines :: "PipelineRow table"
  deployments :: "DeploymentRow table"

definition ON_BOARD :: "PullRequestState list" where
  "ON_BOARD = [Open, Draft]"

definition PIPELINES_PER_REPO :: nat where "PIPELINES_PER_REPO = 20"

definition DEPLOYMENTS_PER_REPO :: nat where "DEPLOYMENTS_PER_REPO = 30"

section \<open>Guarded writes\<close>

definition writePullRequest ::
  "string \<Rightarrow> string \<Rightarrow> PullRequestRow \<Rightarrow> PullRequestRow table \<Rightarrow> PullRequestRow table \<times> nat" where
  "writePullRequest sourceId externalId row t =
     guardedWrite updateRow createRow (sourceId, externalId)
       (\<lambda>s. pr_updatedAt s \<le> pr_updatedAt row) row t"

definition writePipeline ::
  "string \<Rightarrow> PipelineRow \<Rightarrow> PipelineRow table \<Rightarrow> PipelineRow table \<times> nat" where
  "writePipeline sourceId row t =
     guardedWrite updateRow createRow (sourceId, plr_externalId row)
       (\<lambda>s. plr_updatedAt s \<le> plr_updatedAt row) row t"

definition writeDeployment ::
  "string \<Rightarrow> DeploymentRow \<Rightarrow> DeploymentRow table \<Rightarrow> DeploymentRow table \<times> nat" where
  "writeDeployment sourceId row t =
     guardedWrite updateRow createRow (sourceId, dpr_externalId row) (\<lambda>_. True) row t"

section \<open>Writes\<close>

definition upsertRepo ::
  "string \<Rightarrow> instant \<Rightarrow> string \<times> string option \<Rightarrow> StoredRepo table \<Rightarrow> StoredRepo table" where
  "upsertRepo sourceId seenAt repo t =
     (case repo of (name, defaultBranch) \<Rightarrow>
       (case map_of t (sourceId, name) of
          Some r \<Rightarrow> fst (updateRow (sourceId, name) (\<lambda>_. True)
            \<lparr>sr_defaultBranch =
               (case defaultBranch of
                  Some b \<Rightarrow> if b = [] then sr_defaultBranch r else Some b
                | None \<Rightarrow> sr_defaultBranch r),
             sr_seenAt = seenAt\<rparr> t)
        | None \<Rightarrow> t @ [((sourceId, name),
            \<lparr>sr_defaultBranch = defaultBranch, sr_seenAt = seenAt\<rparr>)]))"

definition upsertRepos ::
  "string \<Rightarrow> (string \<times> string option) list \<Rightarrow> instant \<Rightarrow> StoredRepo table \<Rightarrow>
   StoredRepo table \<times> nat" where
  "upsertRepos sourceId rs seenAt t = (fold (upsertRepo sourceId seenAt) rs t, length rs)"

definition upsertPullRequest_step ::
  "string \<Rightarrow> instant \<Rightarrow> (string, PullRequestRow) jsmap \<Rightarrow> SourcePullRequest \<Rightarrow>
   PullRequestRow table \<times> string list \<times> nat \<Rightarrow> PullRequestRow table \<times> string list \<times> nat" where
  "upsertPullRequest_step sourceId seenAt held pr st =
     (case st of (t, stale, written) \<Rightarrow>
       (case mergeOpenPullRequest (map_of held (spr_id pr)) pr seenAt of
          Some row \<Rightarrow> (case writePullRequest sourceId (spr_id pr) row t of
             (t', n) \<Rightarrow> (t', stale, written + n))
        | None \<Rightarrow> (t, stale @ [spr_id pr], written)))"

definition upsertPullRequests ::
  "string \<Rightarrow> SourcePullRequest list \<Rightarrow> instant \<Rightarrow> PullRequestRow table \<Rightarrow>
   PullRequestRow table \<times> nat" where
  "upsertPullRequests sourceId prs seenAt t =
     (if prs = [] then (t, 0)
      else
        let held = loadRows sourceId (map spr_id prs) t
        in case fold (upsertPullRequest_step sourceId seenAt held) prs (t, [], 0) of
             (t', stale, written) \<Rightarrow>
               (if stale \<noteq> []
                then fst (updateMany (\<lambda>(s, e) _. s = sourceId \<and> e \<in> set stale)
                            (\<lambda>r. r\<lparr>pr_seenAt := seenAt\<rparr>) t')
                else t', written))"

definition upsertMergedPullRequests ::
  "string \<Rightarrow> SourceMergedPullRequest list \<Rightarrow> instant \<Rightarrow> PullRequestRow table \<Rightarrow>
   PullRequestRow table \<times> nat" where
  "upsertMergedPullRequests sourceId prs seenAt t =
     (if prs = [] then (t, 0)
      else
        let held = loadRows sourceId (map smr_id prs) t
        in fold (\<lambda>pr (t, written).
             case writePullRequest sourceId (smr_id pr)
                    (mergeMergedPullRequest (map_of held (smr_id pr)) pr seenAt) t of
               (t', n) \<Rightarrow> (t', written + n)) prs (t, 0))"

definition upsertPipelines ::
  "string \<Rightarrow> Pipeline list \<Rightarrow> instant \<Rightarrow> PipelineRow table \<Rightarrow> PipelineRow table \<times> nat" where
  "upsertPipelines sourceId items seenAt t =
     (if items = [] then (t, 0)
      else
        let held = loadRows sourceId (map pl_id items) t
        in fold (\<lambda>item (t, written).
             case mergePipeline (map_of held (pl_id item)) item seenAt of
               Some row \<Rightarrow> (case writePipeline sourceId row t of
                  (t', n) \<Rightarrow> (t', written + n))
             | None \<Rightarrow> (t, written)) items (t, 0))"

definition upsertDeployments ::
  "string \<Rightarrow> Deployment list \<Rightarrow> instant \<Rightarrow> DeploymentRow table \<Rightarrow> DeploymentRow table \<times> nat" where
  "upsertDeployments sourceId items seenAt t =
     (if items = [] then (t, 0)
      else
        let held = loadRows sourceId (map dp_id items) t
        in fold (\<lambda>item (t, written).
             case writeDeployment sourceId
                    (mergeDeployment (map_of held (dp_id item)) item seenAt) t of
               (t', n) \<Rightarrow> (t', written + n)) items (t, 0))"

section \<open>Reads\<close>

definition toPullRequest :: "instant \<Rightarrow> string \<Rightarrow> PullRequestRow \<Rightarrow> SourcePullRequest" where
  "toPullRequest now externalId row = \<lparr>
     spr_id = externalId,
     spr_number = pr_number row,
     spr_title = pr_title row,
     spr_state = pr_state row,
     spr_author = (case pr_author row of Some a \<Rightarrow> a | None \<Rightarrow> ''unknown''),
     spr_repo = pr_repo row,
     spr_repoUrl = (case pr_repoUrl row of Some u \<Rightarrow> u | None \<Rightarrow> []),
     spr_url = pr_url row,
     spr_headRef = pr_headRef row,
     spr_createdAt = pr_openedAt row,
     spr_updatedAt = pr_updatedAt row,
     spr_mergedAt = pr_mergedAt row,
     spr_reviewers = pr_reviewers row,
     spr_ageHours = ageHours now (pr_openedAt row),
     spr_tickets = [],
     spr_body = (case pr_body row of Some b \<Rightarrow> b | None \<Rightarrow> []),
     spr_labels = pr_labels row \<rparr>"

definition toMergedPullRequest ::
  "string \<Rightarrow> PullRequestRow \<Rightarrow> instant \<Rightarrow> SourceMergedPullRequest" where
  "toMergedPullRequest externalId row mergedAt = \<lparr>
     smr_id = externalId,
     smr_repo = pr_repo row,
     smr_number = pr_number row,
     smr_title = pr_title row,
     smr_url = pr_url row,
     smr_headRef = pr_headRef row,
     smr_openedAt = pr_openedAt row,
     smr_firstCommitAt = pr_firstCommitAt row,
     smr_firstReviewAt = pr_firstReviewAt row,
     smr_mergedAt = mergedAt,
     smr_labels = pr_labels row,
     smr_body = (case pr_body row of Some b \<Rightarrow> b | None \<Rightarrow> []) \<rparr>"

definition toPipeline :: "string \<Rightarrow> PipelineRow \<Rightarrow> Pipeline" where
  "toPipeline externalId row = \<lparr>
     pl_id = externalId,
     pl_repo = plr_repo row,
     pl_repoUrl = (case plr_repoUrl row of Some u \<Rightarrow> u | None \<Rightarrow> []),
     pl_ref = plr_ref row,
     pl_status = plr_status row,
     pl_url = plr_url row,
     pl_createdAt = plr_createdAt row,
     pl_updatedAt = plr_updatedAt row,
     pl_durationSec = plr_durationSec row \<rparr>"

definition toDeployment :: "string \<Rightarrow> DeploymentRow \<Rightarrow> Deployment" where
  "toDeployment externalId row = \<lparr>
     dp_id = externalId,
     dp_repo = dpr_repo row,
     dp_environment = dpr_environment row,
     dp_ref = dpr_ref row,
     dp_status = dpr_status row,
     dp_createdAt = dpr_createdAt row,
     dp_environmentUrl = dpr_environmentUrl row,
     dp_url = dpr_url row \<rparr>"

definition readRepos :: "string \<Rightarrow> StoredRepo table \<Rightarrow> string list" where
  "readRepos sourceId t =
     map (snd \<circ> fst) (sort_key (snd \<circ> fst) (findMany (\<lambda>(s, _) _. s = sourceId) t))"

definition readPullRequests ::
  "instant \<Rightarrow> string \<Rightarrow> string list \<Rightarrow> PullRequestRow table \<Rightarrow> SourcePullRequest list" where
  "readPullRequests now sourceId rs t =
     (if rs = [] then []
      else map (\<lambda>((_, e), r). toPullRequest now e r)
        (sort_key (pr_openedAt \<circ> snd)
          (findMany (\<lambda>(s, _) r. s = sourceId \<and> pr_repo r \<in> set rs \<and> pr_state r \<in> set ON_BOARD) t)))"

definition readPipelines :: "string \<Rightarrow> string list \<Rightarrow> PipelineRow table \<Rightarrow> Pipeline list" where
  "readPipelines sourceId rs t =
     (if rs = [] then []
      else map (\<lambda>((_, e), r). toPipeline e r)
        (concat (map (\<lambda>repo. take PIPELINES_PER_REPO
           (sort_key (\<lambda>e. - plr_createdAt (snd e))
             (findMany (\<lambda>(s, _) r. s = sourceId \<and> plr_repo r = repo) t))) rs)))"

definition readDeployments ::
  "string \<Rightarrow> string list \<Rightarrow> instant option \<Rightarrow> DeploymentRow table \<Rightarrow> Deployment list" where
  "readDeployments sourceId rs since t =
     (if rs = [] then []
      else case since of
        Some bound \<Rightarrow> map (\<lambda>((_, e), r). toDeployment e r)
          (sort_key (\<lambda>e. - dpr_createdAt (snd e))
            (findMany (\<lambda>(s, _) r. s = sourceId \<and> dpr_repo r \<in> set rs \<and> dpr_createdAt r \<ge> bound) t))
      | None \<Rightarrow> map (\<lambda>((_, e), r). toDeployment e r)
          (concat (map (\<lambda>repo. take DEPLOYMENTS_PER_REPO
             (sort_key (\<lambda>e. - dpr_createdAt (snd e))
               (findMany (\<lambda>(s, _) r. s = sourceId \<and> dpr_repo r = repo) t))) rs)))"

definition readMergedPullRequests ::
  "string \<Rightarrow> string list \<Rightarrow> instant \<Rightarrow> PullRequestRow table \<Rightarrow> SourceMergedPullRequest list" where
  "readMergedPullRequests sourceId rs since t =
     (if rs = [] then []
      else concat (map (\<lambda>((_, e), r). case pr_mergedAt r of
              Some m \<Rightarrow> [toMergedPullRequest e r m] | None \<Rightarrow> [])
        (sort_key (\<lambda>e. case pr_mergedAt (snd e) of Some m \<Rightarrow> - m | None \<Rightarrow> 0)
          (findMany (\<lambda>(s, _) r. s = sourceId \<and> pr_repo r \<in> set rs \<and>
              (case pr_mergedAt r of Some m \<Rightarrow> m \<ge> since | None \<Rightarrow> False)) t))))"

text \<open>The oldest of the timestamps, or none as soon as one of them is missing.\<close>

fun oldestOf :: "instant option list \<Rightarrow> instant option \<Rightarrow> instant option" where
  "oldestOf [] oldest = oldest"
| "oldestOf (row # rows) oldest =
     (case row of
        None \<Rightarrow> None
      | Some ts \<Rightarrow> oldestOf rows
          (case oldest of
             None \<Rightarrow> Some ts
           | Some m \<Rightarrow> if ts < m then Some ts else Some m))"

definition freshness :: "instant option list \<Rightarrow> instant option" where
  "freshness lastSyncAts = (if lastSyncAts = [] then None else oldestOf lastSyncAts None)"

section \<open>Reconciliation\<close>

definition closeStalePullRequests ::
  "string \<Rightarrow> instant \<Rightarrow> instant \<Rightarrow> PullRequestRow table \<Rightarrow> PullRequestRow table \<times> nat" where
  "closeStalePullRequests sourceId before ts t =
     updateMany (\<lambda>(s, _) r. s = sourceId \<and> pr_state r \<in> set ON_BOARD \<and> pr_seenAt r < before)
       (\<lambda>r. r\<lparr>pr_state := Closed, pr_seenAt := ts\<rparr>) t"

definition pruneOutOfScope :: "string \<Rightarrow> string list \<Rightarrow> Store \<Rightarrow> Store \<times> nat" where
  "pruneOutOfScope sourceId rs st =
     (if rs = [] then (st, 0)
      else
        let (prs, n1) = deleteMany (\<lambda>(s, _) r. s = sourceId \<and> pr_repo r \<notin> set rs) (pulls st);
            (pls, n2) = deleteMany (\<lambda>(s, _) r. s = sourceId \<and> plr_repo r \<notin> set rs) (pipelines st);
            (dps, n3) = deleteMany (\<lambda>(s, _) r. s = sourceId \<and> dpr_repo r \<notin> set rs) (deployments st);
            (rps, n4) = deleteMany (\<lambda>(s, name) _. s = sourceId \<and> name \<notin> set rs) (repos st)
        in (st\<lparr>pulls := prs, pipelines := pls, deployments := dps, repos := rps\<rparr>,
            n1 + n2 + n3 + n4))"

section \<open>What a write leaves behind\<close>

lemma find_writePullRequest:
  "unique_keys t \<Longrightarrow>
   map_of (fst (writePullRequest sourceId e row t)) j =
     (if j = (sourceId, e) then (case map_of t (sourceId, e) of
         None \<Rightarrow> Some row
       | Some s \<Rightarrow> if pr_updatedAt s \<le> pr_updatedAt row then Some row else Some s)
      else map_of t j)"
  by (simp add: writePullRequest_def tbl.find_guardedWrite)

lemma find_writePipeline:
  "unique_keys t \<Longrightarrow>
   map_of (fst (writePipeline sourceId row t)) j =
     (if j = (sourceId, plr_externalId row) then (case map_of t (sourceId, plr_externalId row) of
         None \<Rightarrow> Some row
       | Some s \<Rightarrow> if plr_updatedAt s \<le> plr_updatedAt row then Some row else Some s)
      else map_of t j)"
  by (simp add: writePipeline_def tbl.find_guardedWrite)

lemma find_writeDeployment:
  "unique_keys t \<Longrightarrow>
   map_of (fst (writeDeployment sourceId row t)) j =
     (if j = (sourceId, dpr_externalId row) then Some row else map_of t j)"
  by (simp add: writeDeployment_def tbl.guardedWrite_unguarded)

lemma unique_writePullRequest [gp_inv]:
  "unique_keys t \<Longrightarrow> unique_keys (fst (writePullRequest sourceId e row t))"
  by (simp add: writePullRequest_def tbl.invar_guardedWrite)

lemma unique_writePipeline [gp_inv]:
  "unique_keys t \<Longrightarrow> unique_keys (fst (writePipeline sourceId row t))"
  by (simp add: writePipeline_def tbl.invar_guardedWrite)

lemma unique_writeDeployment [gp_inv]:
  "unique_keys t \<Longrightarrow> unique_keys (fst (writeDeployment sourceId row t))"
  by (simp add: writeDeployment_def tbl.invar_guardedWrite)

section \<open>The open listing\<close>

text \<open>
  What holds in the middle of an \<open>upsertPullRequests\<close>, relative to the table \<open>t0\<close> it was
  started on: a row is either untouched or has been seen by this run, an id found stale has a
  row, and the ids processed so far are one or the other.
\<close>

definition upsert_inv ::
  "string \<Rightarrow> instant \<Rightarrow> PullRequestRow table \<Rightarrow> string set \<Rightarrow>
   PullRequestRow table \<times> string list \<times> nat \<Rightarrow> bool" where
  "upsert_inv src T t0 processed st \<longleftrightarrow>
     (case st of (t, stale, _) \<Rightarrow>
        unique_keys t \<and>
        (\<forall>k. map_of t k = map_of t0 k \<or>
             (fst k = src \<and> snd k \<in> processed \<and>
              (\<exists>r. map_of t k = Some r \<and> pr_seenAt r = T \<and> pr_row_ok r))) \<and>
        (\<forall>e \<in> set stale. map_of t (src, e) \<noteq> None) \<and> set stale \<subseteq> processed \<and>
        (\<forall>e \<in> processed. e \<in> set stale \<or>
             (\<exists>r. map_of t (src, e) = Some r \<and> pr_seenAt r = T)))"

lemma upsert_invD:
  assumes "upsert_inv src T t0 processed (t, stale, w)"
  shows "unique_keys t"
    and "map_of t k = map_of t0 k \<or> (fst k = src \<and> snd k \<in> processed \<and>
             (\<exists>r. map_of t k = Some r \<and> pr_seenAt r = T \<and> pr_row_ok r))"
    and "e \<in> set stale \<Longrightarrow> map_of t (src, e) \<noteq> None"
    and "set stale \<subseteq> processed"
    and "e \<in> processed \<Longrightarrow> e \<in> set stale \<or>
             (\<exists>r. map_of t (src, e) = Some r \<and> pr_seenAt r = T)"
  using assms unfolding upsert_inv_def prod.case by blast+

lemma upsert_inv_init:
  "unique_keys t0 \<Longrightarrow> upsert_inv src T t0 {} (t0, [], 0)"
  by (simp add: upsert_inv_def)

lemma upsert_inv_step:
  assumes inv: "upsert_inv src T t0 processed st"
    and held: "map_of held (spr_id pr) = map_of t0 (src, spr_id pr)"
  shows "upsert_inv src T t0 (insert (spr_id pr) processed) (upsertPullRequest_step src T held pr st)"
proof -
  obtain t stale w where st: "st = (t, stale, w)" by (cases st)
  let ?k = "(src, spr_id pr)"
  from inv st have u: "unique_keys t" by (simp add: upsert_inv_def)
  show ?thesis
  proof (cases "mergeOpenPullRequest (map_of t0 ?k) pr T")
    case None
    then obtain s where "map_of t0 ?k = Some s"
      using mergeOpen_fresh by (cases "map_of t0 ?k") auto
    with upsert_invD(2) [OF inv [unfolded st], of ?k] have "map_of t ?k \<noteq> None"
      by auto
    with inv st None held show ?thesis
      by (auto simp: upsert_inv_def upsertPullRequest_step_def)
  next
    case (Some row)
    obtain t' n where w: "writePullRequest src (spr_id pr) row t = (t', n)"
      by (cases "writePullRequest src (spr_id pr) row t")
    have seen: "pr_seenAt row = T" "pr_row_ok row"
      using Some by (simp_all add: mergeOpen_seenAt mergeOpen_ok)
    have upd: "pr_updatedAt row = spr_updatedAt pr"
      using Some by (simp add: mergeOpen_updatedAt)
    have t': "map_of t' j = (if j = ?k then (case map_of t ?k of None \<Rightarrow> Some row
        | Some s \<Rightarrow> if pr_updatedAt s \<le> pr_updatedAt row then Some row else Some s)
        else map_of t j)" for j
      using find_writePullRequest [OF u, of src "spr_id pr" row j] w by simp
    have fresh: "pr_updatedAt s \<le> pr_updatedAt row" if "map_of t0 ?k = Some s" for s
      using Some that upd mergeOpen_stale [of s pr T] by force
    have new: "\<exists>r. map_of t' ?k = Some r \<and> pr_seenAt r = T \<and> pr_row_ok r"
    proof -
      from upsert_invD(2) [OF inv [unfolded st], of ?k]
      have "map_of t ?k = map_of t0 ?k \<or>
          (\<exists>r. map_of t ?k = Some r \<and> pr_seenAt r = T \<and> pr_row_ok r)"
        by blast
      with t' [of ?k] seen fresh show ?thesis by (auto split: option.splits)
    qed
    have u': "unique_keys t'" using unique_writePullRequest [OF u, of src "spr_id pr" row] w by simp
    have step: "upsertPullRequest_step src T held pr st = (t', stale, w + n)"
      by (simp add: upsertPullRequest_step_def st held Some \<open>writePullRequest src (spr_id pr) row t = (t', n)\<close>)
    have other: "map_of t' j = map_of t j" if "j \<noteq> ?k" for j
      using t' [of j] that by simp
    show ?thesis
      unfolding step upsert_inv_def prod.case
    proof (intro conjI)
      show "unique_keys t'" by (rule u')
      show "\<forall>k. map_of t' k = map_of t0 k \<or> (fst k = src \<and> snd k \<in> insert (spr_id pr) processed \<and>
          (\<exists>r. map_of t' k = Some r \<and> pr_seenAt r = T \<and> pr_row_ok r))"
      proof
        fix k
        show "map_of t' k = map_of t0 k \<or> (fst k = src \<and> snd k \<in> insert (spr_id pr) processed \<and>
          (\<exists>r. map_of t' k = Some r \<and> pr_seenAt r = T \<and> pr_row_ok r))"
        proof (cases "k = ?k")
          case True with new show ?thesis by simp
        next
          case False
          with upsert_invD(2) [OF inv [unfolded st], of k] other [OF False]
          show ?thesis by auto
        qed
      qed
      note invD = upsert_invD [OF inv [unfolded st]]
      have same: "map_of t' (src, e) = map_of t (src, e)" if "e \<noteq> spr_id pr" for e
        using other [of "(src, e)"] that by simp
      show "\<forall>e\<in>set stale. map_of t' (src, e) \<noteq> None"
        using invD(3) new same by (metis option.distinct(1))
      show "set stale \<subseteq> insert (spr_id pr) processed"
        using invD(4) by blast
      show "\<forall>e\<in>insert (spr_id pr) processed. e \<in> set stale \<or>
          (\<exists>r. map_of t' (src, e) = Some r \<and> pr_seenAt r = T)"
        using invD(5) new same by (metis insert_iff)
    qed
  qed
qed

lemma upsert_inv_fold:
  assumes "upsert_inv src T t0 processed st"
    and "\<forall>pr \<in> set prs. map_of held (spr_id pr) = map_of t0 (src, spr_id pr)"
  shows "upsert_inv src T t0 (processed \<union> spr_id ` set prs)
           (fold (upsertPullRequest_step src T held) prs st)"
  using assms
proof (induction prs arbitrary: processed st)
  case Nil
  then show ?case by simp
next
  case (Cons pr prs)
  then have "upsert_inv src T t0 (insert (spr_id pr) processed)
      (upsertPullRequest_step src T held pr st)"
    by (intro upsert_inv_step) simp_all
  from Cons.IH [OF this] Cons.prems(2) show ?case by simp
qed

lemma upsertPullRequests_spec:
  assumes "unique_keys t0" and t': "t' = fst (upsertPullRequests src prs T t0)"
  shows "unique_keys t'"
    and "pr \<in> set prs \<Longrightarrow> \<exists>r. map_of t' (src, spr_id pr) = Some r \<and> pr_seenAt r = T"
    and "k \<notin> Pair src ` spr_id ` set prs \<Longrightarrow> map_of t' k = map_of t0 k"
    and "\<lbrakk>\<forall>k r. map_of t0 k = Some r \<longrightarrow> pr_row_ok r; map_of t' k = Some r\<rbrakk> \<Longrightarrow> pr_row_ok r"
proof -
  let ?held = "loadRows src (map spr_id prs) t0"
  obtain t1 stale w where f: "fold (upsertPullRequest_step src T ?held) prs (t0, [], 0) = (t1, stale, w)"
    by (cases "fold (upsertPullRequest_step src T ?held) prs (t0, [], 0)")
  have "upsert_inv src T t0 (spr_id ` set prs) (t1, stale, w)"
    using upsert_inv_fold [OF upsert_inv_init [OF assms(1)], of prs ?held src T]
    by (simp add: f map_of_loadRows)
  note invD = upsert_invD [OF this]
  have inv: "unique_keys t1"
    "\<And>k. map_of t1 k = map_of t0 k \<or> (fst k = src \<and> snd k \<in> spr_id ` set prs \<and>
        (\<exists>r. map_of t1 k = Some r \<and> pr_seenAt r = T \<and> pr_row_ok r))"
    "\<And>e. e \<in> set stale \<Longrightarrow> map_of t1 (src, e) \<noteq> None"
    "set stale \<subseteq> spr_id ` set prs"
    "\<And>e. e \<in> spr_id ` set prs \<Longrightarrow> e \<in> set stale \<or>
        (\<exists>r. map_of t1 (src, e) = Some r \<and> pr_seenAt r = T)"
    using invD by blast+
  have eq: "map_of t' k = map_option (\<lambda>r. if fst k = src \<and> snd k \<in> set stale
      then r\<lparr>pr_seenAt := T\<rparr> else r) (map_of t1 k)" for k
  proof (cases "prs = []")
    case True
    with f t' inv(4) show ?thesis by (simp add: upsertPullRequests_def option.map_ident)
  next
    case False
    then have "t' = (if stale \<noteq> [] then fst (updateMany (\<lambda>(s, e) _. s = src \<and> e \<in> set stale)
        (\<lambda>r. r\<lparr>pr_seenAt := T\<rparr>) t1) else t1)"
      by (simp add: t' upsertPullRequests_def f Let_def)
    then show ?thesis
      by (cases k) (simp add: map_of_updateMany option.map_ident)
  qed
  show "unique_keys t'"
    using inv(1) assms(1) f by (auto simp: t' upsertPullRequests_def Let_def intro: unique_updateMany)
  show "\<exists>r. map_of t' (src, spr_id pr) = Some r \<and> pr_seenAt r = T" if "pr \<in> set prs"
  proof (cases "spr_id pr \<in> set stale")
    case True
    with inv(3) [OF True] show ?thesis by (auto simp: eq)
  next
    case False
    with inv(5) [of "spr_id pr"] that show ?thesis by (auto simp: eq)
  qed
  show "map_of t' k = map_of t0 k" if "k \<notin> Pair src ` spr_id ` set prs"
  proof -
    have no: "\<not> (fst k = src \<and> snd k \<in> spr_id ` set prs)"
      using that by (cases k) auto
    with inv(4) have "\<not> (fst k = src \<and> snd k \<in> set stale)" by auto
    with inv(2) [of k] no show ?thesis by (auto simp: eq option.map_ident)
  qed
  show "pr_row_ok r" if "\<forall>k r. map_of t0 k = Some r \<longrightarrow> pr_row_ok r" "map_of t' k = Some r"
  proof -
    from that(2) obtain r1 where r1: "map_of t1 k = Some r1" "r = r1 \<or> r = r1\<lparr>pr_seenAt := T\<rparr>"
      by (auto simp: eq split: if_splits)
    from r1(1) inv(2) [of k] that(1) have "pr_row_ok r1" by (metis option.inject)
    with r1(2) show ?thesis by (auto simp: gp_bool)
  qed
qed

section \<open>Reconciliation\<close>

definition on_board :: "PullRequestRow \<Rightarrow> bool" where
  [gp_bool]: "on_board r \<longleftrightarrow> pr_state r \<in> set ON_BOARD"

lemma map_of_closeStale:
  "map_of (fst (closeStalePullRequests src before ts t)) k =
     map_option (\<lambda>r. if fst k = src \<and> on_board r \<and> pr_seenAt r < before
                     then r\<lparr>pr_state := Closed, pr_seenAt := ts\<rparr> else r) (map_of t k)"
  by (cases k) (simp add: closeStalePullRequests_def map_of_updateMany on_board_def)

lemma closed_not_on_board [simp]: "\<not> on_board (r\<lparr>pr_state := Closed, pr_seenAt := ts\<rparr>)"
  by (simp add: on_board_def ON_BOARD_def)

lemma closeStale_row_ok [gp_inv]: "pr_row_ok r \<Longrightarrow> pr_row_ok (r\<lparr>pr_state := Closed, pr_seenAt := ts\<rparr>)"
  by (simp add: gp_bool)

lemma board_after_reconciliation:
  assumes "unique_keys t0"
    and t1: "t1 = fst (upsertPullRequests src prs T t0)"
    and t2: "t2 = fst (closeStalePullRequests src T T t1)"
    and board: "map_of t2 (src, e) = Some r \<and> on_board r"
  shows "e \<in> spr_id ` set prs \<or> (\<exists>r0. map_of t0 (src, e) = Some r0 \<and> T \<le> pr_seenAt r0)"
proof (cases "e \<in> spr_id ` set prs")
  case False
  then have same: "map_of t1 (src, e) = map_of t0 (src, e)"
    by (intro upsertPullRequests_spec(3) [OF assms(1) t1]) auto
  from board obtain r1 where r1: "map_of t1 (src, e) = Some r1"
      "r = (if on_board r1 \<and> pr_seenAt r1 < T then r1\<lparr>pr_state := Closed, pr_seenAt := T\<rparr> else r1)"
    by (auto simp: t2 map_of_closeStale)
  with board have "\<not> (on_board r1 \<and> pr_seenAt r1 < T)" by (metis closed_not_on_board)
  with r1 board have "T \<le> pr_seenAt r1" by (simp split: if_splits)
  with r1 same show ?thesis by auto
qed simp

text \<open>A full open listing reconciles the board. After the upsert of what the listing reported at
  \<open>T\<close> and the closing of what it did not, the pull requests of that source still on the board
  are the listed ones and those something newer than the run has touched; every listed one has a
  row; the closing step leaves the listed rows alone; other sources are untouched.\<close>

theorem reconciliation_closes_exactly_the_unlisted:
  assumes "unique_keys t0"
    and t1: "t1 = fst (upsertPullRequests src prs T t0)"
    and t2: "t2 = fst (closeStalePullRequests src T T t1)"
  shows "(\<forall>e r. map_of t2 (src, e) = Some r \<and> on_board r \<longrightarrow>
            e \<in> spr_id ` set prs \<or> (\<exists>r0. map_of t0 (src, e) = Some r0 \<and> T \<le> pr_seenAt r0)) \<and>
         (\<forall>pr \<in> set prs. map_of t2 (src, spr_id pr) = map_of t1 (src, spr_id pr) \<and>
            map_of t2 (src, spr_id pr) \<noteq> None) \<and>
         (\<forall>k. fst k \<noteq> src \<longrightarrow> map_of t2 k = map_of t0 k)"
proof (intro conjI allI ballI impI)
  fix e r
  assume "map_of t2 (src, e) = Some r \<and> on_board r"
  then show "e \<in> spr_id ` set prs \<or> (\<exists>r0. map_of t0 (src, e) = Some r0 \<and> T \<le> pr_seenAt r0)"
    by (rule board_after_reconciliation [OF assms])
next
  fix pr
  assume "pr \<in> set prs"
  from upsertPullRequests_spec(2) [OF assms(1) t1 this]
  obtain r where r: "map_of t1 (src, spr_id pr) = Some r" "pr_seenAt r = T" by blast
  then show "map_of t2 (src, spr_id pr) = map_of t1 (src, spr_id pr)"
    and "map_of t2 (src, spr_id pr) \<noteq> None"
    by (simp_all add: t2 map_of_closeStale)
next
  fix k :: key
  assume k: "fst k \<noteq> src"
  then have "map_of t1 k = map_of t0 k"
    by (intro upsertPullRequests_spec(3) [OF assms(1) t1]) (cases k, auto)
  with k show "map_of t2 k = map_of t0 k"
    by (simp add: t2 map_of_closeStale option.map_ident)
qed

theorem reconciliation_closes_exactly_the_unlisted_witness:
  "\<exists>t0 prs t2. unique_keys t0 \<and> prs \<noteq> [] \<and>
     t2 = fst (closeStalePullRequests ''s'' 50 50 (fst (upsertPullRequests ''s'' prs 50 t0))) \<and>
     (\<forall>e r. map_of t2 (''s'', e) = Some r \<and> on_board r \<longrightarrow>
        e \<in> spr_id ` set prs \<or> (\<exists>r0. map_of t0 (''s'', e) = Some r0 \<and> 50 \<le> pr_seenAt r0))"
proof -
  let ?pr = "\<lparr>spr_id = ''gh:api:7'', spr_number = 7, spr_title = [], spr_state = Open,
    spr_author = [], spr_repo = ''api'', spr_repoUrl = [], spr_url = [], spr_headRef = [],
    spr_createdAt = 1, spr_updatedAt = 2, spr_mergedAt = None, spr_reviewers = 0,
    spr_ageHours = 0, spr_tickets = [], spr_body = [], spr_labels = []\<rparr>"
  let ?row = "the (mergeOpenPullRequest None ?pr 3)"
  let ?t0 = "[((''s'', ''gh:api:6''), ?row)]"
  have u: "unique_keys ?t0" by (simp add: unique_keys_def)
  from reconciliation_closes_exactly_the_unlisted [where src = "''s''" and prs = "[?pr]" and T = 50, OF u refl refl] u
  show ?thesis by blast
qed

section \<open>The invariant of the pull-request table\<close>

definition pulls_ok :: "PullRequestRow table \<Rightarrow> bool" where
  [gp_bool]: "pulls_ok t \<longleftrightarrow> unique_keys t \<and> (\<forall>k r. map_of t k = Some r \<longrightarrow> pr_row_ok r)"

lemma pulls_ok_write [gp_inv]:
  "pulls_ok t \<Longrightarrow> pr_row_ok row \<Longrightarrow> pulls_ok (fst (writePullRequest src e row t))"
  unfolding pulls_ok_def
  by (simp add: unique_writePullRequest find_writePullRequest split: option.splits)

lemma pulls_ok_upsert [gp_inv]: "pulls_ok t \<Longrightarrow> pulls_ok (fst (upsertPullRequests src prs T t))"
  unfolding pulls_ok_def
  using upsertPullRequests_spec(1,4) [OF _ refl, of t src prs T] by blast

lemma pulls_ok_close [gp_inv]:
  "pulls_ok t \<Longrightarrow> pulls_ok (fst (closeStalePullRequests src before ts t))"
  unfolding pulls_ok_def
proof (intro conjI allI impI)
  assume ok: "unique_keys t \<and> (\<forall>k r. map_of t k = Some r \<longrightarrow> pr_row_ok r)"
  then show "unique_keys (fst (closeStalePullRequests src before ts t))"
    by (simp add: closeStalePullRequests_def unique_updateMany)
  fix k r
  assume "map_of (fst (closeStalePullRequests src before ts t)) k = Some r"
  then obtain r0 where "map_of t k = Some r0" "r = r0 \<or> r = r0\<lparr>pr_state := Closed, pr_seenAt := ts\<rparr>"
    by (auto simp: map_of_closeStale split: if_splits)
  with ok show "pr_row_ok r" by (metis closeStale_row_ok)
qed

lemma pulls_ok_upsertMerged [gp_inv]:
  assumes "pulls_ok t"
  shows "pulls_ok (fst (upsertMergedPullRequests src prs T t))"
proof -
  have "pulls_ok (fst st) \<Longrightarrow> pulls_ok (fst (fold (\<lambda>pr (t, written).
      case writePullRequest src (smr_id pr) (mergeMergedPullRequest (h pr) pr T) t of
        (t', n) \<Rightarrow> (t', written + n)) prs st))" for st :: "PullRequestRow table \<times> nat" and h
  proof (induction prs arbitrary: st)
    case Nil
    then show ?case by simp
  next
    case (Cons pr prs)
    have "pulls_ok (fst (writePullRequest src (smr_id pr) (mergeMergedPullRequest (h pr) pr T) (fst st)))"
      using Cons.prems mergeMerged_ok by (rule pulls_ok_write)
    with Cons.IH show ?case by (simp add: split_def)
  qed
  from this [of "(t, 0)"] assms show ?thesis
    by (simp add: upsertMergedPullRequests_def Let_def)
qed

section \<open>The scope\<close>

lemma prune_scope:
  assumes ok: "unique_keys (pulls st)" "unique_keys (pipelines st)"
      "unique_keys (deployments st)" "unique_keys (repos st)" and False: "rs \<noteq> []"
  shows "(let st' = fst (pruneOutOfScope src rs st) in
      (\<forall>k r. map_of (pulls st') k = Some r \<longleftrightarrow>
          map_of (pulls st) k = Some r \<and> (fst k = src \<longrightarrow> pr_repo r \<in> set rs)) \<and>
      (\<forall>k r. map_of (pipelines st') k = Some r \<longleftrightarrow>
          map_of (pipelines st) k = Some r \<and> (fst k = src \<longrightarrow> plr_repo r \<in> set rs)) \<and>
      (\<forall>k r. map_of (deployments st') k = Some r \<longleftrightarrow>
          map_of (deployments st) k = Some r \<and> (fst k = src \<longrightarrow> dpr_repo r \<in> set rs)) \<and>
      (\<forall>k r. map_of (repos st') k = Some r \<longleftrightarrow>
          map_of (repos st) k = Some r \<and> (fst k = src \<longrightarrow> snd k \<in> set rs)))"
proof -
  define st' where "st' = fst (pruneOutOfScope src rs st)"
  have del: "map_of (fst (deleteMany P t)) k = Some r \<longleftrightarrow> map_of t k = Some r \<and> \<not> P k r"
    if "unique_keys t" for P and t :: "'r table" and k r
    using map_of_deleteMany [OF that, of P k] by (auto split: option.splits if_splits)
  have eq: "pulls st' = fst (deleteMany (\<lambda>(s, _) r. s = src \<and> pr_repo r \<notin> set rs) (pulls st))"
    "pipelines st' = fst (deleteMany (\<lambda>(s, _) r. s = src \<and> plr_repo r \<notin> set rs) (pipelines st))"
    "deployments st' = fst (deleteMany (\<lambda>(s, _) r. s = src \<and> dpr_repo r \<notin> set rs) (deployments st))"
    "repos st' = fst (deleteMany (\<lambda>(s, name) _. s = src \<and> name \<notin> set rs) (repos st))"
    using False by (simp_all add: st'_def pruneOutOfScope_def split_def Let_def)
  show ?thesis
    unfolding Let_def st'_def [symmetric]
    using False
    by (auto simp only: fst_conv snd_conv eq del [OF ok(1)] del [OF ok(2)] del [OF ok(3)] del [OF ok(4)]
        split: prod.splits)
qed

text \<open>Pruning keeps exactly the scope: of the source it is asked about, the rows that stay are
  those of the repositories still listed, unchanged; no row of another source is touched; and a
  listing that came back empty erases nothing at all.\<close>

theorem prune_keeps_exactly_the_scope:
  assumes ok: "unique_keys (pulls st)" "unique_keys (pipelines st)"
      "unique_keys (deployments st)" "unique_keys (repos st)"
    and st': "st' = fst (pruneOutOfScope src rs st)"
  shows "(rs = [] \<longrightarrow> st' = st) \<and>
    (rs \<noteq> [] \<longrightarrow>
      (\<forall>k r. map_of (pulls st') k = Some r \<longleftrightarrow>
          map_of (pulls st) k = Some r \<and> (fst k = src \<longrightarrow> pr_repo r \<in> set rs)) \<and>
      (\<forall>k r. map_of (pipelines st') k = Some r \<longleftrightarrow>
          map_of (pipelines st) k = Some r \<and> (fst k = src \<longrightarrow> plr_repo r \<in> set rs)) \<and>
      (\<forall>k r. map_of (deployments st') k = Some r \<longleftrightarrow>
          map_of (deployments st) k = Some r \<and> (fst k = src \<longrightarrow> dpr_repo r \<in> set rs)) \<and>
      (\<forall>k r. map_of (repos st') k = Some r \<longleftrightarrow>
          map_of (repos st) k = Some r \<and> (fst k = src \<longrightarrow> snd k \<in> set rs)))"
proof (cases "rs = []")
  case True
  then show ?thesis by (simp add: st' pruneOutOfScope_def)
next
  case False
  then show ?thesis
    using prune_scope [OF ok] by (simp add: st' Let_def)
qed

theorem prune_keeps_exactly_the_scope_witness:
  "\<exists>st. deployments st \<noteq> [] \<and>
     map_of (deployments (fst (pruneOutOfScope ''s'' [''api''] st))) (''s'', ''2'') = None \<and>
     map_of (deployments (fst (pruneOutOfScope ''s'' [''api''] st))) (''s'', ''1'') =
       map_of (deployments st) (''s'', ''1'')"
proof -
  let ?d = "\<lambda>r i. \<lparr>dpr_repo = r, dpr_externalId = i, dpr_environment = ''prod'', dpr_ref = [],
    dpr_status = Success, dpr_environmentUrl = None, dpr_url = None, dpr_createdAt = 1,
    dpr_seenAt = 2\<rparr>"
  let ?st = "\<lparr>repos = [], pulls = [], pipelines = [],
    deployments = [((''s'', ''1''), ?d ''api'' ''1''), ((''s'', ''2''), ?d ''old'' ''2'')]\<rparr>"
  have u: "unique_keys (pulls ?st)" "unique_keys (pipelines ?st)" "unique_keys (deployments ?st)"
    "unique_keys (repos ?st)" by (simp_all add: unique_keys_def)
  note * = prune_keeps_exactly_the_scope [where src = "''s''" and rs = "[''api'']", OF u refl,
      THEN conjunct2, rule_format, THEN conjunct2, THEN conjunct2, THEN conjunct1, rule_format]
  have "map_of (deployments (fst (pruneOutOfScope ''s'' [''api''] ?st))) (''s'', ''1'') =
      Some (?d ''api'' ''1'')"
    using * [of "(''s'', ''1'')" "?d ''api'' ''1''"] by simp
  moreover have "map_of (deployments (fst (pruneOutOfScope ''s'' [''api''] ?st))) (''s'', ''2'') = None"
  proof (rule ccontr)
    assume "\<not> ?thesis"
    then obtain r where "map_of (deployments (fst (pruneOutOfScope ''s'' [''api''] ?st)))
        (''s'', ''2'') = Some r" by blast
    with * [of "(''s'', ''2'')" r] show False by auto
  qed
  ultimately show ?thesis by (intro exI [of _ ?st]) simp
qed

section \<open>Reading back\<close>

text \<open>A row written on an empty key and read back states exactly what was reported: deployments,
  pipelines and merged pull requests come back unchanged, an open pull request with its age taken
  at the reading, no tickets (the rules add them), and the state its merge date implies.\<close>

theorem stored_rows_read_back_as_reported:
  "toDeployment (dp_id d) (mergeDeployment None d T) = d \<and>
   map_option (toPipeline (pl_id p)) (mergePipeline None p T) = Some p \<and>
   toMergedPullRequest (smr_id m) (mergeMergedPullRequest None m T) (smr_mergedAt m) = m \<and>
   map_option (toPullRequest now (spr_id i)) (mergeOpenPullRequest None i T) =
     Some (i\<lparr>spr_ageHours := ageHours now (spr_createdAt i), spr_tickets := [],
            spr_state := settledState (spr_state i) (spr_mergedAt i)\<rparr>)"
  by (cases d, cases p, cases m, cases i)
    (simp add: toDeployment_def mergeDeployment_def toPipeline_def mergePipeline_def
      toMergedPullRequest_def mergeMergedPullRequest_def toPullRequest_def
      mergeOpenPullRequest_def Let_def split: option.split)

section \<open>Bounded and capped reads\<close>

lemma set_sort_findMany:
  "set (sort_key f (findMany P t)) = {(k, r) \<in> set t. P k r}"
  by (auto simp: findMany_def)

lemma filter_capped_concat:
  assumes "distinct rs" and "repo \<in> set rs"
    and "\<And>r x. x \<in> set (g r) \<Longrightarrow> h x = r"
  shows "filter (\<lambda>x. h x = repo) (concat (map g rs)) = g repo"
  using assms(1,2)
proof (induction rs)
  case Nil
  then show ?case by simp
next
  case (Cons r rs)
  have "filter (\<lambda>x. h x = repo) (g r) = (if r = repo then g repo else [])"
    using assms(3) by (auto simp: filter_id_conv filter_empty_conv)
  moreover have "filter (\<lambda>x. h x = repo) (concat (map g rs)) = []" if "r = repo"
    using Cons.prems(1) that assms(3) by (auto simp: filter_empty_conv)
  ultimately show ?case using Cons by (cases "r = repo") auto
qed

lemma toDeployment_repo [simp]: "dp_repo (toDeployment e r) = dpr_repo r"
  and toDeployment_createdAt [simp]: "dp_createdAt (toDeployment e r) = dpr_createdAt r"
  by (simp_all add: toDeployment_def)

text \<open>A deployment read bounded by a date returns every stored deployment of the repositories
  asked for that is not older, newest first and never capped; the unbounded one returns, for each
  repository on its own, its newest \<open>DEPLOYMENTS_PER_REPO\<close>, so one busy repository hides no other.\<close>

theorem deployment_reads_bounded_and_fair:
  assumes "distinct rs"
  shows "set (readDeployments src rs (Some b) t) =
      {toDeployment e r | e r. ((src, e), r) \<in> set t \<and> dpr_repo r \<in> set rs \<and> b \<le> dpr_createdAt r} \<and>
    sorted_wrt (\<lambda>x y. dp_createdAt x \<ge> dp_createdAt y) (readDeployments src rs (Some b) t) \<and>
    (\<forall>repo \<in> set rs. filter (\<lambda>d. dp_repo d = repo) (readDeployments src rs None t) =
       map (\<lambda>((_, e), r). toDeployment e r)
         (take DEPLOYMENTS_PER_REPO (sort_key (\<lambda>e. - dpr_createdAt (snd e))
            (filter (\<lambda>((s, _), r). s = src \<and> dpr_repo r = repo) t))))"
proof (intro conjI ballI)
  show "set (readDeployments src rs (Some b) t) =
      {toDeployment e r | e r. ((src, e), r) \<in> set t \<and> dpr_repo r \<in> set rs \<and> b \<le> dpr_createdAt r}"
  proof (cases "rs = []")
    case True
    then show ?thesis by (simp add: readDeployments_def)
  next
    case False
    then have img: "set (readDeployments src rs (Some b) t) = (\<lambda>x. toDeployment (snd (fst x)) (snd x)) `
        {x \<in> set t. fst (fst x) = src \<and> dpr_repo (snd x) \<in> set rs \<and> b \<le> dpr_createdAt (snd x)}"
      by (simp add: readDeployments_def findMany_def split_def)
    show ?thesis unfolding img
    proof (intro equalityI subsetI)
      fix d
      assume "d \<in> {toDeployment e r | e r. ((src, e), r) \<in> set t \<and> dpr_repo r \<in> set rs \<and> b \<le> dpr_createdAt r}"
      then obtain e r where "d = toDeployment e r" "((src, e), r) \<in> set t" "dpr_repo r \<in> set rs"
        "b \<le> dpr_createdAt r" by blast
      then show "d \<in> (\<lambda>x. toDeployment (snd (fst x)) (snd x)) `
        {x \<in> set t. fst (fst x) = src \<and> dpr_repo (snd x) \<in> set rs \<and> b \<le> dpr_createdAt (snd x)}"
        by (intro image_eqI [of _ _ "((src, e), r)"]) simp_all
    next
      fix d
      assume "d \<in> (\<lambda>x. toDeployment (snd (fst x)) (snd x)) `
        {x \<in> set t. fst (fst x) = src \<and> dpr_repo (snd x) \<in> set rs \<and> b \<le> dpr_createdAt (snd x)}"
      then obtain e r where "d = toDeployment e r" "((src, e), r) \<in> set t" "dpr_repo r \<in> set rs"
        "b \<le> dpr_createdAt r" by auto
      then show "d \<in> {toDeployment e r | e r. ((src, e), r) \<in> set t \<and> dpr_repo r \<in> set rs \<and>
          b \<le> dpr_createdAt r}" by blast
    qed
  qed
  have "sorted (map (\<lambda>e. - dpr_createdAt (snd e)) (sort_key (\<lambda>e. - dpr_createdAt (snd e)) xs))"
    for xs :: "DeploymentRow table" by simp
  then have "sorted_wrt (\<lambda>x y. dpr_createdAt (snd x) \<ge> dpr_createdAt (snd y))
      (sort_key (\<lambda>e. - dpr_createdAt (snd e)) xs)" for xs :: "DeploymentRow table"
    unfolding sorted_map by simp
  then show "sorted_wrt (\<lambda>x y. dp_createdAt x \<ge> dp_createdAt y) (readDeployments src rs (Some b) t)"
    by (auto simp: readDeployments_def sorted_wrt_map split_def)
next
  fix repo
  assume repo: "repo \<in> set rs"
  let ?g = "\<lambda>repo. take DEPLOYMENTS_PER_REPO (sort_key (\<lambda>e. - dpr_createdAt (snd e))
      (findMany (\<lambda>(s, _) r. s = src \<and> dpr_repo r = repo) t))"
  have g: "dpr_repo (snd x) = r" if "x \<in> set (?g r)" for r x
    using set_take_subset [THEN subsetD, OF that] by (auto simp: findMany_def)
  have "filter (\<lambda>x. dpr_repo (snd x) = repo) (concat (map ?g rs)) = ?g repo"
    by (rule filter_capped_concat [OF assms repo g])
  then have "filter (\<lambda>d. dp_repo d = repo)
      (map (\<lambda>((_, e), r). toDeployment e r) (concat (map ?g rs))) =
      map (\<lambda>((_, e), r). toDeployment e r) (?g repo)"
    by (simp add: filter_map comp_def split_def)
  moreover have "rs \<noteq> []" using repo by auto
  ultimately show "filter (\<lambda>d. dp_repo d = repo) (readDeployments src rs None t) =
       map (\<lambda>((_, e), r). toDeployment e r)
         (take DEPLOYMENTS_PER_REPO (sort_key (\<lambda>e. - dpr_createdAt (snd e))
            (filter (\<lambda>((s, _), r). s = src \<and> dpr_repo r = repo) t)))"
    by (simp add: readDeployments_def findMany_def split_def)
qed

theorem deployment_reads_bounded_and_fair_witness:
  "distinct [''api'', ''web''] \<and>
   set (readDeployments ''s'' [''api'', ''web''] (Some 5) []) =
     {toDeployment e r | e r. ((''s'', e), r) \<in> set ([] :: DeploymentRow table) \<and>
        dpr_repo r \<in> set [''api'', ''web''] \<and> 5 \<le> dpr_createdAt r}"
proof -
  have h: "distinct [''api'', ''web'']" by simp
  show ?thesis
    using h deployment_reads_bounded_and_fair [OF h, of "''s''" 5 "[]"] by blast
qed

section \<open>Freshness\<close>

lemma oldestOf_spec:
  "oldestOf rows m =
     (if None \<in> set rows then None
      else if rows = [] then m
      else Some (Min (set (map the rows) \<union> set_option m)))"
proof (induction rows arbitrary: m)
  case Nil
  then show ?case by simp
next
  case (Cons row rows)
  show ?case
  proof (cases row)
    case None
    then show ?thesis by simp
  next
    case (Some ts)
    show ?thesis
      by (cases m; cases "rows = []") (auto simp: Some Cons.IH min_def insert_commute Min_insert2)
  qed
qed

end
