(* ===== verification/Store_Concurrency.thy ===== *)
theory Store_Concurrency
  imports Store
begin

text \<open>
  Concurrent writers of \<open>store.service.ts\<close>. A synchronisation and a webhook write the same
  row through separate statements: a load, an update guarded in its \<open>where\<close>, and a creation
  that loses to a row already there. Between two statements of one writer any statement of
  another may run, so a run is a sequence of statement steps. A writer carries one open
  reading of one pull request, or one reading of one deployment.

  The guard makes the update date of a stored pull request monotone under every interleaving.
  Two races it does not cover are exhibited: a newer reading can lose its creation to an older
  one, and a deployment, which has no date to guard on, can go back from settled to running.
\<close>

section \<open>Writers of pull requests\<close>

datatype pr_writer =
    PLoad SourcePullRequest
  | PUpdate PullRequestRow
  | PCreate PullRequestRow
  | PDone nat

fun writer_step ::
  "key \<Rightarrow> instant \<Rightarrow> PullRequestRow table \<times> pr_writer \<Rightarrow> PullRequestRow table \<times> pr_writer" where
  "writer_step k T (t, PLoad pr) =
     (case mergeOpenPullRequest (map_of t k) pr T of
        Some row \<Rightarrow> (t, PUpdate row)
      | None \<Rightarrow> (t, PDone 0))"
| "writer_step k T (t, PUpdate row) =
     (case updateRow k (\<lambda>s. pr_updatedAt s \<le> pr_updatedAt row) row t of
        (t', n) \<Rightarrow> (t', if n > 0 then PDone n else PCreate row))"
| "writer_step k T (t, PCreate row) =
     (case createOrLose (createRow k row) t of (t', n) \<Rightarrow> (t', PDone n))"
| "writer_step k T (t, PDone n) = (t, PDone n)"

text \<open>A writer run on its own is \<open>writePullRequest\<close> behind the merge.\<close>

lemma writer_alone:
  assumes "mergeOpenPullRequest (map_of t (src, e)) pr T = Some row"
  shows "\<exists>n. (writer_step (src, e) T ^^ 3) (t, PLoad pr) = (fst (writePullRequest src e row t), PDone n)"
proof -
  obtain t' n where u: "updateRow (src, e) (\<lambda>s. pr_updatedAt s \<le> pr_updatedAt row) row t = (t', n)"
    by (cases "updateRow (src, e) (\<lambda>s. pr_updatedAt s \<le> pr_updatedAt row) row t")
  show ?thesis
    using assms
    by (cases "n > 0")
      (auto simp: eval_nat_numeral u writePullRequest_def guardedWrite_def split: prod.split)
qed

text \<open>
  Several writers on one table: a step lets one of them run its next statement. Each has its own
  key and its own time of sight.
\<close>

type_synonym pr_system = "PullRequestRow table \<times> (key \<times> instant \<times> pr_writer) list"

inductive system_step :: "pr_system \<Rightarrow> pr_system \<Rightarrow> bool" where
  writer: "i < length ws \<Longrightarrow> ws ! i = (k, T, w) \<Longrightarrow> writer_step k T (t, w) = (t', w') \<Longrightarrow>
     system_step (t, ws) (t', ws[i := (k, T, w')])"

inductive_cases system_stepE: "system_step (t, ws) s'"

lemma unique_writer_step [gp_inv]:
  "unique_keys t \<Longrightarrow> writer_step k T (t, w) = (t', w') \<Longrightarrow> unique_keys t'"
  using tbl.invar_updRow [of t k] unique_createRow [of t k]
  by (cases w) (auto simp: createOrLose_def split: option.splits prod.splits, metis fst_conv)

lemma writer_step_monotone:
  assumes u: "unique_keys t" and step: "writer_step k T (t, w) = (t', w')"
    and s: "map_of t j = Some s"
  shows "\<exists>s'. map_of t' j = Some s' \<and> pr_updatedAt s \<le> pr_updatedAt s'"
proof (cases w)
  case (PUpdate row)
  then have "t' = fst (updateRow k (\<lambda>s. pr_updatedAt s \<le> pr_updatedAt row) row t)"
    using step by (auto split: prod.splits)
  with tbl.find_updRow [OF u, of k _ row j] s show ?thesis by auto
next
  case (PCreate row)
  with step s show ?thesis
    using map_of_createRow [of k row t t' j] createRow_None [of k row t]
    by (auto simp: createOrLose_def split: option.splits)
qed (use step s in \<open>auto split: option.splits\<close>)

text \<open>C2. Under every interleaving of the statements of any number of writers, the update date of a
  stored pull request never goes back: a writer holding an older state cannot overwrite a newer
  one, and no row is stored twice.\<close>

theorem interleaved_writes_never_go_backwards:
  assumes "system_step\<^sup>*\<^sup>* (t, ws) (t', ws')" and "unique_keys t"
  shows "unique_keys t' \<and>
    (\<forall>j s. map_of t j = Some s \<longrightarrow>
       (\<exists>s'. map_of t' j = Some s' \<and> pr_updatedAt s \<le> pr_updatedAt s'))"
  using assms
proof (induction "(t', ws')" arbitrary: t' ws' rule: rtranclp_induct)
  case base
  then show ?case by auto
next
  case (step y)
  obtain u us where y: "y = (u, us)" by (cases y)
  from step.hyps(3) [OF y step.prems] have IH: "unique_keys u"
    "\<And>j s. map_of t j = Some s \<Longrightarrow> \<exists>s'. map_of u j = Some s' \<and> pr_updatedAt s \<le> pr_updatedAt s'"
    by blast+
  from step.hyps(2) y obtain k T w w' where w: "writer_step k T (u, w) = (t', w')"
    by (auto elim: system_stepE)
  from unique_writer_step [OF IH(1) w] have "unique_keys t'" .
  moreover have "\<exists>s'. map_of t' j = Some s' \<and> pr_updatedAt s \<le> pr_updatedAt s'"
    if "map_of t j = Some s" for j s
    using IH(2) [OF that] writer_step_monotone [OF IH(1) w] order_trans by blast
  ultimately show ?case by blast
qed

section \<open>Two races\<close>

definition sample_pr :: "instant \<Rightarrow> PullRequestState \<Rightarrow> SourcePullRequest" where
  "sample_pr updated state = \<lparr>spr_id = ''gh:api:7'', spr_number = 7, spr_title = [],
     spr_state = state, spr_author = [], spr_repo = ''api'', spr_repoUrl = [], spr_url = [],
     spr_headRef = [], spr_createdAt = 1, spr_updatedAt = updated, spr_mergedAt = None,
     spr_reviewers = 0, spr_ageHours = 0, spr_tickets = [], spr_body = [], spr_labels = []\<rparr>"

lemma system_step_at:
  "i < length ws \<Longrightarrow>
   (case ws ! i of (k, T, w) \<Rightarrow>
      case writer_step k T (t, w) of (t', w') \<Rightarrow> s' = (t', ws[i := (k, T, w')])) \<Longrightarrow>
   system_step (t, ws) s'"
  by (auto simp: system_step.writer split: prod.splits)

theorem interleaved_writes_never_go_backwards_witness:
  "\<exists>t ws t' ws'. system_step\<^sup>*\<^sup>* (t, ws) (t', ws') \<and> unique_keys t \<and> t \<noteq> [] \<and> ws \<noteq> ws' \<and>
     (\<forall>j s. map_of t j = Some s \<longrightarrow>
       (\<exists>s'. map_of t' j = Some s' \<and> pr_updatedAt s \<le> pr_updatedAt s'))"
proof -
  let ?k = "(''s'', ''gh:api:7'')"
  obtain row where row: "mergeOpenPullRequest (Some row) (sample_pr 3 Open) 10 = None"
    using that [of "the (mergeOpenPullRequest None (sample_pr 5 Open) 9)"]
    by (simp add: mergeOpenPullRequest_def sample_pr_def Let_def)
  let ?t = "[(?k, row)]"
  let ?w = "[(?k, 10, PLoad (sample_pr 3 Open))]"
  have u: "unique_keys ?t" by (simp add: unique_keys_def)
  have step: "system_step (?t, ?w) (?t, [(?k, 10, PDone 0)])"
    by (rule system_step_at [where i = 0]) (simp_all add: row)
  then have run: "system_step\<^sup>*\<^sup>* (?t, ?w) (?t, [(?k, 10, PDone 0)])" by blast
  show ?thesis
    using run u interleaved_writes_never_go_backwards [OF run u] by blast
qed

text \<open>
  The first race. Two writers find no row; the one carrying the newer state (10) is held between
  its update and its creation while the other creates the older one (5), and its own creation
  then loses. The older state is what stays stored.
\<close>

theorem creation_race_keeps_the_older_state:
  "\<exists>t' ws'. system_step\<^sup>*\<^sup>*
      ([], [(k, T, PLoad (sample_pr 10 Closed)), (k, T, PLoad (sample_pr 5 Open))]) (t', ws') \<and>
     (\<exists>n m. map (snd \<circ> snd) ws' = [PDone n, PDone m]) \<and>
     (\<exists>r. map_of t' k = Some r \<and> pr_updatedAt r = 5 \<and> pr_state r = Open)"
proof -
  obtain new where new: "mergeOpenPullRequest None (sample_pr 10 Closed) T = Some new"
    by (simp add: mergeOpenPullRequest_def Let_def)
  obtain old where old: "mergeOpenPullRequest None (sample_pr 5 Open) T = Some old"
    and o5: "pr_updatedAt old = 5" "pr_state old = Open"
    by (simp add: mergeOpenPullRequest_def sample_pr_def settledState_def Let_def)
  have s1: "system_step ([], [(k, T, PLoad (sample_pr 10 Closed)), (k, T, PLoad (sample_pr 5 Open))])
      ([], [(k, T, PUpdate new), (k, T, PLoad (sample_pr 5 Open))])"
    by (rule system_step_at [where i = 0]) (simp_all add: new old)
  have s2: "system_step ([], [(k, T, PUpdate new), (k, T, PLoad (sample_pr 5 Open))])
      ([], [(k, T, PCreate new), (k, T, PLoad (sample_pr 5 Open))])"
    by (rule system_step_at [where i = 0]) (simp_all add: updateRow_def updateMany_def)
  have s3: "system_step ([], [(k, T, PCreate new), (k, T, PLoad (sample_pr 5 Open))])
      ([], [(k, T, PCreate new), (k, T, PUpdate old)])"
    by (rule system_step_at [where i = 1]) (simp_all add: new old)
  have s4: "system_step ([], [(k, T, PCreate new), (k, T, PUpdate old)])
      ([], [(k, T, PCreate new), (k, T, PCreate old)])"
    by (rule system_step_at [where i = 1]) (simp_all add: updateRow_def updateMany_def)
  have s5: "system_step ([], [(k, T, PCreate new), (k, T, PCreate old)])
      ([(k, old)], [(k, T, PCreate new), (k, T, PDone 1)])"
    by (rule system_step_at [where i = 1]) (simp_all add: createOrLose_def createRow_def)
  have s6: "system_step ([(k, old)], [(k, T, PCreate new), (k, T, PDone 1)])
      ([(k, old)], [(k, T, PDone 0), (k, T, PDone 1)])"
    by (rule system_step_at [where i = 0]) (simp_all add: createOrLose_def createRow_def)
  from s1 s2 s3 s4 s5 s6 have "system_step\<^sup>*\<^sup>*
      ([], [(k, T, PLoad (sample_pr 10 Closed)), (k, T, PLoad (sample_pr 5 Open))])
      ([(k, old)], [(k, T, PDone 0), (k, T, PDone 1)])"
    by (meson converse_rtranclp_into_rtranclp rtranclp.rtrancl_refl)
  with o5 show ?thesis by force
qed

text \<open>
  The second race. A deployment's write is not guarded in the database, so a writer that loaded
  the row before another settled it writes its own, less settled, status over it.
\<close>

theorem deployment_race_unsettles:
  fixes src :: string and d :: Deployment
  assumes "dp_status d = Success"
  defines "started \<equiv> d\<lparr>dp_status := Running\<rparr>"
  shows "let row_late = mergeDeployment None started T;
             t1 = fst (writeDeployment src (mergeDeployment None d T) []);
             t2 = fst (writeDeployment src row_late t1)
         in map_option dpr_status (map_of t1 (src, dp_id d)) = Some Success \<and>
            map_option dpr_status (map_of t2 (src, dp_id d)) = Some Running"
proof -
  have u: "unique_keys []" by (simp add: unique_keys_def)
  obtain t1 n where w: "writeDeployment src (mergeDeployment None d T) [] = (t1, n)"
    by (cases "writeDeployment src (mergeDeployment None d T) []")
  have t1: "map_of t1 (src, dp_id d) = Some (mergeDeployment None d T)"
    using find_writeDeployment [OF u, of src "mergeDeployment None d T"] w by (simp add: mergeDeployment_def)
  have u1: "unique_keys t1"
    using unique_writeDeployment [OF u, of src "mergeDeployment None d T"] w by simp
  have w': "fst (writeDeployment src (mergeDeployment None d T) []) = t1" by (simp add: w)
  have "dpr_externalId (mergeDeployment None started T) = dp_id d"
    "dpr_status (mergeDeployment None started T) = Running"
    "dpr_status (mergeDeployment None d T) = Success"
    using assms by (simp_all add: mergeDeployment_def)
  then show ?thesis
    unfolding Let_def w' t1 find_writeDeployment [OF u1] by simp
qed

end
