(* ===== verification/Sync.thy ===== *)
theory Sync
  imports Store
begin

text \<open>
  \<open>back/src/ingest/sync-cadence.ts\<close> and \<open>sync.service.ts\<close>: when a stored source is read
  from its provider and how far back, and one run of the ingestion. The connector that
  \<open>ConnectorFactory\<close> returns, with its context, is a record of functions that answer or throw
  a message; the clock of the run is \<open>startedAt\<close>. What the run keeps in the database is the
  store, the sync states (one per source and listing) and the deliveries it consults.

  The lemmas follow one listing through \<open>step\<close>; the properties are stated of a whole run.
\<close>

section \<open>Cadence\<close>

definition DAY_MS :: int where "DAY_MS = 86400000"
definition DELTA_OVERLAP_MS :: int where "DELTA_OVERLAP_MS = 10 * 60000"
definition FULL_SYNC_INTERVAL_MS :: int where "FULL_SYNC_INTERVAL_MS = 6 * 3600000"
definition EVENT_QUIET_MS :: int where "EVENT_QUIET_MS = 15 * 60000"

definition skipsDelta :: "instant option \<Rightarrow> instant \<Rightarrow> bool \<Rightarrow> bool" where
  "skipsDelta lastEventAt now full =
     (if full then False
      else case lastEventAt of
        None \<Rightarrow> False
      | Some ts \<Rightarrow> now - ts < EVENT_QUIET_MS)"

definition mergedSince :: "instant option \<Rightarrow> instant \<Rightarrow> int \<Rightarrow> bool \<Rightarrow> instant" where
  "mergedSince cursor now windowDays full =
     (let windowStart = now - windowDays * DAY_MS in
      if full then windowStart
      else case cursor of
        None \<Rightarrow> windowStart
      | Some c \<Rightarrow> max windowStart (c - DELTA_OVERLAP_MS))"

definition depthDays :: "int option \<Rightarrow> int \<Rightarrow> int" where
  "depthDays historyDays windowDays = (case historyDays of Some d \<Rightarrow> d | None \<Rightarrow> windowDays)"

definition listingSince :: "instant \<Rightarrow> int \<Rightarrow> bool \<Rightarrow> instant option" where
  "listingSince now depth full = (if full then Some (now - depth * DAY_MS) else None)"

definition isDueForFullSync :: "instant option list \<Rightarrow> instant \<Rightarrow> bool" where
  "isDueForFullSync lastFullSyncAts now =
     (if lastFullSyncAts = [] then True
      else list_ex (\<lambda>at'. case at' of
             None \<Rightarrow> True
           | Some ts \<Rightarrow> now - ts \<ge> FULL_SYNC_INTERVAL_MS) lastFullSyncAts)"

section \<open>State\<close>

datatype SyncResource = RepoList | PullList | PipelineList | DeploymentList

definition RESOURCES :: "SyncResource list" where
  "RESOURCES = [RepoList, PullList, PipelineList, DeploymentList]"

record SyncState =
  sy_cursor :: "instant option"
  sy_lastSyncAt :: "instant option"
  sy_lastFullSyncAt :: "instant option"
  sy_lastError :: "string option"

record WebhookDelivery =
  wd_event :: string
  wd_receivedAt :: instant

record SyncDb =
  db_store :: Store
  db_states :: "(string \<times> SyncResource, SyncState) jsmap"
  db_deliveries :: "WebhookDelivery table"

record SyncOutcome =
  so_full :: bool
  so_skipped :: bool
  so_repos :: nat
  so_pullRequests :: nat
  so_pipelines :: nat
  so_deployments :: nat
  so_merged :: nat
  so_closed :: nat
  so_pruned :: nat
  so_failed :: "SyncResource list"

record SourceSpec =
  sp_stored :: bool
  sp_historyDays :: "int option"

text \<open>A connector bound to its context: each listing answers or throws.\<close>

record Connector =
  listRepositories :: "string + string list"
  listPullRequests :: "string list \<Rightarrow> string + SourcePullRequest list"
  listMergedPullRequests :: "string list \<Rightarrow> instant \<Rightarrow> string + SourceMergedPullRequest list"
  listPipelines :: "string list \<Rightarrow> instant option \<Rightarrow> string + Pipeline list"
  listDeployments :: "string list \<Rightarrow> instant option \<Rightarrow> string + Deployment list"

section \<open>Marking a listing\<close>

text \<open>The fields an update names; \<open>None\<close> is a field left out of it.\<close>

record MarkData =
  md_cursor :: "instant option"
  md_lastSyncAt :: "instant option"
  md_lastFullSyncAt :: "instant option"
  md_lastError :: "string option option"

definition emptyState :: SyncState where
  "emptyState = \<lparr>sy_cursor = None, sy_lastSyncAt = None, sy_lastFullSyncAt = None, sy_lastError = None\<rparr>"

definition applyMark :: "MarkData \<Rightarrow> SyncState \<Rightarrow> SyncState" where
  "applyMark d s = \<lparr>
     sy_cursor = orElse (md_cursor d) (sy_cursor s),
     sy_lastSyncAt = orElse (md_lastSyncAt d) (sy_lastSyncAt s),
     sy_lastFullSyncAt = orElse (md_lastFullSyncAt d) (sy_lastFullSyncAt s),
     sy_lastError = (case md_lastError d of Some e \<Rightarrow> e | None \<Rightarrow> sy_lastError s)\<rparr>"

definition mark :: "string \<Rightarrow> SyncResource \<Rightarrow> MarkData \<Rightarrow> SyncDb \<Rightarrow> SyncDb" where
  "mark sourceId resource data db = db\<lparr>db_states :=
     AList.update (sourceId, resource)
       (applyMark data (case map_of (db_states db) (sourceId, resource) of
          Some s \<Rightarrow> s | None \<Rightarrow> emptyState)) (db_states db)\<rparr>"

definition lastEventAt :: "string \<Rightarrow> SyncDb \<Rightarrow> instant option" where
  "lastEventAt sourceId db =
     (case sort_key (\<lambda>r. - wd_receivedAt (snd r))
             (findMany (\<lambda>(s, _) _. s = sourceId) (db_deliveries db)) of
        [] \<Rightarrow> None
      | r # _ \<Rightarrow> Some (wd_receivedAt (snd r)))"

definition dueForFullSync :: "string \<Rightarrow> instant \<Rightarrow> SyncDb \<Rightarrow> bool" where
  "dueForFullSync sourceId now db =
     isDueForFullSync (map (sy_lastFullSyncAt \<circ> snd)
       (filter (\<lambda>e. fst (fst e) = sourceId) (db_states db))) now"

definition mergedFrom :: "string \<Rightarrow> instant \<Rightarrow> int \<Rightarrow> bool \<Rightarrow> SyncDb \<Rightarrow> instant" where
  "mergedFrom sourceId now depth full db =
     mergedSince (Option.bind (map_of (db_states db) (sourceId, PullList)) sy_cursor) now depth full"

section \<open>One run\<close>

text \<open>
  \<open>run\<close> may have written part of its work when it throws: it returns the database and the
  outcome it leaves along with the value or the message.
\<close>

type_synonym 'a listing = "SyncDb \<Rightarrow> SyncOutcome \<Rightarrow> SyncDb \<times> SyncOutcome \<times> (string + 'a)"

definition step ::
  "string \<Rightarrow> SyncResource \<Rightarrow> instant \<Rightarrow> bool \<Rightarrow> 'a listing \<Rightarrow>
   SyncDb \<Rightarrow> SyncOutcome \<Rightarrow> SyncDb \<times> SyncOutcome \<times> 'a option" where
  "step sourceId resource ts full run db outcome =
     (case run db outcome of
        (db', outcome', Inr result) \<Rightarrow>
          (mark sourceId resource \<lparr>md_cursor = Some ts, md_lastSyncAt = Some ts,
             md_lastFullSyncAt = (if full then Some ts else None), md_lastError = Some None\<rparr> db',
           outcome', Some result)
      | (db', outcome', Inl message) \<Rightarrow>
          (mark sourceId resource \<lparr>md_cursor = None, md_lastSyncAt = None,
             md_lastFullSyncAt = None, md_lastError = Some (Some message)\<rparr> db',
           outcome'\<lparr>so_failed := so_failed outcome' @ [resource]\<rparr>, None))"

definition runRepositories :: "string \<Rightarrow> Connector \<Rightarrow> instant \<Rightarrow> string list listing" where
  "runRepositories sourceId c startedAt db o' =
     (case listRepositories c of
        Inl e \<Rightarrow> (db, o', Inl e)
      | Inr names \<Rightarrow>
          (case upsertRepos sourceId (map (\<lambda>n. (n, None)) names) startedAt (repos (db_store db)) of
             (t, n) \<Rightarrow> (db\<lparr>db_store := (db_store db)\<lparr>repos := t\<rparr>\<rparr>, o'\<lparr>so_repos := n\<rparr>, Inr names)))"

definition runPullRequests ::
  "string \<Rightarrow> Connector \<Rightarrow> string list \<Rightarrow> instant \<Rightarrow> instant \<Rightarrow> bool listing" where
  "runPullRequests sourceId c rs startedAt since db o' =
     (case listPullRequests c rs of
        Inl e \<Rightarrow> (db, o', Inl e)
      | Inr opens \<Rightarrow>
          (case upsertPullRequests sourceId opens startedAt (pulls (db_store db)) of
            (t1, n1) \<Rightarrow> (case closeStalePullRequests sourceId startedAt startedAt t1 of
              (t2, n2) \<Rightarrow>
                let db2 = db\<lparr>db_store := (db_store db)\<lparr>pulls := t2\<rparr>\<rparr>;
                    o2 = o'\<lparr>so_pullRequests := n1, so_closed := n2\<rparr>
                in (case listMergedPullRequests c rs since of
                      Inl e \<Rightarrow> (db2, o2, Inl e)
                    | Inr merged \<Rightarrow>
                        (case upsertMergedPullRequests sourceId merged startedAt t2 of
                          (t3, n3) \<Rightarrow> (db2\<lparr>db_store := (db_store db2)\<lparr>pulls := t3\<rparr>\<rparr>,
                             o2\<lparr>so_merged := n3\<rparr>, Inr True))))))"

definition runPipelines ::
  "string \<Rightarrow> Connector \<Rightarrow> string list \<Rightarrow> instant \<Rightarrow> instant option \<Rightarrow> bool listing" where
  "runPipelines sourceId c rs startedAt since db o' =
     (case listPipelines c rs since of
        Inl e \<Rightarrow> (db, o', Inl e)
      | Inr items \<Rightarrow>
          (case upsertPipelines sourceId items startedAt (pipelines (db_store db)) of
             (t, n) \<Rightarrow> (db\<lparr>db_store := (db_store db)\<lparr>pipelines := t\<rparr>\<rparr>,
                       o'\<lparr>so_pipelines := n\<rparr>, Inr True)))"

definition runDeployments ::
  "string \<Rightarrow> Connector \<Rightarrow> string list \<Rightarrow> instant \<Rightarrow> instant option \<Rightarrow> bool listing" where
  "runDeployments sourceId c rs startedAt since db o' =
     (case listDeployments c rs since of
        Inl e \<Rightarrow> (db, o', Inl e)
      | Inr items \<Rightarrow>
          (case upsertDeployments sourceId items startedAt (deployments (db_store db)) of
             (t, n) \<Rightarrow> (db\<lparr>db_store := (db_store db)\<lparr>deployments := t\<rparr>\<rparr>,
                       o'\<lparr>so_deployments := n\<rparr>, Inr True)))"

definition syncPullRequests ::
  "string \<Rightarrow> Connector \<Rightarrow> string list \<Rightarrow> instant \<Rightarrow> bool \<Rightarrow> int \<Rightarrow>
   SyncDb \<Rightarrow> SyncOutcome \<Rightarrow> SyncDb \<times> SyncOutcome" where
  "syncPullRequests sourceId c rs startedAt full depth db o' =
     (let since = mergedFrom sourceId startedAt depth full db in
      case step sourceId PullList startedAt full (runPullRequests sourceId c rs startedAt since) db o' of
        (db', o'', _) \<Rightarrow> (db', o''))"

definition syncPipelines ::
  "string \<Rightarrow> Connector \<Rightarrow> string list \<Rightarrow> instant \<Rightarrow> bool \<Rightarrow> instant option \<Rightarrow>
   SyncDb \<Rightarrow> SyncOutcome \<Rightarrow> SyncDb \<times> SyncOutcome" where
  "syncPipelines sourceId c rs startedAt full since db o' =
     (case step sourceId PipelineList startedAt full (runPipelines sourceId c rs startedAt since) db o' of
        (db', o'', _) \<Rightarrow> (db', o''))"

definition syncDeployments ::
  "string \<Rightarrow> Connector \<Rightarrow> string list \<Rightarrow> instant \<Rightarrow> bool \<Rightarrow> instant option \<Rightarrow>
   SyncDb \<Rightarrow> SyncOutcome \<Rightarrow> SyncDb \<times> SyncOutcome" where
  "syncDeployments sourceId c rs startedAt full since db o' =
     (case step sourceId DeploymentList startedAt full (runDeployments sourceId c rs startedAt since) db o' of
        (db', o'', _) \<Rightarrow> (db', o''))"

definition newOutcome :: "bool \<Rightarrow> SyncOutcome" where
  "newOutcome full = \<lparr>so_full = full, so_skipped = False, so_repos = 0, so_pullRequests = 0,
     so_pipelines = 0, so_deployments = 0, so_merged = 0, so_closed = 0, so_pruned = 0,
     so_failed = []\<rparr>"

text \<open>
  \<open>connector\<close> is what \<open>resolveContext\<close> and the factory give: resolving may throw, and then
  so does the run, before it has written anything.
\<close>

definition sync ::
  "int option \<Rightarrow> int \<Rightarrow> string + Connector \<Rightarrow> string \<Rightarrow> bool \<Rightarrow> instant \<Rightarrow>
   SyncDb \<Rightarrow> SyncDb \<times> (string + SyncOutcome)" where
  "sync historyDays doraWindowDays connector sourceId force startedAt db =
     (let full = (force \<or> dueForFullSync sourceId startedAt db);
          depth = depthDays historyDays doraWindowDays;
          outcome = newOutcome full
      in if skipsDelta (lastEventAt sourceId db) startedAt full
         then (fold (\<lambda>resource. mark sourceId resource \<lparr>md_cursor = Some startedAt,
                  md_lastSyncAt = Some startedAt, md_lastFullSyncAt = None,
                  md_lastError = Some None\<rparr>) RESOURCES db,
               Inr (outcome\<lparr>so_skipped := True\<rparr>))
         else case connector of
           Inl e \<Rightarrow> (db, Inl e)
         | Inr c \<Rightarrow>
             (case step sourceId RepoList startedAt full (runRepositories sourceId c startedAt) db outcome of
                (db1, o1, None) \<Rightarrow> (db1, Inr o1)
              | (db1, o1, Some rs) \<Rightarrow>
                  let since = listingSince startedAt depth full;
                      (db2, o2) = syncPullRequests sourceId c rs startedAt full depth db1 o1;
                      (db3, o3) = syncPipelines sourceId c rs startedAt full since db2 o2;
                      (db4, o4) = syncDeployments sourceId c rs startedAt full since db3 o3
                  in if full
                     then (case pruneOutOfScope sourceId rs (db_store db4) of
                       (st, n) \<Rightarrow> (db4\<lparr>db_store := st\<rparr>, Inr (o4\<lparr>so_pruned := n\<rparr>)))
                     else (db4, Inr o4)))"

definition syncIfStored ::
  "SourceSpec \<Rightarrow> int \<Rightarrow> string + Connector \<Rightarrow> string \<Rightarrow> bool \<Rightarrow> instant \<Rightarrow>
   SyncDb \<Rightarrow> SyncDb \<times> (string + SyncOutcome) option" where
  "syncIfStored spec doraWindowDays connector sourceId force startedAt db =
     (if \<not> sp_stored spec then (db, None)
      else case sync (sp_historyDays spec) doraWindowDays connector sourceId force startedAt db of
        (db', r) \<Rightarrow> (db', Some r))"

section \<open>Following one listing\<close>

definition heldState :: "string \<Rightarrow> SyncResource \<Rightarrow> SyncDb \<Rightarrow> SyncState" where
  "heldState src R db = (case map_of (db_states db) (src, R) of Some s \<Rightarrow> s | None \<Rightarrow> emptyState)"

lemma heldState_mark:
  "heldState s R' (mark src R d db) =
     (if s = src \<and> R' = R then applyMark d (heldState src R db) else heldState s R' db)"
  by (simp add: heldState_def mark_def update_conv' split: option.split)

lemma mark_frame [simp]:
  "db_store (mark src R d db) = db_store db" "db_deliveries (mark src R d db) = db_deliveries db"
  by (simp_all add: mark_def)

lemma heldState_store [simp]: "heldState src R (db\<lparr>db_store := st\<rparr>) = heldState src R db"
  by (simp add: heldState_def)

text \<open>What a listing does not touch: the sync states and the list of failures.\<close>

definition quiet :: "'a listing \<Rightarrow> bool" where
  "quiet run \<longleftrightarrow> (\<forall>db o' db' o'' r. run db o' = (db', o'', r) \<longrightarrow>
     db_states db' = db_states db \<and> so_failed o'' = so_failed o' \<and>
     so_full o'' = so_full o' \<and> so_skipped o'' = so_skipped o')"

lemma quiet_runs [gp_inv]:
  "quiet (runRepositories src c T)" "quiet (runPullRequests src c rs T since)"
  "quiet (runPipelines src c rs T b)" "quiet (runDeployments src c rs T b)"
  by (auto simp: quiet_def runRepositories_def runPullRequests_def runPipelines_def
      runDeployments_def Let_def split: sum.splits prod.splits)

definition done_state :: "instant \<Rightarrow> bool \<Rightarrow> SyncState \<Rightarrow> SyncState \<Rightarrow> bool" where
  "done_state T full s s' \<longleftrightarrow> sy_cursor s' = Some T \<and> sy_lastSyncAt s' = Some T \<and>
     sy_lastError s' = None \<and>
     sy_lastFullSyncAt s' = (if full then Some T else sy_lastFullSyncAt s)"

definition failed_state :: "SyncState \<Rightarrow> SyncState \<Rightarrow> bool" where
  "failed_state s s' \<longleftrightarrow> sy_lastError s' \<noteq> None \<and> s' = s\<lparr>sy_lastError := sy_lastError s'\<rparr>"

lemma step_spec:
  assumes q: "quiet run" and st: "step src R T full run db o' = (db', o'', res)"
  shows "\<not> (s = src \<and> R' = R) \<Longrightarrow> heldState s R' db' = heldState s R' db"
    and "res = None \<Longrightarrow> failed_state (heldState src R db) (heldState src R db')"
    and "res \<noteq> None \<Longrightarrow> done_state T full (heldState src R db) (heldState src R db')"
    and "so_failed o'' = so_failed o' @ (if res = None then [R] else [])"
    and "so_full o'' = so_full o'" "so_skipped o'' = so_skipped o'"
proof -
  obtain d1 o1 r where r: "run db o' = (d1, o1, r)" by (cases "run db o'")
  from q r have q': "db_states d1 = db_states db" "so_failed o1 = so_failed o'"
    "so_full o1 = so_full o'" "so_skipped o1 = so_skipped o'"
    unfolding quiet_def by blast+
  have h: "heldState s R' d1 = heldState s R' db" for s R'
    by (simp add: heldState_def q')
  note all = st q' h r
  show "\<not> (s = src \<and> R' = R) \<Longrightarrow> heldState s R' db' = heldState s R' db"
    using all by (auto simp: step_def heldState_mark split: sum.splits)
  show "res = None \<Longrightarrow> failed_state (heldState src R db) (heldState src R db')"
    using all by (cases "heldState src R db")
      (auto simp: step_def heldState_mark failed_state_def applyMark_def split: sum.splits)
  show "res \<noteq> None \<Longrightarrow> done_state T full (heldState src R db) (heldState src R db')"
    using all by (auto simp: step_def heldState_mark done_state_def applyMark_def split: sum.splits)
  show "so_failed o'' = so_failed o' @ (if res = None then [R] else [])"
    "so_full o'' = so_full o'" "so_skipped o'' = so_skipped o'"
    using all by (auto simp: step_def split: sum.splits)
qed

text \<open>The four listings of a run that is not skipped, in order.\<close>

lemma sync_cases:
  assumes run: "sync h w (Inr c) src force T db = (db', Inr out)"
    and full: "full = (force \<or> dueForFullSync src T db)"
    and nsk: "\<not> skipsDelta (lastEventAt src db) T full"
  obtains
    (no_repos)
      "step src RepoList T full (runRepositories src c T) db (newOutcome full) = (db', out, None)"
  | (listed) rs db1 o1 since db2 o2 r2 db3 o3 r3 db4 o4 r4 where
      "step src RepoList T full (runRepositories src c T) db (newOutcome full) = (db1, o1, Some rs)"
      "step src PullList T full (runPullRequests src c rs T
         (mergedFrom src T (depthDays h w) full db1)) db1 o1 = (db2, o2, r2)"
      "since = listingSince T (depthDays h w) full"
      "step src PipelineList T full (runPipelines src c rs T since) db2 o2 = (db3, o3, r3)"
      "step src DeploymentList T full (runDeployments src c rs T since) db3 o3 = (db4, o4, r4)"
      "db' = (if full then db4\<lparr>db_store := fst (pruneOutOfScope src rs (db_store db4))\<rparr> else db4)"
      "so_failed out = so_failed o4" "so_full out = so_full o4" "so_skipped out = so_skipped o4"
proof -
  obtain db1 o1 r1 where s1: "step src RepoList T full (runRepositories src c T) db (newOutcome full) =
      (db1, o1, r1)" by (metis prod_cases3)
  show thesis
  proof (cases r1)
    case None
    with run nsk s1 have "db' = db1" "out = o1"
      by (simp_all add: sync_def Let_def flip: full)
    with s1 None no_repos show thesis by blast
  next
    case (Some rs)
    obtain db2 o2 r2 where s2: "step src PullList T full (runPullRequests src c rs T
         (mergedFrom src T (depthDays h w) full db1)) db1 o1 = (db2, o2, r2)" by (metis prod_cases3)
    define since where "since = listingSince T (depthDays h w) full"
    obtain db3 o3 r3 where s3: "step src PipelineList T full (runPipelines src c rs T since) db2 o2 =
      (db3, o3, r3)" by (metis prod_cases3)
    obtain db4 o4 r4 where s4: "step src DeploymentList T full (runDeployments src c rs T since) db3 o3 =
      (db4, o4, r4)" by (metis prod_cases3)
    have "sync h w (Inr c) src force T db =
        (if full then (case pruneOutOfScope src rs (db_store db4) of
            (st, n) \<Rightarrow> (db4\<lparr>db_store := st\<rparr>, Inr (o4\<lparr>so_pruned := n\<rparr>)))
         else (db4, Inr o4))"
      unfolding sync_def Let_def full [symmetric]
      using nsk s1 s2 s3 s4 Some
      by (simp add: syncPullRequests_def syncPipelines_def syncDeployments_def flip: since_def)
    with run have "db' = (if full then db4\<lparr>db_store := fst (pruneOutOfScope src rs (db_store db4))\<rparr> else db4)"
      "so_failed out = so_failed o4" "so_full out = so_full o4" "so_skipped out = so_skipped o4"
      by (auto split: prod.splits if_splits)
    with listed [OF s1 [unfolded Some] s2 since_def s3 s4] show thesis by blast
  qed
qed

lemma sync_flags:
  assumes run: "sync h w (Inr c) src force T db = (db', Inr out)"
    and full: "full = (force \<or> dueForFullSync src T db)"
  shows "so_full out = full" and "so_skipped out = skipsDelta (lastEventAt src db) T full"
proof -
  have "so_full out = full \<and> so_skipped out = skipsDelta (lastEventAt src db) T full"
  proof (cases "skipsDelta (lastEventAt src db) T full")
    case True
    with run show ?thesis by (auto simp: sync_def Let_def newOutcome_def simp flip: full)
  next
    case False
    have new: "so_full (newOutcome full) = full" "\<not> so_skipped (newOutcome full)"
      by (simp_all add: newOutcome_def)
    from run full False show ?thesis
    proof (cases rule: sync_cases)
      case no_repos
      from step_spec(5,6) [OF quiet_runs(1) no_repos] new False show ?thesis by simp
    next
      case (listed rs db1 o1 since db2 o2 r2 db3 o3 r3 db4 o4 r4)
      note l = listed
      from step_spec(5,6) [OF quiet_runs(1) l(1)] step_spec(5,6) [OF quiet_runs(2) l(2)]
        step_spec(5,6) [OF quiet_runs(3) l(4)] step_spec(5,6) [OF quiet_runs(4) l(5)] l(7-9) new False
      show ?thesis by simp
    qed
  qed
  then show "so_full out = full" and "so_skipped out = skipsDelta (lastEventAt src db) T full"
    by simp_all
qed

section \<open>What a run leaves in the sync states\<close>

text \<open>C3. A run that lists settles each of its listings on its own. A listing that failed keeps its
  cursor, its dates and its reconciliation clock and records why; one that answered moves all of
  them to the start of the run (the reconciliation clock only when reconciling); when the
  repository list itself failed, nothing else is asked and nothing else moves. No other source is
  touched.\<close>

theorem failed_listing_keeps_its_cursor:
  assumes run: "sync h w (Inr c) src force T db = (db', Inr out)" and ns: "\<not> so_skipped out"
  shows "(\<forall>R \<in> set (so_failed out). failed_state (heldState src R db) (heldState src R db')) \<and>
     (RepoList \<notin> set (so_failed out) \<longrightarrow> (\<forall>R. R \<notin> set (so_failed out) \<longrightarrow>
        done_state T (so_full out) (heldState src R db) (heldState src R db'))) \<and>
     (RepoList \<in> set (so_failed out) \<longrightarrow> so_failed out = [RepoList] \<and>
        (\<forall>R. R \<noteq> RepoList \<longrightarrow> heldState src R db' = heldState src R db)) \<and>
     (\<forall>s R. s \<noteq> src \<longrightarrow> heldState s R db' = heldState s R db)"
proof -
  define full where "full = (force \<or> dueForFullSync src T db)"
  have fl: "so_full out = full" using sync_flags(1) [OF run full_def] .
  have nsk: "\<not> skipsDelta (lastEventAt src db) T full" using sync_flags(2) [OF run full_def] ns by simp
  have new: "so_failed (newOutcome full) = []" by (simp add: newOutcome_def)
  from run full_def nsk show ?thesis
  proof (cases rule: sync_cases)
    case no_repos
    note sp = step_spec [OF quiet_runs(1) no_repos]
    from sp(1) sp(2,4) new show ?thesis by auto
  next
    case (listed rs db1 o1 since db2 o2 r2 db3 o3 r3 db4 o4 r4)
    note p1 = step_spec [OF quiet_runs(1) listed(1)] and p2 = step_spec [OF quiet_runs(2) listed(2)]
      and p3 = step_spec [OF quiet_runs(3) listed(4)] and p4 = step_spec [OF quiet_runs(4) listed(5)]
    have fin: "heldState s R db' = heldState s R db4" for s R by (simp add: listed(6))
    have failed: "so_failed out = (if r2 = None then [PullList] else []) @
        (if r3 = None then [PipelineList] else []) @ (if r4 = None then [DeploymentList] else [])"
      using p1(4) p2(4) p3(4) p4(4) listed(7) new by simp
    have st: "heldState src RepoList db' = heldState src RepoList db1"
      "heldState src PullList db' = heldState src PullList db2"
      "heldState src PullList db1 = heldState src PullList db"
      "heldState src PipelineList db' = heldState src PipelineList db3"
      "heldState src PipelineList db2 = heldState src PipelineList db"
      "heldState src DeploymentList db' = heldState src DeploymentList db4"
      "heldState src DeploymentList db3 = heldState src DeploymentList db"
      using p1(1) p2(1) p3(1) p4(1) fin by simp_all
    have other: "heldState s R db' = heldState s R db" if "s \<noteq> src" for s R
      using p1(1) p2(1) p3(1) p4(1) fin that by simp
    have "done_state T full (heldState src RepoList db) (heldState src RepoList db')"
      using p1(3) st(1) by simp
    moreover have
      "if r2 = None then failed_state (heldState src PullList db) (heldState src PullList db')
       else done_state T full (heldState src PullList db) (heldState src PullList db')"
      "if r3 = None then failed_state (heldState src PipelineList db) (heldState src PipelineList db')
       else done_state T full (heldState src PipelineList db) (heldState src PipelineList db')"
      "if r4 = None then failed_state (heldState src DeploymentList db) (heldState src DeploymentList db')
       else done_state T full (heldState src DeploymentList db) (heldState src DeploymentList db')"
      using p2(2,3) p3(2,3) p4(2,3) st by simp_all
    ultimately have each: "if R \<in> set (so_failed out)
        then failed_state (heldState src R db) (heldState src R db')
        else done_state T full (heldState src R db) (heldState src R db')" for R
      using failed by (cases R) (auto split: if_splits)
    have "RepoList \<notin> set (so_failed out)" using failed by auto
    with each other fl show ?thesis by (auto split: if_splits)
  qed
qed

theorem failed_listing_keeps_its_cursor_witness:
  "let c = \<lparr>listRepositories = Inr [''api''], listPullRequests = (\<lambda>_. Inr []),
             listMergedPullRequests = (\<lambda>_ _. Inr []), listPipelines = (\<lambda>_ _. Inl ''403''),
             listDeployments = (\<lambda>_ _. Inr [])\<rparr>;
       db = \<lparr>db_store = \<lparr>repos = [], pulls = [], pipelines = [], deployments = []\<rparr>,
             db_states = [], db_deliveries = []\<rparr>
   in \<exists>db' out. sync None 30 (Inr c) ''s'' False 100 db = (db', Inr out) \<and>
        \<not> so_skipped out \<and> so_failed out = [PipelineList] \<and>
        failed_state (heldState ''s'' PipelineList db) (heldState ''s'' PipelineList db') \<and>
        done_state 100 True (heldState ''s'' PullList db) (heldState ''s'' PullList db')"
proof -
  let ?c = "\<lparr>listRepositories = Inr [''api''], listPullRequests = (\<lambda>_. Inr []),
             listMergedPullRequests = (\<lambda>_ _. Inr []), listPipelines = (\<lambda>_ _. Inl ''403''),
             listDeployments = (\<lambda>_ _. Inr [])\<rparr> :: Connector"
  let ?db = "\<lparr>db_store = \<lparr>repos = [], pulls = [], pipelines = [], deployments = []\<rparr>,
             db_states = [], db_deliveries = []\<rparr> :: SyncDb"
  have "case snd (sync None 30 (Inr ?c) ''s'' False 100 ?db) of Inl _ \<Rightarrow> False
      | Inr out \<Rightarrow> \<not> so_skipped out \<and> so_failed out = [PipelineList] \<and> so_full out"
    by code_simp
  then obtain db' out where r: "sync None 30 (Inr ?c) ''s'' False 100 ?db = (db', Inr out)"
    and o': "\<not> so_skipped out" "so_failed out = [PipelineList]" "so_full out"
    by (cases "sync None 30 (Inr ?c) ''s'' False 100 ?db") (auto split: sum.splits)
  from failed_listing_keeps_its_cursor [OF r o'(1)] o' have
    "failed_state (heldState ''s'' PipelineList ?db) (heldState ''s'' PipelineList db')"
    "done_state 100 True (heldState ''s'' PullList ?db) (heldState ''s'' PullList db')"
    by simp_all
  with r o' show ?thesis unfolding Let_def by blast
qed

section \<open>The schedule does not depend on the events\<close>

text \<open>Of the records a source has, one was never reconciled or was reconciled six hours ago or
  more; or the source has none. A listing with no record beside recently reconciled ones does not
  count: \<open>isDueForFullSync\<close> looks at the records there are.\<close>

definition overdue :: "string \<Rightarrow> instant \<Rightarrow> SyncDb \<Rightarrow> bool" where
  "overdue src T db \<longleftrightarrow> (\<forall>R s. ((src, R), s) \<notin> set (db_states db)) \<or>
     (\<exists>R s. ((src, R), s) \<in> set (db_states db) \<and>
        (case sy_lastFullSyncAt s of None \<Rightarrow> True | Some ts \<Rightarrow> ts + FULL_SYNC_INTERVAL_MS \<le> T))"

lemma overdue_dueForFullSync: "dueForFullSync src T db \<longleftrightarrow> overdue src T db"
proof -
  have "filter (\<lambda>e. fst (fst e) = src) (db_states db) = [] \<longleftrightarrow> (\<forall>R s. ((src, R), s) \<notin> set (db_states db))"
    by (auto simp: filter_empty_conv)
  then show ?thesis
    by (auto simp: overdue_def dueForFullSync_def isDueForFullSync_def list_ex_iff algebra_simps
        split: option.splits)
qed

lemma heldState_marks:
  "heldState src R (fold (\<lambda>R. mark src R d) Rs db) =
     (if R \<in> set Rs then ((applyMark d) ^^ count_list Rs R) (heldState src R db) else heldState src R db)"
  by (induction Rs arbitrary: db) (simp_all add: heldState_mark funpow_swap1)

lemma store_marks: "db_store (fold (\<lambda>R. mark src R d) Rs db) = db_store db"
  by (induction Rs arbitrary: db) simp_all

text \<open>C4. Events never postpone a reconciliation. Whatever deliveries a source received, a run
  reconciles, and then skips nothing, exactly when it is forced or the source is overdue: no
  listing of it has a record, or one that has was never reconciled or was reconciled six hours ago
  or more (a listing with no record beside recently reconciled ones does not make it so). A run
  that recent events let skip writes no row, advances every cursor, and leaves the reconciliation
  clock of every listing where it was, so skipping cannot add up.\<close>

theorem events_never_postpone_reconciliation:
  assumes run: "sync h w (Inr c) src force T db = (db', Inr out)"
  shows "(so_full out \<longleftrightarrow> force \<or> overdue src T db) \<and> (so_full out \<longrightarrow> \<not> so_skipped out) \<and>
     (so_skipped out \<longrightarrow> db_store db' = db_store db \<and>
        (\<forall>R. sy_cursor (heldState src R db') = Some T \<and>
             sy_lastFullSyncAt (heldState src R db') = sy_lastFullSyncAt (heldState src R db)))"
proof (intro conjI impI)
  let ?full = "force \<or> dueForFullSync src T db"
  note fl = sync_flags [OF run refl]
  show "so_full out \<longleftrightarrow> force \<or> overdue src T db" using fl overdue_dueForFullSync by simp
  show "\<not> so_skipped out" if "so_full out" using fl that by (auto simp: skipsDelta_def)
  assume "so_skipped out"
  with fl run have db': "db' = fold (\<lambda>R. mark src R \<lparr>md_cursor = Some T, md_lastSyncAt = Some T,
      md_lastFullSyncAt = None, md_lastError = Some None\<rparr>) RESOURCES db"
    by (auto simp: sync_def Let_def split: if_splits)
  show "db_store db' = db_store db" by (simp add: db' store_marks)
  have "R \<in> set RESOURCES \<and> count_list RESOURCES R = 1" for R
    by (cases R) (simp_all add: RESOURCES_def)
  then show "\<forall>R. sy_cursor (heldState src R db') = Some T \<and>
      sy_lastFullSyncAt (heldState src R db') = sy_lastFullSyncAt (heldState src R db)"
    by (simp add: db' heldState_marks applyMark_def)
qed

theorem events_never_postpone_reconciliation_witness:
  "let c = \<lparr>listRepositories = Inr [''api''], listPullRequests = (\<lambda>_. Inr []),
             listMergedPullRequests = (\<lambda>_ _. Inr []), listPipelines = (\<lambda>_ _. Inr []),
             listDeployments = (\<lambda>_ _. Inr [])\<rparr>;
       done' = \<lparr>sy_cursor = Some 0, sy_lastSyncAt = Some 0, sy_lastFullSyncAt = Some 0, sy_lastError = None\<rparr>;
       db = \<lparr>db_store = \<lparr>repos = [], pulls = [], pipelines = [], deployments = []\<rparr>,
             db_states = [((''s'', RepoList), done')],
             db_deliveries = [((''s'', ''d1''), \<lparr>wd_event = ''push'', wd_receivedAt = 21599999\<rparr>)]\<rparr>
   in overdue ''s'' 21600000 db \<and>
      (\<exists>db' out. sync None 30 (Inr c) ''s'' False 21600000 db = (db', Inr out) \<and>
         so_full out \<and> \<not> so_skipped out)"
proof -
  let ?c = "\<lparr>listRepositories = Inr [''api''], listPullRequests = (\<lambda>_. Inr []),
             listMergedPullRequests = (\<lambda>_ _. Inr []), listPipelines = (\<lambda>_ _. Inr []),
             listDeployments = (\<lambda>_ _. Inr [])\<rparr> :: Connector"
  let ?done = "\<lparr>sy_cursor = Some 0, sy_lastSyncAt = Some 0, sy_lastFullSyncAt = Some 0, sy_lastError = None\<rparr>"
  let ?db = "\<lparr>db_store = \<lparr>repos = [], pulls = [], pipelines = [], deployments = []\<rparr>,
             db_states = [((''s'', RepoList), ?done)],
             db_deliveries = [((''s'', ''d1''), \<lparr>wd_event = ''push'', wd_receivedAt = 21599999\<rparr>)]\<rparr> :: SyncDb"
  have od: "overdue ''s'' 21600000 ?db"
    unfolding overdue_def
    by (rule disjI2, rule exI [of _ RepoList], rule exI [of _ ?done]) (simp add: FULL_SYNC_INTERVAL_MS_def)
  have "case snd (sync None 30 (Inr ?c) ''s'' False 21600000 ?db) of Inl _ \<Rightarrow> False | Inr _ \<Rightarrow> True"
    by code_simp
  then obtain db' out where r: "sync None 30 (Inr ?c) ''s'' False 21600000 ?db = (db', Inr out)"
    by (cases "sync None 30 (Inr ?c) ''s'' False 21600000 ?db") (auto split: sum.splits)
  from events_never_postpone_reconciliation [OF r] od have "so_full out \<and> \<not> so_skipped out" by blast
  with r od show ?thesis unfolding Let_def by blast
qed

section \<open>The store through a run\<close>

lemma unique_fold:
  assumes "\<And>x t. unique_keys t \<Longrightarrow> unique_keys (f x t)" and "unique_keys t"
  shows "unique_keys (fold f xs t)"
  using assms(2) by (induction xs arbitrary: t) (simp_all add: assms(1))

lemma fold_pair_invariant:
  assumes "\<And>x t n. P t \<Longrightarrow> P (fst (f x (t, n)))" and "P (fst st)"
  shows "P (fst (fold f xs st))"
  using assms(2)
proof (induction xs arbitrary: st)
  case (Cons x xs)
  then show ?case using assms(1) [of "fst st" x "snd st"] by simp
qed simp

lemma unique_upsertRepo [gp_inv]: "unique_keys t \<Longrightarrow> unique_keys (upsertRepo src T r t)"
  using tbl.invar_updRow [of t]
  by (cases r) (auto simp: upsertRepo_def unique_keys_def map_of_eq_None_iff split: option.split)

lemma unique_upsertRepos [gp_inv]: "unique_keys t \<Longrightarrow> unique_keys (fst (upsertRepos src rs T t))"
  by (simp add: upsertRepos_def unique_fold unique_upsertRepo)

lemma unique_upsertPipelines [gp_inv]:
  "unique_keys t \<Longrightarrow> unique_keys (fst (upsertPipelines src items T t))"
  unfolding upsertPipelines_def Let_def
  by (auto simp: split_def split: option.split
      intro!: fold_pair_invariant [where P = unique_keys] unique_writePipeline)

lemma unique_upsertDeployments [gp_inv]:
  "unique_keys t \<Longrightarrow> unique_keys (fst (upsertDeployments src items T t))"
  unfolding upsertDeployments_def Let_def
  by (auto simp: split_def intro!: fold_pair_invariant [where P = unique_keys] unique_writeDeployment)

definition store_ok :: "Store \<Rightarrow> bool" where
  [gp_bool]: "store_ok st \<longleftrightarrow> unique_keys (repos st) \<and> pulls_ok (pulls st) \<and>
     unique_keys (pipelines st) \<and> unique_keys (deployments st)"

definition keeps_store :: "'a listing \<Rightarrow> bool" where
  "keeps_store run \<longleftrightarrow> (\<forall>db o'. store_ok (db_store db) \<longrightarrow> store_ok (db_store (fst (run db o'))))"

lemma keeps_store_runs [gp_inv]:
  "keeps_store (runRepositories src c T)" "keeps_store (runPullRequests src c rs T since)"
  "keeps_store (runPipelines src c rs T b)" "keeps_store (runDeployments src c rs T b)"
  using unique_upsertRepos unique_upsertPipelines unique_upsertDeployments
    pulls_ok_upsert pulls_ok_close pulls_ok_upsertMerged
  by (auto simp: keeps_store_def store_ok_def runRepositories_def runPullRequests_def
      runPipelines_def runDeployments_def Let_def split_def split: sum.splits)

lemma step_store:
  "step src R T full run db o' = (db', o'', res) \<Longrightarrow> db_store db' = db_store (fst (run db o'))"
  by (auto simp: step_def split: prod.splits sum.splits)

lemma step_keeps_store:
  "keeps_store run \<Longrightarrow> step src R T full run db o' = (db', o'', res) \<Longrightarrow>
   store_ok (db_store db) \<Longrightarrow> store_ok (db_store db')"
  by (simp add: step_store keeps_store_def)

lemma store_ok_prune [gp_inv]:
  assumes "store_ok st"
  shows "store_ok (fst (pruneOutOfScope src rs st))"
proof -
  have "pulls_ok (fst (deleteMany P t))" if "pulls_ok t" for P t
    using that map_of_deleteMany [of t P]
    by (auto simp: pulls_ok_def unique_deleteMany split: option.splits if_splits)
  with assms show ?thesis
    by (simp add: store_ok_def pruneOutOfScope_def split_def Let_def unique_deleteMany)
qed

text \<open>C5. A run, whatever its listings answer or refuse, keeps the store well formed: one row per
  source and external id in every table, and no row on the board that has a merge date.\<close>

theorem sync_keeps_the_store_well_formed:
  assumes ok: "store_ok (db_store db)"
    and run: "sync h w connector src force T db = (db', res)"
  shows "store_ok (db_store db')"
proof (cases connector)
  case (Inl e)
  with run ok show ?thesis by (auto simp: sync_def Let_def store_marks split: if_splits)
next
  case (Inr c)
  define full where "full = (force \<or> dueForFullSync src T db)"
  show ?thesis
  proof (cases "skipsDelta (lastEventAt src db) T full")
    case True
    with run ok show ?thesis by (auto simp: sync_def Let_def store_marks simp flip: full_def)
  next
    case False
    with run Inr obtain out where res: "res = Inr out"
      by (auto simp: sync_def Let_def simp flip: full_def split: prod.splits option.splits if_splits)
    from run [unfolded Inr res] full_def False show ?thesis
    proof (cases rule: sync_cases)
      case no_repos
      from step_keeps_store [OF keeps_store_runs(1) no_repos ok] show ?thesis .
    next
      case (listed rs db1 o1 since db2 o2 r2 db3 o3 r3 db4 o4 r4)
      have "store_ok (db_store db4)"
        using ok listed(1,2,4,5) by (meson step_keeps_store keeps_store_runs)
      with store_ok_prune listed(6) show ?thesis by simp
    qed
  qed
qed

theorem sync_keeps_the_store_well_formed_witness:
  "let c = \<lparr>listRepositories = Inr [''api''], listPullRequests = (\<lambda>_. Inl ''500''),
             listMergedPullRequests = (\<lambda>_ _. Inr []), listPipelines = (\<lambda>_ _. Inr []),
             listDeployments = (\<lambda>_ _. Inr [\<lparr>dp_id = ''1'', dp_repo = ''api'',
               dp_environment = ''prod'', dp_ref = ''v1'', dp_status = Success, dp_createdAt = 5,
               dp_environmentUrl = None, dp_url = None\<rparr>])\<rparr>;
       db = \<lparr>db_store = \<lparr>repos = [], pulls = [], pipelines = [], deployments = []\<rparr>,
             db_states = [], db_deliveries = []\<rparr>;
       db' = fst (sync None 30 (Inr c) ''s'' False 100 db)
   in store_ok (db_store db) \<and> store_ok (db_store db')"
proof -
  let ?db = "\<lparr>db_store = \<lparr>repos = [], pulls = [], pipelines = [], deployments = []\<rparr>,
             db_states = [], db_deliveries = []\<rparr> :: SyncDb"
  have ok: "store_ok (db_store ?db)" by (simp add: gp_bool unique_keys_def)
  have "store_ok (db_store (fst (sync None 30 (Inr c) ''s'' False 100 ?db)))" for c
    by (rule sync_keeps_the_store_well_formed [OF ok prod.collapse [symmetric]])
  with ok show ?thesis unfolding Let_def by blast
qed

section \<open>What a reconciliation guarantees\<close>

lemma upsertMerged_on_board:
  assumes "pulls_ok t" and "map_of (fst (upsertMergedPullRequests src prs T t)) k = Some r" and "on_board r"
  shows "map_of t k = Some r"
proof -
  let ?P = "\<lambda>t'. pulls_ok t' \<and> (\<forall>r. map_of t' k = Some r \<and> on_board r \<longrightarrow> map_of t k = Some r)"
  have nob: "\<not> on_board (mergeMergedPullRequest s i T)" for s i
    by (simp add: on_board_def ON_BOARD_def mergeMergedPullRequest_def Let_def)
  have w: "?P (fst (writePullRequest src e (mergeMergedPullRequest s i T) t'))" if "?P t'" for e s i t'
    using that nob [of s i] mergeMerged_ok [of s i T]
    by (auto simp: pulls_ok_write pulls_ok_def find_writePullRequest unique_writePullRequest
        split: option.splits if_splits)
  have fd: "?P (fst (fold (\<lambda>pr (t', written).
      case writePullRequest src (smr_id pr) (mergeMergedPullRequest (h pr) pr T) t' of
        (t'', n) \<Rightarrow> (t'', written + n)) prs (t, 0)))" for h :: "SourceMergedPullRequest \<Rightarrow> PullRequestRow option"
  proof (rule fold_pair_invariant [where P = ?P])
    show "?P (fst (case (t', n) of (t', written) \<Rightarrow>
        case writePullRequest src (smr_id x) (mergeMergedPullRequest (h x) x T) t' of
          (t'', n) \<Rightarrow> (t'', written + n)))" if "?P t'" for x t' and n :: nat
      using w [OF that] by (simp add: split_def)
  qed (use assms(1) in simp)
  have "?P (fst (upsertMergedPullRequests src prs T t))"
  proof (cases "prs = []")
    case False
    then show ?thesis
      unfolding upsertMergedPullRequests_def Let_def if_not_P [OF False]
      by (intro fd)
  qed (use assms(1) in \<open>simp add: upsertMergedPullRequests_def\<close>)
  with assms(2,3) show ?thesis by blast
qed

lemma pulls_frame:
  "step src PipelineList T full (runPipelines src c rs T b) db o' = (db', o'', r) \<Longrightarrow>
     pulls (db_store db') = pulls (db_store db)"
  "step src DeploymentList T full (runDeployments src c rs T b) db o' = (db', o'', r2) \<Longrightarrow>
     pulls (db_store db') = pulls (db_store db)"
  "step src RepoList T full (runRepositories src c T) db o' = (db', o'', r3) \<Longrightarrow>
     pulls (db_store db') = pulls (db_store db)"
  by (auto dest!: step_store simp: runPipelines_def runDeployments_def runRepositories_def
      split: sum.splits prod.splits)

text \<open>C6. A reconciliation whose listings all answered leaves a store that was well formed agreeing with
  the provider. Of the source, every pull request still on the board is one the open listing reported,
  or one whose row was already marked as seen at the start of the run or later. And when the listing
  of the repositories answered any, every row of the four tables belongs to one of them. When it
  answered none the code removes nothing by design, and nothing is claimed of the tables.\<close>

theorem reconciliation_converges_on_the_provider:
  assumes ok: "store_ok (db_store db)"
    and run: "sync h w (Inr c) src force T db = (db', Inr out)"
    and full: "so_full out" and none: "so_failed out = []"
    and rs: "listRepositories c = Inr rs" and opens: "listPullRequests c rs = Inr opens"
  shows "(\<forall>e r. map_of (pulls (db_store db')) (src, e) = Some r \<and> on_board r \<longrightarrow>
        e \<in> spr_id ` set opens \<or>
        (\<exists>r0. map_of (pulls (db_store db)) (src, e) = Some r0 \<and> T \<le> pr_seenAt r0)) \<and>
     (rs \<noteq> [] \<longrightarrow>
     (\<forall>e r. map_of (pulls (db_store db')) (src, e) = Some r \<longrightarrow> pr_repo r \<in> set rs) \<and>
     (\<forall>e r. map_of (pipelines (db_store db')) (src, e) = Some r \<longrightarrow> plr_repo r \<in> set rs) \<and>
     (\<forall>e r. map_of (deployments (db_store db')) (src, e) = Some r \<longrightarrow> dpr_repo r \<in> set rs) \<and>
     (\<forall>e r. map_of (repos (db_store db')) (src, e) = Some r \<longrightarrow> e \<in> set rs))"
proof -
  define f where "f = (force \<or> dueForFullSync src T db)"
  have f: f using sync_flags(1) [OF run f_def] full by simp
  have nsk: "\<not> skipsDelta (lastEventAt src db) T f" using f by (simp add: skipsDelta_def)
  from run f_def nsk show ?thesis
  proof (cases rule: sync_cases)
    case no_repos
    from step_spec(4) [OF quiet_runs(1) no_repos] none show ?thesis by simp
  next
    case (listed rs' db1 o1 since db2 o2 r2 db3 o3 r3 db4 o4 r4)
    have [simp]: "rs' = rs"
      using listed(1) rs by (auto simp: step_def runRepositories_def split: prod.splits sum.splits)
    have r2: "r2 \<noteq> None"
      using step_spec(4) [OF quiet_runs(2) listed(2)] step_spec(4) [OF quiet_runs(3) listed(4)]
        step_spec(4) [OF quiet_runs(4) listed(5)] listed(7) none
      by (auto split: if_splits)
    let ?t0 = "pulls (db_store db)"
    define t1 where "t1 = fst (upsertPullRequests src opens T ?t0)"
    define t2 where "t2 = fst (closeStalePullRequests src T T t1)"
    have p1: "pulls (db_store db1) = ?t0" by (rule pulls_frame(3) [OF listed(1)])
    have "\<exists>merged. pulls (db_store db2) = fst (upsertMergedPullRequests src merged T t2)"
      using listed(2) r2 opens p1
      by (auto simp: step_def runPullRequests_def Let_def t1_def t2_def split: prod.splits sum.splits)
        (metis fst_conv)
    then obtain merged where p2: "pulls (db_store db2) = fst (upsertMergedPullRequests src merged T t2)"
      by blast
    have p4: "pulls (db_store db4) = pulls (db_store db2)"
      using pulls_frame(1) [OF listed(4)] pulls_frame(2) [OF listed(5)] by simp
    have ok0: "pulls_ok ?t0" using ok by (simp add: store_ok_def)
    have ok2: "pulls_ok t2" using ok0 by (simp add: t2_def t1_def pulls_ok_close pulls_ok_upsert)
    have ok4: "store_ok (db_store db4)"
      using ok listed(1,2,4,5) by (meson step_keeps_store keeps_store_runs)
    have st': "db_store db' = fst (pruneOutOfScope src rs (db_store db4))"
      using listed(6) f by simp
    have board: "\<And>e r. map_of t2 (src, e) = Some r \<Longrightarrow> on_board r \<Longrightarrow>
        e \<in> spr_id ` set opens \<or> (\<exists>r0. map_of ?t0 (src, e) = Some r0 \<and> T \<le> pr_seenAt r0)"
      using board_after_reconciliation [OF _ t1_def t2_def] ok0 unfolding pulls_ok_def by blast
    have onb: "e \<in> spr_id ` set opens \<or> (\<exists>r0. map_of ?t0 (src, e) = Some r0 \<and> T \<le> pr_seenAt r0)"
      if "map_of (pulls (db_store db4)) (src, e) = Some r" "on_board r" for e r
      by (rule board [OF upsertMerged_on_board [OF ok2 that(1) [unfolded p4 p2] that(2)] that(2)])
    show ?thesis
    proof (cases "rs = []")
      case True
      then have "db_store db' = db_store db4" using st' by (simp add: pruneOutOfScope_def)
      with True onb show ?thesis by simp
    next
      case False
      have scope: "(\<forall>k r. map_of (pulls (db_store db')) k = Some r \<longleftrightarrow>
            map_of (pulls (db_store db4)) k = Some r \<and> (fst k = src \<longrightarrow> pr_repo r \<in> set rs)) \<and>
        (\<forall>k r. map_of (pipelines (db_store db')) k = Some r \<longleftrightarrow>
            map_of (pipelines (db_store db4)) k = Some r \<and> (fst k = src \<longrightarrow> plr_repo r \<in> set rs)) \<and>
        (\<forall>k r. map_of (deployments (db_store db')) k = Some r \<longleftrightarrow>
            map_of (deployments (db_store db4)) k = Some r \<and> (fst k = src \<longrightarrow> dpr_repo r \<in> set rs)) \<and>
        (\<forall>k r. map_of (repos (db_store db')) k = Some r \<longleftrightarrow>
            map_of (repos (db_store db4)) k = Some r \<and> (fst k = src \<longrightarrow> snd k \<in> set rs))"
        using ok4 False unfolding st'
        by (intro prune_scope [unfolded Let_def]) (simp_all add: store_ok_def pulls_ok_def)
      note sc = scope [THEN conjunct1, rule_format] scope [THEN conjunct2, THEN conjunct1, rule_format]
        scope [THEN conjunct2, THEN conjunct2, THEN conjunct1, rule_format]
        scope [THEN conjunct2, THEN conjunct2, THEN conjunct2, rule_format]
      show ?thesis
        unfolding sc using onb by simp
    qed
  qed
qed

definition sample_row :: PullRequestRow where
  "sample_row = \<lparr>pr_repo = ''api'', pr_number = 6, pr_title = [], pr_body = None,
     pr_state = Open, pr_author = None, pr_url = [], pr_repoUrl = None, pr_headRef = [],
     pr_openedAt = 1, pr_updatedAt = 2, pr_mergedAt = None, pr_reviewers = 0,
     pr_firstCommitAt = None, pr_firstReviewAt = None, pr_labels = [], pr_seenAt = 3\<rparr>"

definition sample_connector :: Connector where
  "sample_connector = \<lparr>listRepositories = Inr [''api''], listPullRequests = (\<lambda>_. Inr []),
     listMergedPullRequests = (\<lambda>_ _. Inr []), listPipelines = (\<lambda>_ _. Inr []),
     listDeployments = (\<lambda>_ _. Inr [])\<rparr>"

definition sample_db :: SyncDb where
  "sample_db = \<lparr>db_store = \<lparr>repos = [], pulls = [((''s'', ''gh:api:6''), sample_row)],
     pipelines = [], deployments = []\<rparr>, db_states = [], db_deliveries = []\<rparr>"

theorem reconciliation_converges_on_the_provider_witness:
  "\<exists>db' out. sync None 30 (Inr sample_connector) ''s'' False 50 sample_db = (db', Inr out) \<and>
     so_full out \<and> so_failed out = [] \<and> on_board sample_row \<and>
     (\<forall>e r. map_of (pulls (db_store db')) (''s'', e) = Some r \<longrightarrow> \<not> on_board r)"
proof -
  have "case snd (sync None 30 (Inr sample_connector) ''s'' False 50 sample_db) of Inl _ \<Rightarrow> False
      | Inr out \<Rightarrow> so_full out \<and> so_failed out = []"
    by code_simp
  then obtain db' out where r: "sync None 30 (Inr sample_connector) ''s'' False 50 sample_db = (db', Inr out)"
    and o': "so_full out" "so_failed out = []"
    by (cases "sync None 30 (Inr sample_connector) ''s'' False 50 sample_db") (auto split: sum.splits)
  have ok: "store_ok (db_store sample_db)"
    by (simp add: gp_bool unique_keys_def sample_db_def sample_row_def)
  have c: "listRepositories sample_connector = Inr [''api'']"
    "listPullRequests sample_connector [''api''] = Inr []"
    by (simp_all add: sample_connector_def)
  have past: "pr_seenAt r < 50" if "map_of (pulls (db_store sample_db)) k = Some r" for k r
    using that by (auto simp: sample_db_def sample_row_def split: if_splits)
  have "on_board sample_row" by (simp add: on_board_def ON_BOARD_def sample_row_def)
  with reconciliation_converges_on_the_provider [OF ok r o' c] r o' past show ?thesis
    by (intro exI [of _ db'] exI [of _ out]) fastforce
qed

section \<open>How far back a run reads\<close>

text \<open>A delta of the merged listing starts ten minutes before the cursor, so nothing stamped
  while the previous run was in flight is missed, and never before the reporting depth; a
  reconciliation, or a source with no cursor, reads the whole depth; only a reconciliation bounds
  the pipeline and deployment listings, by that same depth.\<close>

theorem reading_window:
  "let start = now - depth * DAY_MS; since = mergedSince cursor now depth full in
   start \<le> since \<and>
   (full \<or> cursor = None \<longrightarrow> since = start) \<and>
   (\<forall>c. \<not> full \<and> cursor = Some c \<longrightarrow>
      (\<forall>t. start \<le> t \<and> c - DELTA_OVERLAP_MS \<le> t \<longleftrightarrow> since \<le> t)) \<and>
   listingSince now depth full = (if full then Some start else None)"
  by (auto simp: mergedSince_def listingSince_def Let_def split: option.split)

theorem reading_window_witness:
  "mergedSince (Some 2592000000) 5184000000 30 False = 2592000000 \<and>
   mergedSince (Some 5183000000) 5184000000 30 False = 5182400000 \<and>
   (\<forall>t. 2592000000 \<le> t \<and> (5183000000 :: int) - DELTA_OVERLAP_MS \<le> t \<longleftrightarrow> 5182400000 \<le> t)"
  using reading_window [of 5184000000 30 "Some 5183000000" False]
  by (simp add: mergedSince_def DAY_MS_def DELTA_OVERLAP_MS_def)

end
