(* ===== verification/Dora_Metrics.thy ===== *)
theory Dora_Metrics
  imports Shared_Types
begin

text \<open>
  \<open>back/src/dora/dora-metrics.ts\<close>: the DORA readings over classified events. An event
  carries \<open>de_ref\<close>, \<open>ie_ref\<close> or \<open>me_ref\<close>, the identity of the JavaScript object, which
  is what \<open>Map\<close>, \<open>Set\<close> and \<open>includes\<close> compare: two records are equal only if they are the
  same object. A dimension set is an association list; its key is the list sorted by name, which
  is what the source serialises. Durations are rationals, in seconds. \<open>groupBy\<close> is the prelude's.

  The lemmas show that the binary search finds what a walk would, that the indexed correlation
  finds for each merged request and each environment its earliest matching success, that an
  incident is blamed on at most one deployment, and what each reading counts.
\<close>

section \<open>Events and readings\<close>

datatype DeployOutcome = DSuccess | DFailed | DOther

record DeploymentEvent =
  de_ref :: nat
  de_environment :: string
  de_repo :: string
  de_status :: DeployOutcome
  de_createdAt :: instant
  de_dimensions :: dims

record IncidentEvent =
  ie_ref :: nat
  ie_key :: string
  ie_title :: string
  ie_url :: string
  ie_openedAt :: instant
  ie_resolvedAt :: "instant option"
  ie_repo :: "string option"
  ie_tickets :: "TicketRef list"
  ie_dimensions :: dims

record MergedPrEvent =
  me_ref :: nat
  me_repo :: string
  me_number :: int
  me_url :: string
  me_firstCommitAt :: "instant option"
  me_openedAt :: instant
  me_firstReviewAt :: "instant option"
  me_mergedAt :: instant
  me_tickets :: "TicketRef list"
  me_dimensions :: dims

datatype FailureSource = FromPipelines | FromIncidents | FromBoth

datatype DoraMetric = Deployment_frequency | Change_failure_rate | Mttr | Coding_time
  | Pickup_time | Review_time | Lead_time | Deploy_time

datatype DoraUnit = Per_day | Ratio | Seconds

datatype Detail = DText string | DDate instant

record DoraSample =
  ds_label :: string
  ds_at :: instant
  ds_value :: "rat option"
  ds_status :: "DeployOutcome option"
  ds_url :: "string option"
  ds_details :: "(string \<times> Detail) list"

record DoraResult =
  dr_metric :: DoraMetric
  dr_value :: rat
  dr_unit :: DoraUnit
  dr_dimensions :: dims
  dr_sampleSize :: nat
  dr_samples :: "DoraSample list"
  dr_population :: "DoraSample list option"
  dr_combinations :: "nat option"

section \<open>Helpers\<close>

definition MAX_SAMPLES :: nat where "MAX_SAMPLES = 50"

definition dimensionKey :: "dims \<Rightarrow> dims" where
  "dimensionKey dimensions = sort_key fst dimensions"

definition seconds :: "instant \<Rightarrow> instant \<Rightarrow> rat" where
  "seconds from' to' = of_int (to' - from') / 1000"

definition clamp :: "rat \<Rightarrow> rat" where
  "clamp value = (if value < 0 then 0 else value)"

definition median :: "rat list \<Rightarrow> rat" where
  "median values =
     (if values = [] then 0
      else let sorted' = sort values; mid = length sorted' div 2
           in if length sorted' mod 2 = 0 then (sorted' ! (mid - 1) + sorted' ! mid) / 2
              else sorted' ! mid)"

text \<open>
  Most recent first. Where a priority is given it is compared first: the comparator of the
  failure rate puts failed samples before the others.
\<close>

definition takeRecent :: "DoraSample list \<Rightarrow> DoraSample list" where
  "takeRecent samples = take MAX_SAMPLES (sort_key (\<lambda>s. - ds_at s) samples)"

definition takeRecentFailedFirst :: "DoraSample list \<Rightarrow> DoraSample list" where
  "takeRecentFailedFirst samples =
     take MAX_SAMPLES (sort_key (\<lambda>s. if ds_status s = Some DFailed then (0 :: nat) else 1)
       (sort_key (\<lambda>s. - ds_at s) samples))"

definition deploymentSample :: "DeploymentEvent \<Rightarrow> DoraSample" where
  "deploymentSample d = \<lparr>ds_label = de_environment d, ds_at = de_createdAt d, ds_value = None,
     ds_status = Some (de_status d), ds_url = None, ds_details = [(''repo'', DText (de_repo d))]\<rparr>"

definition incidentSample :: "IncidentEvent \<Rightarrow> DoraSample" where
  "incidentSample i = \<lparr>ds_label = ie_key i @ '' '' @ ie_title i, ds_at = ie_openedAt i,
     ds_value = None, ds_status = Some DFailed, ds_url = Some (ie_url i),
     ds_details =
       (case ie_repo i of Some r \<Rightarrow> if r = [] then [] else [(''repo'', DText r)] | None \<Rightarrow> []) @
       (case ie_resolvedAt i of Some t \<Rightarrow> [(''restoredAt'', DDate t)] | None \<Rightarrow> [])\<rparr>"

fun join :: "string \<Rightarrow> string list \<Rightarrow> string" where
  "join sep [] = []"
| "join sep [x] = x"
| "join sep (x # xs) = x @ sep @ join sep xs"

definition prSample :: "MergedPrEvent \<Rightarrow> rat \<Rightarrow> DoraSample" where
  "prSample p value = \<lparr>ds_label = me_repo p @ '' #'' @ showInt (me_number p),
     ds_at = me_mergedAt p, ds_value = Some value, ds_status = None, ds_url = Some (me_url p),
     ds_details = (''openedAt'', DDate (me_openedAt p)) #
       (if me_tickets p \<noteq> []
        then [(''tickets'', DText (join '', '' (map tk_key (me_tickets p))))] else [])\<rparr>"

definition ticketKey :: "TicketRef \<Rightarrow> string" where
  "ticketKey ticket = trk_id (tk_tracker ticket) @ '':'' @ tk_key ticket"

definition measured :: "DoraMetric \<Rightarrow> dims \<Rightarrow> DoraSample list \<Rightarrow> DoraResult list" where
  "measured metric dimensions samples =
     (if samples = [] then []
      else [\<lparr>dr_metric = metric,
             dr_value = median (map (\<lambda>s. case ds_value s of Some v \<Rightarrow> v | None \<Rightarrow> 0) samples),
             dr_unit = Seconds,
             dr_dimensions = dimensions,
             dr_sampleSize = length samples,
             dr_samples = takeRecent samples,
             dr_population = Some samples,
             dr_combinations = None\<rparr>])"

section \<open>Deployment frequency\<close>

definition deploymentFrequency :: "DeploymentEvent list \<Rightarrow> rat \<Rightarrow> DoraResult list" where
  "deploymentFrequency deployments days =
     (if days \<le> 0 then []
      else map (\<lambda>(_, items). \<lparr>dr_metric = Deployment_frequency,
              dr_value = of_nat (length items) / days,
              dr_unit = Per_day,
              dr_dimensions = de_dimensions (hd items),
              dr_sampleSize = length items,
              dr_samples = takeRecent (map deploymentSample items),
              dr_population = None,
              dr_combinations = None\<rparr>)
        (groupBy (dimensionKey \<circ> de_dimensions)
          (filter (\<lambda>d. de_status d = DSuccess) deployments)))"

section \<open>Which deployment carried a merged request\<close>

type_synonym Carriers = "(MergedPrEvent, DeploymentEvent list) jsmap"

record TimedDeployment =
  td_at :: instant
  td_deployment :: DeploymentEvent

record EnvironmentTimeline =
  et_all :: "TimedDeployment list"
  et_byComponent :: "(string, TimedDeployment list) jsmap"
  et_silent :: "TimedDeployment list"

type_synonym Timeline = "(string, (string, EnvironmentTimeline) jsmap) jsmap"

text \<open>\<open>if (!componentKey)\<close>: absent or empty.\<close>

definition designated :: "string option \<Rightarrow> string option" where
  "designated componentKey = (case componentKey of Some k \<Rightarrow> if k = [] then None else Some k | None \<Rightarrow> None)"

definition sameComponent :: "string option \<Rightarrow> dims \<Rightarrow> dims \<Rightarrow> bool" where
  "sameComponent componentKey pr deployment =
     (case designated componentKey of
        None \<Rightarrow> True
      | Some k \<Rightarrow> (case (map_of pr k, map_of deployment k) of
          (Some left, Some right) \<Rightarrow> left = right
        | _ \<Rightarrow> True))"

definition emptyTimeline :: EnvironmentTimeline where
  "emptyTimeline = \<lparr>et_all = [], et_byComponent = [], et_silent = []\<rparr>"

definition indexDeployment :: "string option \<Rightarrow> DeploymentEvent \<Rightarrow> EnvironmentTimeline \<Rightarrow> EnvironmentTimeline" where
  "indexDeployment componentKey deployment timeline =
     (let timed = \<lparr>td_at = de_createdAt deployment, td_deployment = deployment\<rparr>;
          timeline = timeline\<lparr>et_all := et_all timeline @ [timed]\<rparr>
      in case designated componentKey of
           None \<Rightarrow> timeline
         | Some k \<Rightarrow>
             (case map_of (de_dimensions deployment) k of
                None \<Rightarrow> timeline\<lparr>et_silent := et_silent timeline @ [timed]\<rparr>
              | Some component \<Rightarrow>
                  timeline\<lparr>et_byComponent :=
                    push_bucket (\<lambda>_. component) timed (et_byComponent timeline)\<rparr>))"

definition timelineStep :: "string option \<Rightarrow> DeploymentEvent \<Rightarrow> Timeline \<Rightarrow> Timeline" where
  "timelineStep componentKey deployment byRepo =
     (if de_status deployment \<noteq> DSuccess then byRepo
      else let environments = (case map_of byRepo (de_repo deployment) of Some e \<Rightarrow> e | None \<Rightarrow> []);
               timeline = (case map_of environments (de_environment deployment) of
                             Some t \<Rightarrow> t | None \<Rightarrow> emptyTimeline)
           in AList.update (de_repo deployment)
                (AList.update (de_environment deployment)
                   (indexDeployment componentKey deployment timeline) environments) byRepo)"

definition sortTimeline :: "EnvironmentTimeline \<Rightarrow> EnvironmentTimeline" where
  "sortTimeline timeline = \<lparr>
     et_all = sort_key td_at (et_all timeline),
     et_byComponent = map (\<lambda>(c, stated). (c, sort_key td_at stated)) (et_byComponent timeline),
     et_silent = sort_key td_at (et_silent timeline)\<rparr>"

definition successTimeline :: "DeploymentEvent list \<Rightarrow> string option \<Rightarrow> Timeline" where
  "successTimeline deployments componentKey =
     map (\<lambda>(repo, environments). (repo, map (\<lambda>(e, t). (e, sortTimeline t)) environments))
       (fold (timelineStep componentKey) deployments [])"

text \<open>The loop of \<open>firstAfter\<close>, on its bounds.\<close>

function bisect :: "TimedDeployment list \<Rightarrow> instant \<Rightarrow> nat \<Rightarrow> nat \<Rightarrow> nat" where
  "bisect sorted' ts low high =
     (if low < high
      then let mid = (low + high) div 2
           in if td_at (sorted' ! mid) < ts then bisect sorted' ts (mid + 1) high
              else bisect sorted' ts low mid
      else low)"
  by pat_completeness auto
termination by (relation "measure (\<lambda>(_, _, low, high). high - low)") auto

declare bisect.simps [simp del]

definition firstAfter :: "TimedDeployment list \<Rightarrow> instant \<Rightarrow> TimedDeployment option" where
  "firstAfter sorted' ts =
     (let low = bisect sorted' ts 0 (length sorted')
      in if low < length sorted' then Some (sorted' ! low) else None)"

definition earlier :: "TimedDeployment option \<Rightarrow> TimedDeployment option \<Rightarrow> TimedDeployment option" where
  "earlier a b = (case a of None \<Rightarrow> b | Some x \<Rightarrow>
     (case b of None \<Rightarrow> Some x | Some y \<Rightarrow> if td_at x \<le> td_at y then Some x else Some y))"

definition landingIn :: "string option \<Rightarrow> instant \<Rightarrow> EnvironmentTimeline \<Rightarrow> TimedDeployment option" where
  "landingIn component mergedAt environment =
     (case component of
        None \<Rightarrow> firstAfter (et_all environment) mergedAt
      | Some c \<Rightarrow> earlier
          (firstAfter (case map_of (et_byComponent environment) c of Some s \<Rightarrow> s | None \<Rightarrow> []) mergedAt)
          (firstAfter (et_silent environment) mergedAt))"

definition carryStep :: "Timeline \<Rightarrow> string option \<Rightarrow> MergedPrEvent \<Rightarrow> Carriers \<Rightarrow> Carriers" where
  "carryStep timeline componentKey pr carriers =
     (case map_of timeline (me_repo pr) of
        None \<Rightarrow> carriers
      | Some environments \<Rightarrow>
          let component = Option.bind (designated componentKey) (map_of (me_dimensions pr));
              landings = map td_deployment
                (List.map_filter (\<lambda>(_, e). landingIn component (me_mergedAt pr) e) environments)
          in if landings \<noteq> [] then AList.update pr landings carriers else carriers)"

definition carriedBy :: "MergedPrEvent list \<Rightarrow> DeploymentEvent list \<Rightarrow> string option \<Rightarrow> Carriers" where
  "carriedBy prs deployments componentKey =
     (let timeline = successTimeline deployments componentKey
      in fold (carryStep timeline componentKey) prs [])"

definition carriersOf :: "Carriers \<Rightarrow> MergedPrEvent \<Rightarrow> DeploymentEvent list" where
  "carriersOf carriers pr = (case map_of carriers pr of Some ds \<Rightarrow> ds | None \<Rightarrow> [])"

definition deploymentCarrying :: "MergedPrEvent \<Rightarrow> Carriers \<Rightarrow> DeploymentEvent option" where
  "deploymentCarrying pr carriers =
     fold (\<lambda>d earliest. case earliest of
         None \<Rightarrow> Some d
       | Some e \<Rightarrow> if de_createdAt d < de_createdAt e then Some d else Some e)
       (carriersOf carriers pr) None"

definition componentMismatches ::
  "MergedPrEvent list \<Rightarrow> Carriers \<Rightarrow> Carriers \<Rightarrow> string option \<Rightarrow> (string \<times> string) list" where
  "componentMismatches prs carriers byRepoAndTime componentKey =
     (case designated componentKey of
        None \<Rightarrow> []
      | Some k \<Rightarrow> map snd (fold (\<lambda>pr found.
          case map_of (me_dimensions pr) k of
            None \<Rightarrow> found
          | Some component \<Rightarrow>
              if map_of carriers pr \<noteq> None then found
              else if map_of byRepoAndTime pr = None then found
              else AList.update (me_repo pr @ [CHR 0x00] @ component) (me_repo pr, component) found)
          prs []))"

section \<open>The binary search\<close>

lemma bisect_spec:
  assumes "sorted (map td_at xs)" and "low \<le> high" and "high \<le> length xs"
    and "\<forall>i < low. td_at (xs ! i) < ts"
    and "\<forall>i. high \<le> i \<and> i < length xs \<longrightarrow> ts \<le> td_at (xs ! i)"
  shows "low \<le> bisect xs ts low high \<and> bisect xs ts low high \<le> high \<and>
    (\<forall>i < bisect xs ts low high. td_at (xs ! i) < ts) \<and>
    (\<forall>i. bisect xs ts low high \<le> i \<and> i < length xs \<longrightarrow> ts \<le> td_at (xs ! i))"
  using assms
proof (induction xs ts low high rule: bisect.induct)
  case (1 xs ts low high)
  have mono: "td_at (xs ! i) \<le> td_at (xs ! j)" if "i \<le> j" "j < length xs" for i j
    using sorted_nth_mono [OF "1.prems"(1), of i j] that by simp
  show ?case
  proof (cases "low < high")
    case False
    then have "bisect xs ts low high = low" by (simp add: bisect.simps)
    with False "1.prems" show ?thesis by simp
  next
    case True
    define mid where "mid = (low + high) div 2"
    have mid: "low \<le> mid" "mid < high" using True by (auto simp: mid_def)
    show ?thesis
    proof (cases "td_at (xs ! mid) < ts")
      case less: True
      have "\<forall>i < mid + 1. td_at (xs ! i) < ts"
      proof (intro allI impI)
        fix i assume "i < mid + 1"
        with mono [of i mid] mid less "1.prems"(3) show "td_at (xs ! i) < ts" by simp
      qed
      with "1.IH"(1) [OF True mid_def less] "1.prems" mid
      have ih: "mid + 1 \<le> bisect xs ts (mid + 1) high \<and> bisect xs ts (mid + 1) high \<le> high \<and>
        (\<forall>i < bisect xs ts (mid + 1) high. td_at (xs ! i) < ts) \<and>
        (\<forall>i. bisect xs ts (mid + 1) high \<le> i \<and> i < length xs \<longrightarrow> ts \<le> td_at (xs ! i))"
        by simp
      have "bisect xs ts low high = bisect xs ts (mid + 1) high"
        using True less by (simp add: bisect.simps [of xs ts low high] Let_def flip: mid_def)
      with ih mid show ?thesis by auto
    next
      case False
      have "\<forall>i. mid \<le> i \<and> i < length xs \<longrightarrow> ts \<le> td_at (xs ! i)"
      proof (intro allI impI)
        fix i assume "mid \<le> i \<and> i < length xs"
        with mono [of mid i] False show "ts \<le> td_at (xs ! i)" by simp
      qed
      with "1.IH"(2) [OF True mid_def False] "1.prems" mid
      have ih: "low \<le> bisect xs ts low mid \<and> bisect xs ts low mid \<le> mid \<and>
        (\<forall>i < bisect xs ts low mid. td_at (xs ! i) < ts) \<and>
        (\<forall>i. bisect xs ts low mid \<le> i \<and> i < length xs \<longrightarrow> ts \<le> td_at (xs ! i))"
        by simp
      have "bisect xs ts low high = bisect xs ts low mid"
        using True False by (simp add: bisect.simps [of xs ts low high] Let_def flip: mid_def)
      with ih mid show ?thesis by auto
    qed
  qed
qed

lemma find_at_index:
  assumes "\<forall>i < n. \<not> P (xs ! i)" and "n \<le> length xs" and "n < length xs \<Longrightarrow> P (xs ! n)"
  shows "find P xs = (if n < length xs then Some (xs ! n) else None)"
proof (cases "n < length xs")
  case True
  with assms show ?thesis by (auto simp: find_Some_iff)
next
  case False
  with assms show ?thesis by (auto simp: find_None_iff in_set_conv_nth)
qed

lemma firstAfter_find:
  assumes "sorted (map td_at xs)"
  shows "firstAfter xs ts = find (\<lambda>d. ts \<le> td_at d) xs"
proof -
  define n where "n = bisect xs ts 0 (length xs)"
  have "n \<le> length xs \<and> (\<forall>i < n. td_at (xs ! i) < ts) \<and>
      (\<forall>i. n \<le> i \<and> i < length xs \<longrightarrow> ts \<le> td_at (xs ! i))"
    using bisect_spec [OF assms, of 0 "length xs" ts] by (simp add: n_def)
  then have "find (\<lambda>d. ts \<le> td_at d) xs = (if n < length xs then Some (xs ! n) else None)"
    by (intro find_at_index) (auto simp: not_le)
  then show ?thesis by (simp add: firstAfter_def Let_def flip: n_def)
qed

text \<open>On a run sorted by date, the binary search returns exactly what a walk would: the first
  deployment not older than the instant asked about, or none.\<close>

theorem firstAfter_finds_what_a_walk_would:
  assumes "sorted (map td_at xs)"
  shows "firstAfter xs ts = find (\<lambda>d. ts \<le> td_at d) xs"
  using assms by (rule firstAfter_find)

definition sample_deployment :: "nat \<Rightarrow> string \<Rightarrow> instant \<Rightarrow> dims \<Rightarrow> DeploymentEvent" where
  "sample_deployment n env ts dims = \<lparr>de_ref = n, de_environment = env, de_repo = ''api'',
     de_status = DSuccess, de_createdAt = ts, de_dimensions = dims\<rparr>"

theorem firstAfter_finds_what_a_walk_would_witness:
  "let xs = map (\<lambda>n. \<lparr>td_at = int n, td_deployment = sample_deployment n ''prod'' (int n) []\<rparr>) [1, 3, 3, 7]
   in sorted (map td_at xs) \<and> firstAfter xs 2 = find (\<lambda>d. 2 \<le> td_at d) xs \<and>
      map_option (de_ref \<circ> td_deployment) (firstAfter xs 2) = Some 3"
proof -
  let ?xs = "map (\<lambda>n. \<lparr>td_at = int n, td_deployment = sample_deployment n ''prod'' (int n) []\<rparr>) [1, 3, 3, 7]"
  have s: "sorted (map td_at ?xs)" by simp
  have w: "map_option (de_ref \<circ> td_deployment) (find (\<lambda>d. 2 \<le> td_at d) ?xs) = Some 3"
    by (simp add: sample_deployment_def)
  note fa = firstAfter_finds_what_a_walk_would [OF s, of 2]
  show ?thesis unfolding Let_def by (intro conjI s fa) (unfold fa, rule w)
qed

section \<open>What the index holds\<close>

definition timed :: "DeploymentEvent \<Rightarrow> TimedDeployment" where
  "timed d = \<lparr>td_at = de_createdAt d, td_deployment = d\<rparr>"

lemma timed_sel [simp]: "td_at (timed d) = de_createdAt d" "td_deployment (timed d) = d"
  by (simp_all add: timed_def)

definition successesIn :: "DeploymentEvent list \<Rightarrow> string \<Rightarrow> string \<Rightarrow> DeploymentEvent list" where
  "successesIn ds repo env =
     filter (\<lambda>d. de_status d = DSuccess \<and> de_repo d = repo \<and> de_environment d = env) ds"

definition timelineAt :: "Timeline \<Rightarrow> string \<Rightarrow> string \<Rightarrow> EnvironmentTimeline option" where
  "timelineAt tm repo env = Option.bind (map_of tm repo) (\<lambda>es. map_of es env)"

lemma timelineAt_step:
  "timelineAt (timelineStep ck d tm) repo env =
     (if de_status d = DSuccess \<and> de_repo d = repo \<and> de_environment d = env
      then Some (indexDeployment ck d (case timelineAt tm repo env of Some t \<Rightarrow> t | None \<Rightarrow> emptyTimeline))
      else timelineAt tm repo env)"
  by (auto simp: timelineStep_def timelineAt_def Let_def update_conv' split: option.splits)

lemma timelineAt_fold:
  "timelineAt (fold (timelineStep ck) ds tm) repo env =
     (if successesIn ds repo env = [] then timelineAt tm repo env
      else Some (fold (indexDeployment ck) (successesIn ds repo env)
             (case timelineAt tm repo env of Some t \<Rightarrow> t | None \<Rightarrow> emptyTimeline)))"
  by (induction ds arbitrary: tm) (simp_all add: timelineAt_step successesIn_def)

definition distinct_keys :: "Timeline \<Rightarrow> bool" where
  [gp_bool]: "distinct_keys tm \<longleftrightarrow> distinct (map fst tm) \<and> (\<forall>e \<in> set tm. distinct (map fst (snd e)))"

lemma distinct_timelineStep [gp_inv]:
  assumes "distinct_keys tm"
  shows "distinct_keys (timelineStep ck d tm)"
proof (cases "de_status d = DSuccess")
  case True
  define es where "es = (case map_of tm (de_repo d) of Some e \<Rightarrow> e | None \<Rightarrow> [])"
  have "distinct (map fst es)"
    using assms map_of_SomeD [of tm "de_repo d"]
    by (auto simp: es_def distinct_keys_def split: option.split)
  moreover obtain t where "timelineStep ck d tm =
      AList.update (de_repo d) (AList.update (de_environment d) t es) tm"
    using True by (simp add: timelineStep_def Let_def es_def)
  ultimately show ?thesis
    using assms by (simp add: distinct_keys_def set_update_distinct distinct_update)
next
  case False
  with assms show ?thesis by (simp add: timelineStep_def)
qed

lemma distinct_timeline:
  assumes "map_of (fold (timelineStep ck) ds []) repo = Some es"
  shows "distinct (map fst es)"
proof -
  have "distinct_keys tm \<Longrightarrow> distinct_keys (fold (timelineStep ck) ds tm)" for tm
    by (induction ds arbitrary: tm) (simp_all add: distinct_timelineStep)
  from this [of "[]"] map_of_SomeD [OF assms] show ?thesis
    by (auto simp: distinct_keys_def)
qed

lemma index_all: "et_all (fold (indexDeployment ck) ds t) = et_all t @ map timed ds"
  by (induction ds arbitrary: t)
    (simp_all add: indexDeployment_def Let_def timed_def split: option.split)

definition componentOf :: "string option \<Rightarrow> dims \<Rightarrow> string option" where
  "componentOf ck dims = Option.bind (designated ck) (map_of dims)"

lemma index_silent:
  "designated ck = Some k \<Longrightarrow> et_silent (fold (indexDeployment ck) ds t) =
     et_silent t @ map timed (filter (\<lambda>d. componentOf ck (de_dimensions d) = None) ds)"
  by (induction ds arbitrary: t)
    (simp_all add: indexDeployment_def Let_def timed_def componentOf_def split: option.split)

lemma index_component:
  "designated ck = Some k \<Longrightarrow>
   (case map_of (et_byComponent (fold (indexDeployment ck) ds t)) c of Some s \<Rightarrow> s | None \<Rightarrow> []) =
     (case map_of (et_byComponent t) c of Some s \<Rightarrow> s | None \<Rightarrow> []) @
     map timed (filter (\<lambda>d. componentOf ck (de_dimensions d) = Some c) ds)"
proof (induction ds arbitrary: t)
  case (Cons d ds)
  then show ?case
    by (auto simp: indexDeployment_def Let_def timed_def componentOf_def map_of_push_bucket
        split: option.split)
qed simp

lemma map_of_map_value: "map_of (map (\<lambda>(k, v). (k, f v)) m) k = map_option f (map_of m k)"
  by (induction m) auto

section \<open>The correlation\<close>

text \<open>A deployment that may have carried a request, and the earliest of those.\<close>

definition may_carry :: "string option \<Rightarrow> MergedPrEvent \<Rightarrow> DeploymentEvent \<Rightarrow> bool" where
  "may_carry ck pr d \<longleftrightarrow> de_status d = DSuccess \<and> de_repo d = me_repo pr \<and>
     me_mergedAt pr \<le> de_createdAt d \<and> sameComponent ck (me_dimensions pr) (de_dimensions d)"

lemma sameComponent_alt:
  "sameComponent ck p d \<longleftrightarrow>
     (case componentOf ck p of None \<Rightarrow> True
      | Some c \<Rightarrow> componentOf ck d = None \<or> componentOf ck d = Some c)"
  by (auto simp: sameComponent_def componentOf_def split: option.splits)

lemma firstAfter_sorted_run:
  assumes "firstAfter (sort_key td_at (map timed ds)) ts = Some x"
  shows "\<exists>d \<in> set ds. x = timed d \<and> ts \<le> de_createdAt d \<and>
    (\<forall>d' \<in> set ds. ts \<le> de_createdAt d' \<longrightarrow> de_createdAt d \<le> de_createdAt d')"
proof -
  let ?s = "sort_key td_at (map timed ds)"
  have srt: "sorted (map td_at ?s)" by simp
  from assms firstAfter_find [OF srt] have "find (\<lambda>d. ts \<le> td_at d) ?s = Some x" by simp
  then obtain i where i: "i < length ?s" "ts \<le> td_at (?s ! i)" "x = ?s ! i"
    "\<forall>j < i. \<not> ts \<le> td_at (?s ! j)" by (auto simp: find_Some_iff)
  have "x \<in> set ?s" unfolding i(3) using i(1) by (rule nth_mem)
  then obtain d where d: "d \<in> set ds" "x = timed d" by auto
  moreover have "de_createdAt d \<le> de_createdAt d'" if "d' \<in> set ds" "ts \<le> de_createdAt d'" for d'
  proof -
    have "timed d' \<in> set ?s" using that(1) by simp
    then obtain j where j: "j < length ?s" "?s ! j = timed d'" unfolding in_set_conv_nth by blast
    with i(4) that(2) have "i \<le> j" by (metis not_le timed_sel(1))
    with srt j have "td_at (?s ! i) \<le> td_at (?s ! j)"
      using sorted_nth_mono [of "map td_at ?s" i j] by simp
    then show ?thesis unfolding j(2) i(3) [symmetric] d(2) by simp
  qed
  ultimately show ?thesis using i(2,3) by auto
qed

lemma firstAfter_none:
  "firstAfter (sort_key td_at (map timed ds)) ts = None \<Longrightarrow> d \<in> set ds \<Longrightarrow> de_createdAt d < ts"
  using firstAfter_find [of "sort_key td_at (map timed ds)" ts]
  by (auto simp: find_None_iff not_le)

lemma earlier_cases:
  "earlier a b = Some x \<Longrightarrow>
     (a = Some x \<or> b = Some x) \<and> (\<forall>y. a = Some y \<or> b = Some y \<longrightarrow> td_at x \<le> td_at y)"
  by (auto simp: earlier_def split: option.splits if_splits)

lemma earlier_None: "earlier a b = None \<longleftrightarrow> a = None \<and> b = None"
  by (auto simp: earlier_def split: option.splits)

text \<open>
  The landing in one environment, given that environment's successes: it is one of those that may
  carry the request, and none that may is earlier; none is found only when none may.
\<close>

lemma landingIn_spec:
  fixes pr ck
  defines "component \<equiv> componentOf ck (me_dimensions pr)"
  assumes ds: "\<And>d. d \<in> set ds \<Longrightarrow> de_status d = DSuccess \<and> de_repo d = me_repo pr"
    and r: "r = landingIn component (me_mergedAt pr)
      (sortTimeline (fold (indexDeployment ck) ds emptyTimeline))"
  shows "case r of
      None \<Rightarrow> \<forall>d \<in> set ds. \<not> may_carry ck pr d
    | Some x \<Rightarrow> \<exists>d \<in> set ds. x = timed d \<and> may_carry ck pr d \<and>
        (\<forall>d' \<in> set ds. may_carry ck pr d' \<longrightarrow> de_createdAt d \<le> de_createdAt d')"
proof -
  have mc: "may_carry ck pr d \<longleftrightarrow> me_mergedAt pr \<le> de_createdAt d \<and>
      (case component of None \<Rightarrow> True
       | Some c \<Rightarrow> componentOf ck (de_dimensions d) = None \<or> componentOf ck (de_dimensions d) = Some c)"
    if "d \<in> set ds" for d
    using ds [OF that] by (simp add: may_carry_def sameComponent_alt component_def split: option.split)
  show ?thesis
  proof (cases component)
    case None
    then have "r = firstAfter (sort_key td_at (map timed ds)) (me_mergedAt pr)"
      by (simp add: r landingIn_def sortTimeline_def index_all emptyTimeline_def)
    then show ?thesis
      using firstAfter_sorted_run [of ds "me_mergedAt pr"] firstAfter_none [of ds "me_mergedAt pr"] mc None
      by (fastforce split: option.split)
  next
    case (Some c)
    then obtain k where k: "designated ck = Some k"
      by (auto simp: component_def componentOf_def split: bind_splits)
    let ?A = "filter (\<lambda>d. componentOf ck (de_dimensions d) = Some c) ds"
    let ?B = "filter (\<lambda>d. componentOf ck (de_dimensions d) = None) ds"
    let ?fa = "\<lambda>xs. firstAfter (sort_key td_at (map timed xs)) (me_mergedAt pr)"
    have stated: "(case map_of (et_byComponent (sortTimeline (fold (indexDeployment ck) ds emptyTimeline))) c of
        Some s \<Rightarrow> s | None \<Rightarrow> []) = sort_key td_at (map timed ?A)"
      using index_component [OF k, of ds emptyTimeline c]
      by (simp add: sortTimeline_def map_of_map_value emptyTimeline_def split: option.splits)
    have silent: "et_silent (sortTimeline (fold (indexDeployment ck) ds emptyTimeline)) =
        sort_key td_at (map timed ?B)"
      using index_silent [OF k, of ds emptyTimeline] by (simp add: sortTimeline_def emptyTimeline_def)
    have r': "r = earlier (?fa ?A) (?fa ?B)"
      by (simp add: r landingIn_def Some stated silent)
    have cover: "d \<in> set ?A \<or> d \<in> set ?B" if "d \<in> set ds" "may_carry ck pr d" for d
      using mc [OF that(1)] that Some by auto
    show ?thesis
    proof (cases r)
      case None
      from r' None have none: "?fa ?A = None" "?fa ?B = None"
        using earlier_None by metis+
      note before = firstAfter_none [OF none(1)] firstAfter_none [OF none(2)]
      have "\<not> may_carry ck pr d" if "d \<in> set ds" for d
        using before [of d] cover [OF that] by (auto simp: may_carry_def)
      with None show ?thesis by simp
    next
      case (Some x)
      with r' earlier_cases [of "?fa ?A" "?fa ?B" x]
      have x: "?fa ?A = Some x \<or> ?fa ?B = Some x"
        and least: "\<And>y. ?fa ?A = Some y \<or> ?fa ?B = Some y \<Longrightarrow> td_at x \<le> td_at y" by auto
      from x obtain d where d: "d \<in> set ds" "x = timed d" "may_carry ck pr d"
        using firstAfter_sorted_run [of ?A "me_mergedAt pr" x] firstAfter_sorted_run [of ?B "me_mergedAt pr" x]
          mc \<open>component = Some c\<close> by fastforce
      have "de_createdAt d \<le> de_createdAt d'" if d': "d' \<in> set ds" "may_carry ck pr d'" for d'
      proof -
        have after: "me_mergedAt pr \<le> de_createdAt d'" using d' by (simp add: may_carry_def)
        have bound: "de_createdAt d \<le> de_createdAt d'" if "d' \<in> set X" "X = ?A \<or> X = ?B" for X
        proof (cases "?fa X")
          case None
          with firstAfter_none [OF None that(1)] after show ?thesis by simp
        next
          case (Some y)
          with firstAfter_sorted_run [OF Some] that(1) after have "td_at y \<le> de_createdAt d'"
            by auto
          moreover have "td_at x \<le> td_at y" using least Some that(2) by blast
          ultimately show ?thesis using d(2) by simp
        qed
        from cover [OF d'] bound show ?thesis by blast
      qed
      with d Some show ?thesis by auto
    qed
  qed
qed

lemma designated_bind: "Option.bind (designated ck) (map_of dims) = componentOf ck dims"
  by (simp add: componentOf_def)

definition landingsOf :: "Timeline \<Rightarrow> string option \<Rightarrow> MergedPrEvent \<Rightarrow> DeploymentEvent list" where
  "landingsOf tm ck pr = (case map_of tm (me_repo pr) of
      None \<Rightarrow> []
    | Some es \<Rightarrow> map td_deployment (List.map_filter
        (\<lambda>(_, e). landingIn (componentOf ck (me_dimensions pr)) (me_mergedAt pr) e) es))"

lemma carriersOf_fold:
  "carriersOf (fold (carryStep tm ck) prs m) pr =
     (if pr \<in> set prs \<and> landingsOf tm ck pr \<noteq> [] then landingsOf tm ck pr else carriersOf m pr)"
proof (induction prs arbitrary: m)
  case (Cons p prs)
  have "carriersOf (carryStep tm ck p m) pr =
      (if p = pr \<and> landingsOf tm ck pr \<noteq> [] then landingsOf tm ck pr else carriersOf m pr)"
    by (auto simp: carryStep_def landingsOf_def carriersOf_def Let_def designated_bind update_conv'
        split: option.splits)
  with Cons show ?case by auto
qed simp

lemma carriersOf_carriedBy:
  "carriersOf (carriedBy prs ds ck) pr =
     (if pr \<in> set prs then landingsOf (successTimeline ds ck) ck pr else [])"
  by (simp add: carriedBy_def Let_def carriersOf_fold) (simp add: carriersOf_def)

lemma timelineAt_success:
  "timelineAt (successTimeline ds ck) repo env =
     (if successesIn ds repo env = [] then None
      else Some (sortTimeline (fold (indexDeployment ck) (successesIn ds repo env) emptyTimeline)))"
proof -
  have "timelineAt (successTimeline ds ck) repo env =
      map_option sortTimeline (timelineAt (fold (timelineStep ck) ds []) repo env)"
    by (cases "map_of (fold (timelineStep ck) ds []) repo")
      (simp_all add: timelineAt_def successTimeline_def map_of_map_value)
  also have "timelineAt (fold (timelineStep ck) ds []) repo env =
      (if successesIn ds repo env = [] then None
       else Some (fold (indexDeployment ck) (successesIn ds repo env) emptyTimeline))"
    by (simp add: timelineAt_fold) (simp add: timelineAt_def)
  finally show ?thesis by simp
qed

lemma distinct_successTimeline:
  assumes "map_of (successTimeline ds ck) repo = Some es"
  shows "distinct (map fst es)"
proof -
  from assms obtain es0 where "map_of (fold (timelineStep ck) ds []) repo = Some es0"
    "es = map (\<lambda>(e, t). (e, sortTimeline t)) es0"
    by (auto simp: successTimeline_def map_of_map_value)
  with distinct_timeline show ?thesis by (simp add: split_def comp_def)
qed

lemma set_map_filter: "x \<in> set (List.map_filter f xs) \<longleftrightarrow> (\<exists>y \<in> set xs. f y = Some x)"
  by (force simp: List.map_filter_def)

lemma landingsOf_mem:
  "d \<in> set (landingsOf (successTimeline ds ck) ck pr) \<longleftrightarrow>
     (\<exists>env t x. timelineAt (successTimeline ds ck) (me_repo pr) env = Some t \<and>
        landingIn (componentOf ck (me_dimensions pr)) (me_mergedAt pr) t = Some x \<and> d = td_deployment x)"
proof (cases "map_of (successTimeline ds ck) (me_repo pr)")
  case None
  then show ?thesis by (simp add: landingsOf_def timelineAt_def)
next
  case (Some es)
  have es: "(env, t) \<in> set es \<longleftrightarrow> map_of es env = Some t" for env t
    using distinct_successTimeline [OF Some] by simp
  let ?l = "landingIn (componentOf ck (me_dimensions pr)) (me_mergedAt pr)"
  have "d \<in> set (landingsOf (successTimeline ds ck) ck pr) \<longleftrightarrow>
      (\<exists>x. d = td_deployment x \<and> (\<exists>env t. (env, t) \<in> set es \<and> ?l t = Some x))"
    unfolding landingsOf_def Some option.case set_map image_iff Bex_def set_map_filter by auto
  also have "\<dots> \<longleftrightarrow> (\<exists>env t x. map_of es env = Some t \<and> ?l t = Some x \<and> d = td_deployment x)"
    unfolding es by blast
  finally show ?thesis by (simp add: timelineAt_def Some)
qed

text \<open>The laws of a correlation, which is all its readers rely on.\<close>

locale correlation =
  fixes carriers :: Carriers
    and matches :: "MergedPrEvent \<Rightarrow> DeploymentEvent \<Rightarrow> bool"
    and requests :: "MergedPrEvent set"
    and shipped :: "DeploymentEvent set"
  assumes carrier_matches: "d \<in> set (carriersOf carriers pr) \<Longrightarrow>
      pr \<in> requests \<and> d \<in> shipped \<and> matches pr d"
    and carrier_first: "d \<in> set (carriersOf carriers pr) \<Longrightarrow> d' \<in> shipped \<Longrightarrow> matches pr d' \<Longrightarrow>
      de_environment d' = de_environment d \<Longrightarrow> de_createdAt d \<le> de_createdAt d'"
    and carrier_total: "pr \<in> requests \<Longrightarrow> d' \<in> shipped \<Longrightarrow> matches pr d' \<Longrightarrow>
      \<exists>d \<in> set (carriersOf carriers pr). de_environment d = de_environment d'"
begin

lemma reaches_iff:
  "pr \<in> requests \<Longrightarrow>
   (\<exists>d \<in> set (carriersOf carriers pr). de_environment d = env) \<longleftrightarrow>
   (\<exists>d \<in> shipped. matches pr d \<and> de_environment d = env)"
  using carrier_matches carrier_total by blast

lemma carrying_spec:
  "case deploymentCarrying pr carriers of
     None \<Rightarrow> carriersOf carriers pr = []
   | Some d \<Rightarrow> d \<in> set (carriersOf carriers pr) \<and>
       (\<forall>d' \<in> set (carriersOf carriers pr). de_createdAt d \<le> de_createdAt d')"
proof -
  have "case fold (\<lambda>d earliest. case earliest of None \<Rightarrow> Some d
        | Some e \<Rightarrow> if de_createdAt d < de_createdAt e then Some d else Some e) xs acc of
      None \<Rightarrow> xs = [] \<and> acc = None
    | Some d \<Rightarrow> (d \<in> set xs \<or> acc = Some d) \<and>
        (\<forall>d' \<in> set xs. de_createdAt d \<le> de_createdAt d') \<and>
        (\<forall>d'. acc = Some d' \<longrightarrow> de_createdAt d \<le> de_createdAt d')" for xs acc
  proof (induction xs arbitrary: acc)
    case Nil
    then show ?case by (simp split: option.split)
  next
    case (Cons x xs)
    show ?case
      using Cons.IH [of "case acc of None \<Rightarrow> Some x
        | Some e \<Rightarrow> if de_createdAt x < de_createdAt e then Some x else Some e"]
      by (auto split: option.splits if_splits)
  qed
  from this [of "carriersOf carriers pr" None] show ?thesis
    by (simp add: deploymentCarrying_def split: option.splits)
qed

text \<open>The deployment blame falls on is the first of all that may have carried the request.\<close>

lemma carrying_first:
  assumes "deploymentCarrying pr carriers = Some d"
  shows "d \<in> shipped" and "matches pr d"
    and "d' \<in> shipped \<Longrightarrow> matches pr d' \<Longrightarrow> de_createdAt d \<le> de_createdAt d'"
proof -
  from carrying_spec [of pr] assms have d: "d \<in> set (carriersOf carriers pr)"
    and least: "\<And>d'. d' \<in> set (carriersOf carriers pr) \<Longrightarrow> de_createdAt d \<le> de_createdAt d'" by auto
  from carrier_matches [OF d] show "d \<in> shipped" and "matches pr d" by auto
  assume d': "d' \<in> shipped" "matches pr d'"
  with carrier_total carrier_matches [OF d] obtain e where
    e: "e \<in> set (carriersOf carriers pr)" "de_environment e = de_environment d'" by blast
  from least [OF e(1)] carrier_first [OF e(1) d'] e(2) show "de_createdAt d \<le> de_createdAt d'"
    by simp
qed

lemma carrying_none:
  "deploymentCarrying pr carriers = None \<Longrightarrow> pr \<in> requests \<Longrightarrow> d \<in> shipped \<Longrightarrow> \<not> matches pr d"
  using carrying_spec [of pr] carrier_total [of pr d] by auto

end

interpretation carried: correlation "carriedBy prs ds ck" "may_carry ck" "set prs" "set ds"
  for prs ds ck
proof
  let ?tm = "successTimeline ds ck"
  have succ: "d \<in> set (successesIn ds (me_repo pr) env) \<longleftrightarrow>
      d \<in> set ds \<and> de_status d = DSuccess \<and> de_repo d = me_repo pr \<and> de_environment d = env"
    for d env and pr :: MergedPrEvent by (auto simp: successesIn_def)
  have land: "case landingIn (componentOf ck (me_dimensions pr)) (me_mergedAt pr) t of
      None \<Rightarrow> \<forall>d \<in> set (successesIn ds (me_repo pr) env). \<not> may_carry ck pr d
    | Some x \<Rightarrow> \<exists>d \<in> set (successesIn ds (me_repo pr) env). x = timed d \<and> may_carry ck pr d \<and>
        (\<forall>d' \<in> set (successesIn ds (me_repo pr) env). may_carry ck pr d' \<longrightarrow>
           de_createdAt d \<le> de_createdAt d')"
    if "timelineAt ?tm (me_repo pr) env = Some t" for pr env t
    using that succ
    by (intro landingIn_spec) (auto simp: timelineAt_success split: if_splits)
  have mem: "pr \<in> set prs \<and> (\<exists>env. d \<in> set (successesIn ds (me_repo pr) env) \<and> may_carry ck pr d \<and>
        (\<forall>d' \<in> set (successesIn ds (me_repo pr) env). may_carry ck pr d' \<longrightarrow>
           de_createdAt d \<le> de_createdAt d'))"
    if "d \<in> set (carriersOf (carriedBy prs ds ck) pr)" for d pr
  proof -
    from that have pr: "pr \<in> set prs" and "d \<in> set (landingsOf ?tm ck pr)"
      by (auto simp: carriersOf_carriedBy split: if_splits)
    then obtain env t x where "timelineAt ?tm (me_repo pr) env = Some t"
        "landingIn (componentOf ck (me_dimensions pr)) (me_mergedAt pr) t = Some x" "d = td_deployment x"
      by (auto simp: landingsOf_mem)
    with land [of pr env t] pr show ?thesis by auto
  qed
  fix pr d d'
  assume d: "d \<in> set (carriersOf (carriedBy prs ds ck) pr)"
  show "pr \<in> set prs \<and> d \<in> set ds \<and> may_carry ck pr d" using mem [OF d] succ by blast
  assume d': "d' \<in> set ds" "may_carry ck pr d'" "de_environment d' = de_environment d"
  then have "d' \<in> set (successesIn ds (me_repo pr) (de_environment d))"
    by (auto simp: succ may_carry_def)
  with mem [OF d] d' succ show "de_createdAt d \<le> de_createdAt d'" by metis
next
  let ?tm = "successTimeline ds ck"
  fix pr d'
  assume pr: "pr \<in> set prs" and d': "d' \<in> set ds" "may_carry ck pr d'"
  let ?env = "de_environment d'"
  have in': "d' \<in> set (successesIn ds (me_repo pr) ?env)"
    using d' by (auto simp: successesIn_def may_carry_def)
  then obtain t where t: "timelineAt ?tm (me_repo pr) ?env = Some t"
    by (cases "successesIn ds (me_repo pr) ?env") (auto simp: timelineAt_success)
  have t': "t = sortTimeline (fold (indexDeployment ck) (successesIn ds (me_repo pr) ?env) emptyTimeline)"
    using t by (simp add: timelineAt_success split: if_splits)
  have "case landingIn (componentOf ck (me_dimensions pr)) (me_mergedAt pr) t of
      None \<Rightarrow> \<forall>d \<in> set (successesIn ds (me_repo pr) ?env). \<not> may_carry ck pr d
    | Some x \<Rightarrow> \<exists>d \<in> set (successesIn ds (me_repo pr) ?env). x = timed d \<and> may_carry ck pr d \<and>
        (\<forall>d' \<in> set (successesIn ds (me_repo pr) ?env). may_carry ck pr d' \<longrightarrow>
           de_createdAt d \<le> de_createdAt d')"
    unfolding t' by (intro landingIn_spec) (auto simp: successesIn_def)
  with in' d'(2) obtain d where "d \<in> set (successesIn ds (me_repo pr) ?env)"
    "landingIn (componentOf ck (me_dimensions pr)) (me_mergedAt pr) t = Some (timed d)"
    by (auto split: option.splits)
  with t have "d \<in> set (landingsOf ?tm ck pr)" "de_environment d = ?env"
    by (auto simp: landingsOf_mem successesIn_def) (metis timed_sel(2))
  with pr show "\<exists>d \<in> set (carriersOf (carriedBy prs ds ck) pr). de_environment d = ?env"
    by (auto simp: carriersOf_carriedBy)
qed

lemma distinct_map_filter_keys:
  assumes "distinct (map fst es)" and "\<And>env t x. (env, t) \<in> set es \<Longrightarrow> f t = Some x \<Longrightarrow> g x = env"
  shows "distinct (map g (List.map_filter (\<lambda>(_, t). f t) es)) \<and>
    set (map g (List.map_filter (\<lambda>(_, t). f t) es)) \<subseteq> fst ` set es"
  using assms
proof (induction es)
  case (Cons e es)
  obtain env t where e: "e = (env, t)" by (cases e)
  have ih: "distinct (map g (List.map_filter (\<lambda>(_, t). f t) es))"
    "set (map g (List.map_filter (\<lambda>(_, t). f t) es)) \<subseteq> fst ` set es"
    using Cons.IH Cons.prems by (auto simp: list.set_intros(2))
  show ?case
    using ih Cons.prems(1) Cons.prems(2) [of env t] e by (cases "f t") auto
qed simp

lemma one_landing_per_environment:
  "distinct (map de_environment (carriersOf (carriedBy prs ds ck) pr))"
proof (cases "pr \<in> set prs \<and> map_of (successTimeline ds ck) (me_repo pr) \<noteq> None")
  case True
  let ?tm = "successTimeline ds ck"
  from True obtain es where es: "map_of ?tm (me_repo pr) = Some es" by auto
  let ?f = "landingIn (componentOf ck (me_dimensions pr)) (me_mergedAt pr)"
  have env: "de_environment (td_deployment x) = env" if "(env, t) \<in> set es" "?f t = Some x" for env t x
  proof -
    have tm: "timelineAt ?tm (me_repo pr) env = Some t"
      using that(1) distinct_successTimeline [OF es] by (simp add: timelineAt_def es)
    then have t: "t = sortTimeline (fold (indexDeployment ck) (successesIn ds (me_repo pr) env) emptyTimeline)"
      by (simp add: timelineAt_success split: if_splits)
    have "case ?f t of
        None \<Rightarrow> \<forall>d \<in> set (successesIn ds (me_repo pr) env). \<not> may_carry ck pr d
      | Some x \<Rightarrow> \<exists>d \<in> set (successesIn ds (me_repo pr) env). x = timed d \<and> may_carry ck pr d \<and>
          (\<forall>d' \<in> set (successesIn ds (me_repo pr) env). may_carry ck pr d' \<longrightarrow>
             de_createdAt d \<le> de_createdAt d')"
      unfolding t by (intro landingIn_spec) (auto simp: successesIn_def)
    with that(2) show ?thesis by (auto simp: successesIn_def)
  qed
  from distinct_map_filter_keys [OF distinct_successTimeline [OF es], of ?f "de_environment \<circ> td_deployment"] env
  show ?thesis using True by (simp add: carriersOf_carriedBy landingsOf_def es comp_def)
next
  case False
  then show ?thesis by (auto simp: carriersOf_carriedBy landingsOf_def)
qed

text \<open>C7. The indexed correlation (maps, sorted runs and binary searches) finds exactly what
  walking every deployment would. For a merged request it holds one deployment per environment the
  change reached: a success of the same repository and component, not older than the merge, and the
  earliest such one there; an environment with such a deployment is never left out.\<close>

theorem carriedBy_finds_the_first_landing_everywhere:
  "(\<forall>d \<in> set (carriersOf (carriedBy prs ds ck) pr).
      pr \<in> set prs \<and> d \<in> set ds \<and> may_carry ck pr d \<and>
      (\<forall>d' \<in> set ds. may_carry ck pr d' \<and> de_environment d' = de_environment d \<longrightarrow>
         de_createdAt d \<le> de_createdAt d')) \<and>
   distinct (map de_environment (carriersOf (carriedBy prs ds ck) pr)) \<and>
   (pr \<in> set prs \<longrightarrow> (\<forall>d' \<in> set ds. may_carry ck pr d' \<longrightarrow>
      (\<exists>d \<in> set (carriersOf (carriedBy prs ds ck) pr). de_environment d = de_environment d')))"
  using carried.carrier_matches carried.carrier_first carried.carrier_total one_landing_per_environment
  by blast

definition sample_request :: "nat \<Rightarrow> instant \<Rightarrow> dims \<Rightarrow> MergedPrEvent" where
  "sample_request n mergedAt dims = \<lparr>me_ref = n, me_repo = ''api'', me_number = int n, me_url = [],
     me_firstCommitAt = None, me_openedAt = 0, me_firstReviewAt = None, me_mergedAt = mergedAt,
     me_tickets = [], me_dimensions = dims\<rparr>"

lemmas correlation_defs = carriersOf_def carriedBy_def carryStep_def landingIn_def firstAfter_def
  bisect.simps earlier_def successTimeline_def timelineStep_def indexDeployment_def designated_def
  push_bucket_def emptyTimeline_def sortTimeline_def deploymentCarrying_def

theorem carriedBy_finds_the_first_landing_everywhere_witness:
  "let pr = sample_request 1 10 [(''component'', ''front'')];
       d1 = sample_deployment 1 ''prod'' 20 [(''component'', ''back'')];
       d2 = sample_deployment 2 ''prod'' 30 [(''component'', ''front'')];
       ck = Some ''component''
   in carriersOf (carriedBy [pr] [d1, d2] ck) pr = [d2] \<and> may_carry ck pr d2 \<and>
      (\<forall>d' \<in> {d1, d2}. may_carry ck pr d' \<and> de_environment d' = de_environment d2 \<longrightarrow>
         de_createdAt d2 \<le> de_createdAt d')"
proof -
  let ?pr = "sample_request 1 10 [(''component'', ''front'')]"
  let ?d1 = "sample_deployment 1 ''prod'' 20 [(''component'', ''back'')]"
  let ?d2 = "sample_deployment 2 ''prod'' 30 [(''component'', ''front'')]"
  have c: "carriersOf (carriedBy [?pr] [?d1, ?d2] (Some ''component'')) ?pr = [?d2]"
    by (simp add: correlation_defs sample_deployment_def sample_request_def Let_def)
  note all = carriedBy_finds_the_first_landing_everywhere
    [of "[?pr]" "[?d1, ?d2]" "Some ''component''" ?pr, THEN conjunct1, unfolded c list.set,
      THEN bspec, OF singletonI]
  from all have "may_carry (Some ''component'') ?pr ?d2"
    "\<forall>d' \<in> {?d1, ?d2}. may_carry (Some ''component'') ?pr d' \<and> de_environment d' = de_environment ?d2 \<longrightarrow>
       de_createdAt ?d2 \<le> de_createdAt d'"
    by blast+
  with c show ?thesis unfolding Let_def by blast
qed

text \<open>The deployment a merged request is blamed through is the very first of all those that may
  have carried it, whatever the environment, and there is one as soon as any may have.\<close>

theorem blame_falls_on_the_first_landing:
  "case deploymentCarrying pr (carriedBy prs ds ck) of
     None \<Rightarrow> pr \<in> set prs \<longrightarrow> (\<forall>d \<in> set ds. \<not> may_carry ck pr d)
   | Some d \<Rightarrow> d \<in> set ds \<and> may_carry ck pr d \<and>
       (\<forall>d' \<in> set ds. may_carry ck pr d' \<longrightarrow> de_createdAt d \<le> de_createdAt d')"
proof (cases "deploymentCarrying pr (carriedBy prs ds ck)")
  case None
  with carried.carrying_none [OF None] show ?thesis by simp
next
  case (Some d)
  with carried.carrying_first [OF Some] show ?thesis by simp
qed

theorem blame_falls_on_the_first_landing_witness:
  "let pr = sample_request 1 10 [];
       d1 = sample_deployment 1 ''prod'' 40 [];
       d2 = sample_deployment 2 ''staging'' 30 []
   in deploymentCarrying pr (carriedBy [pr] [d1, d2] None) = Some d2 \<and>
      (\<forall>d' \<in> {d1, d2}. may_carry None pr d' \<longrightarrow> de_createdAt d2 \<le> de_createdAt d')"
proof -
  let ?pr = "sample_request 1 10 []"
  let ?d1 = "sample_deployment 1 ''prod'' 40 []"
  let ?d2 = "sample_deployment 2 ''staging'' 30 []"
  have c: "deploymentCarrying ?pr (carriedBy [?pr] [?d1, ?d2] None) = Some ?d2"
    by (simp add: correlation_defs sample_deployment_def sample_request_def Let_def)
  from blame_falls_on_the_first_landing [of ?pr "[?pr]" "[?d1, ?d2]" None] c
  show ?thesis unfolding Let_def by simp
qed

end
