(* ===== verification/Dora_Readings.thy ===== *)
theory Dora_Readings
  imports Dora_Metrics
begin

text \<open>
  The readings of \<open>back/src/dora/dora-metrics.ts\<close> that rest on the correlation: which
  deployment an incident is blamed on, the change failure rate, the time to restore, the lead
  time and its segments, and the deploy time. \<open>Map\<close>s keyed by an event are association lists
  keyed by the event, whose identity field stands for the object.

  The lemmas show that blame follows a shared ticket to a deployment no later than the incident,
  that no incident is counted twice or lost, and what each median is taken over.
\<close>

section \<open>Blame\<close>

type_synonym Linked = "(DeploymentEvent, IncidentEvent list) jsmap"

definition ticketCarriers :: "MergedPrEvent list \<Rightarrow> Carriers \<Rightarrow> (string, DeploymentEvent) jsmap" where
  "ticketCarriers prs carriers = fold (\<lambda>pr carrier.
     case deploymentCarrying pr carriers of
       None \<Rightarrow> carrier
     | Some deployment \<Rightarrow>
         fold (\<lambda>ticket. AList.update (ticketKey ticket) deployment) (me_tickets pr) carrier) prs []"

text \<open>The ticket loop of one incident: the first ticket that leads to a deployment not later than it.\<close>

fun blamed :: "(string, DeploymentEvent) jsmap \<Rightarrow> instant \<Rightarrow> TicketRef list \<Rightarrow> DeploymentEvent option" where
  "blamed carrier openedAt [] = None"
| "blamed carrier openedAt (ticket # tickets) =
     (case map_of carrier (ticketKey ticket) of
        None \<Rightarrow> blamed carrier openedAt tickets
      | Some deployment \<Rightarrow>
          if de_createdAt deployment > openedAt then blamed carrier openedAt tickets
          else Some deployment)"

definition linkStep :: "(string, DeploymentEvent) jsmap \<Rightarrow> IncidentEvent \<Rightarrow> Linked \<Rightarrow> Linked" where
  "linkStep carrier incident linked =
     (case blamed carrier (ie_openedAt incident) (ie_tickets incident) of
        None \<Rightarrow> linked
      | Some deployment \<Rightarrow>
          (case map_of linked deployment of
             Some bucket \<Rightarrow>
               if incident \<in> set bucket then linked
               else AList.update deployment (bucket @ [incident]) linked
           | None \<Rightarrow> AList.update deployment [incident] linked))"

definition incidentsByDeployment ::
  "IncidentEvent list \<Rightarrow> MergedPrEvent list \<Rightarrow> Carriers \<Rightarrow> Linked" where
  "incidentsByDeployment incidents prs carriers =
     fold (linkStep (ticketCarriers prs carriers)) incidents []"

definition linkedTo :: "Linked \<Rightarrow> DeploymentEvent \<Rightarrow> IncidentEvent list" where
  "linkedTo linked d = (case map_of linked d of Some is \<Rightarrow> is | None \<Rightarrow> [])"

definition attributed :: "Linked \<Rightarrow> IncidentEvent set" where
  "attributed linked = set (concat (map snd linked))"

definition bucketOf :: "(dims, 'a list) jsmap \<Rightarrow> dims \<Rightarrow> 'a list" where
  "bucketOf m k = (case map_of m k of Some xs \<Rightarrow> xs | None \<Rightarrow> [])"

section \<open>Change failure rate\<close>

definition knownDeployments :: "DeploymentEvent list \<Rightarrow> DeploymentEvent list" where
  "knownDeployments deployments = filter (\<lambda>d. de_status d \<noteq> DOther) deployments"

definition unattributed :: "Linked \<Rightarrow> IncidentEvent list \<Rightarrow> IncidentEvent list" where
  "unattributed linked incidents = filter (\<lambda>i. i \<notin> attributed linked) incidents"

definition changeFailureRate ::
  "DeploymentEvent list \<Rightarrow> IncidentEvent list \<Rightarrow> FailureSource \<Rightarrow> Linked \<Rightarrow> DoraResult list" where
  "changeFailureRate deployments incidents source linked =
     (let incidentsByDimensions = groupBy (dimensionKey \<circ> ie_dimensions) (unattributed linked incidents)
      in map (\<lambda>(key, items).
           let failedDeploys = (if source = FromIncidents then []
                                else filter (\<lambda>d. de_status d = DFailed) items);
               related = (if source = FromPipelines then []
                          else concat (map (linkedTo linked) items) @ bucketOf incidentsByDimensions key);
               failures = length failedDeploys + length related
           in \<lparr>dr_metric = Change_failure_rate,
               dr_value = (if items \<noteq> [] then of_nat failures / of_nat (length items) else 0),
               dr_unit = Ratio,
               dr_dimensions = de_dimensions (hd items),
               dr_sampleSize = length items,
               dr_samples = takeRecentFailedFirst (map incidentSample related @ map deploymentSample items),
               dr_population = None,
               dr_combinations = None\<rparr>)
         (groupBy (dimensionKey \<circ> de_dimensions) (knownDeployments deployments)))"

definition orphanIncidentDimensions ::
  "DeploymentEvent list \<Rightarrow> IncidentEvent list \<Rightarrow> Linked \<Rightarrow> dims list" where
  "orphanIncidentDimensions deployments incidents linked =
     (let deployed = map fst (groupBy (dimensionKey \<circ> de_dimensions) (knownDeployments deployments))
      in map (\<lambda>(_, items). ie_dimensions (hd items))
           (filter (\<lambda>(key, _). key \<notin> set deployed)
             (groupBy (dimensionKey \<circ> ie_dimensions) (unattributed linked incidents))))"

section \<open>Time to restore\<close>

text \<open>The inner loop of \<open>mttr\<close> over the deployments of one environment, oldest first.\<close>

fun restores :: "DeploymentEvent list \<Rightarrow> DoraSample list" where
  "restores [] = []"
| "restores (d # ds) =
     (if de_status d \<noteq> DFailed then restores ds
      else case find (\<lambda>n. de_status n = DSuccess) ds of
        None \<Rightarrow> restores ds
      | Some next' \<Rightarrow>
          \<lparr>ds_label = de_environment d, ds_at = de_createdAt d,
           ds_value = Some (seconds (de_createdAt d) (de_createdAt next')),
           ds_status = Some DFailed, ds_url = None,
           ds_details = [(''repo'', DText (de_repo d)), (''restoredAt'', DDate (de_createdAt next'))]\<rparr>
          # restores ds)"

definition incidentRestores :: "IncidentEvent list \<Rightarrow> DoraSample list" where
  "incidentRestores related = List.map_filter (\<lambda>incident.
     case ie_resolvedAt incident of
       None \<Rightarrow> None
     | Some resolvedAt \<Rightarrow> Some ((incidentSample incident)
         \<lparr>ds_value := Some (clamp (seconds (ie_openedAt incident) resolvedAt))\<rparr>)) related"

definition deployableKey :: "DeploymentEvent \<Rightarrow> string" where
  "deployableKey d = de_repo d @ [CHR 0x00] @ de_environment d"

definition mttr ::
  "DeploymentEvent list \<Rightarrow> IncidentEvent list \<Rightarrow> FailureSource \<Rightarrow> Linked \<Rightarrow> DoraResult list" where
  "mttr deployments incidents source linked =
     (let deploysByDimensions =
            (if source = FromIncidents then [] else groupBy (dimensionKey \<circ> de_dimensions) deployments);
          incidentsByDimensions =
            (if source = FromPipelines then []
             else groupBy (dimensionKey \<circ> ie_dimensions) (unattributed linked incidents));
          keys = map fst deploysByDimensions @
            filter (\<lambda>k. k \<notin> fst ` set deploysByDimensions) (map fst incidentsByDimensions)
      in concat (map (\<lambda>key.
           let deploys = bucketOf deploysByDimensions key;
               related = (if source = FromPipelines then []
                          else concat (map (linkedTo linked) deploys) @ bucketOf incidentsByDimensions key);
               samples = concat (map (\<lambda>(_, envItems). restores (sort_key de_createdAt envItems))
                           (groupBy deployableKey deploys)) @ incidentRestores related
           in measured Mttr
                (case deploys of d # _ \<Rightarrow> de_dimensions d | [] \<Rightarrow> ie_dimensions (hd related))
                samples) keys))"

section \<open>Lead time\<close>

definition codingSamples :: "MergedPrEvent list \<Rightarrow> DoraSample list" where
  "codingSamples = List.map_filter (\<lambda>p. map_option (\<lambda>c. prSample p (clamp (seconds c (me_openedAt p))))
     (me_firstCommitAt p))"

definition leadSamples :: "MergedPrEvent list \<Rightarrow> DoraSample list" where
  "leadSamples = List.map_filter (\<lambda>p. map_option (\<lambda>c. prSample p (clamp (seconds c (me_mergedAt p))))
     (me_firstCommitAt p))"

definition pickupSamples :: "MergedPrEvent list \<Rightarrow> DoraSample list" where
  "pickupSamples = List.map_filter (\<lambda>p. map_option (\<lambda>r. prSample p (clamp (seconds (me_openedAt p) r)))
     (me_firstReviewAt p))"

definition reviewSamples :: "MergedPrEvent list \<Rightarrow> DoraSample list" where
  "reviewSamples = List.map_filter (\<lambda>p. map_option (\<lambda>r. prSample p (clamp (seconds r (me_mergedAt p))))
     (me_firstReviewAt p))"

definition leadTimeBreakdown :: "MergedPrEvent list \<Rightarrow> DoraResult list" where
  "leadTimeBreakdown prs = concat (map (\<lambda>(_, items).
     let dims = me_dimensions (hd items)
     in measured Coding_time dims (codingSamples items) @
        measured Pickup_time dims (pickupSamples items) @
        measured Review_time dims (reviewSamples items) @
        measured Lead_time dims (leadSamples items))
     (groupBy (dimensionKey \<circ> me_dimensions) prs))"

section \<open>Deploy time\<close>

definition landingSample :: "MergedPrEvent \<Rightarrow> DeploymentEvent \<Rightarrow> DoraSample" where
  "landingSample pr deployment =
     (prSample pr (clamp (seconds (me_mergedAt pr) (de_createdAt deployment))))
       \<lparr>ds_details := [(''openedAt'', DDate (me_openedAt pr)),
          (''environment'', DText (de_environment deployment)),
          (''deployedAt'', DDate (de_createdAt deployment))]\<rparr>"

definition landingStep ::
  "MergedPrEvent \<Rightarrow> DeploymentEvent \<Rightarrow> (dims, dims \<times> DoraSample list) jsmap \<Rightarrow>
   (dims, dims \<times> DoraSample list) jsmap" where
  "landingStep pr deployment samplesByKey =
     (let key = dimensionKey (de_dimensions deployment);
          (dimensions, samples) = (case map_of samplesByKey key of
             Some bucket \<Rightarrow> bucket | None \<Rightarrow> (de_dimensions deployment, []))
      in AList.update key (dimensions, samples @ [landingSample pr deployment]) samplesByKey)"

definition deployTime :: "MergedPrEvent list \<Rightarrow> Carriers \<Rightarrow> DoraResult list" where
  "deployTime prs carriers =
     concat (map (\<lambda>(_, dimensions, samples). measured Deploy_time dimensions samples)
       (fold (\<lambda>pr. fold (landingStep pr) (carriersOf carriers pr)) prs []))"

section \<open>Who is blamed\<close>

lemma blamed_Some:
  "blamed carrier openedAt ts = Some d \<Longrightarrow>
     de_createdAt d \<le> openedAt \<and> (\<exists>t \<in> set ts. map_of carrier (ticketKey t) = Some d)"
  by (induction ts) (auto split: option.splits if_splits)

lemma ticketCarriers_Some:
  assumes "map_of (ticketCarriers prs carriers) k = Some d"
  shows "\<exists>pr \<in> set prs. deploymentCarrying pr carriers = Some d \<and> (\<exists>t \<in> set (me_tickets pr). ticketKey t = k)"
proof -
  have inner: "map_of (fold (\<lambda>ticket. AList.update (ticketKey ticket) d0) ts m) k = Some d \<Longrightarrow>
      (d0 = d \<and> (\<exists>t \<in> set ts. ticketKey t = k)) \<or> map_of m k = Some d" for ts m d0
  proof (induction ts arbitrary: m)
    case (Cons t ts)
    from Cons.prems have "map_of (fold (\<lambda>ticket. AList.update (ticketKey ticket) d0) ts
        (AList.update (ticketKey t) d0 m)) k = Some d" by simp
    from Cons.IH [OF this] show ?case by (auto simp: update_conv' split: if_splits)
  qed simp
  have "map_of (fold (\<lambda>pr carrier. case deploymentCarrying pr carriers of
       None \<Rightarrow> carrier
     | Some deployment \<Rightarrow>
         fold (\<lambda>ticket. AList.update (ticketKey ticket) deployment) (me_tickets pr) carrier) prs m) k = Some d \<Longrightarrow>
     (\<exists>pr \<in> set prs. deploymentCarrying pr carriers = Some d \<and> (\<exists>t \<in> set (me_tickets pr). ticketKey t = k)) \<or>
     map_of m k = Some d" for m
  proof (induction prs arbitrary: m)
    case (Cons pr prs)
    show ?case
      using Cons.IH Cons.prems inner by (fastforce split: option.splits)
  qed simp
  from this [of "[]"] assms show ?thesis by (auto simp: ticketCarriers_def)
qed

abbreviation blameOf :: "(string, DeploymentEvent) jsmap \<Rightarrow> IncidentEvent \<Rightarrow> DeploymentEvent option" where
  "blameOf carrier i \<equiv> blamed carrier (ie_openedAt i) (ie_tickets i)"

lemma linkedTo_step:
  "i \<notin> set (linkedTo m d) \<Longrightarrow>
   linkedTo (linkStep carrier i m) d = linkedTo m d @ (if blameOf carrier i = Some d then [i] else [])"
  by (auto simp: linkStep_def linkedTo_def update_conv' split: option.splits)

lemma linkedTo_fold:
  assumes "distinct incs" and "\<forall>d. set (linkedTo m d) \<inter> set incs = {}"
  shows "linkedTo (fold (linkStep carrier) incs m) d =
    linkedTo m d @ filter (\<lambda>i. blameOf carrier i = Some d) incs"
  using assms
proof (induction incs arbitrary: m)
  case (Cons i incs)
  have step: "linkedTo (linkStep carrier i m) d =
      linkedTo m d @ (if blameOf carrier i = Some d then [i] else [])" for d
    using Cons.prems(2) by (intro linkedTo_step) auto
  have "\<forall>d. set (linkedTo (linkStep carrier i m) d) \<inter> set incs = {}"
    using Cons.prems by (auto simp: step)
  with Cons step show ?case by simp
qed simp

lemma linkedTo_incidents:
  "distinct incs \<Longrightarrow> linkedTo (incidentsByDeployment incs prs carriers) d =
     filter (\<lambda>i. blameOf (ticketCarriers prs carriers) i = Some d) incs"
  using linkedTo_fold [of incs "[]"] by (simp add: incidentsByDeployment_def) (simp add: linkedTo_def)

lemma distinct_linked: "distinct (map fst (incidentsByDeployment incs prs carriers))"
proof -
  have "distinct (map fst m) \<Longrightarrow> distinct (map fst (linkStep c i m))" for c i m
    by (auto simp: linkStep_def distinct_update split: option.split)
  then have "distinct (map fst m) \<Longrightarrow> distinct (map fst (fold (linkStep c) incs m))" for c m
    by (induction incs arbitrary: m) simp_all
  then show ?thesis by (simp add: incidentsByDeployment_def)
qed

lemma attributed_iff:
  assumes "distinct (map fst linked)"
  shows "i \<in> attributed linked \<longleftrightarrow> (\<exists>d. i \<in> set (linkedTo linked d))"
proof
  assume "i \<in> attributed linked"
  then obtain d b where "(d, b) \<in> set linked" "i \<in> set b" by (auto simp: attributed_def)
  with assms show "\<exists>d. i \<in> set (linkedTo linked d)" by (auto simp: linkedTo_def intro!: exI [of _ d])
next
  assume "\<exists>d. i \<in> set (linkedTo linked d)"
  then obtain d where d: "i \<in> set (linkedTo linked d)" ..
  then obtain b where "map_of linked d = Some b" "i \<in> set b"
    by (cases "map_of linked d") (auto simp: linkedTo_def)
  then show "i \<in> attributed linked"
    using map_of_SomeD [of linked d b] by (auto simp: attributed_def intro!: bexI [of _ "(d, b)"])
qed

lemma attributed_incidents:
  "distinct incs \<Longrightarrow> i \<in> attributed (incidentsByDeployment incs prs carriers) \<longleftrightarrow>
     i \<in> set incs \<and> blameOf (ticketCarriers prs carriers) i \<noteq> None"
  by (auto simp: attributed_iff [OF distinct_linked] linkedTo_incidents)

context correlation
begin

lemma blamed_deployment:
  assumes "blameOf (ticketCarriers prs carriers) i = Some d"
  shows "d \<in> shipped" and "de_createdAt d \<le> ie_openedAt i"
    and "\<exists>pr \<in> set prs. matches pr d \<and>
      (\<exists>t \<in> set (me_tickets pr). \<exists>t' \<in> set (ie_tickets i). ticketKey t = ticketKey t')"
proof -
  from blamed_Some [OF assms] obtain t' where t': "de_createdAt d \<le> ie_openedAt i"
    "t' \<in> set (ie_tickets i)" "map_of (ticketCarriers prs carriers) (ticketKey t') = Some d" by blast
  from ticketCarriers_Some [OF t'(3)] obtain pr t where
    pr: "pr \<in> set prs" "deploymentCarrying pr carriers = Some d" "t \<in> set (me_tickets pr)"
      "ticketKey t = ticketKey t'" by blast
  from carrying_first [OF pr(2)] pr t' show "d \<in> shipped" and "de_createdAt d \<le> ie_openedAt i"
    and "\<exists>pr \<in> set prs. matches pr d \<and>
      (\<exists>t \<in> set (me_tickets pr). \<exists>t' \<in> set (ie_tickets i). ticketKey t = ticketKey t')" by blast+
qed

end

text \<open>C8. An incident is blamed on at most one deployment, once, and only on a trail: a merged
  request and the incident mention the same ticket, the deployment may have carried that request,
  and it is not later than the incident.\<close>

theorem incident_blame_is_justified_and_unique:
  assumes "distinct incs"
    and linked: "linked = incidentsByDeployment incs prs (carriedBy prs ds ck)"
  shows "(\<forall>d. distinct (linkedTo linked d) \<and> (\<forall>i \<in> set (linkedTo linked d).
            i \<in> set incs \<and> d \<in> set ds \<and> de_createdAt d \<le> ie_openedAt i \<and>
            (\<exists>pr \<in> set prs. may_carry ck pr d \<and>
              (\<exists>t \<in> set (me_tickets pr). \<exists>t' \<in> set (ie_tickets i). ticketKey t = ticketKey t')))) \<and>
         (\<forall>d d' i. i \<in> set (linkedTo linked d) \<and> i \<in> set (linkedTo linked d') \<longrightarrow> d = d')"
  using assms(1) carried.blamed_deployment
  by (auto simp: linked linkedTo_incidents)

definition sample_ticket :: "string \<Rightarrow> TicketRef" where
  "sample_ticket k = \<lparr>tk_key = k, tk_url = None, tk_foundIn = Title,
     tk_tracker = \<lparr>trk_id = ''t'', trk_name = ''Jira'', trk_kind = Jira\<rparr>\<rparr>"

definition sample_incident :: "nat \<Rightarrow> instant \<Rightarrow> TicketRef list \<Rightarrow> dims \<Rightarrow> IncidentEvent" where
  "sample_incident n ts tickets dims = \<lparr>ie_ref = n, ie_key = ''INC'', ie_title = [], ie_url = [],
     ie_openedAt = ts, ie_resolvedAt = Some (ts + 5000), ie_repo = None, ie_tickets = tickets,
     ie_dimensions = dims\<rparr>"

lemmas blame_defs = incidentsByDeployment_def ticketCarriers_def linkStep_def linkedTo_def
  ticketKey_def attributed_def

theorem incident_blame_is_justified_and_unique_witness:
  "let i = sample_incident 1 50 [sample_ticket ''A-1''] [];
       pr = (sample_request 1 10 [])\<lparr>me_tickets := [sample_ticket ''A-1'']\<rparr>;
       d = sample_deployment 1 ''prod'' 20 [];
       linked = incidentsByDeployment [i] [pr] (carriedBy [pr] [d] None)
   in distinct [i] \<and> linkedTo linked d = [i] \<and> de_createdAt d \<le> ie_openedAt i \<and>
      (\<forall>d'. i \<in> set (linkedTo linked d') \<longrightarrow> d' = d)"
proof -
  let ?i = "sample_incident 1 50 [sample_ticket ''A-1''] []"
  let ?pr = "(sample_request 1 10 [])\<lparr>me_tickets := [sample_ticket ''A-1'']\<rparr>"
  let ?d = "sample_deployment 1 ''prod'' 20 []"
  have dist: "distinct [?i]" by simp
  have l: "linkedTo (incidentsByDeployment [?i] [?pr] (carriedBy [?pr] [?d] None)) ?d = [?i]"
    by (simp add: blame_defs correlation_defs sample_deployment_def sample_request_def
        sample_incident_def sample_ticket_def Let_def)
  note all = incident_blame_is_justified_and_unique [OF dist refl, of "[?pr]" "[?d]" None]
  from all [THEN conjunct1] l have "de_createdAt ?d \<le> ie_openedAt ?i" by (metis list.set_intros(1))
  moreover from all [THEN conjunct2] l have
    "\<forall>d'. ?i \<in> set (linkedTo (incidentsByDeployment [?i] [?pr] (carriedBy [?pr] [?d] None)) d') \<longrightarrow> d' = ?d"
    by (metis list.set_intros(1))
  ultimately show ?thesis using dist l unfolding Let_def by blast
qed

section \<open>The failure rate counts each incident once\<close>

lemma related_counts:
  assumes "(key, items) \<in> set (groupBy (dimensionKey \<circ> de_dimensions) (knownDeployments ds))"
  shows "(if items \<noteq> [] then of_nat n / of_nat (length items) else 0) * (of_nat (length items) :: rat) = of_nat n"
  using groupBy_entry(2) [OF assms] by simp

lemma knownDeployments_success: "d \<in> set ds \<Longrightarrow> de_status d = DSuccess \<Longrightarrow> d \<in> set (knownDeployments ds)"
  by (simp add: knownDeployments_def)

definition deployedKeys :: "DeploymentEvent list \<Rightarrow> dims set" where
  "deployedKeys ds = (dimensionKey \<circ> de_dimensions) ` set (knownDeployments ds)"

lemma sum_list_of_nat_add:
  "sum_list (map (\<lambda>e. of_nat (f e + g e)) xs) =
     (of_nat (sum_list (map f xs) + sum_list (map g xs)) :: rat)"
  by (induction xs) simp_all

lemma length_three_way:
  "length (filter P xs) + length (filter Q (filter (\<lambda>x. \<not> P x) xs)) +
     length (filter (\<lambda>x. \<not> P x \<and> \<not> Q x) xs) = length xs"
  by (induction xs) auto

lemma bucketOf_groupBy: "bucketOf (groupBy key xs) k = filter (\<lambda>x. key x = k) xs"
  by (auto simp: bucketOf_def map_of_groupBy)

text \<open>C9. Counted by incidents, the failure rate neither loses an incident nor counts one twice:
  over all the slices, the failures add up to the incidents, less those that no deployment is
  blamed for and whose slice deployed nothing (the ones \<open>orphanIncidentDimensions\<close> reports).\<close>

theorem failure_rate_counts_each_incident_once:
  assumes "distinct incs" and "distinct ds"
    and linked: "linked = incidentsByDeployment incs prs (carriedBy prs ds ck)"
  shows "sum_list (map (\<lambda>r. dr_value r * of_nat (dr_sampleSize r))
           (changeFailureRate ds incs FromIncidents linked)) +
         of_nat (length (filter (\<lambda>i. i \<notin> attributed linked \<and>
           dimensionKey (ie_dimensions i) \<notin> deployedKeys ds) incs)) =
         (of_nat (length incs) :: rat)"
proof -
  let ?known = "knownDeployments ds"
  let ?groups = "groupBy (dimensionKey \<circ> de_dimensions) ?known"
  let ?un = "unattributed linked incs"
  let ?blame = "blameOf (ticketCarriers prs (carriedBy prs ds ck))"
  have link: "linkedTo linked d = filter (\<lambda>i. ?blame i = Some d) incs" for d
    using assms(1) by (simp add: linked linkedTo_incidents)
  have att: "i \<in> attributed linked \<longleftrightarrow> i \<in> set incs \<and> ?blame i \<noteq> None" for i
    using assms(1) by (simp add: linked attributed_incidents)
  have "sum_list (map (\<lambda>r. dr_value r * of_nat (dr_sampleSize r))
      (changeFailureRate ds incs FromIncidents linked)) =
    sum_list (map (\<lambda>e. of_nat (length (concat (map (linkedTo linked) (snd e))) +
        length (filter (\<lambda>i. dimensionKey (ie_dimensions i) = fst e) ?un))) ?groups)"
  proof -
    have "map (\<lambda>r. dr_value r * of_nat (dr_sampleSize r)) (changeFailureRate ds incs FromIncidents linked) =
      map (\<lambda>e. of_nat (length (concat (map (linkedTo linked) (snd e))) +
        length (filter (\<lambda>i. dimensionKey (ie_dimensions i) = fst e) ?un))) ?groups"
      using related_counts
      by (auto simp: changeFailureRate_def Let_def bucketOf_groupBy simp del: of_nat_add)
    then show ?thesis by simp
  qed
  also have "\<dots> = of_nat (sum_list (map (\<lambda>e. length (concat (map (linkedTo linked) (snd e)))) ?groups) +
      sum_list (map (\<lambda>e. length (filter (\<lambda>i. dimensionKey (ie_dimensions i) = fst e) ?un)) ?groups))"
    by (rule sum_list_of_nat_add)
  also have "sum_list (map (\<lambda>e. length (concat (map (linkedTo linked) (snd e)))) ?groups) =
      length (filter (\<lambda>i. i \<in> attributed linked) incs)"
  proof -
    have "sum_list (map (\<lambda>e. length (concat (map (linkedTo linked) (snd e)))) ?groups) =
        sum_list (map (\<lambda>d. length (filter (\<lambda>i. ?blame i = Some d) incs)) ?known)"
      using groupBy_sum [of "\<lambda>d. length (linkedTo linked d)"]
      by (simp add: length_concat comp_def link)
    also have "\<dots> = sum_list (map (\<lambda>o'. length (filter (\<lambda>i. ?blame i = o') incs)) (map Some ?known))"
      by (simp add: comp_def)
    also have "\<dots> = length (filter (\<lambda>i. ?blame i \<in> set (map Some ?known)) incs)"
      using assms(2) by (intro sum_length_filter_keys) (simp add: distinct_map knownDeployments_def)
    also have "filter (\<lambda>i. ?blame i \<in> set (map Some ?known)) incs = filter (\<lambda>i. i \<in> attributed linked) incs"
    proof (rule filter_cong [OF refl])
      fix i assume i: "i \<in> set incs"
      have "d \<in> set ?known" if "?blame i = Some d" for d
        using carried.blamed_deployment(1,3) [OF that] knownDeployments_success
        by (auto simp: may_carry_def)
      with i show "?blame i \<in> set (map Some ?known) \<longleftrightarrow> i \<in> attributed linked"
        by (auto simp: att)
    qed
    finally show ?thesis .
  qed
  also have "sum_list (map (\<lambda>e. length (filter (\<lambda>i. dimensionKey (ie_dimensions i) = fst e) ?un)) ?groups) =
      length (filter (\<lambda>i. dimensionKey (ie_dimensions i) \<in> deployedKeys ds) ?un)"
    using sum_length_filter_keys [of "map fst ?groups" "dimensionKey \<circ> ie_dimensions" ?un]
      groupBy_keys [of "dimensionKey \<circ> de_dimensions" ?known]
    by (simp add: comp_def deployedKeys_def)
  also have "of_nat (length (filter (\<lambda>i. i \<in> attributed linked) incs) +
      length (filter (\<lambda>i. dimensionKey (ie_dimensions i) \<in> deployedKeys ds) ?un)) +
      of_nat (length (filter (\<lambda>i. i \<notin> attributed linked \<and>
           dimensionKey (ie_dimensions i) \<notin> deployedKeys ds) incs)) = (of_nat (length incs) :: rat)"
  proof -
    have "length (filter (\<lambda>i. i \<in> attributed linked) incs) +
        length (filter (\<lambda>i. dimensionKey (ie_dimensions i) \<in> deployedKeys ds) ?un) +
        length (filter (\<lambda>i. i \<notin> attributed linked \<and>
           dimensionKey (ie_dimensions i) \<notin> deployedKeys ds) incs) = length incs"
      unfolding unattributed_def by (rule length_three_way)
    then show ?thesis unfolding of_nat_add [symmetric] by (rule arg_cong)
  qed
  finally show ?thesis .
qed

theorem failure_rate_counts_each_incident_once_witness:
  "let incs = [sample_incident 1 50 [] [], sample_incident 2 60 [] [(''type'', ''qa'')]];
       ds = [sample_deployment 1 ''prod'' 20 []];
       linked = incidentsByDeployment incs [] (carriedBy [] ds None)
   in distinct incs \<and> distinct ds \<and>
      sum_list (map (\<lambda>r. dr_value r * of_nat (dr_sampleSize r))
        (changeFailureRate ds incs FromIncidents linked)) = 1"
proof -
  let ?incs = "[sample_incident 1 50 [] [], sample_incident 2 60 [] [(''type'', ''qa'')]]"
  let ?ds = "[sample_deployment 1 ''prod'' 20 []]"
  let ?linked = "incidentsByDeployment ?incs [] (carriedBy [] ?ds None)"
  have d: "distinct ?incs" "distinct ?ds" by (simp_all add: sample_incident_def)
  have "?linked = []"
    by (simp add: incidentsByDeployment_def ticketCarriers_def linkStep_def sample_incident_def)
  then have "length (filter (\<lambda>i. i \<notin> attributed ?linked \<and>
      dimensionKey (ie_dimensions i) \<notin> deployedKeys ?ds) ?incs) = 1"
    by (simp add: attributed_def deployedKeys_def knownDeployments_def sample_deployment_def
        sample_incident_def dimensionKey_def)
  with failure_rate_counts_each_incident_once [OF d refl, of "[]" None] d show ?thesis
    unfolding Let_def by simp
qed

section \<open>Medians\<close>

lemma sorted_median_halves:
  fixes xs :: "rat list"
  assumes "sorted xs" and "xs \<noteq> []"
  defines "n \<equiv> length xs"
  defines "m \<equiv> (if n mod 2 = 0 then (xs ! (n div 2 - 1) + xs ! (n div 2)) / 2 else xs ! (n div 2))"
  shows "n \<le> 2 * length (filter (\<lambda>x. x \<le> m) xs)" and "n \<le> 2 * length (filter (\<lambda>x. m \<le> x) xs)"
proof -
  have n: "0 < n" using assms(2) by (simp add: n_def)
  have mono: "xs ! i \<le> xs ! j" if "i \<le> j" "j < n" for i j
    using sorted_nth_mono [OF assms(1)] that by (simp add: n_def)
  define h where "h = (n - 1) div 2"
  have low: "xs ! i \<le> m" if "i \<le> h" for i
  proof (cases "n mod 2 = 0")
    case True
    then have "h = n div 2 - 1" "n div 2 < n" "0 < n div 2" "n div 2 - 1 < n"
      using n by (auto simp: h_def)
    with that mono [of i "n div 2 - 1"] mono [of "n div 2 - 1" "n div 2"] True show ?thesis
      by (simp add: m_def)
  next
    case False
    then have "h = n div 2" "n div 2 < n" using n by (auto simp: h_def) presburger
    with that mono [of i "n div 2"] False show ?thesis by (simp add: m_def)
  qed
  have high: "m \<le> xs ! i" if "n div 2 \<le> i" "i < n" for i
  proof (cases "n mod 2 = 0")
    case True
    then have "n div 2 < n" "n div 2 - 1 \<le> n div 2" using n by auto
    with that mono [of "n div 2" i] mono [of "n div 2 - 1" "n div 2"] True show ?thesis
      by (simp add: m_def)
  next
    case False
    with that mono [of "n div 2" i] show ?thesis by (simp add: m_def)
  qed
  have "n \<le> 2 * length (filter (\<lambda>x. x \<le> m) (take (h + 1) xs))"
  proof -
    have "filter (\<lambda>x. x \<le> m) (take (h + 1) xs) = take (h + 1) xs"
      using low by (auto simp: filter_id_conv in_set_conv_nth)
    moreover have "h + 1 \<le> length xs" using n unfolding h_def n_def by linarith
    then have "length (take (h + 1) xs) = h + 1" by simp
    ultimately show ?thesis using n by (simp add: h_def)
  qed
  also have "length (filter (\<lambda>x. x \<le> m) (take (h + 1) xs)) \<le> length (filter (\<lambda>x. x \<le> m) xs)"
    by (metis append_take_drop_id filter_append le_add1 length_append)
  finally show "n \<le> 2 * length (filter (\<lambda>x. x \<le> m) xs)" by simp
  have "filter (\<lambda>x. m \<le> x) (drop (n div 2) xs) = drop (n div 2) xs"
    using high by (auto simp: filter_id_conv in_set_conv_nth n_def)
  then have "n \<le> 2 * length (filter (\<lambda>x. m \<le> x) (drop (n div 2) xs))"
    by (simp add: n_def)
  also have "length (filter (\<lambda>x. m \<le> x) (drop (n div 2) xs)) \<le> length (filter (\<lambda>x. m \<le> x) xs)"
    by (metis append_take_drop_id filter_append le_add2 length_append)
  finally show "n \<le> 2 * length (filter (\<lambda>x. m \<le> x) xs)" by simp
qed

lemma median_sort: "values \<noteq> [] \<Longrightarrow> median values =
    (let s = sort values; n = length s in
     if n mod 2 = 0 then (s ! (n div 2 - 1) + s ! (n div 2)) / 2 else s ! (n div 2))"
  by (simp add: median_def Let_def)

lemma median_cong_mset: "mset xs = mset ys \<Longrightarrow> median xs = median ys"
proof -
  assume eq: "mset xs = mset ys"
  then have "sort xs = sort ys" by (intro properties_for_sort) simp_all
  moreover from eq have "xs = [] \<longleftrightarrow> ys = []" by (metis mset_zero_iff)
  ultimately show ?thesis by (simp add: median_def)
qed

lemma median_halves:
  assumes "values \<noteq> []"
  shows "length values \<le> 2 * length (filter (\<lambda>x. x \<le> median values) values) \<and>
         length values \<le> 2 * length (filter (\<lambda>x. median values \<le> x) values)"
proof -
  let ?s = "sort values"
  have len: "length (filter P ?s) = length (filter P values)" for P :: "rat \<Rightarrow> bool"
    by (metis mset_filter mset_sort size_mset)
  have ne: "?s \<noteq> []" using assms by (metis mset_sort mset_zero_iff)
  have med: "(if length ?s mod 2 = 0 then (?s ! (length ?s div 2 - 1) + ?s ! (length ?s div 2)) / 2
      else ?s ! (length ?s div 2)) = median values"
    using assms by (simp add: median_sort Let_def)
  from sorted_median_halves [OF sorted_sort ne] show ?thesis
    unfolding med len by simp
qed

text \<open>The median the readings report does not depend on the order the events are in, and splits
  them: at least half of the values are not above it and at least half are not below it.\<close>

theorem median_splits_the_values:
  assumes "values \<noteq> []"
  shows "length values \<le> 2 * length (filter (\<lambda>x. x \<le> median values) values) \<and>
         length values \<le> 2 * length (filter (\<lambda>x. median values \<le> x) values) \<and>
         (\<forall>other. mset other = mset values \<longrightarrow> median other = median values)"
  using median_halves [OF assms] median_cong_mset by blast

theorem median_splits_the_values_witness:
  "[4, 1, 3, 2] \<noteq> ([] :: rat list) \<and> median [4, 1, 3, 2] = 5 / 2 \<and>
   median [1, 2, 3, 4] = 5 / 2"
proof -
  have m: "median [4, 1, 3, 2] = 5 / 2" by (simp add: median_def Let_def)
  have e: "mset [1, 2, 3, 4] = mset [4, 1, 3, 2 :: rat]" by simp
  from median_splits_the_values [of "[4, 1, 3, 2]"] e have "median [1, 2, 3, 4] = median [4, 1, 3, 2]"
    by blast
  with m show ?thesis by simp
qed

section \<open>Restores\<close>

lemma restores_sound:
  assumes "sorted (map de_createdAt ds)" and "s \<in> set (restores ds)"
  shows "\<exists>f n. f \<in> set ds \<and> n \<in> set ds \<and> de_status f = DFailed \<and> de_status n = DSuccess \<and>
    de_createdAt f \<le> de_createdAt n \<and>
    ds_at s = de_createdAt f \<and> ds_value s = Some (seconds (de_createdAt f) (de_createdAt n)) \<and>
    (\<forall>m \<in> set ds. de_status m = DSuccess \<and> de_createdAt f < de_createdAt m \<longrightarrow>
       de_createdAt n \<le> de_createdAt m)"
  using assms
proof (induction ds)
  case (Cons d ds)
  have tail: ?case if "s \<in> set (restores ds)"
  proof -
    from Cons.IH Cons.prems(1) that obtain f n where fn: "f \<in> set ds" "n \<in> set ds"
      "de_status f = DFailed" "de_status n = DSuccess" "de_createdAt f \<le> de_createdAt n"
      "ds_at s = de_createdAt f" "ds_value s = Some (seconds (de_createdAt f) (de_createdAt n))"
      "\<forall>m \<in> set ds. de_status m = DSuccess \<and> de_createdAt f < de_createdAt m \<longrightarrow>
         de_createdAt n \<le> de_createdAt m" by auto
    have "de_createdAt d \<le> de_createdAt f" using Cons.prems(1) fn(1) by simp
    with fn show ?thesis by (intro exI [of _ f] exI [of _ n]) auto
  qed
  show ?case
  proof (cases "de_status d = DFailed \<and> s \<notin> set (restores ds)")
    case True
    with Cons.prems(2) obtain n where n: "find (\<lambda>n. de_status n = DSuccess) ds = Some n"
      "ds_at s = de_createdAt d" "ds_value s = Some (seconds (de_createdAt d) (de_createdAt n))"
      by (auto split: option.splits)
    from n(1) obtain i where i: "i < length ds" "de_status (ds ! i) = DSuccess" "n = ds ! i"
      "\<forall>j < i. de_status (ds ! j) \<noteq> DSuccess" by (auto simp: find_Some_iff)
    have srt: "sorted (map de_createdAt ds)" and le: "\<forall>x \<in> set ds. de_createdAt d \<le> de_createdAt x"
      using Cons.prems(1) by auto
    have "de_createdAt n \<le> de_createdAt m" if m: "m \<in> set ds" "de_status m = DSuccess" for m
    proof -
      from m obtain j where j: "j < length ds" "ds ! j = m" by (auto simp: in_set_conv_nth)
      with i(4) m(2) have "i \<le> j" by (metis not_le)
      with sorted_nth_mono [OF srt, of i j] i j show ?thesis by simp
    qed
    with True n i le show ?thesis
      by (intro exI [of _ d] exI [of _ n]) auto
  next
    case False
    with Cons.prems(2) tail show ?thesis by (auto split: if_splits)
  qed
qed simp

lemma restores_complete:
  "f \<in> set ds \<Longrightarrow> de_status f = DFailed \<Longrightarrow> n \<in> set ds \<Longrightarrow> de_status n = DSuccess \<Longrightarrow>
   de_createdAt f < de_createdAt n \<Longrightarrow> sorted (map de_createdAt ds) \<Longrightarrow>
   \<exists>s \<in> set (restores ds). ds_at s = de_createdAt f"
proof (induction ds)
  case (Cons d ds)
  show ?case
  proof (cases "f = d")
    case True
    with Cons.prems have "n \<in> set ds" by auto
    with Cons.prems(4) obtain n' where "find (\<lambda>n. de_status n = DSuccess) ds = Some n'"
      by (cases "find (\<lambda>n. de_status n = DSuccess) ds") (auto simp: find_None_iff)
    with True Cons.prems(2) show ?thesis by simp
  next
    case False
    with Cons.prems have "f \<in> set ds" and "n \<in> set ds" by auto
    with Cons show ?thesis by (auto split: option.split)
  qed
qed simp

lemma measured_mem:
  "r \<in> set (measured m d samples) \<longleftrightarrow> samples \<noteq> [] \<and>
     r = \<lparr>dr_metric = m, dr_value = median (map (\<lambda>s. case ds_value s of Some v \<Rightarrow> v | None \<Rightarrow> 0) samples),
          dr_unit = Seconds, dr_dimensions = d, dr_sampleSize = length samples,
          dr_samples = takeRecent samples, dr_population = Some samples, dr_combinations = None\<rparr>"
  by (auto simp: measured_def)

text \<open>The deployments of one slice of one deployable: what a restore is measured inside of.\<close>

definition sameSlice :: "DeploymentEvent \<Rightarrow> DeploymentEvent \<Rightarrow> bool" where
  "sameSlice f n \<longleftrightarrow> dimensionKey (de_dimensions f) = dimensionKey (de_dimensions n) \<and>
     de_repo f = de_repo n \<and> de_environment f = de_environment n"

text \<open>No repository is named with the separator of the key.\<close>

definition plainRepos :: "DeploymentEvent list \<Rightarrow> bool" where
  "plainRepos ds \<longleftrightarrow> list_all (\<lambda>d. CHR 0x00 \<notin> set (de_repo d)) ds"

lemma deployableKey_inject:
  assumes "plainRepos ds" and "d \<in> set ds" and "e \<in> set ds"
  shows "deployableKey d = deployableKey e \<longleftrightarrow> de_repo d = de_repo e \<and> de_environment d = de_environment e"
  using assms by (simp add: deployableKey_def plainRepos_def list_all_iff separated_inject)

text \<open>The samples \<open>mttr\<close> takes from the deployments of the slices, whatever the order.\<close>

lemma mttr_pipeline_samples:
  "(\<exists>r \<in> set (mttr ds incs FromPipelines linked). \<exists>p. dr_population r = Some p \<and> s \<in> set p) \<longleftrightarrow>
   (\<exists>d \<in> set ds. s \<in> set (restores (sort_key de_createdAt
      (filter (\<lambda>x. deployableKey x = deployableKey d)
        (filter (\<lambda>x. dimensionKey (de_dimensions x) = dimensionKey (de_dimensions d)) ds)))))"
proof -
  let ?k = "dimensionKey \<circ> de_dimensions"
  let ?slice = "\<lambda>key. filter (\<lambda>x. dimensionKey (de_dimensions x) = key) ds"
  let ?samples = "\<lambda>key. concat (map (\<lambda>(_, items). restores (sort_key de_createdAt items))
      (groupBy deployableKey (?slice key)))"
  have m: "mttr ds incs FromPipelines linked =
      concat (map (\<lambda>key. measured Mttr
        (case ?slice key of d # _ \<Rightarrow> de_dimensions d | [] \<Rightarrow> ie_dimensions (hd ([] :: IncidentEvent list))) (?samples key))
        (map fst (groupBy ?k ds)))"
    by (simp add: mttr_def Let_def bucketOf_groupBy incidentRestores_def)
  have keys: "set (map fst (groupBy ?k ds)) = ?k ` set ds" by (simp add: groupBy_keys)
  have "(\<exists>r \<in> set (mttr ds incs FromPipelines linked). \<exists>p. dr_population r = Some p \<and> s \<in> set p) \<longleftrightarrow>
      (\<exists>d \<in> set ds. s \<in> set (?samples (dimensionKey (de_dimensions d))))"
    unfolding m set_concat set_map keys [unfolded set_map]
    by (force simp: measured_mem)
  also have "\<dots> \<longleftrightarrow> (\<exists>d \<in> set ds. s \<in> set (restores (sort_key de_createdAt
      (filter (\<lambda>x. deployableKey x = deployableKey d) (?slice (dimensionKey (de_dimensions d)))))))"
    (is "?L = ?R")
  proof
    assume ?L
    then obtain d k items where d: "d \<in> set ds"
      and it: "(k, items) \<in> set (groupBy deployableKey (?slice (dimensionKey (de_dimensions d))))"
      and s: "s \<in> set (restores (sort_key de_createdAt items))" by auto
    note e = groupBy_entry [OF it]
    from e obtain x where x: "x \<in> set items" by (meson list.set_sel(1))
    with e(1) have "x \<in> set ds" "dimensionKey (de_dimensions x) = dimensionKey (de_dimensions d)"
      "deployableKey x = k" by auto
    with s e(1) show ?R by (intro bexI [of _ x]) simp_all
  next
    assume ?R
    then obtain d where d: "d \<in> set ds" and s: "s \<in> set (restores (sort_key de_createdAt
      (filter (\<lambda>x. deployableKey x = deployableKey d) (?slice (dimensionKey (de_dimensions d))))))" by blast
    from groupBy_bucket_member [of d "?slice (dimensionKey (de_dimensions d))" deployableKey] d
    have "(deployableKey d, filter (\<lambda>y. deployableKey y = deployableKey d)
        (?slice (dimensionKey (de_dimensions d)))) \<in>
        set (groupBy deployableKey (?slice (dimensionKey (de_dimensions d))))" by simp
    with d s show ?L by (intro bexI [of _ d]) (auto intro!: bexI)
  qed
  finally show ?thesis .
qed

text \<open>C10. Measured on pipelines, a time to restore runs from a failed deployment to the next success
  of the same deployable in the same slice, never to another deployable's, and is not negative;
  and every failure that was followed by such a success is measured (no repository being named
  with a NUL, the separator of the key).\<close>

theorem restores_pair_a_failure_with_the_next_success:
  assumes plain: "plainRepos ds"
  shows "(\<forall>r \<in> set (mttr ds incs FromPipelines linked). \<forall>p s. dr_population r = Some p \<and> s \<in> set p \<longrightarrow>
      (\<exists>f n. f \<in> set ds \<and> n \<in> set ds \<and> sameSlice f n \<and> de_status f = DFailed \<and> de_status n = DSuccess \<and>
         de_createdAt f \<le> de_createdAt n \<and> ds_at s = de_createdAt f \<and>
         ds_value s = Some (seconds (de_createdAt f) (de_createdAt n)) \<and>
         (\<forall>m \<in> set ds. sameSlice f m \<and> de_status m = DSuccess \<and> de_createdAt f < de_createdAt m \<longrightarrow>
            de_createdAt n \<le> de_createdAt m))) \<and>
   (\<forall>f \<in> set ds. \<forall>n \<in> set ds. sameSlice f n \<and> de_status f = DFailed \<and> de_status n = DSuccess \<and>
      de_createdAt f < de_createdAt n \<longrightarrow>
      (\<exists>r \<in> set (mttr ds incs FromPipelines linked). \<exists>p s. dr_population r = Some p \<and> s \<in> set p \<and>
         ds_at s = de_createdAt f))"
proof (intro conjI ballI allI impI)
  let ?run = "\<lambda>d. sort_key de_createdAt (filter (\<lambda>x. deployableKey x = deployableKey d)
        (filter (\<lambda>x. dimensionKey (de_dimensions x) = dimensionKey (de_dimensions d)) ds))"
  have mem: "x \<in> set (?run d) \<longleftrightarrow> x \<in> set ds \<and> sameSlice d x" if "d \<in> set ds" for x d
    using that deployableKey_inject [OF plain _ that, of x] by (auto simp: sameSlice_def)
  {
    fix r p s
    assume "r \<in> set (mttr ds incs FromPipelines linked)" "dr_population r = Some p \<and> s \<in> set p"
    then obtain d where d: "d \<in> set ds" and s: "s \<in> set (restores (?run d))"
      using mttr_pipeline_samples [of ds incs linked s] by blast
    from restores_sound [OF _ s] obtain f n where fn: "f \<in> set (?run d)" "n \<in> set (?run d)"
      "de_status f = DFailed" "de_status n = DSuccess" "de_createdAt f \<le> de_createdAt n"
      "ds_at s = de_createdAt f" "ds_value s = Some (seconds (de_createdAt f) (de_createdAt n))"
      "\<forall>m \<in> set (?run d). de_status m = DSuccess \<and> de_createdAt f < de_createdAt m \<longrightarrow>
         de_createdAt n \<le> de_createdAt m" by auto
    note mem = mem [OF d]
    have sl: "sameSlice f m \<longleftrightarrow> sameSlice d m" for m
      using fn(1) unfolding mem by (auto simp: sameSlice_def)
    have least: "de_createdAt n \<le> de_createdAt m"
      if "m \<in> set ds" "sameSlice f m \<and> de_status m = DSuccess \<and> de_createdAt f < de_createdAt m" for m
    proof -
      from that sl have "m \<in> set (?run d)" unfolding mem by simp
      with fn(8) that(2) show ?thesis by blast
    qed
    show "\<exists>f n. f \<in> set ds \<and> n \<in> set ds \<and> sameSlice f n \<and> de_status f = DFailed \<and>
         de_status n = DSuccess \<and> de_createdAt f \<le> de_createdAt n \<and> ds_at s = de_createdAt f \<and>
         ds_value s = Some (seconds (de_createdAt f) (de_createdAt n)) \<and>
         (\<forall>m \<in> set ds. sameSlice f m \<and> de_status m = DSuccess \<and> de_createdAt f < de_createdAt m \<longrightarrow>
            de_createdAt n \<le> de_createdAt m)"
    proof (rule exI [of _ f], rule exI [of _ n], intro conjI ballI impI)
      show "f \<in> set ds" "n \<in> set ds" "sameSlice f n"
        using fn(1,2) unfolding mem sl by simp_all
    qed (fact fn least)+
  }
  fix f n
  assume f: "f \<in> set ds" and n: "n \<in> set ds" and fn: "sameSlice f n \<and> de_status f = DFailed \<and>
    de_status n = DSuccess \<and> de_createdAt f < de_createdAt n"
  have in': "f \<in> set (?run f)" "n \<in> set (?run f)"
    unfolding mem [OF f] using f n fn by (simp_all add: sameSlice_def)
  have "\<exists>s \<in> set (restores (?run f)). ds_at s = de_createdAt f"
    by (rule restores_complete [OF in'(1) _ in'(2)]) (use fn in simp_all)
  then obtain s where "s \<in> set (restores (?run f))" "ds_at s = de_createdAt f" by blast
  with f mttr_pipeline_samples [of ds incs linked s]
  show "\<exists>r \<in> set (mttr ds incs FromPipelines linked). \<exists>p s. dr_population r = Some p \<and> s \<in> set p \<and>
      ds_at s = de_createdAt f" by blast
qed

theorem restores_pair_a_failure_with_the_next_success_witness:
  "let f = (sample_deployment 1 ''prod'' 1000 [])\<lparr>de_status := DFailed\<rparr>;
       n = sample_deployment 2 ''prod'' 61000 [];
       other = sample_deployment 3 ''staging'' 2000 []
   in sameSlice f n \<and> \<not> sameSlice f other \<and>
      (\<exists>r \<in> set (mttr [other, n, f] [] FromPipelines []). \<exists>p s. dr_population r = Some p \<and> s \<in> set p \<and>
         ds_at s = 1000)"
proof -
  let ?f = "(sample_deployment 1 ''prod'' 1000 [])\<lparr>de_status := DFailed\<rparr>"
  let ?n = "sample_deployment 2 ''prod'' 61000 []"
  let ?o = "sample_deployment 3 ''staging'' 2000 []"
  have s: "sameSlice ?f ?n \<and> \<not> sameSlice ?f ?o"
    by (simp add: sameSlice_def sample_deployment_def)
  have plain: "plainRepos [?o, ?n, ?f]" by (simp add: plainRepos_def sample_deployment_def)
  have "sameSlice ?f ?n \<and> de_status ?f = DFailed \<and> de_status ?n = DSuccess \<and>
      de_createdAt ?f < de_createdAt ?n \<and> de_createdAt ?f = 1000"
    using s by (simp add: sample_deployment_def)
  moreover have "?f \<in> set [?o, ?n, ?f]" "?n \<in> set [?o, ?n, ?f]" by simp_all
  ultimately have "\<exists>r \<in> set (mttr [?o, ?n, ?f] [] FromPipelines []). \<exists>p s. dr_population r = Some p \<and>
      s \<in> set p \<and> ds_at s = 1000"
    using restores_pair_a_failure_with_the_next_success [OF plain, of "[]" "[]", THEN conjunct2]
    by metis
  with s show ?thesis unfolding Let_def by blast
qed

section \<open>Lead time\<close>

lemma clamp_nonneg [simp]: "0 \<le> clamp x"
  by (simp add: clamp_def)

lemma sum_list_concat_map: "sum_list (map f (concat (map g xs))) = sum_list (map (\<lambda>x. sum_list (map f (g x))) xs)"
  by (induction xs) simp_all

lemma measured_size: "sum_list (map dr_sampleSize (measured m d samples)) = length samples"
  by (simp add: measured_def)

lemma length_map_filter: "length (List.map_filter f xs) = length (filter (\<lambda>x. f x \<noteq> None) xs)"
  by (simp add: List.map_filter_def comp_def)

definition sizeOf :: "DoraMetric \<Rightarrow> DoraResult list \<Rightarrow> nat" where
  "sizeOf m rs = sum_list (map dr_sampleSize (filter (\<lambda>r. dr_metric r = m) rs))"

lemma sizeOf_append [simp]: "sizeOf m (xs @ ys) = sizeOf m xs + sizeOf m ys"
  by (simp add: sizeOf_def)

lemma sizeOf_concat: "sizeOf m (concat xss) = sum_list (map (sizeOf m) xss)"
  by (induction xss) (simp_all add: sizeOf_def)

lemma sizeOf_measured: "sizeOf m (measured m' d samples) = (if m = m' then length samples else 0)"
  by (simp add: sizeOf_def measured_def)

lemma sizeOf_leadTimeBreakdown:
  assumes "\<And>items. sizeOf m (measured Coding_time (me_dimensions (hd items)) (codingSamples items) @
        measured Pickup_time (me_dimensions (hd items)) (pickupSamples items) @
        measured Review_time (me_dimensions (hd items)) (reviewSamples items) @
        measured Lead_time (me_dimensions (hd items)) (leadSamples items)) = length (filter P items)"
  shows "sizeOf m (leadTimeBreakdown prs) = length (filter P prs)"
proof -
  have "sizeOf m (leadTimeBreakdown prs) =
      sum_list (map (\<lambda>e. length (filter P (snd e))) (groupBy (dimensionKey \<circ> me_dimensions) prs))"
    by (simp add: leadTimeBreakdown_def sizeOf_concat comp_def Let_def split_def assms
        del: sizeOf_append)
  also have "\<dots> = length (filter P prs)"
    using groupBy_sum [of "\<lambda>x. if P x then (1 :: nat) else 0"] by (simp add: length_filter_sum)
  finally show ?thesis .
qed

text \<open>The lead time and its segments are read over exactly the requests that can be measured:
  across all the slices, coding time and lead time have one sample per request with a first
  commit, pickup and review time one per request with a first review, and no sample is negative.
  In a slice where nothing can be measured there is no reading at all, rather than a zero.\<close>

theorem lead_time_measures_what_it_can:
  "sizeOf Coding_time (leadTimeBreakdown prs) = length (filter (\<lambda>p. me_firstCommitAt p \<noteq> None) prs) \<and>
   sizeOf Lead_time (leadTimeBreakdown prs) = length (filter (\<lambda>p. me_firstCommitAt p \<noteq> None) prs) \<and>
   sizeOf Pickup_time (leadTimeBreakdown prs) = length (filter (\<lambda>p. me_firstReviewAt p \<noteq> None) prs) \<and>
   sizeOf Review_time (leadTimeBreakdown prs) = length (filter (\<lambda>p. me_firstReviewAt p \<noteq> None) prs) \<and>
   (\<forall>r \<in> set (leadTimeBreakdown prs). 0 < dr_sampleSize r \<and>
      (\<exists>p. dr_population r = Some p \<and> length p = dr_sampleSize r \<and>
         (\<forall>s \<in> set p. \<exists>v. ds_value s = Some v \<and> 0 \<le> v)))"
proof (intro conjI)
  have all: "0 < dr_sampleSize r \<and> (\<exists>p. dr_population r = Some p \<and> length p = dr_sampleSize r \<and>
         (\<forall>s \<in> set p. \<exists>v. ds_value s = Some v \<and> 0 \<le> v))"
    if "r \<in> set (measured m d samples)" "\<forall>s \<in> set samples. \<exists>v. ds_value s = Some v \<and> 0 \<le> v" for r m d samples
    using that by (auto simp: measured_mem)
  have samples: "\<forall>s \<in> set (codingSamples items) \<union> set (pickupSamples items) \<union> set (reviewSamples items) \<union>
      set (leadSamples items). \<exists>v. ds_value s = Some v \<and> 0 \<le> v" for items
    by (auto simp: codingSamples_def pickupSamples_def reviewSamples_def leadSamples_def
        set_map_filter prSample_def)
  show "\<forall>r \<in> set (leadTimeBreakdown prs). 0 < dr_sampleSize r \<and>
      (\<exists>p. dr_population r = Some p \<and> length p = dr_sampleSize r \<and>
         (\<forall>s \<in> set p. \<exists>v. ds_value s = Some v \<and> 0 \<le> v))"
  proof
    fix r assume "r \<in> set (leadTimeBreakdown prs)"
    then obtain items m d ss where "r \<in> set (measured m d ss)"
      "ss = codingSamples items \<or> ss = pickupSamples items \<or> ss = reviewSamples items \<or> ss = leadSamples items"
      by (auto simp: leadTimeBreakdown_def Let_def)
    with all samples [of items] show "0 < dr_sampleSize r \<and>
      (\<exists>p. dr_population r = Some p \<and> length p = dr_sampleSize r \<and>
         (\<forall>s \<in> set p. \<exists>v. ds_value s = Some v \<and> 0 \<le> v))" by blast
  qed
qed (simp_all add: sizeOf_leadTimeBreakdown sizeOf_measured length_map_filter codingSamples_def
    leadSamples_def pickupSamples_def reviewSamples_def)

theorem lead_time_measures_what_it_can_witness:
  "let prs = [(sample_request 1 9000 [])\<lparr>me_firstCommitAt := Some 4000\<rparr>, sample_request 2 5000 []]
   in sizeOf Lead_time (leadTimeBreakdown prs) = 1 \<and> sizeOf Pickup_time (leadTimeBreakdown prs) = 0 \<and>
      (\<forall>r \<in> set (leadTimeBreakdown prs). 0 < dr_sampleSize r)"
  using lead_time_measures_what_it_can
    [of "[(sample_request 1 9000 [])\<lparr>me_firstCommitAt := Some 4000\<rparr>, sample_request 2 5000 []]"]
  by (simp add: sample_request_def Let_def)

section \<open>Deploy time\<close>

text \<open>What the buckets of \<open>deployTime\<close> hold: every sample is a landing of the bucket's slice.\<close>

definition bucket_ok ::
  "Carriers \<Rightarrow> MergedPrEvent list \<Rightarrow> (dims, dims \<times> DoraSample list) jsmap \<Rightarrow> bool" where
  "bucket_ok carriers prs m \<longleftrightarrow> distinct (map fst m) \<and>
     (\<forall>(key, dimensions, samples) \<in> set m. samples \<noteq> [] \<and> dimensionKey dimensions = key \<and>
        (\<forall>s \<in> set samples. \<exists>pr d. pr \<in> set prs \<and> d \<in> set (carriersOf carriers pr) \<and>
           s = landingSample pr d \<and> dimensionKey (de_dimensions d) = key))"

definition landings_held :: "(dims, dims \<times> DoraSample list) jsmap \<Rightarrow> nat" where
  "landings_held m = sum_list (map (\<lambda>e. length (snd (snd e))) m)"

lemma landings_held_update:
  "distinct (map fst m) \<Longrightarrow> landings_held (AList.update k (dms, ss @ [x]) m) =
     Suc (landings_held m + length ss) -
       (case map_of m k of Some b \<Rightarrow> length (snd b) | None \<Rightarrow> 0)"
proof (induction m)
  case (Cons e m)
  obtain k' b where e: "e = (k', b)" by (cases e)
  have "(case map_of m k of Some b \<Rightarrow> length (snd b) | None \<Rightarrow> 0) \<le> landings_held m"
    by (induction m) (auto simp: landings_held_def split: option.splits)
  with Cons e show ?case by (cases "k' = k") (auto simp: landings_held_def)
qed (simp add: landings_held_def)

lemma landingStep_held:
  "distinct (map fst m) \<Longrightarrow> landings_held (landingStep pr d m) = Suc (landings_held m)"
  using landings_held_update [of m _ _ "[]"]
  by (auto simp: landingStep_def Let_def landings_held_update split: option.split prod.split)

lemma bucket_ok_step:
  assumes ok: "bucket_ok carriers prs m" and pr: "pr \<in> set prs" "d \<in> set (carriersOf carriers pr)"
  shows "bucket_ok carriers prs (landingStep pr d m)"
proof -
  let ?k = "dimensionKey (de_dimensions d)"
  obtain dms ss where b: "(case map_of m ?k of Some b \<Rightarrow> b | None \<Rightarrow> (de_dimensions d, [])) = (dms, ss)"
    by (metis surj_pair)
  have step: "landingStep pr d m = AList.update ?k (dms, ss @ [landingSample pr d]) m"
    by (simp add: landingStep_def Let_def b)
  have old: "dimensionKey dms = ?k \<and> (\<forall>s \<in> set ss. \<exists>pr d. pr \<in> set prs \<and> d \<in> set (carriersOf carriers pr) \<and>
           s = landingSample pr d \<and> dimensionKey (de_dimensions d) = ?k)"
  proof (cases "map_of m ?k")
    case None with b show ?thesis by simp
  next
    case (Some v)
    with b have "(?k, dms, ss) \<in> set m" using map_of_SomeD [OF Some] by simp
    with ok show ?thesis unfolding bucket_ok_def by fastforce
  qed
  have dist: "distinct (map fst m)" using ok by (simp add: bucket_ok_def)
  have new: "\<forall>s \<in> set (ss @ [landingSample pr d]). \<exists>pr d. pr \<in> set prs \<and> d \<in> set (carriersOf carriers pr) \<and>
           s = landingSample pr d \<and> dimensionKey (de_dimensions d) = ?k"
    using old pr by auto
  show ?thesis
    unfolding bucket_ok_def step set_update_distinct [OF dist]
  proof (intro conjI ballI)
    show "distinct (map fst (AList.update ?k (dms, ss @ [landingSample pr d]) m))"
      using dist by (rule distinct_keys_update)
    fix e
    assume "e \<in> insert (?k, dms, ss @ [landingSample pr d]) {e \<in> set m. fst e \<noteq> ?k}"
    then show "case e of (key, dimensions, samples) \<Rightarrow> samples \<noteq> [] \<and> dimensionKey dimensions = key \<and>
        (\<forall>s \<in> set samples. \<exists>pr d. pr \<in> set prs \<and> d \<in> set (carriersOf carriers pr) \<and>
           s = landingSample pr d \<and> dimensionKey (de_dimensions d) = key)"
    proof
      assume "e = (?k, dms, ss @ [landingSample pr d])"
      with old new show ?thesis by simp
    next
      assume "e \<in> {e \<in> set m. fst e \<noteq> ?k}"
      with ok show ?thesis unfolding bucket_ok_def by blast
    qed
  qed
qed

lemma deployTime_fold:
  assumes "set prs' \<subseteq> set prs" and "bucket_ok carriers prs m"
  defines "m' \<equiv> fold (\<lambda>pr. fold (landingStep pr) (carriersOf carriers pr)) prs' m"
  shows "bucket_ok carriers prs m' \<and>
    landings_held m' = landings_held m + sum_list (map (\<lambda>pr. length (carriersOf carriers pr)) prs')"
  unfolding m'_def using assms(1,2)
proof (induction prs' arbitrary: m)
  case (Cons pr prs')
  have inner: "set ds \<subseteq> set (carriersOf carriers pr) \<Longrightarrow> bucket_ok carriers prs m \<Longrightarrow>
      bucket_ok carriers prs (fold (landingStep pr) ds m) \<and>
      landings_held (fold (landingStep pr) ds m) = landings_held m + length ds" for ds m
  proof (induction ds arbitrary: m)
    case (Cons d ds)
    have "distinct (map fst m)" using Cons.prems(2) by (simp add: bucket_ok_def)
    with Cons.IH [of "landingStep pr d m"] Cons.prems bucket_ok_step [of carriers prs m pr d]
      \<open>set (pr # prs') \<subseteq> set prs\<close>
    show ?case by (simp add: landingStep_held)
  qed simp
  from inner [of "carriersOf carriers pr" m] Cons show ?case by simp
qed simp

text \<open>The deploy time measures every landing once: a request that reached two environments is two
  samples, each filed under the slice of the deployment that carried it, and each is exactly the
  time from the merge to that deployment, which the correlation keeps from being negative.\<close>

theorem deploy_time_measures_every_landing_once:
  assumes carriers: "carriers = carriedBy prs ds ck"
  shows "sizeOf Deploy_time (deployTime prs carriers) =
       sum_list (map (\<lambda>pr. length (carriersOf carriers pr)) prs) \<and>
     (\<forall>r \<in> set (deployTime prs carriers). \<exists>p. dr_population r = Some p \<and> p \<noteq> [] \<and>
        (\<forall>s \<in> set p. \<exists>pr d. pr \<in> set prs \<and> d \<in> set (carriersOf carriers pr) \<and>
           dimensionKey (dr_dimensions r) = dimensionKey (de_dimensions d) \<and>
           ds_value s = Some (seconds (me_mergedAt pr) (de_createdAt d)) \<and>
           0 \<le> seconds (me_mergedAt pr) (de_createdAt d)))"
proof -
  let ?m = "fold (\<lambda>pr. fold (landingStep pr) (carriersOf carriers pr)) prs []"
  have "bucket_ok carriers prs []" by (simp add: bucket_ok_def)
  from deployTime_fold [OF subset_refl this] have
    ok: "bucket_ok carriers prs ?m" and
    n: "landings_held ?m = sum_list (map (\<lambda>pr. length (carriersOf carriers pr)) prs)"
    by (simp_all add: landings_held_def)
  have after: "0 \<le> seconds (me_mergedAt pr) (de_createdAt d)"
    if "d \<in> set (carriersOf carriers pr)" for pr d
    using that carried.carrier_matches [of d prs ds ck pr] by (simp add: carriers may_carry_def seconds_def)
  have "sizeOf Deploy_time (deployTime prs carriers) = landings_held ?m"
    by (simp add: deployTime_def sizeOf_concat landings_held_def comp_def split_def sizeOf_measured)
  moreover have "\<exists>p. dr_population r = Some p \<and> p \<noteq> [] \<and>
        (\<forall>s \<in> set p. \<exists>pr d. pr \<in> set prs \<and> d \<in> set (carriersOf carriers pr) \<and>
           dimensionKey (dr_dimensions r) = dimensionKey (de_dimensions d) \<and>
           ds_value s = Some (seconds (me_mergedAt pr) (de_createdAt d)) \<and>
           0 \<le> seconds (me_mergedAt pr) (de_createdAt d))"
    if "r \<in> set (deployTime prs carriers)" for r
  proof -
    from that obtain key dms samples where e: "(key, dms, samples) \<in> set ?m"
      and r: "r \<in> set (measured Deploy_time dms samples)" by (auto simp: deployTime_def)
    from ok e have b: "samples \<noteq> []" "dimensionKey dms = key"
      "\<forall>s \<in> set samples. \<exists>pr d. pr \<in> set prs \<and> d \<in> set (carriersOf carriers pr) \<and>
           s = landingSample pr d \<and> dimensionKey (de_dimensions d) = key"
      unfolding bucket_ok_def by blast+
    have val: "ds_value (landingSample pr d) = Some (clamp (seconds (me_mergedAt pr) (de_createdAt d)))" for pr d
      by (simp add: landingSample_def prSample_def)
    from r have "dr_population r = Some samples" "dr_dimensions r = dms" by (auto simp: measured_mem)
    with b after val show ?thesis by (fastforce simp: clamp_def)
  qed
  ultimately show ?thesis using n by simp
qed

theorem deploy_time_measures_every_landing_once_witness:
  "let pr = sample_request 1 10 [];
       ds = [sample_deployment 1 ''prod'' 40 [], sample_deployment 2 ''staging'' 30 []];
       carriers = carriedBy [pr] ds None
   in sizeOf Deploy_time (deployTime [pr] carriers) = 2 \<and>
      (\<forall>r \<in> set (deployTime [pr] carriers). dr_population r \<noteq> None)"
proof -
  let ?pr = "sample_request 1 10 []"
  let ?ds = "[sample_deployment 1 ''prod'' 40 [], sample_deployment 2 ''staging'' 30 []]"
  have "length (carriersOf (carriedBy [?pr] ?ds None) ?pr) = 2"
    by (simp add: correlation_defs sample_deployment_def sample_request_def Let_def)
  with deploy_time_measures_every_landing_once [OF refl, of "[?pr]" ?ds None] show ?thesis
    unfolding Let_def by auto
qed

section \<open>Deployment frequency\<close>

text \<open>The deployment frequency is a rate over the successes alone: over all the slices the
  rates times the days add up to the successful deployments, each slice's sample size is the
  number of successes with its dimensions, and a window of no length has no rate.\<close>

theorem deployment_frequency_rates_the_successes:
  "(days \<le> 0 \<longrightarrow> deploymentFrequency ds days = []) \<and>
   (0 < days \<longrightarrow>
      sum_list (map (\<lambda>r. dr_value r * days) (deploymentFrequency ds days)) =
        of_nat (length (filter (\<lambda>d. de_status d = DSuccess) ds)) \<and>
      (\<forall>r \<in> set (deploymentFrequency ds days).
         dr_sampleSize r = length (filter (\<lambda>d. de_status d = DSuccess \<and>
           dimensionKey (de_dimensions d) = dimensionKey (dr_dimensions r)) ds) \<and>
         dr_value r = of_nat (dr_sampleSize r) / days))"
proof (intro conjI impI ballI)
  assume "days \<le> 0"
  then show "deploymentFrequency ds days = []" by (simp add: deploymentFrequency_def)
next
  assume d: "0 < days"
  let ?ok = "filter (\<lambda>d. de_status d = DSuccess) ds"
  let ?groups = "groupBy (dimensionKey \<circ> de_dimensions) ?ok"
  have "map (\<lambda>r. dr_value r * days) (deploymentFrequency ds days) =
      map (\<lambda>e. of_nat (length (snd e))) ?groups"
    using d by (auto simp: deploymentFrequency_def)
  then have "sum_list (map (\<lambda>r. dr_value r * days) (deploymentFrequency ds days)) =
      of_nat (sum_list (map (\<lambda>e. length (snd e)) ?groups))"
    using sum_list_of_nat_add [of "\<lambda>e. length (snd e)" "\<lambda>_. 0" ?groups] by simp
  then show "sum_list (map (\<lambda>r. dr_value r * days) (deploymentFrequency ds days)) =
        of_nat (length ?ok)"
    using groupBy_sum_lengths [of "dimensionKey \<circ> de_dimensions" ?ok] by (simp add: comp_def)
  fix r
  assume "r \<in> set (deploymentFrequency ds days)"
  then obtain k items where e: "(k, items) \<in> set ?groups"
    and r: "dr_dimensions r = de_dimensions (hd items)" "dr_sampleSize r = length items"
      "dr_value r = of_nat (length items) / days"
    using d by (auto simp: deploymentFrequency_def)
  have items: "items = filter (\<lambda>d. dimensionKey (de_dimensions d) = k) ?ok" "items \<noteq> []"
    using groupBy_entry [OF e] by simp_all
  then have "dimensionKey (de_dimensions (hd items)) = k"
    using list.set_sel(1) [of items] by auto
  with items r show "dr_sampleSize r = length (filter (\<lambda>d. de_status d = DSuccess \<and>
           dimensionKey (de_dimensions d) = dimensionKey (dr_dimensions r)) ds)"
    by (simp add: conj_commute)
  show "dr_value r = of_nat (dr_sampleSize r) / days" using r by simp
qed

theorem deployment_frequency_rates_the_successes_witness:
  "let ds = [sample_deployment 1 ''prod'' 40 [], sample_deployment 2 ''prod'' 50 [],
             (sample_deployment 3 ''prod'' 60 [])\<lparr>de_status := DFailed\<rparr>]
   in (0 :: rat) < 4 \<and> sum_list (map (\<lambda>r. dr_value r * 4) (deploymentFrequency ds 4)) = 2"
  using deployment_frequency_rates_the_successes [of 4 "[sample_deployment 1 ''prod'' 40 [],
      sample_deployment 2 ''prod'' 50 [], (sample_deployment 3 ''prod'' 60 [])\<lparr>de_status := DFailed\<rparr>]"]
  by (simp add: sample_deployment_def)

end
