(* ===== verification/Dora_Fold.thy ===== *)
theory Dora_Fold
  imports Dora_Readings
begin

text \<open>
  Putting readings back together: \<open>back/src/dora/aggregate.ts\<close> (folding the combinations of a
  filter into one reading), \<open>trend.ts\<close> (folding stored snapshots by day), \<open>series.ts\<close> (cutting
  a period into slices), \<open>back/src/overview/flow.ts\<close> (one figure and its movement per metric) and
  the published scale of \<open>packages/shared\<close> (\<open>doraTier\<close>). A day is its number since the epoch,
  which orders as its ISO date does; numbers are exact rationals where the source has doubles.

  The lemmas show that a fold does not depend on how the events were classified, that the slices
  partition the period, and that the scale is monotone.
\<close>

section \<open>Folding combinations\<close>

definition addsUp :: "DoraUnit \<Rightarrow> bool" where
  "addsUp unit \<longleftrightarrow> unit = Per_day"

definition total :: "(DoraResult \<Rightarrow> rat) \<Rightarrow> DoraResult list \<Rightarrow> rat" where
  "total f results = foldl (\<lambda>t r. t + f r) 0 results"

definition weightedMean :: "DoraResult list \<Rightarrow> nat \<Rightarrow> rat" where
  "weightedMean results sampleSize =
     (if sampleSize > 0
      then total (\<lambda>r. dr_value r * of_nat (dr_sampleSize r)) results / of_nat sampleSize
      else total dr_value results / of_nat (length results))"

definition foldValue :: "DoraUnit \<Rightarrow> DoraResult list \<Rightarrow> nat \<Rightarrow> rat list \<Rightarrow> rat" where
  "foldValue unit results sampleSize population =
     (if addsUp unit then total dr_value results
      else if unit = Seconds \<and> population \<noteq> [] then median population
      else weightedMean results sampleSize)"

definition mergeSamples :: "DoraResult list \<Rightarrow> DoraSample list" where
  "mergeSamples results =
     take MAX_SAMPLES (sort_key (\<lambda>s. - ds_at s) (concat (map dr_samples results)))"

definition valueOf :: "DoraSample \<Rightarrow> rat" where
  "valueOf s = (case ds_value s of Some v \<Rightarrow> v | None \<Rightarrow> 0)"

definition foldMetric :: "DoraResult list \<Rightarrow> DoraResult option" where
  "foldMetric results =
     (case results of
        [] \<Rightarrow> None
      | r # _ \<Rightarrow>
          let sampleSize = foldl (\<lambda>t r. t + dr_sampleSize r) 0 results;
              population = concat (map (\<lambda>r. case dr_population r of
                 Some p \<Rightarrow> map valueOf p | None \<Rightarrow> []) results)
          in Some \<lparr>dr_metric = dr_metric r,
               dr_value = foldValue (dr_unit r) results sampleSize population,
               dr_unit = dr_unit r,
               dr_dimensions = [],
               dr_sampleSize = sampleSize,
               dr_samples = mergeSamples results,
               dr_population = None,
               dr_combinations = Some (length results)\<rparr>)"

definition foldByMetric :: "DoraResult list \<Rightarrow> DoraResult list" where
  "foldByMetric results = List.map_filter (foldMetric \<circ> snd) (groupBy dr_metric results)"

section \<open>Folding stored snapshots\<close>

record SnapshotRow =
  sn_value :: rat
  sn_dimensions :: dims
  sn_capturedAt :: instant

record MetricPoint =
  mp_at :: instant
  mp_value :: rat

definition keyOf :: "dims \<Rightarrow> string" where
  "keyOf dimensions =
     join ''|'' (map (\<lambda>(k, v). k @ ''='' @ v) (sort_key fst dimensions))"

definition foldValues :: "rat list \<Rightarrow> DoraUnit \<Rightarrow> rat" where
  "foldValues values unit =
     (if addsUp unit then foldl (+) 0 values
      else foldl (+) 0 values / of_nat (length values))"

definition DAY_LENGTH :: int where "DAY_LENGTH = 86400000"

definition dayOf :: "instant \<Rightarrow> int" where
  "dayOf ts = ts div DAY_LENGTH"

definition trendStep ::
  "SnapshotRow \<Rightarrow> (int, (string, rat) jsmap) jsmap \<Rightarrow> (int, (string, rat) jsmap) jsmap" where
  "trendStep row byDay =
     (let day = dayOf (sn_capturedAt row);
          combinations = (case map_of byDay day of Some c \<Rightarrow> c | None \<Rightarrow> [])
      in AList.update day
           (AList.update (keyOf (sn_dimensions row)) (sn_value row) combinations) byDay)"

definition foldTrend :: "SnapshotRow list \<Rightarrow> DoraUnit \<Rightarrow> MetricPoint list" where
  "foldTrend rows unit =
     map (\<lambda>(day, combinations). \<lparr>mp_at = day * DAY_LENGTH,
            mp_value = foldValues (map snd combinations) unit\<rparr>)
       (sort_key fst (fold trendStep (sort_key sn_capturedAt rows) []))"

definition unitOf :: "DoraMetric \<Rightarrow> DoraUnit" where
  "unitOf metric =
     (if metric = Deployment_frequency then Per_day
      else if metric = Change_failure_rate then Ratio
      else Seconds)"

definition matchesFilter :: "dims \<Rightarrow> dims \<Rightarrow> bool" where
  "matchesFilter dimensions filter' \<longleftrightarrow> (\<forall>(key, value) \<in> set filter'. map_of dimensions key = Some value)"

section \<open>Cutting a period\<close>

record DoraPeriod =
  dpd_from :: instant
  dpd_to :: instant
  dpd_windowDays :: "int option"

definition js_round :: "rat \<Rightarrow> int" where
  "js_round x = \<lfloor>x + 1 / 2\<rfloor>"

definition sliceRange :: "DoraPeriod \<Rightarrow> int \<Rightarrow> DoraPeriod list" where
  "sliceRange period maxSlices =
     (let from' = dpd_from period; to' = dpd_to period; span = to' - from' in
      if maxSlices < 1 \<or> span \<le> 0 then []
      else
        let n = nat (max 1 (min maxSlices (span div DAY_LENGTH)));
            step = (of_int span :: rat) / of_nat n
        in map (\<lambda>i. \<lparr>dpd_from = js_round (of_int from' + of_nat i * step),
               dpd_to = (if i = n - 1 then to'
                         else js_round (of_int from' + of_nat (i + 1) * step) - 1),
               dpd_windowDays = None\<rparr>) [0..<n])"

section \<open>The overview\<close>

definition OVERVIEW_METRICS :: "DoraMetric list" where
  "OVERVIEW_METRICS = [Deployment_frequency, Lead_time, Change_failure_rate, Mttr]"

record OverviewFlow =
  of_metric :: DoraMetric
  of_value :: rat
  of_unit :: DoraUnit
  of_sampleSize :: nat
  of_trend :: "rat list"
  of_delta :: "rat option"
  of_improving :: "bool option"

definition trendOf :: "DoraMetric \<Rightarrow> DoraUnit \<Rightarrow> DoraResult list list \<Rightarrow> rat list" where
  "trendOf metric unit slices =
     (let points = map (find (\<lambda>r. dr_metric r = metric)) slices
      in if addsUp unit
         then map (\<lambda>point. case point of Some r \<Rightarrow> dr_value r | None \<Rightarrow> 0) points
         else map dr_value (List.map_filter id points))"

definition RISING_IS_BETTER :: "DoraMetric \<Rightarrow> bool option" where
  "RISING_IS_BETTER metric =
     (if metric = Deployment_frequency then Some True
      else if metric \<in> set [Lead_time, Change_failure_rate, Mttr] then Some False
      else None)"

definition changeAcross :: "rat list \<Rightarrow> rat option" where
  "changeAcross trend =
     (if length trend < 2 then None
      else let first' = hd trend; last' = last trend
           in if first' = 0 then None else Some ((last' - first') / \<bar>first'\<bar>))"

definition toFlow :: "DoraMetric \<Rightarrow> DoraResult list \<Rightarrow> rat list \<Rightarrow> OverviewFlow option" where
  "toFlow metric results trend =
     (case foldMetric results of
        None \<Rightarrow> None
      | Some folded \<Rightarrow>
          let delta = changeAcross trend
          in Some \<lparr>of_metric = metric, of_value = dr_value folded, of_unit = dr_unit folded,
               of_sampleSize = dr_sampleSize folded, of_trend = trend, of_delta = delta,
               of_improving = map_option (\<lambda>d. (d > 0) =
                 (case RISING_IS_BETTER metric of Some b \<Rightarrow> b | None \<Rightarrow> True)) delta\<rparr>)"

definition flowsFrom :: "DoraResult list \<Rightarrow> DoraResult list list \<Rightarrow> OverviewFlow list" where
  "flowsFrom results slices = List.map_filter (\<lambda>metric.
     let matching = filter (\<lambda>r. dr_metric r = metric) results
     in if matching = [] then None
        else toFlow metric matching (trendOf metric (dr_unit (hd matching)) slices)) OVERVIEW_METRICS"

section \<open>The published scale\<close>

datatype DoraTier = Low | Medium | High | Elite

fun DORA_TIER_THRESHOLDS :: "DoraMetric \<Rightarrow> (rat \<times> rat \<times> rat) option" where
  "DORA_TIER_THRESHOLDS Deployment_frequency = Some (1, 1 / 7, 1 / 30)"
| "DORA_TIER_THRESHOLDS Lead_time = Some (3600, 604800, 2592000)"
| "DORA_TIER_THRESHOLDS Change_failure_rate = Some (15 / 100, 3 / 10, 45 / 100)"
| "DORA_TIER_THRESHOLDS Mttr = Some (3600, 86400, 604800)"
| "DORA_TIER_THRESHOLDS _ = None"

definition doraTier :: "DoraMetric \<Rightarrow> rat \<Rightarrow> DoraTier option" where
  "doraTier metric value =
     (case DORA_TIER_THRESHOLDS metric of
        None \<Rightarrow> None
      | Some (e0, e1, e2) \<Rightarrow>
          let beats = (\<lambda>edge. if metric = Deployment_frequency then value \<ge> edge else value < edge)
          in Some (if beats e0 then Elite else if beats e1 then High
                   else if beats e2 then Medium else Low))"

section \<open>The slices partition the period\<close>

lemma js_round_int [simp]: "js_round (of_int i) = i"
  unfolding js_round_def by linarith

lemma js_round_mono: "x \<le> y \<Longrightarrow> js_round x \<le> js_round y"
  unfolding js_round_def by (intro floor_mono) simp

definition inPeriod :: "instant \<Rightarrow> DoraPeriod \<Rightarrow> bool" where
  "inPeriod t p \<longleftrightarrow> dpd_from p \<le> t \<and> t \<le> dpd_to p"

text \<open>Cutting at the bounds of a monotone sequence.\<close>

lemma cut_exists:
  fixes b :: "nat \<Rightarrow> int"
  assumes "b 0 \<le> t" and "0 < n"
  shows "\<exists>i < n. b i \<le> t \<and> (i = n - 1 \<or> t \<le> b (i + 1) - 1)"
  using assms
proof (induction n)
  case (Suc n)
  show ?case
  proof (cases "n = 0 \<or> b n \<le> t")
    case True
    then show ?thesis using Suc.prems by auto
  next
    case False
    with Suc.IH Suc.prems obtain i where "i < n" "b i \<le> t" "i = n - 1 \<or> t \<le> b (i + 1) - 1" by auto
    moreover from this False have "t \<le> b (i + 1) - 1" by (cases "i = n - 1") auto
    ultimately show ?thesis by (intro exI [of _ i]) simp
  qed
qed simp

lemma cut_unique:
  fixes b :: "nat \<Rightarrow> int"
  assumes mono: "\<And>i j. i \<le> j \<Longrightarrow> b i \<le> b j" and i: "b i \<le> t" "i = n - 1 \<or> t \<le> b (i + 1) - 1" "i < n"
    and j: "b j \<le> t" "j = n - 1 \<or> t \<le> b (j + 1) - 1" "j < n"
  shows "i = j"
proof (rule ccontr)
  assume "i \<noteq> j"
  then consider "i < j" | "j < i" by linarith
  then show False
  proof cases
    case 1
    with i j(3) have "t \<le> b (i + 1) - 1" by auto
    with mono [of "i + 1" j] 1 j(1) show False by auto
  next
    case 2
    with j i(3) have "t \<le> b (j + 1) - 1" by auto
    with mono [of "j + 1" i] 2 i(1) show False by auto
  qed
qed

text \<open>A period is cut into slices that partition it: every instant of the period, both bounds
  included, is in exactly one slice and no slice reaches outside; there are never more slices than
  asked for, and never so many that a slice is shorter than a day.\<close>

theorem slices_partition_the_period:
  assumes p: "dpd_from p < dpd_to p" and m: "1 \<le> maxSlices"
  shows "(\<forall>t. inPeriod t p \<longleftrightarrow> (\<exists>s \<in> set (sliceRange p maxSlices). inPeriod t s)) \<and>
    (\<forall>t i j. i < length (sliceRange p maxSlices) \<and> j < length (sliceRange p maxSlices) \<and>
       inPeriod t (sliceRange p maxSlices ! i) \<and> inPeriod t (sliceRange p maxSlices ! j) \<longrightarrow> i = j) \<and>
    1 \<le> length (sliceRange p maxSlices) \<and> int (length (sliceRange p maxSlices)) \<le> maxSlices \<and>
    (1 < length (sliceRange p maxSlices) \<longrightarrow>
       int (length (sliceRange p maxSlices)) * DAY_LENGTH \<le> dpd_to p - dpd_from p)"
proof -
  define span where "span = dpd_to p - dpd_from p"
  define n where "n = nat (max 1 (min maxSlices (span div DAY_LENGTH)))"
  define b where "b = (\<lambda>i. js_round (of_int (dpd_from p) + of_nat i * (of_int span / of_nat n)))"
  have n: "0 < n" by (simp add: n_def)
  have span: "0 < span" using p by (simp add: span_def)
  have sl: "sliceRange p maxSlices = map (\<lambda>i. \<lparr>dpd_from = b i,
      dpd_to = (if i = n - 1 then dpd_to p else b (i + 1) - 1), dpd_windowDays = None\<rparr>) [0..<n]"
    unfolding sliceRange_def Let_def span_def [symmetric] n_def [symmetric] b_def using m span by simp
  have b0: "b 0 = dpd_from p" by (simp add: b_def)
  have bn: "b n = dpd_to p" using n by (simp add: b_def span_def flip: of_int_add)
  have mono: "b i \<le> b j" if "i \<le> j" for i j
    unfolding b_def using that span by (intro js_round_mono add_left_mono mult_right_mono) simp_all
  have top: "b i \<le> dpd_to p" if "i \<le> n" for i using mono [OF that] bn by simp
  have w: "inPeriod t (sliceRange p maxSlices ! i) \<longleftrightarrow>
      b i \<le> t \<and> t \<le> dpd_to p \<and> (i = n - 1 \<or> t \<le> b (i + 1) - 1)" if "i < n" for i t
    using that top [of "i + 1"] by (auto simp: sl inPeriod_def)
  have len: "length (sliceRange p maxSlices) = n" by (simp add: sl)
  have ex: "(\<exists>s \<in> set (sliceRange p maxSlices). inPeriod t s) \<longleftrightarrow>
      (\<exists>i < n. inPeriod t (sliceRange p maxSlices ! i))" for t
    using len by (metis in_set_conv_nth)
  have cover: "inPeriod t p \<longleftrightarrow> (\<exists>i < n. inPeriod t (sliceRange p maxSlices ! i))" for t
  proof
    assume "inPeriod t p"
    with cut_exists [of b t n] n b0 w show "\<exists>i < n. inPeriod t (sliceRange p maxSlices ! i)"
      by (fastforce simp: inPeriod_def)
  next
    assume "\<exists>i < n. inPeriod t (sliceRange p maxSlices ! i)"
    then obtain i where "i < n" "b i \<le> t" "t \<le> dpd_to p" using w by blast
    with mono [of 0 i] b0 show "inPeriod t p" by (simp add: inPeriod_def)
  qed
  have unique: "i = j" if "i < n \<and> j < n \<and> inPeriod t (sliceRange p maxSlices ! i) \<and>
      inPeriod t (sliceRange p maxSlices ! j)" for t i j
    using that w cut_unique [of b i t n j, OF mono] by blast
  have small: "int n * DAY_LENGTH \<le> span" if "1 < n"
  proof -
    have "int n \<le> span div DAY_LENGTH" using that by (auto simp: n_def)
    then show ?thesis by (simp add: DAY_LENGTH_def)
  qed
  show ?thesis
    unfolding ex len span_def [symmetric]
    using cover unique n small m by (intro conjI allI impI) (auto simp: n_def)
qed

theorem slices_partition_the_period_witness:
  "let p = \<lparr>dpd_from = 0, dpd_to = 864000000, dpd_windowDays = Some 10\<rparr>
   in dpd_from p < dpd_to p \<and> length (sliceRange p 3) = 3 \<and>
      (\<forall>t. inPeriod t p \<longleftrightarrow> (\<exists>s \<in> set (sliceRange p 3). inPeriod t s))"
proof -
  let ?p = "\<lparr>dpd_from = 0, dpd_to = 864000000, dpd_windowDays = Some 10\<rparr>"
  have "dpd_from ?p < dpd_to ?p" "(1 :: int) \<le> 3" by simp_all
  from slices_partition_the_period [OF this] have
    "\<forall>t. inPeriod t ?p \<longleftrightarrow> (\<exists>s \<in> set (sliceRange ?p 3). inPeriod t s)" by blast
  moreover have "length (sliceRange ?p 3) = 3"
    by (simp add: sliceRange_def DAY_LENGTH_def)
  ultimately show ?thesis unfolding Let_def by simp
qed

section \<open>A fold does not depend on the classification\<close>

lemma total_sum: "total f rs = sum_list (map f rs)"
proof -
  have "foldl (\<lambda>t r. t + f r) a rs = a + sum_list (map f rs)" for a
    by (induction rs arbitrary: a) simp_all
  then show ?thesis by (simp add: total_def)
qed

lemma foldl_sizes:
  "foldl (\<lambda>t r. t + dr_sampleSize r) a rs = a + sum_list (map dr_sampleSize rs)"
  by (induction rs arbitrary: a) simp_all

lemma foldMetric_Some:
  assumes "foldMetric rs = Some r"
  shows "dr_value r = foldValue (dr_unit (hd rs)) rs (sum_list (map dr_sampleSize rs))
      (concat (map (\<lambda>r. case dr_population r of Some p \<Rightarrow> map valueOf p | None \<Rightarrow> []) rs))"
    and "rs \<noteq> []"
  using assms by (auto simp: foldMetric_def Let_def foldl_sizes split: list.splits)

lemma sum_list_of_nat_div:
  "sum_list (map (\<lambda>e. of_nat (f e) / c) xs) = (of_nat (sum_list (map f xs)) / c :: rat)"
  by (induction xs) (simp_all add: add_divide_distrib)

lemma unit_measured: "r \<in> set (measured m d samples) \<Longrightarrow> dr_unit r = Seconds \<and> dr_metric r = m"
  by (simp add: measured_mem)

definition readingsOf :: "DoraMetric \<Rightarrow> DoraResult list \<Rightarrow> DoraResult list" where
  "readingsOf m rs = filter (\<lambda>r. dr_metric r = m) rs"

lemma readingsOf_append [simp]: "readingsOf m (xs @ ys) = readingsOf m xs @ readingsOf m ys"
  and readingsOf_measured [simp]:
    "readingsOf m (measured m' d samples) = (if m = m' then measured m' d samples else [])"
  by (auto simp: readingsOf_def measured_def)

lemma readingsOf_lead:
  "readingsOf Lead_time (leadTimeBreakdown prs) = concat (map (\<lambda>e.
     measured Lead_time (me_dimensions (hd (snd e))) (leadSamples (snd e)))
       (groupBy (dimensionKey \<circ> me_dimensions) prs))"
proof -
  have "readingsOf m (concat xss) = concat (map (readingsOf m) xss)" for m xss
    by (induction xss) (simp_all add: readingsOf_def)
  then show ?thesis
    by (simp add: leadTimeBreakdown_def comp_def split_def Let_def)
qed

lemma population_measured:
  "concat (map (\<lambda>r. case dr_population r of Some p \<Rightarrow> map valueOf p | None \<Rightarrow> [])
     (concat (map (\<lambda>e. measured m (d e) (f e)) es))) = map valueOf (concat (map f es))"
  by (induction es) (auto simp: measured_def)

lemma mset_leadSamples_groups:
  "mset (concat (map (\<lambda>e. leadSamples (snd e)) (groupBy key prs))) = mset (leadSamples prs)"
proof -
  have app: "leadSamples (xs @ ys) = leadSamples xs @ leadSamples ys" for xs ys
    by (simp add: leadSamples_def map_filter_def)
  have perm: "mset (leadSamples xs) = mset (leadSamples ys)" if "mset xs = mset ys" for xs ys
  proof -
    have "mset (leadSamples zs) = sum_mset (image_mset (\<lambda>p. mset (leadSamples [p])) (mset zs))" for zs
      by (induction zs) (simp_all add: leadSamples_def map_filter_def)
    with that show ?thesis by metis
  qed
  have "concat (map (\<lambda>e. leadSamples (snd e)) m) = leadSamples (concat (map snd m))" for m :: "(dims \<times> MergedPrEvent list) list"
    by (induction m) (simp_all add: app, simp add: leadSamples_def map_filter_def)
  moreover have "concat (map (\<lambda>e. leadSamples (snd e)) m) = leadSamples (concat (map snd m))" for m :: "('c \<times> MergedPrEvent list) list"
    by (induction m) (simp_all add: app, simp add: leadSamples_def map_filter_def)
  ultimately show ?thesis using perm [OF groupBy_mset] by metis
qed

text \<open>What a folded figure says does not depend on how the events were classified. Folded over
  every combination, the frequency is the successes over the days, the failure rate is all the
  failures over all the deployments that ended, and the lead time is the median over every
  measured request, which is not what averaging the medians of the combinations would give.\<close>

theorem fold_ignores_the_classification:
  "(\<forall>r. 0 < days \<and> foldMetric (deploymentFrequency ds days) = Some r \<longrightarrow>
      dr_value r = of_nat (length (filter (\<lambda>d. de_status d = DSuccess) ds)) / days) \<and>
   (\<forall>r. foldMetric (changeFailureRate ds incs src linked) = Some r \<longrightarrow>
      dr_value r = sum_list (map (\<lambda>x. dr_value x * of_nat (dr_sampleSize x))
          (changeFailureRate ds incs src linked)) / of_nat (length (knownDeployments ds))) \<and>
   (\<forall>r. foldMetric (readingsOf Lead_time (leadTimeBreakdown prs)) = Some r \<longrightarrow>
      dr_value r = median (map valueOf (leadSamples prs)))"
proof (intro conjI allI impI)
  fix r
  let ?ok = "filter (\<lambda>d. de_status d = DSuccess) ds"
  assume a: "0 < days \<and> foldMetric (deploymentFrequency ds days) = Some r"
  let ?df = "deploymentFrequency ds days"
  have "dr_unit x = Per_day" if "x \<in> set ?df" for x
    using that by (auto simp: deploymentFrequency_def split: if_splits)
  then have "dr_unit (hd ?df) = Per_day" if "?df \<noteq> []" using list.set_sel(1) [OF that] by blast
  with foldMetric_Some [of ?df r] a have "dr_value r = sum_list (map dr_value ?df)"
    by (simp add: foldValue_def addsUp_def total_sum)
  also have "map dr_value ?df = map (\<lambda>e. of_nat (length (snd e)) / days)
      (groupBy (dimensionKey \<circ> de_dimensions) ?ok)"
    using a by (auto simp: deploymentFrequency_def)
  also have "sum_list \<dots> = of_nat (sum_list (map (\<lambda>e. length (snd e))
      (groupBy (dimensionKey \<circ> de_dimensions) ?ok))) / days"
    by (rule sum_list_of_nat_div)
  also have "\<dots> = of_nat (length ?ok) / days"
    using groupBy_sum_lengths [of "dimensionKey \<circ> de_dimensions" ?ok] by (simp add: comp_def)
  finally show "dr_value r = of_nat (length ?ok) / days" .
next
  fix r
  assume a: "foldMetric (changeFailureRate ds incs src linked) = Some r"
  let ?cf = "changeFailureRate ds incs src linked"
  let ?groups = "groupBy (dimensionKey \<circ> de_dimensions) (knownDeployments ds)"
  have ne: "?cf \<noteq> []" using foldMetric_Some(2) [OF a] .
  have u: "dr_unit x = Ratio" if "x \<in> set ?cf" for x
    using that by (auto simp: changeFailureRate_def Let_def)
  have size: "sum_list (map dr_sampleSize ?cf) = length (knownDeployments ds)"
  proof -
    have "map dr_sampleSize ?cf = map (\<lambda>e. length (snd e)) ?groups"
      by (auto simp: changeFailureRate_def Let_def)
    then show ?thesis
      using groupBy_sum_lengths [of "dimensionKey \<circ> de_dimensions" "knownDeployments ds"]
      by (simp add: comp_def)
  qed
  have pos: "0 < length (knownDeployments ds)"
  proof (rule ccontr)
    assume "\<not> 0 < length (knownDeployments ds)"
    then have "?cf = []" by (simp add: changeFailureRate_def Let_def)
    with ne show False by simp
  qed
  have "dr_unit (hd ?cf) = Ratio" using u [OF list.set_sel(1) [OF ne]] .
  with foldMetric_Some(1) [OF a] size pos
  show "dr_value r = sum_list (map (\<lambda>x. dr_value x * of_nat (dr_sampleSize x)) ?cf) /
      of_nat (length (knownDeployments ds))"
    by (simp add: foldValue_def addsUp_def weightedMean_def total_sum)
next
  fix r
  let ?rs = "readingsOf Lead_time (leadTimeBreakdown prs)"
  assume a: "foldMetric ?rs = Some r"
  let ?groups = "groupBy (dimensionKey \<circ> me_dimensions) prs"
  have ne: "?rs \<noteq> []" using foldMetric_Some(2) [OF a] .
  have "dr_unit (hd ?rs) = Seconds"
    using list.set_sel(1) [OF ne] unfolding readingsOf_lead by (auto simp: unit_measured)
  moreover have pop: "concat (map (\<lambda>r. case dr_population r of Some p \<Rightarrow> map valueOf p | None \<Rightarrow> []) ?rs) =
      map valueOf (concat (map (\<lambda>e. leadSamples (snd e)) ?groups))"
    unfolding readingsOf_lead by (rule population_measured)
  moreover have "concat (map (\<lambda>e. leadSamples (snd e)) ?groups) \<noteq> []"
    using ne unfolding readingsOf_lead by (auto simp: measured_def split: if_splits)
  ultimately have "dr_value r = median (map valueOf (concat (map (\<lambda>e. leadSamples (snd e)) ?groups)))"
    using foldMetric_Some(1) [OF a] by (simp add: foldValue_def addsUp_def)
  also have "\<dots> = median (map valueOf (leadSamples prs))"
    using mset_leadSamples_groups [of "dimensionKey \<circ> me_dimensions" prs]
    by (intro median_cong_mset) (simp only: mset_map)
  finally show "dr_value r = median (map valueOf (leadSamples prs))" .
qed

theorem fold_ignores_the_classification_witness:
  "let prs = [(sample_request 1 9000 [(''type'', ''a'')])\<lparr>me_firstCommitAt := Some 4000\<rparr>,
              (sample_request 2 9000 [(''type'', ''b'')])\<lparr>me_firstCommitAt := Some 2000\<rparr>];
       rs = readingsOf Lead_time (leadTimeBreakdown prs)
   in length rs = 2 \<and> (\<exists>r. foldMetric rs = Some r \<and> dr_value r = 6)"
proof -
  let ?prs = "[(sample_request 1 9000 [(''type'', ''a'')])\<lparr>me_firstCommitAt := Some 4000\<rparr>,
              (sample_request 2 9000 [(''type'', ''b'')])\<lparr>me_firstCommitAt := Some 2000\<rparr>]"
  let ?rs = "readingsOf Lead_time (leadTimeBreakdown ?prs)"
  have "map (\<lambda>e. length (leadSamples (snd e))) (groupBy (dimensionKey \<circ> me_dimensions) ?prs) = [1, 1]"
    by (simp add: groupBy_def push_bucket_def dimensionKey_def sample_request_def leadSamples_def Let_def)
  then have "sum_list (map (\<lambda>e. if leadSamples (snd e) = [] then 0 else 1)
      (groupBy (dimensionKey \<circ> me_dimensions) ?prs)) = (2 :: nat)"
    by (auto simp: map_eq_Cons_conv)
  then have len: "length ?rs = 2"
    unfolding readingsOf_lead
    by (simp add: length_concat comp_def measured_def if_distrib cong: if_cong)
  then obtain r where r: "foldMetric ?rs = Some r"
    by (cases "foldMetric ?rs") (auto simp: foldMetric_def Let_def split: list.splits)
  have "map valueOf (leadSamples ?prs) = [5, 7]"
    by (simp add: leadSamples_def map_filter_def sample_request_def prSample_def valueOf_def
        clamp_def seconds_def)
  then have "dr_value r = median [5, 7]"
    using fold_ignores_the_classification [of 1 "[]" "[]" FromBoth "[]" ?prs] r by simp
  then have "dr_value r = 6" by (simp add: median_def Let_def)
  with len r show ?thesis unfolding Let_def by blast
qed

section \<open>The scale is monotone\<close>

fun tierRank :: "DoraTier \<Rightarrow> nat" where
  "tierRank Low = 0" | "tierRank Medium = 1" | "tierRank High = 2" | "tierRank Elite = 3"

lemma tierRank_inject: "tierRank s = tierRank t \<longleftrightarrow> s = t"
  by (cases s; cases t) simp_all

text \<open>Worst to best, the order of \<open>DORA_TIERS\<close>.\<close>

instantiation DoraTier :: linorder
begin

definition less_eq_DoraTier :: "DoraTier \<Rightarrow> DoraTier \<Rightarrow> bool" where
  "s \<le> t \<longleftrightarrow> tierRank s \<le> tierRank t"

definition less_DoraTier :: "DoraTier \<Rightarrow> DoraTier \<Rightarrow> bool" where
  "s < t \<longleftrightarrow> tierRank s < tierRank t"

instance
  by standard (auto simp: less_eq_DoraTier_def less_DoraTier_def tierRank_inject)

end

text \<open>A reading is at least as good as another: more deployments a day, or less of anything else.\<close>

definition at_least_as_good :: "DoraMetric \<Rightarrow> rat \<Rightarrow> rat \<Rightarrow> bool" where
  "at_least_as_good metric a b \<longleftrightarrow> (if metric = Deployment_frequency then b \<le> a else a \<le> b)"

text \<open>The band never punishes an improvement: a value at least as good ranks at least as high,
  and exactly the four keys of the report have a band.\<close>

theorem tiers_are_monotone:
  "(doraTier metric a \<noteq> None \<longleftrightarrow> metric \<in> set OVERVIEW_METRICS) \<and>
   (\<forall>s t. at_least_as_good metric a b \<and> doraTier metric a = Some s \<and> doraTier metric b = Some t \<longrightarrow> t \<le> s)"
  by (cases metric)
    (auto simp: doraTier_def OVERVIEW_METRICS_def at_least_as_good_def less_eq_DoraTier_def Let_def)

theorem tiers_are_monotone_witness:
  "at_least_as_good Mttr 3599 3600 \<and> doraTier Mttr 3599 = Some Elite \<and> doraTier Mttr 3600 = Some High \<and>
   High \<le> Elite"
proof -
  have "at_least_as_good Mttr 3599 3600" "doraTier Mttr 3599 = Some Elite" "doraTier Mttr 3600 = Some High"
    by (simp_all add: at_least_as_good_def doraTier_def Let_def)
  with tiers_are_monotone [of Mttr 3599 3600] show ?thesis by blast
qed

section \<open>Combinations told apart\<close>

text \<open>
  \<open>keyOf\<close> joins names and values with characters a value may hold, so two combinations can share
  a key, and \<open>foldTrend\<close> then keeps only the later of their readings.
\<close>

theorem trend_keys_collide:
  "keyOf [(''a'', ''1|b=2'')] = keyOf [(''a'', ''1''), (''b'', ''2'')] \<and>
   foldTrend [\<lparr>sn_value = 3, sn_dimensions = [(''a'', ''1|b=2'')], sn_capturedAt = 0\<rparr>,
              \<lparr>sn_value = 4, sn_dimensions = [(''a'', ''1''), (''b'', ''2'')], sn_capturedAt = 1\<rparr>] Per_day =
     [\<lparr>mp_at = 0, mp_value = 4\<rparr>]"
  by (simp add: keyOf_def foldTrend_def trendStep_def dayOf_def DAY_LENGTH_def Let_def
      foldValues_def addsUp_def)

end
