(* ===== verification/Webhook_Events.thy ===== *)
theory Webhook_Events
  imports Merge
begin

text \<open>
  \<open>back/src/ingest/webhooks/events.ts\<close>: what an event asks the store to record, one pure mapper
  per provider, and the status mappings it shares with the connectors. A payload is a parsed JSON
  value (numbers are whole: identifiers, counters and durations); an object is the list of its
  members, whose names are distinct. Dates travel as strings there: \<open>msOf\<close> is the reading the
  source gives them (\<open>new Date(x).getTime()\<close>), a parameter of the mappers that carry one, as is
  the clock \<open>now\<close> of the age. The mappers keep \<open>undefined\<close> and \<open>null\<close> together as \<open>None\<close>.

  The lemmas show that an identifier names one subject, that a merge date settles the state, and
  exhibit two readings the hooks give that a listing would not.
\<close>

section \<open>JSON values\<close>

datatype json =
    JNull
  | JBool bool
  | JNum int
  | JStr string
  | JArr "json list"
  | JObj "(string \<times> json) list"

type_synonym payload = "(string \<times> json) list"

definition asObject :: "json option \<Rightarrow> payload option" where
  "asObject value = (case value of Some (JObj ms) \<Rightarrow> Some ms | _ \<Rightarrow> None)"

definition asString :: "json option \<Rightarrow> string option" where
  "asString value = (case value of Some (JStr s) \<Rightarrow> if s \<noteq> [] then Some s else None | _ \<Rightarrow> None)"

definition asNumber :: "json option \<Rightarrow> int option" where
  "asNumber value = (case value of Some (JNum n) \<Rightarrow> Some n | _ \<Rightarrow> None)"

definition asBoolean :: "json option \<Rightarrow> bool" where
  "asBoolean value = (case value of Some (JBool b) \<Rightarrow> b | _ \<Rightarrow> False)"

text \<open>\<open>object?.name\<close> on an object that may be absent.\<close>

definition member' :: "payload option \<Rightarrow> string \<Rightarrow> json option" where
  "member' o' name = Option.bind o' (\<lambda>ms. map_of ms name)"

definition arrayLength :: "json option \<Rightarrow> int" where
  "arrayLength value = (case value of Some (JArr xs) \<Rightarrow> int (length xs) | _ \<Rightarrow> 0)"

definition emptyOr :: "string option \<Rightarrow> string" where
  "emptyOr s = (case s of Some x \<Rightarrow> x | None \<Rightarrow> [])"

definition labelName :: "json \<Rightarrow> string" where
  "labelName label =
     (case label of
        JStr s \<Rightarrow> s
      | _ \<Rightarrow> let entry = asObject (Some label)
             in emptyOr (orElse (asString (member' entry ''name'')) (asString (member' entry ''title''))))"

definition labelNames :: "json option \<Rightarrow> string list" where
  "labelNames value =
     (case value of Some (JArr xs) \<Rightarrow> filter (\<lambda>s. s \<noteq> []) (map labelName xs) | _ \<Rightarrow> [])"

section \<open>Statuses\<close>

definition mapGitHubDeploymentState :: "string option \<Rightarrow> PipelineStatus" where
  "mapGitHubDeploymentState state =
     (if state = Some ''success'' then Success
      else if state = Some ''failure'' \<or> state = Some ''error'' then Failed
      else if state = Some ''in_progress'' then Running
      else if state = Some ''queued'' \<or> state = Some ''pending'' then Pending
      else Unknown)"

definition mapGitHubStatus :: "string option \<Rightarrow> string option \<Rightarrow> PipelineStatus" where
  "mapGitHubStatus status conclusion =
     (if status \<noteq> Some ''completed''
      then (if status = Some ''in_progress'' then Running else Pending)
      else if conclusion = Some ''success'' then Success
      else if conclusion = Some ''failure'' \<or> conclusion = Some ''timed_out'' then Failed
      else if conclusion = Some ''cancelled'' then Canceled
      else if conclusion = Some ''skipped'' then Skipped
      else Unknown)"

definition mapGitLabStatus :: "string \<Rightarrow> PipelineStatus" where
  "mapGitLabStatus status =
     (if status = ''success'' then Success
      else if status = ''failed'' then Failed
      else if status = ''running'' then Running
      else if status \<in> set [''created'', ''waiting_for_resource'', ''preparing'', ''pending''] then Pending
      else if status = ''canceled'' then Canceled
      else if status = ''skipped'' then Skipped
      else Unknown)"

definition pullRequestState :: "string option \<Rightarrow> bool \<Rightarrow> string option \<Rightarrow> PullRequestState" where
  "pullRequestState raw draft mergedAt =
     (if mergedAt \<noteq> None then Merged
      else if raw = Some ''closed'' \<or> raw = Some ''locked'' then Closed
      else if draft then Draft else Open)"

section \<open>Intents\<close>

datatype IngestIntent =
    PullRequestIntent SourcePullRequest
  | PipelineIntent Pipeline
  | DeploymentIntent Deployment

definition roundSeconds :: "int \<Rightarrow> int" where
  "roundSeconds ms = (ms + 500) div 1000"

definition idOf :: "string \<Rightarrow> string \<Rightarrow> int \<Rightarrow> string" where
  "idOf prefix repo n = (prefix @ '':'' @ repo) @ '':'' @ showInt n"

definition gitHubPullRequest :: "(string \<Rightarrow> instant) \<Rightarrow> instant \<Rightarrow> payload \<Rightarrow> IngestIntent option" where
  "gitHubPullRequest msOf now body =
     (let pr = asObject (map_of body ''pull_request'');
          repository = asObject (map_of body ''repository'')
      in case (asString (member' repository ''name''), asNumber (member' pr ''number''),
               asString (member' pr ''created_at'')) of
           (Some repo, Some number, Some createdAt) \<Rightarrow>
             let mergedAt = asString (member' pr ''merged_at'')
             in Some (PullRequestIntent \<lparr>
               spr_id = idOf ''gh'' repo number,
               spr_number = number,
               spr_title = emptyOr (asString (member' pr ''title'')),
               spr_state = pullRequestState (asString (member' pr ''state''))
                 (asBoolean (member' pr ''draft'')) mergedAt,
               spr_author = (case asString (member' (asObject (member' pr ''user'')) ''login'') of
                 Some l \<Rightarrow> l | None \<Rightarrow> ''unknown''),
               spr_repo = repo,
               spr_repoUrl = emptyOr (asString (member' repository ''html_url'')),
               spr_url = emptyOr (asString (member' pr ''html_url'')),
               spr_headRef = emptyOr (asString (member' (asObject (member' pr ''head'')) ''ref'')),
               spr_createdAt = msOf createdAt,
               spr_updatedAt = msOf (case asString (member' pr ''updated_at'') of
                 Some u \<Rightarrow> u | None \<Rightarrow> createdAt),
               spr_mergedAt = map_option msOf mergedAt,
               spr_reviewers = arrayLength (member' pr ''requested_reviewers''),
               spr_ageHours = ageHours now (msOf createdAt),
               spr_tickets = [],
               spr_body = emptyOr (asString (member' pr ''body'')),
               spr_labels = labelNames (member' pr ''labels'')\<rparr>)
         | _ \<Rightarrow> None)"

definition gitHubWorkflowRun :: "(string \<Rightarrow> instant) \<Rightarrow> payload \<Rightarrow> IngestIntent option" where
  "gitHubWorkflowRun msOf body =
     (let run = asObject (map_of body ''workflow_run'');
          repository = asObject (map_of body ''repository'')
      in case (asString (member' repository ''name''), asNumber (member' run ''id''),
               asString (member' run ''created_at'')) of
           (Some repo, Some id', Some createdAt) \<Rightarrow>
             let status = asString (member' run ''status'');
                 updatedAt = (case asString (member' run ''updated_at'') of
                   Some u \<Rightarrow> u | None \<Rightarrow> createdAt)
             in Some (PipelineIntent \<lparr>
               pl_id = idOf ''gh'' repo id',
               pl_repo = repo,
               pl_repoUrl = emptyOr (asString (member' repository ''html_url'')),
               pl_ref = emptyOr (orElse (asString (member' run ''head_branch''))
                 (map_option (take 7) (asString (member' run ''head_sha'')))),
               pl_status = mapGitHubStatus status (asString (member' run ''conclusion'')),
               pl_url = emptyOr (asString (member' run ''html_url'')),
               pl_createdAt = msOf createdAt,
               pl_updatedAt = msOf updatedAt,
               pl_durationSec = (if status = Some ''completed''
                 then Some (roundSeconds (msOf updatedAt - msOf createdAt)) else None)\<rparr>)
         | _ \<Rightarrow> None)"

definition gitHubDeployment :: "(string \<Rightarrow> instant) \<Rightarrow> payload \<Rightarrow> IngestIntent option" where
  "gitHubDeployment msOf body =
     (let deployment = asObject (map_of body ''deployment'');
          status = asObject (map_of body ''deployment_status'')
      in case (asString (member' (asObject (map_of body ''repository'')) ''name''),
               asNumber (member' deployment ''id''), asString (member' deployment ''created_at'')) of
           (Some repo, Some id', Some createdAt) \<Rightarrow>
             Some (DeploymentIntent \<lparr>
               dp_id = idOf ''gh'' repo id',
               dp_repo = repo,
               dp_environment = (case asString (member' deployment ''environment'') of
                 Some e \<Rightarrow> e | None \<Rightarrow> ''unknown''),
               dp_ref = emptyOr (asString (member' deployment ''ref'')),
               dp_status = mapGitHubDeploymentState (asString (member' status ''state'')),
               dp_createdAt = msOf createdAt,
               dp_environmentUrl = asString (member' status ''environment_url''),
               dp_url = orElse (asString (member' status ''log_url''))
                 (asString (member' status ''target_url''))\<rparr>)
         | _ \<Rightarrow> None)"

definition gitLabMergeRequest :: "(string \<Rightarrow> instant) \<Rightarrow> instant \<Rightarrow> payload \<Rightarrow> IngestIntent option" where
  "gitLabMergeRequest msOf now body =
     (let mr = asObject (map_of body ''object_attributes'');
          project = asObject (map_of body ''project'')
      in case (asString (member' project ''path_with_namespace''), asNumber (member' mr ''iid''),
               asString (member' mr ''created_at'')) of
           (Some repo, Some iid, Some createdAt) \<Rightarrow>
             let mergedAt = asString (member' mr ''merged_at'');
                 draft = (asBoolean (member' mr ''draft'') \<or> asBoolean (member' mr ''work_in_progress''))
             in Some (PullRequestIntent \<lparr>
               spr_id = idOf ''gl'' repo iid,
               spr_number = iid,
               spr_title = emptyOr (asString (member' mr ''title'')),
               spr_state = pullRequestState (asString (member' mr ''state'')) draft mergedAt,
               spr_author = (case asString (member' (asObject (map_of body ''user'')) ''username'') of
                 Some l \<Rightarrow> l | None \<Rightarrow> ''unknown''),
               spr_repo = repo,
               spr_repoUrl = emptyOr (asString (member' project ''web_url'')),
               spr_url = emptyOr (asString (member' mr ''url'')),
               spr_headRef = emptyOr (asString (member' mr ''source_branch'')),
               spr_createdAt = msOf createdAt,
               spr_updatedAt = msOf (case asString (member' mr ''updated_at'') of
                 Some u \<Rightarrow> u | None \<Rightarrow> createdAt),
               spr_mergedAt = map_option msOf mergedAt,
               spr_reviewers = arrayLength (map_of body ''reviewers''),
               spr_ageHours = ageHours now (msOf createdAt),
               spr_tickets = [],
               spr_body = emptyOr (asString (member' mr ''description'')),
               spr_labels = labelNames (case map_of body ''labels'' of
                   None \<Rightarrow> member' mr ''labels''
                 | Some JNull \<Rightarrow> member' mr ''labels''
                 | Some l \<Rightarrow> Some l)\<rparr>)
         | _ \<Rightarrow> None)"

definition gitLabPipeline :: "(string \<Rightarrow> instant) \<Rightarrow> payload \<Rightarrow> IngestIntent option" where
  "gitLabPipeline msOf body =
     (let pipeline = asObject (map_of body ''object_attributes'');
          project = asObject (map_of body ''project'')
      in case (asString (member' project ''path_with_namespace''), asNumber (member' pipeline ''id''),
               asString (member' pipeline ''created_at'')) of
           (Some repo, Some id', Some createdAt) \<Rightarrow>
             let finishedAt = asString (member' pipeline ''finished_at'');
                 webUrl = asString (member' project ''web_url'')
             in Some (PipelineIntent \<lparr>
               pl_id = idOf ''gl'' repo id',
               pl_repo = repo,
               pl_repoUrl = emptyOr webUrl,
               pl_ref = emptyOr (asString (member' pipeline ''ref'')),
               pl_status = mapGitLabStatus (emptyOr (asString (member' pipeline ''status''))),
               pl_url = (case asString (member' pipeline ''url'') of
                   Some u \<Rightarrow> u
                 | None \<Rightarrow> (case webUrl of
                     Some w \<Rightarrow> w @ ''/-/pipelines/'' @ showInt id' | None \<Rightarrow> [])),
               pl_createdAt = msOf createdAt,
               pl_updatedAt = msOf (case finishedAt of Some f \<Rightarrow> f | None \<Rightarrow> createdAt),
               pl_durationSec = asNumber (member' pipeline ''duration'')\<rparr>)
         | _ \<Rightarrow> None)"

definition gitLabDeployment :: "(string \<Rightarrow> instant) \<Rightarrow> payload \<Rightarrow> IngestIntent option" where
  "gitLabDeployment msOf body =
     (case (asString (member' (asObject (map_of body ''project'')) ''path_with_namespace''),
            asNumber (map_of body ''deployment_id''), asString (map_of body ''status_changed_at'')) of
        (Some repo, Some id', Some createdAt) \<Rightarrow>
          Some (DeploymentIntent \<lparr>
            dp_id = idOf ''gl'' repo id',
            dp_repo = repo,
            dp_environment = (case asString (map_of body ''environment'') of
              Some e \<Rightarrow> e | None \<Rightarrow> ''unknown''),
            dp_ref = emptyOr (asString (map_of body ''ref'')),
            dp_status = mapGitLabStatus (emptyOr (asString (map_of body ''status''))),
            dp_createdAt = msOf createdAt,
            dp_environmentUrl = None,
            dp_url = asString (map_of body ''deployable_url'')\<rparr>)
      | _ \<Rightarrow> None)"

definition toGitHubIntent ::
  "(string \<Rightarrow> instant) \<Rightarrow> instant \<Rightarrow> string \<Rightarrow> json \<Rightarrow> IngestIntent option" where
  "toGitHubIntent msOf now event payload =
     (case asObject (Some payload) of
        None \<Rightarrow> None
      | Some body \<Rightarrow>
          if event = ''pull_request'' then gitHubPullRequest msOf now body
          else if event = ''workflow_run'' then gitHubWorkflowRun msOf body
          else if event = ''deployment_status'' then gitHubDeployment msOf body
          else None)"

definition toGitLabIntent ::
  "(string \<Rightarrow> instant) \<Rightarrow> instant \<Rightarrow> string \<Rightarrow> json \<Rightarrow> IngestIntent option" where
  "toGitLabIntent msOf now event payload =
     (case asObject (Some payload) of
        None \<Rightarrow> None
      | Some body \<Rightarrow>
          if event = ''Merge Request Hook'' then gitLabMergeRequest msOf now body
          else if event = ''Pipeline Hook'' then gitLabPipeline msOf body
          else if event = ''Deployment Hook'' then gitLabDeployment msOf body
          else None)"

section \<open>Identifiers\<close>

lemma idOf_inject: "idOf p r n = idOf p r' n' \<longleftrightarrow> r = r' \<and> n = n'"
  unfolding idOf_def id_spelling_inject by simp

lemmas intent_defs = toGitHubIntent_def toGitLabIntent_def gitHubPullRequest_def gitHubWorkflowRun_def
  gitHubDeployment_def gitLabMergeRequest_def gitLabPipeline_def gitLabDeployment_def

text \<open>What an intent is about: its identifier, its repository and, for a request, its number.\<close>

fun intentId :: "IngestIntent \<Rightarrow> string" where
  "intentId (PullRequestIntent i) = spr_id i"
| "intentId (PipelineIntent i) = pl_id i"
| "intentId (DeploymentIntent i) = dp_id i"

fun intentRepo :: "IngestIntent \<Rightarrow> string" where
  "intentRepo (PullRequestIntent i) = spr_repo i"
| "intentRepo (PipelineIntent i) = pl_repo i"
| "intentRepo (DeploymentIntent i) = dp_repo i"

lemma gitHub_id:
  "toGitHubIntent msOf now event p = Some i \<Longrightarrow> \<exists>n. intentId i = idOf ''gh'' (intentRepo i) n \<and>
     (\<forall>pr. i = PullRequestIntent pr \<longrightarrow> spr_number pr = n)"
  by (auto simp: intent_defs Let_def split: option.splits if_splits)

lemma gitLab_id:
  "toGitLabIntent msOf now event p = Some i \<Longrightarrow> \<exists>n. intentId i = idOf ''gl'' (intentRepo i) n \<and>
     (\<forall>pr. i = PullRequestIntent pr \<longrightarrow> spr_number pr = n)"
  by (auto simp: intent_defs Let_def split: option.splits if_splits)

lemma gh_not_gl: "idOf ''gh'' r n \<noteq> idOf ''gl'' r' n'"
  by (simp add: idOf_def)


text \<open>Two intents are about one subject: the same kind of thing, in the same repository, under the
  same number where requests are numbered.\<close>

fun same_subject :: "IngestIntent \<Rightarrow> IngestIntent \<Rightarrow> bool" where
  "same_subject (PullRequestIntent i) (PullRequestIntent j) \<longleftrightarrow>
     spr_repo i = spr_repo j \<and> spr_number i = spr_number j"
| "same_subject i j \<longleftrightarrow> intentRepo i = intentRepo j"

lemma same_subjectI:
  assumes "\<exists>n. intentId i = idOf p (intentRepo i) n \<and> (\<forall>pr. i = PullRequestIntent pr \<longrightarrow> spr_number pr = n)"
    and "\<exists>n. intentId j = idOf p (intentRepo j) n \<and> (\<forall>pr. j = PullRequestIntent pr \<longrightarrow> spr_number pr = n)"
    and "intentId i = intentId j"
  shows "same_subject i j"
  using assms by (cases "(i, j)" rule: same_subject.cases) (auto simp: idOf_inject)

text \<open>An identifier names one subject. Two events of one provider whose rows share an
  identifier are about the same repository and, for requests, the same number, whatever
  characters the repository's name holds; and an event of one provider never shares an identifier
  with an event of the other, so that a store holding both never mixes their rows.\<close>

theorem events_name_one_subject:
  assumes "toGitHubIntent msOf t1 e1 p1 = Some g1" "toGitHubIntent msOf t2 e2 p2 = Some g2"
    and "toGitLabIntent msOf t3 e3 p3 = Some l1" "toGitLabIntent msOf t4 e4 p4 = Some l2"
  shows "(intentId g1 = intentId g2 \<longrightarrow> same_subject g1 g2) \<and>
         (intentId l1 = intentId l2 \<longrightarrow> same_subject l1 l2) \<and>
         intentId g1 \<noteq> intentId l1"
  using same_subjectI [OF gitHub_id [OF assms(1)] gitHub_id [OF assms(2)]]
    same_subjectI [OF gitLab_id [OF assms(3)] gitLab_id [OF assms(4)]]
    gitHub_id [OF assms(1)] gitLab_id [OF assms(3)] gh_not_gl by metis

definition sample_run :: json where
  "sample_run = JObj [(''workflow_run'', JObj [(''id'', JNum 7), (''created_at'', JStr ''d'')]),
     (''repository'', JObj [(''name'', JStr ''a:b'')])]"

definition sample_hook :: json where
  "sample_hook = JObj [(''object_attributes'', JObj [(''id'', JNum 7), (''created_at'', JStr ''d'')]),
     (''project'', JObj [(''path_with_namespace'', JStr ''a:b'')])]"

theorem events_name_one_subject_witness:
  "\<exists>g l. toGitHubIntent (\<lambda>_. 0) 0 ''workflow_run'' sample_run = Some g \<and>
     toGitLabIntent (\<lambda>_. 0) 0 ''Pipeline Hook'' sample_hook = Some l \<and>
     same_subject g g \<and> same_subject l l \<and> intentId g \<noteq> intentId l"
proof -
  obtain g where g: "toGitHubIntent (\<lambda>_. 0) 0 ''workflow_run'' sample_run = Some g"
    by (simp add: toGitHubIntent_def gitHubWorkflowRun_def sample_run_def asObject_def asString_def
        asNumber_def member'_def)
  obtain l where l: "toGitLabIntent (\<lambda>_. 0) 0 ''Pipeline Hook'' sample_hook = Some l"
    by (simp add: toGitLabIntent_def gitLabPipeline_def sample_hook_def asObject_def asString_def
        asNumber_def member'_def)
  from events_name_one_subject [OF g g l l] g l show ?thesis by blast
qed

section \<open>Readings a listing would not give\<close>

text \<open>
  A merge request is merged when the hook carries a merge date. One that says it is merged
  and carries none reads as open.
\<close>

theorem a_merge_without_its_date_reads_as_open:
  "pullRequestState (Some ''merged'') False None = Open"
  "pullRequestState raw draft (Some d) = Merged"
  by (simp_all add: pullRequestState_def)

text \<open>
  A GitLab deployment hook dates the deployment by its last change of status. When it advances a
  deployment the store already holds, the later date replaces the one it was created at.
\<close>

theorem a_deployment_hook_moves_the_creation_date:
  assumes "gitLabDeployment msOf body = Some (DeploymentIntent i)"
  shows "\<exists>d. asString (map_of body ''status_changed_at'') = Some d \<and>
     dpr_createdAt (mergeDeployment (Some row) i T) = msOf d"
  using assms by (auto simp: mergeDeployment_def gitLabDeployment_def split: option.splits)

section \<open>Where the events of GitLab differ from its listings\<close>

text \<open>
  The author of an event is whoever triggered it: \<open>gitLabMergeRequest\<close> reads \<open>user\<close>, while the
  listing reads the author of the merge request. A relabelling by somebody else changes the stored
  author, until the next listing changes it back.
\<close>

lemma gitlab_event_names_the_actor:
  assumes "toGitLabIntent msOf now ''Merge Request Hook'' (JObj body) = Some (PullRequestIntent pr)"
    and "asString (member' (asObject (map_of body ''user'')) ''username'') = Some actor"
  shows "spr_author pr = actor"
  using assms by (auto simp: toGitLabIntent_def gitLabMergeRequest_def asObject_def Let_def split: option.splits if_splits)

text \<open>
  A pipeline event dates the row by the end of the pipeline, or by its creation while it runs, and
  carries its duration; the listing dates it by its last update and carries none.
\<close>

lemma gitlab_pipeline_event_is_dated_by_its_end:
  assumes "toGitLabIntent msOf now ''Pipeline Hook'' (JObj body) = Some (PipelineIntent p)"
  shows "pl_updatedAt p = (case asString (member' (asObject (map_of body ''object_attributes'')) ''finished_at'') of
      Some f \<Rightarrow> msOf f | None \<Rightarrow> pl_createdAt p)"
  using assms by (auto simp: toGitLabIntent_def gitLabPipeline_def asObject_def Let_def split: option.splits if_splits)

end
