(* ===== verification/Connectors.thy ===== *)
theory Connectors
  imports Webhook_Events "HOL-Library.Sublist"
begin

text \<open>
  What the two connectors of \<open>back/src/sources/connectors\<close> share: the scope of a source
  (\<open>scope.util.ts\<close> and \<open>scopeTracks\<close>, \<open>scopeFromSelection\<close> of the shared package), the order
  of tags (\<open>tag-order.ts\<close>), the web addresses (\<open>ref-url.ts\<close>), the unreadable range
  (\<open>compare.ts\<close>), and the calls themselves.

  A call to the provider is a function from a state of the world to a new one and an answer or an
  error; the provider's client is a record of such calls, a parameter. The context carries the
  callbacks of the caller: whether the run was cancelled, whether a call nobody needs may still be
  made, and what to do when a listing is cut short. \<open>await\<close> is \<open>andThen\<close>, \<open>try ... catch\<close>
  is \<open>attempt\<close>; two calls of a \<open>Promise.all\<close> are made in the order they are written.
\<close>

section \<open>Calls\<close>

datatype apiError = Aborted | NotFound | UnknownRef string string | Unresolvable string string string
  | OtherError string

type_synonym ('w, 'a) call = "'w \<Rightarrow> 'w \<times> (apiError + 'a)"

definition returns :: "'a \<Rightarrow> ('w, 'a) call" where
  "returns x = (\<lambda>w. (w, Inr x))"

definition throws :: "apiError \<Rightarrow> ('w, 'a) call" where
  "throws e = (\<lambda>w. (w, Inl e))"

definition andThen :: "('w, 'a) call \<Rightarrow> ('a \<Rightarrow> ('w, 'b) call) \<Rightarrow> ('w, 'b) call" where
  "andThen m f = (\<lambda>w. case m w of (w', Inl e) \<Rightarrow> (w', Inl e) | (w', Inr x) \<Rightarrow> f x w')"

definition attempt :: "('w, 'a) call \<Rightarrow> (apiError \<Rightarrow> ('w, 'a) call) \<Rightarrow> ('w, 'a) call" where
  "attempt m h = (\<lambda>w. case m w of (w', Inl e) \<Rightarrow> h e w' | (w', Inr x) \<Rightarrow> (w', Inr x))"

text \<open>A loop that pushes what each round reports.\<close>

primrec forEach :: "('a \<Rightarrow> ('w, 'b list) call) \<Rightarrow> 'a list \<Rightarrow> ('w, 'b list) call" where
  "forEach f [] = returns []"
| "forEach f (x # xs) = andThen (f x) (\<lambda>ys. andThen (forEach f xs) (\<lambda>zs. returns (ys @ zs)))"

lemma andThen_returns [simp]: "andThen (returns x) f = f x"
  by (simp add: andThen_def returns_def)

lemma andThen_throws [simp]: "andThen (throws e) f = throws e"
  by (simp add: andThen_def throws_def)

lemma andThen_Inr: "m w = (w', Inr x) \<Longrightarrow> andThen m f w = f x w'"
  by (simp add: andThen_def)

lemma andThen_Inl: "m w = (w', Inl e) \<Longrightarrow> andThen m f w = (w', Inl e)"
  by (simp add: andThen_def)

lemma forEach_pure:
  "(\<And>x. x \<in> set xs \<Longrightarrow> f x = returns (g x)) \<Longrightarrow> forEach f xs = returns (concat (map g xs))"
  by (induction xs) simp_all

section \<open>The scope of a source\<close>

record ScopeRules =
  sc_include :: "string list option"
  sc_exclude :: "string list option"
  sc_trackNewRepos :: "bool option"

definition scopeTracks :: "ScopeRules \<Rightarrow> string \<Rightarrow> bool" where
  "scopeTracks scope repo =
     (if (case sc_exclude scope of Some xs \<Rightarrow> repo \<in> set xs | None \<Rightarrow> False) then False
      else if (case sc_include scope of Some xs \<Rightarrow> repo \<in> set xs | None \<Rightarrow> False) then True
      else case sc_trackNewRepos scope of
        Some b \<Rightarrow> b
      | None \<Rightarrow> (case sc_include scope of Some xs \<Rightarrow> xs = [] | None \<Rightarrow> True))"

definition scopeFromSelection :: "string list \<Rightarrow> string set \<Rightarrow> bool \<Rightarrow> ScopeRules" where
  "scopeFromSelection catalogue selected trackNewRepos =
     (if trackNewRepos
      then \<lparr>sc_include = Some [], sc_exclude = Some (filter (\<lambda>repo. repo \<notin> selected) catalogue),
            sc_trackNewRepos = Some trackNewRepos\<rparr>
      else \<lparr>sc_include = Some (filter (\<lambda>repo. repo \<in> selected) catalogue), sc_exclude = Some [],
            sc_trackNewRepos = Some trackNewRepos\<rparr>)"

definition applyScope :: "string list \<Rightarrow> ScopeRules \<Rightarrow> string list" where
  "applyScope repos scope = filter (scopeTracks scope) repos"

lemma scopeTracks_selection:
  "scopeTracks (scopeFromSelection catalogue selected trackNew) =
     (\<lambda>repo. if repo \<in> set catalogue then repo \<in> selected else trackNew)"
  by (rule ext, rename_tac repo, cases trackNew; case_tac "repo \<in> selected")
    (simp_all add: scopeFromSelection_def scopeTracks_def)

text \<open>What is ticked is what is collected. A selection made against a catalogue, written down as
  a scope and read back on any later listing of the provider, covers exactly the ticked
  repositories of the catalogue, in the order the provider lists them, and the ones the catalogue
  did not know exactly when new repositories are tracked; and what is written down names no
  repository twice over: one of its two lists is empty.\<close>

theorem scope_selection_roundtrip:
  "applyScope listed (scopeFromSelection catalogue selected trackNew) =
     filter (\<lambda>repo. if repo \<in> set catalogue then repo \<in> selected else trackNew) listed \<and>
   (sc_include (scopeFromSelection catalogue selected trackNew) = Some [] \<or>
    sc_exclude (scopeFromSelection catalogue selected trackNew) = Some [])"
  unfolding applyScope_def scopeTracks_selection by (simp add: scopeFromSelection_def)

section \<open>Addresses\<close>

definition stripSlash :: "string \<Rightarrow> string" where
  "stripSlash s = (if s \<noteq> [] \<and> last s = CHR ''/'' then butlast s else s)"

definition stripSlashes :: "string \<Rightarrow> string" where
  "stripSlashes s = rev (dropWhile (\<lambda>c. c = CHR ''/'') (rev s))"

datatype SourceKind = GitHub | GitLab

record RepoLocation =
  rl_kind :: SourceKind
  rl_baseUrl :: string
  rl_owner :: string
  rl_repo :: string

text \<open>\<open>/(^|\/\/)(www\.|api\.)?github\.com/.test(baseUrl)\<close>\<close>

definition dotComHost :: "string \<Rightarrow> bool" where
  "dotComHost s \<longleftrightarrow> prefix ''github.com'' s \<or> prefix ''www.github.com'' s \<or> prefix ''api.github.com'' s"

definition isDotCom :: "string \<Rightarrow> bool" where
  "isDotCom s \<longleftrightarrow> dotComHost s \<or> list_ex (\<lambda>t. prefix ''//'' t \<and> dotComHost (drop 2 t)) (suffixes s)"

definition repoUrl :: "RepoLocation \<Rightarrow> string" where
  "repoUrl loc =
     (let root = stripSlashes (rl_baseUrl loc)
      in if rl_kind loc = GitLab then root @ ''/'' @ rl_repo loc
         else (if isDotCom (rl_baseUrl loc) then ''https://github.com'' else root) @
              ''/'' @ rl_owner loc @ ''/'' @ rl_repo loc)"

definition requestUrl :: "RepoLocation \<Rightarrow> int \<Rightarrow> string" where
  "requestUrl loc number =
     (let root = repoUrl loc
      in if rl_kind loc = GitLab then root @ ''/-/merge_requests/'' @ showInt number
         else root @ ''/pull/'' @ showInt number)"

text \<open>\<open>encodeURIComponent\<close> on the bytes of a string.\<close>

definition hexDigit :: "nat \<Rightarrow> char" where
  "hexDigit d = (if d < 10 then char_of (48 + d) else char_of (55 + d))"

definition uriUnreserved :: "char \<Rightarrow> bool" where
  "uriUnreserved c \<longleftrightarrow> c \<in> set ''ABCDEFGHIJKLMNOPQRSTUVWXYZabcdefghijklmnopqrstuvwxyz0123456789-_.!~*()'' \<or>
     c = CHR 0x27"

definition encodeURIComponent :: "string \<Rightarrow> string" where
  "encodeURIComponent s = concat (map (\<lambda>c. if uriUnreserved c then [c]
     else [CHR ''%'', hexDigit (of_char c div 16), hexDigit (of_char c mod 16)]) s)"

fun splitOn :: "char \<Rightarrow> string \<Rightarrow> string list" where
  "splitOn d [] = [[]]"
| "splitOn d (c # s) =
     (if c = d then [] # splitOn d s
      else case splitOn d s of w # ws \<Rightarrow> (c # w) # ws | [] \<Rightarrow> [[c]])"

fun joinWith :: "string \<Rightarrow> string list \<Rightarrow> string" where
  "joinWith d [] = []"
| "joinWith d [w] = w"
| "joinWith d (w # v # ws) = w @ d @ joinWith d (v # ws)"

definition refUrl :: "RepoLocation \<Rightarrow> string \<Rightarrow> string" where
  "refUrl loc ref =
     (let root = repoUrl loc;
          path = joinWith ''/'' (map encodeURIComponent (splitOn (CHR ''/'') ref))
      in if rl_kind loc = GitLab then root @ ''/-/tree/'' @ path else root @ ''/tree/'' @ path)"

section \<open>Tags\<close>

record Tag =
  tag_name :: string
  tag_sha :: string
  tag_taggedAt :: "instant option"

definition byTagDate :: "Tag list \<Rightarrow> Tag list" where
  "byTagDate tags =
     (let dated = filter (\<lambda>t. tag_taggedAt t \<noteq> None) tags;
          undated = filter (\<lambda>t. tag_taggedAt t = None) tags
      in sort_key (\<lambda>t. - the (tag_taggedAt t)) dated @ undated)"

section \<open>The context of a listing\<close>

datatype TruncatedResource = TruncPipelines | TruncDeployments | TruncMerged

record 'w ConnectorContext =
  cx_baseUrl :: string
  cx_owner :: string
  cx_scope :: ScopeRules
  cx_maxPages :: "nat option"
  cx_aborted :: "'w \<Rightarrow> bool"
  cx_allowsOptional :: "'w \<Rightarrow> bool"
  cx_onTruncated :: "string \<times> TruncatedResource \<Rightarrow> 'w \<Rightarrow> 'w"

definition throwIfAborted :: "'w ConnectorContext \<Rightarrow> ('w, unit) call" where
  "throwIfAborted ctx = (\<lambda>w. (w, if cx_aborted ctx w then Inl Aborted else Inr ()))"

text \<open>\<open>ctx.allowsOptionalCalls?.() !== false\<close>\<close>

definition mayEnrich :: "'w ConnectorContext \<Rightarrow> ('w, bool) call" where
  "mayEnrich ctx = (\<lambda>w. (w, Inr (cx_allowsOptional ctx w)))"

definition MAX_PAGES :: nat where "MAX_PAGES = 20"
definition DEEP_PAGE :: nat where "DEEP_PAGE = 100"
definition LIVE_PIPELINE_PAGE :: nat where "LIVE_PIPELINE_PAGE = 20"
definition LIVE_DEPLOYMENT_PAGE :: nat where "LIVE_DEPLOYMENT_PAGE = 30"
definition LIVE_MERGED_PAGE :: nat where "LIVE_MERGED_PAGE = 50"

definition isNotFound :: "apiError \<Rightarrow> bool" where
  "isNotFound e \<longleftrightarrow> e = NotFound"

definition unresolvableRange :: "string \<Rightarrow> string option \<Rightarrow> string \<Rightarrow> apiError" where
  "unresolvableRange repo from' to =
     (case from' of
        Some f \<Rightarrow> if f = [] then UnknownRef repo to else Unresolvable repo f to
      | None \<Rightarrow> UnknownRef repo to)"

text \<open>\<open>a || null\<close> on a string: an empty one is no address.\<close>

definition orNull :: "string option \<Rightarrow> string option" where
  "orNull s = (case s of Some x \<Rightarrow> if x = [] then None else Some x | None \<Rightarrow> None)"

record Commit =
  cm_sha :: string
  cm_message :: string
  cm_author :: string
  cm_authoredAt :: instant
  cm_url :: string
  cm_parents :: nat

record RefCommit =
  rc_sha :: string
  rc_committedAt :: "instant option"

record CommitPullRequest =
  cp_number :: int
  cp_url :: string
  cp_headRef :: string
  cp_title :: string
  cp_body :: string

record Branch =
  br_name :: string
  br_sha :: string
  br_isDefault :: bool

datatype RepoVisibility = PublicRepo | InternalRepo | PrivateRepo

record RepositoryRef =
  rr_name :: string
  rr_visibility :: RepoVisibility

definition oldest :: "instant list \<Rightarrow> instant option" where
  "oldest dates = (if dates = [] then None else Some (Min (set dates)))"

text \<open>Tags are neither lost nor invented; the dated ones come first, the newest at the head.\<close>

lemma byTagDate_mset: "mset (byTagDate tags) = mset tags"
proof -
  have "mset (filter (\<lambda>t. tag_taggedAt t \<noteq> None) tags) + mset (filter (\<lambda>t. tag_taggedAt t = None) tags) = mset tags"
    by (metis (no_types, lifting) mset_filter multiset_partition filter_cong)
  then show ?thesis by (simp add: byTagDate_def Let_def)
qed

lemma byTagDate_sorted:
  "\<exists>dated undated. byTagDate tags = dated @ undated \<and> sorted (map (\<lambda>t. - the (tag_taggedAt t)) dated) \<and>
     (\<forall>t \<in> set dated. tag_taggedAt t \<noteq> None) \<and> (\<forall>t \<in> set undated. tag_taggedAt t = None)"
  by (rule exI, rule exI [of _ "filter (\<lambda>t. tag_taggedAt t = None) tags"])
    (auto simp: byTagDate_def Let_def)

end
