(* ===== verification/Connector_GitHub.thy ===== *)
theory Connector_GitHub
  imports Connectors
begin

text \<open>
  \<open>back/src/sources/connectors/github.connector.ts\<close>: the listings of the GitHub connector. The
  client (Octokit) is the record \<open>GhApi\<close> of its calls; a payload is a record of the fields the
  source reads. \<open>gh.paginate\<close> is one call that answers the whole listing.

  The lemmas show that a bounded listing holds the whole of its window or says that it does not,
  that a comparison is read to its end and always ends, and that a listing and an event report the
  same row.
\<close>

section \<open>What the API answers\<close>

record GhRepo =
  gr_name :: string
  gr_visibility :: "string option"
  gr_private :: bool

record GhPull =
  gp_number :: int
  gp_title :: string
  gp_body :: "string option"
  gp_draft :: bool
  gp_login :: "string option"
  gp_html_url :: string
  gp_head_ref :: string
  gp_created_at :: instant
  gp_updated_at :: instant
  gp_merged_at :: "instant option"
  gp_requested_reviewers :: "json list option"
  gp_labels :: "json option"

record GhRun =
  gw_id :: int
  gw_head_branch :: "string option"
  gw_head_sha :: string
  gw_status :: "string option"
  gw_conclusion :: "string option"
  gw_html_url :: string
  gw_created_at :: instant
  gw_updated_at :: instant

record GhDeployment =
  gd_id :: int
  gd_environment :: string
  gd_ref :: string
  gd_created_at :: instant

record GhDeploymentStatus =
  gs_state :: string
  gs_environment_url :: "string option"
  gs_log_url :: "string option"
  gs_target_url :: "string option"

record GhCommit =
  gc_sha :: string
  gc_html_url :: string
  gc_message :: string
  gc_author_name :: "string option"
  gc_author_date :: "instant option"
  gc_committer_date :: "instant option"
  gc_login :: "string option"
  gc_parents :: "nat option"

record GhComparison =
  gk_total_commits :: nat
  gk_commits :: "GhCommit list"
  gk_merge_base :: "GhCommit option"

datatype TagTarget =
    CommitTarget string instant
  | TagObject "instant option" "(string \<times> instant) option"
  | OtherTarget

record TagNode =
  tn_name :: string
  tn_target :: TagTarget

record 'w GhApi =
  api_listForOrg :: "string \<Rightarrow> ('w, GhRepo list) call"
  api_openPulls :: "string \<Rightarrow> ('w, GhPull list) call"
  api_workflowRuns :: "string \<Rightarrow> nat \<Rightarrow> nat \<Rightarrow> ('w, GhRun list) call"
  api_deployments :: "string \<Rightarrow> nat \<Rightarrow> nat \<Rightarrow> ('w, GhDeployment list) call"
  api_deploymentStatuses :: "string \<Rightarrow> int \<Rightarrow> ('w, GhDeploymentStatus list) call"
  api_closedPulls :: "string \<Rightarrow> nat \<Rightarrow> nat \<Rightarrow> ('w, GhPull list) call"
  api_pullCommits :: "string \<Rightarrow> int \<Rightarrow> ('w, GhCommit list) call"
  api_allPullCommits :: "string \<Rightarrow> int \<Rightarrow> ('w, GhCommit list) call"
  api_reviews :: "string \<Rightarrow> int \<Rightarrow> ('w, instant option list) call"
  api_tagNodes :: "string \<Rightarrow> ('w, TagNode list option) call"
  api_restTags :: "string \<Rightarrow> ('w, (string \<times> string) list) call"
  api_branches :: "string \<Rightarrow> ('w, (string \<times> string) list) call"
  api_defaultBranch :: "string \<Rightarrow> ('w, string) call"
  api_compare :: "string \<Rightarrow> string \<Rightarrow> nat \<Rightarrow> nat \<Rightarrow> ('w, GhComparison) call"
  api_log :: "string \<Rightarrow> string \<Rightarrow> ('w, GhCommit list) call"
  api_commit :: "string \<Rightarrow> string \<Rightarrow> ('w, GhCommit) call"
  api_commitPulls :: "string \<Rightarrow> string \<Rightarrow> ('w, GhPull list) call"

section \<open>Mappings\<close>

definition gitHubLabelNames :: "json option \<Rightarrow> string list" where
  "gitHubLabelNames labels =
     (case labels of
        Some (JArr xs) \<Rightarrow>
          filter (\<lambda>s. s \<noteq> [])
            (map (\<lambda>label. case label of
                JStr s \<Rightarrow> s
              | JObj ms \<Rightarrow> (case map_of ms ''name'' of Some (JStr n) \<Rightarrow> n | _ \<Rightarrow> [])
              | _ \<Rightarrow> []) xs)
      | _ \<Rightarrow> [])"

definition toCommit :: "GhCommit \<Rightarrow> string \<Rightarrow> Commit" where
  "toCommit c repo = \<lparr>
     cm_sha = gc_sha c,
     cm_message = gc_message c,
     cm_author = (case orElse (gc_login c) (gc_author_name c) of Some a \<Rightarrow> a | None \<Rightarrow> ''unknown''),
     cm_authoredAt = (case gc_author_date c of Some d \<Rightarrow> d | None \<Rightarrow> 0),
     cm_url = gc_html_url c,
     cm_parents = (case gc_parents c of Some n \<Rightarrow> n | None \<Rightarrow> 1)\<rparr>"

definition toTag :: "TagNode \<Rightarrow> Tag" where
  "toTag node =
     (case tn_target node of
        CommitTarget oid committedDate \<Rightarrow>
          \<lparr>tag_name = tn_name node, tag_sha = oid, tag_taggedAt = Some committedDate\<rparr>
      | TagObject tagger target \<Rightarrow>
          \<lparr>tag_name = tn_name node,
           tag_sha = (case target of Some (oid, _) \<Rightarrow> oid | None \<Rightarrow> []),
           tag_taggedAt = orElse tagger (map_option snd target)\<rparr>
      | OtherTarget \<Rightarrow> \<lparr>tag_name = tn_name node, tag_sha = [], tag_taggedAt = None\<rparr>)"

definition githubRepoUrl :: "'w ConnectorContext \<Rightarrow> string \<Rightarrow> string" where
  "githubRepoUrl ctx repo = repoUrl \<lparr>rl_kind = GitHub, rl_baseUrl = cx_baseUrl ctx,
     rl_owner = cx_owner ctx, rl_repo = repo\<rparr>"

definition listedPull :: "'w ConnectorContext \<Rightarrow> instant \<Rightarrow> string \<Rightarrow> GhPull \<Rightarrow> SourcePullRequest" where
  "listedPull ctx now repo pr = \<lparr>
     spr_id = idOf ''gh'' repo (gp_number pr),
     spr_number = gp_number pr,
     spr_title = gp_title pr,
     spr_state = (if gp_draft pr then Draft else Open),
     spr_author = (case gp_login pr of Some l \<Rightarrow> l | None \<Rightarrow> ''unknown''),
     spr_repo = repo,
     spr_repoUrl = githubRepoUrl ctx repo,
     spr_url = gp_html_url pr,
     spr_headRef = gp_head_ref pr,
     spr_createdAt = gp_created_at pr,
     spr_updatedAt = gp_updated_at pr,
     spr_mergedAt = gp_merged_at pr,
     spr_reviewers = (case gp_requested_reviewers pr of Some rs \<Rightarrow> int (length rs) | None \<Rightarrow> 0),
     spr_ageHours = ageHours now (gp_created_at pr),
     spr_tickets = [],
     spr_body = (case gp_body pr of Some b \<Rightarrow> b | None \<Rightarrow> []),
     spr_labels = gitHubLabelNames (gp_labels pr)\<rparr>"

definition listedRun :: "'w ConnectorContext \<Rightarrow> string \<Rightarrow> GhRun \<Rightarrow> Pipeline" where
  "listedRun ctx repo run = \<lparr>
     pl_id = idOf ''gh'' repo (gw_id run),
     pl_repo = repo,
     pl_repoUrl = githubRepoUrl ctx repo,
     pl_ref = (case gw_head_branch run of Some b \<Rightarrow> b | None \<Rightarrow> take 7 (gw_head_sha run)),
     pl_status = mapGitHubStatus (gw_status run) (gw_conclusion run),
     pl_url = gw_html_url run,
     pl_createdAt = gw_created_at run,
     pl_updatedAt = gw_updated_at run,
     pl_durationSec = (if gw_status run = Some ''completed''
       then Some (roundSeconds (gw_updated_at run - gw_created_at run)) else None)\<rparr>"

section \<open>Pages\<close>

function pagesLoop ::
  "'w ConnectorContext \<Rightarrow> (nat \<Rightarrow> ('w, 'a list) call) \<Rightarrow> ('a \<Rightarrow> bool) \<Rightarrow> nat \<Rightarrow> nat \<Rightarrow>
   'a list \<Rightarrow> bool \<Rightarrow> ('w, 'a list \<times> bool) call" where
  "pagesLoop ctx fetch older cap page out finished =
     (if finished \<or> \<not> page < cap then returns (out, finished)
      else andThen (throwIfAborted ctx) (\<lambda>_.
           andThen (fetch (page + 1)) (\<lambda>following.
             pagesLoop ctx fetch older cap (page + 1) (out @ following)
               (following = [] \<or> list_ex older following))))"
  by pat_completeness auto
termination by (relation "measure (\<lambda>(ctx, fetch, older, cap, page, out, finished). cap - page)") auto

declare pagesLoop.simps [simp del]

definition pagesDownTo ::
  "'w ConnectorContext \<Rightarrow> string \<Rightarrow> instant option \<Rightarrow> (nat \<Rightarrow> ('w, 'a list) call) \<Rightarrow>
   ('a \<Rightarrow> instant) \<Rightarrow> TruncatedResource \<Rightarrow> ('w, 'a list) call" where
  "pagesDownTo ctx repo since fetch date resource =
     andThen (fetch 1) (\<lambda>first.
       case since of
         None \<Rightarrow> returns first
       | Some sinceMs \<Rightarrow>
           let cap = (case cx_maxPages ctx of Some n \<Rightarrow> n | None \<Rightarrow> MAX_PAGES);
               older = (\<lambda>item. date item < sinceMs)
           in andThen (pagesLoop ctx fetch older cap 1 first (first = [] \<or> list_ex older first))
                (\<lambda>(out, finished).
                  andThen (if \<not> finished then (\<lambda>w. (cx_onTruncated ctx (repo, resource) w, Inr ()))
                           else returns ())
                    (\<lambda>_. returns (filter (\<lambda>item. \<not> older item) out))))"

text \<open>A comparison is read until its total, or until a page comes back empty.\<close>

function compareLoop ::
  "(nat \<Rightarrow> ('w, GhComparison) call) \<Rightarrow> nat \<Rightarrow> nat \<Rightarrow> GhCommit list \<Rightarrow> ('w, GhCommit list) call" where
  "compareLoop readPage totalCommits page commits =
     (if length commits < totalCommits
      then andThen (readPage page) (\<lambda>following.
             if gk_commits following = [] then returns commits
             else compareLoop readPage totalCommits (page + 1) (commits @ gk_commits following))
      else returns commits)"
  by pat_completeness auto
termination by (relation "measure (\<lambda>(readPage, totalCommits, page, commits). totalCommits - length commits)")
  (auto intro!: diff_less_mono2)

declare compareLoop.simps [simp del]

definition compare :: "'w GhApi \<Rightarrow> string \<Rightarrow> string \<Rightarrow> string \<Rightarrow> ('w, GhCommit list) call" where
  "compare gh repo from' to =
     (let readPage = (\<lambda>page. api_compare gh repo (from' @ ''...'' @ to) 100 page)
      in andThen (readPage 1) (\<lambda>first.
           compareLoop readPage (gk_total_commits first) 2 (gk_commits first)))"

section \<open>Listings\<close>

definition listAllRepositories :: "'w GhApi \<Rightarrow> 'w ConnectorContext \<Rightarrow> ('w, RepositoryRef list) call" where
  "listAllRepositories gh ctx =
     andThen (api_listForOrg gh (cx_owner ctx)) (\<lambda>repos.
       returns (map (\<lambda>r. \<lparr>rr_name = gr_name r,
         rr_visibility = (if gr_visibility r = Some ''internal'' then InternalRepo
           else if gr_private r then PrivateRepo else PublicRepo)\<rparr>) repos))"

definition gitHubRepositories :: "'w GhApi \<Rightarrow> 'w ConnectorContext \<Rightarrow> ('w, string list) call" where
  "gitHubRepositories gh ctx =
     andThen (listAllRepositories gh ctx) (\<lambda>repos.
       returns (applyScope (map rr_name repos) (cx_scope ctx)))"

definition gitHubPullRequests ::
  "'w GhApi \<Rightarrow> 'w ConnectorContext \<Rightarrow> instant \<Rightarrow> string list \<Rightarrow> ('w, SourcePullRequest list) call" where
  "gitHubPullRequests gh ctx now repos =
     forEach (\<lambda>repo.
       andThen (throwIfAborted ctx) (\<lambda>_.
       andThen (api_openPulls gh repo) (\<lambda>prs.
         returns (map (listedPull ctx now repo) prs)))) repos"

definition gitHubPipelines ::
  "'w GhApi \<Rightarrow> 'w ConnectorContext \<Rightarrow> string list \<Rightarrow> instant option \<Rightarrow> ('w, Pipeline list) call" where
  "gitHubPipelines gh ctx repos since =
     forEach (\<lambda>repo.
       andThen (throwIfAborted ctx) (\<lambda>_.
       andThen (pagesDownTo ctx repo since
           (\<lambda>page. api_workflowRuns gh repo
              (if since \<noteq> None then DEEP_PAGE else LIVE_PIPELINE_PAGE) page)
           gw_created_at TruncPipelines) (\<lambda>runs.
         returns (map (listedRun ctx repo) runs)))) repos"

definition deploymentStatus ::
  "'w GhApi \<Rightarrow> string \<Rightarrow> int \<Rightarrow> ('w, PipelineStatus \<times> string option \<times> string option) call" where
  "deploymentStatus gh repo deploymentId =
     attempt
       (andThen (api_deploymentStatuses gh repo deploymentId) (\<lambda>statuses.
          let latest = (case statuses of s # _ \<Rightarrow> Some s | [] \<Rightarrow> None)
          in returns (mapGitHubDeploymentState (map_option gs_state latest),
               orNull (Option.bind latest gs_environment_url),
               orElse (orNull (Option.bind latest gs_log_url)) (orNull (Option.bind latest gs_target_url)))))
       (\<lambda>_. returns (Unknown, None, None))"

definition gitHubDeployments ::
  "'w GhApi \<Rightarrow> 'w ConnectorContext \<Rightarrow> string list \<Rightarrow> instant option \<Rightarrow> ('w, Deployment list) call" where
  "gitHubDeployments gh ctx repos since =
     forEach (\<lambda>repo.
       andThen (throwIfAborted ctx) (\<lambda>_.
       andThen (pagesDownTo ctx repo since
           (\<lambda>page. api_deployments gh repo
              (if since \<noteq> None then DEEP_PAGE else LIVE_DEPLOYMENT_PAGE) page)
           gd_created_at TruncDeployments) (\<lambda>deps.
         forEach (\<lambda>d.
           andThen (throwIfAborted ctx) (\<lambda>_.
           andThen (mayEnrich ctx) (\<lambda>enrich.
           andThen (if enrich then deploymentStatus gh repo (gd_id d)
                    else returns (Unknown, None, None)) (\<lambda>(status, environmentUrl, url).
             returns [\<lparr>
               dp_id = idOf ''gh'' repo (gd_id d),
               dp_repo = repo,
               dp_environment = gd_environment d,
               dp_ref = gd_ref d,
               dp_status = status,
               dp_createdAt = gd_created_at d,
               dp_environmentUrl = environmentUrl,
               dp_url = url\<rparr>])))) deps))) repos"

definition firstCommitAt :: "'w GhApi \<Rightarrow> string \<Rightarrow> int \<Rightarrow> ('w, instant option) call" where
  "firstCommitAt gh repo number =
     attempt
       (andThen (api_pullCommits gh repo number) (\<lambda>commits.
          returns (oldest (List.map_filter (\<lambda>c. orElse (gc_author_date c) (gc_committer_date c)) commits))))
       (\<lambda>_. returns None)"

definition firstReviewAt :: "'w GhApi \<Rightarrow> string \<Rightarrow> int \<Rightarrow> ('w, instant option) call" where
  "firstReviewAt gh repo number =
     attempt
       (andThen (api_reviews gh repo number) (\<lambda>reviews.
          returns (case reviews of r # _ \<Rightarrow> r | [] \<Rightarrow> None)))
       (\<lambda>_. returns None)"

definition gitHubMergedPullRequests ::
  "'w GhApi \<Rightarrow> 'w ConnectorContext \<Rightarrow> string list \<Rightarrow> instant \<Rightarrow> ('w, SourceMergedPullRequest list) call" where
  "gitHubMergedPullRequests gh ctx repos since =
     forEach (\<lambda>repo.
       andThen (throwIfAborted ctx) (\<lambda>_.
       andThen (pagesDownTo ctx repo (Some since)
           (\<lambda>page. api_closedPulls gh repo LIVE_MERGED_PAGE page) gp_updated_at TruncMerged) (\<lambda>prs.
         forEach (\<lambda>pr.
           case gp_merged_at pr of
             None \<Rightarrow> returns []
           | Some mergedAt \<Rightarrow>
               if mergedAt < since then returns []
               else
                 andThen (throwIfAborted ctx) (\<lambda>_.
                 andThen (mayEnrich ctx) (\<lambda>enrich.
                 andThen (if enrich then firstCommitAt gh repo (gp_number pr) else returns None) (\<lambda>commitAt.
                 andThen (if enrich then firstReviewAt gh repo (gp_number pr) else returns None) (\<lambda>reviewAt.
                   returns [\<lparr>
                     smr_id = idOf ''gh'' repo (gp_number pr),
                     smr_repo = repo,
                     smr_number = gp_number pr,
                     smr_title = gp_title pr,
                     smr_url = gp_html_url pr,
                     smr_headRef = gp_head_ref pr,
                     smr_openedAt = gp_created_at pr,
                     smr_firstCommitAt = commitAt,
                     smr_firstReviewAt = reviewAt,
                     smr_mergedAt = mergedAt,
                     smr_labels = gitHubLabelNames (gp_labels pr),
                     smr_body = (case gp_body pr of Some b \<Rightarrow> b | None \<Rightarrow> [])\<rparr>]))))) prs))) repos"

section \<open>Refs\<close>

definition listTags :: "'w GhApi \<Rightarrow> string \<Rightarrow> ('w, Tag list) call" where
  "listTags gh repo =
     attempt
       (andThen (api_tagNodes gh repo) (\<lambda>answer.
          returns (byTagDate (map toTag (case answer of Some nodes \<Rightarrow> nodes | None \<Rightarrow> [])))))
       (\<lambda>_. andThen (api_restTags gh repo) (\<lambda>tags.
          returns (map (\<lambda>(name, sha). \<lparr>tag_name = name, tag_sha = sha, tag_taggedAt = None\<rparr>) tags)))"

definition listBranches :: "'w GhApi \<Rightarrow> string \<Rightarrow> ('w, Branch list) call" where
  "listBranches gh repo =
     andThen (api_branches gh repo) (\<lambda>branches.
     andThen (api_defaultBranch gh repo) (\<lambda>fallback.
       returns (map (\<lambda>(name, sha). \<lparr>br_name = name, br_sha = sha, br_isDefault = (name = fallback)\<rparr>) branches)))"

definition listCommitsBetween ::
  "'w GhApi \<Rightarrow> string \<Rightarrow> string option \<Rightarrow> string \<Rightarrow> ('w, Commit list) call" where
  "listCommitsBetween gh repo from' to =
     attempt
       (case orNull from' of
          Some f \<Rightarrow> andThen (compare gh repo f to) (\<lambda>cs. returns (map (\<lambda>c. toCommit c repo) cs))
        | None \<Rightarrow> andThen (api_log gh repo to) (\<lambda>cs. returns (map (\<lambda>c. toCommit c repo) cs)))
       (\<lambda>e. throws (if isNotFound e then unresolvableRange repo from' to else e))"

definition refCommit :: "'w GhApi \<Rightarrow> string \<Rightarrow> string \<Rightarrow> ('w, RefCommit option) call" where
  "refCommit gh repo ref =
     attempt
       (andThen (api_commit gh repo ref) (\<lambda>c.
          returns (Some \<lparr>rc_sha = gc_sha c, rc_committedAt = gc_committer_date c\<rparr>)))
       (\<lambda>e. if isNotFound e then returns None else throws e)"

definition mergeBase :: "'w GhApi \<Rightarrow> string \<Rightarrow> string \<Rightarrow> string \<Rightarrow> ('w, RefCommit option) call" where
  "mergeBase gh repo ref other =
     attempt
       (andThen (api_compare gh repo (other @ ''...'' @ ref) 1 1) (\<lambda>answer.
          returns (map_option (\<lambda>b. \<lparr>rc_sha = gc_sha b, rc_committedAt = gc_committer_date b\<rparr>)
            (gk_merge_base answer))))
       (\<lambda>e. if isNotFound e then returns None else throws e)"

text \<open>The requests a commit landed in: a map grown commit by commit, over a refused association.\<close>

primrec commitPullRequests_loop ::
  "'w GhApi \<Rightarrow> 'w ConnectorContext \<Rightarrow> string \<Rightarrow> string list \<Rightarrow> (string, CommitPullRequest) jsmap \<Rightarrow>
   ('w, (string, CommitPullRequest) jsmap) call" where
  "commitPullRequests_loop gh ctx repo [] requests = returns requests"
| "commitPullRequests_loop gh ctx repo (sha # shas) requests =
     andThen (throwIfAborted ctx) (\<lambda>_.
     andThen (mayEnrich ctx) (\<lambda>enrich.
       if \<not> enrich then commitPullRequests_loop gh ctx repo shas requests
       else
         andThen (attempt (andThen (api_commitPulls gh repo sha) (\<lambda>prs.
             returns (case orElse (find (\<lambda>pr. gp_merged_at pr \<noteq> None) prs)
                              (case prs of pr # _ \<Rightarrow> Some pr | [] \<Rightarrow> None) of
                 None \<Rightarrow> requests
               | Some merged \<Rightarrow>
                   AList.update sha \<lparr>cp_number = gp_number merged, cp_url = gp_html_url merged,
                     cp_headRef = gp_head_ref merged, cp_title = gp_title merged,
                     cp_body = (case gp_body merged of Some b \<Rightarrow> b | None \<Rightarrow> [])\<rparr> requests)))
           (\<lambda>_. returns requests))
         (\<lambda>requests'. commitPullRequests_loop gh ctx repo shas requests')))"

definition commitPullRequests ::
  "'w GhApi \<Rightarrow> 'w ConnectorContext \<Rightarrow> string \<Rightarrow> string list \<Rightarrow> ('w, (string, CommitPullRequest) jsmap) call" where
  "commitPullRequests gh ctx repo shas = commitPullRequests_loop gh ctx repo shas []"

primrec pullRequestCommits_loop ::
  "'w GhApi \<Rightarrow> 'w ConnectorContext \<Rightarrow> string \<Rightarrow> int list \<Rightarrow> (int, Commit list) jsmap \<Rightarrow>
   ('w, (int, Commit list) jsmap) call" where
  "pullRequestCommits_loop gh ctx repo [] commits = returns commits"
| "pullRequestCommits_loop gh ctx repo (number # numbers) commits =
     andThen (throwIfAborted ctx) (\<lambda>_.
     andThen (mayEnrich ctx) (\<lambda>enrich.
       if \<not> enrich then pullRequestCommits_loop gh ctx repo numbers commits
       else
         andThen (attempt (andThen (api_allPullCommits gh repo number) (\<lambda>listed.
             returns (AList.update number (map (\<lambda>c. toCommit c repo) listed) commits)))
           (\<lambda>_. returns commits))
         (\<lambda>commits'. pullRequestCommits_loop gh ctx repo numbers commits')))"

definition pullRequestCommits ::
  "'w GhApi \<Rightarrow> 'w ConnectorContext \<Rightarrow> string \<Rightarrow> int list \<Rightarrow> ('w, (int, Commit list) jsmap) call" where
  "pullRequestCommits gh ctx repo numbers = pullRequestCommits_loop gh ctx repo numbers []"


section \<open>A bounded listing is whole, or says that it is not\<close>

text \<open>A page of a listing, as the provider cuts it.\<close>

definition pageOf :: "nat \<Rightarrow> nat \<Rightarrow> 'a list \<Rightarrow> 'a list" where
  "pageOf per page xs = take per (drop (per * (page - 1)) xs)"

lemma page_append:
  assumes "1 \<le> page"
  shows "take (per * (page - 1)) xs @ pageOf per page xs = take (per * page) xs"
proof -
  from assms have "per * page = per * (page - 1) + per" by (cases page) simp_all
  then show ?thesis by (simp add: pageOf_def take_add)
qed

definition newestFirst :: "('a \<Rightarrow> instant) \<Rightarrow> 'a list \<Rightarrow> bool" where
  "newestFirst date xs \<longleftrightarrow> sorted_wrt (\<lambda>x y. date y \<le> date x) xs"

lemma newestFirst_take_drop:
  assumes "newestFirst date xs" "x \<in> set (take n xs)" "y \<in> set (drop n xs)"
  shows "date y \<le> date x"
proof -
  have "sorted_wrt (\<lambda>x y. date y \<le> date x) (take n xs @ drop n xs)"
    using assms(1) by (simp add: newestFirst_def)
  then show ?thesis using assms(2,3) unfolding sorted_wrt_append by blast
qed

lemma last_page_completes:
  assumes nf: "newestFirst date xs" and per: "0 < per" "1 \<le> page"
    and last: "pageOf per page xs = [] \<or> list_ex (\<lambda>x. date x < since) (pageOf per page xs)"
  shows "filter (\<lambda>x. \<not> date x < since) (take (per * page) xs) = filter (\<lambda>x. \<not> date x < since) xs"
proof -
  have rest: "\<forall>y \<in> set (drop (per * page) xs). date y < since"
    using last
  proof
    assume "pageOf per page xs = []"
    then have "length xs \<le> per * (page - 1)" using per by (simp add: pageOf_def)
    also have "\<dots> \<le> per * page" by simp
    finally show ?thesis by simp
  next
    assume "list_ex (\<lambda>x. date x < since) (pageOf per page xs)"
    then obtain x where x: "x \<in> set (pageOf per page xs)" "date x < since"
      by (auto simp: list_ex_iff)
    from x(1) have "x \<in> set (take (per * page) xs)"
      unfolding page_append [OF per(2), of per xs, symmetric] by simp
    then show ?thesis using newestFirst_take_drop [OF nf] x(2) by fastforce
  qed
  have "filter (\<lambda>x. \<not> date x < since) xs = filter (\<lambda>x. \<not> date x < since) (take (per * page) xs) @
      filter (\<lambda>x. \<not> date x < since) (drop (per * page) xs)"
    by (metis append_take_drop_id filter_append)
  with rest show ?thesis by simp
qed

lemma full_page_counts:
  assumes nf: "newestFirst date xs"
    and ne: "pageOf per page xs \<noteq> []" "\<not> list_ex (\<lambda>x. date x < since) (pageOf per page xs)"
  shows "per * (page - 1) < length (filter (\<lambda>x. \<not> date x < since) xs)"
proof -
  let ?m = "per * (page - 1)"
  from ne(1) have m: "?m < length xs" by (auto simp: pageOf_def)
  obtain x where x: "x \<in> set (pageOf per page xs)" using ne(1) by (cases "pageOf per page xs") auto
  then have sz: "0 < per" by (cases per) (auto simp: pageOf_def)
  have x': "x \<in> set (drop ?m xs)" "\<not> date x < since"
    using x ne(2) by (auto simp: pageOf_def list_ex_iff dest: in_set_takeD)
  have "\<forall>y \<in> set (take ?m xs). \<not> date y < since"
    using newestFirst_take_drop [OF nf _ x'(1)] x'(2) by fastforce
  then have "length (filter (\<lambda>x. \<not> date x < since) (take ?m xs)) = ?m"
    using m by (simp add: filter_id_conv [THEN iffD2])
  moreover have "filter (\<lambda>x. \<not> date x < since) (drop ?m xs) \<noteq> []"
    using x' by (auto simp: filter_empty_conv)
  moreover have "length (filter (\<lambda>x. \<not> date x < since) xs) =
      length (filter (\<lambda>x. \<not> date x < since) (take ?m xs)) + length (filter (\<lambda>x. \<not> date x < since) (drop ?m xs))"
    by (metis append_take_drop_id filter_append length_append)
  ultimately show ?thesis by simp
qed

text \<open>What a loop over the pages of one listing does, with the calls it makes counted.\<close>

lemma pagesLoop_reads:
  fixes ctx :: "'w ConnectorContext"
  assumes pages: "\<And>page w. 1 \<le> page \<Longrightarrow> snd (fetch page w) = Inr (pageOf per page xs)"
    and calls: "\<And>page w. calls (fst (fetch page w)) = Suc (calls w)"
    and reports: "\<And>page w. reports (fst (fetch page w)) = reports w"
    and live: "\<And>w. \<not> cx_aborted ctx w"
    and nf: "newestFirst date xs" and per: "0 < per"
  shows "1 \<le> page \<Longrightarrow>
    \<exists>w' last finished'. pagesLoop ctx fetch (\<lambda>x. date x < since) cap page (take (per * page) xs)
        (pageOf per page xs = [] \<or> list_ex (\<lambda>x. date x < since) (pageOf per page xs)) w =
      (w', Inr (take (per * last) xs, finished')) \<and>
      page \<le> last \<and> last \<le> max page cap \<and> calls w' + page = calls w + last \<and> reports w' = reports w \<and>
      (finished' \<longleftrightarrow> pageOf per last xs = [] \<or> list_ex (\<lambda>x. date x < since) (pageOf per last xs)) \<and>
      (last = page \<or> per * (last - 2) < length (filter (\<lambda>x. \<not> date x < since) xs))"
proof (induction "cap - page" arbitrary: page w rule: less_induct)
  case less
  let ?fin = "\<lambda>p. pageOf per p xs = [] \<or> list_ex (\<lambda>x. date x < since) (pageOf per p xs)"
  show ?case
  proof (cases "?fin page \<or> \<not> page < cap")
    case True
    then show ?thesis
      by (intro exI [of _ w] exI [of _ page] exI [of _ "?fin page"])
        (auto simp: pagesLoop.simps [of ctx fetch _ cap page] returns_def)
  next
    case False
    obtain v where f: "fetch (Suc page) w = (v, Inr (pageOf per (Suc page) xs))"
      using pages [of "Suc page" w] by (cases "fetch (Suc page) w") auto
    have next_page: "take (per * page) xs @ pageOf per (Suc page) xs = take (per * Suc page) xs"
      using page_append [of "Suc page" per xs] by (simp del: mult_Suc_right)
    have v: "calls v = Suc (calls w)" "reports v = reports w"
      using calls [of "Suc page" w] reports [of "Suc page" w] f by simp_all
    have step: "pagesLoop ctx fetch (\<lambda>x. date x < since) cap page (take (per * page) xs) (?fin page) w =
        pagesLoop ctx fetch (\<lambda>x. date x < since) cap (Suc page) (take (per * Suc page) xs) (?fin (Suc page)) v"
      using False f unfolding pagesLoop.simps [of ctx fetch _ cap page]
      by (simp add: andThen_def throwIfAborted_def live next_page del: mult_Suc_right)
    from False have "cap - Suc page < cap - page" "1 \<le> Suc page" by linarith+
    from less.hyps [OF this, of v] obtain w' last finished' where
      r: "pagesLoop ctx fetch (\<lambda>x. date x < since) cap (Suc page) (take (per * Suc page) xs) (?fin (Suc page)) v =
        (w', Inr (take (per * last) xs, finished'))"
      "Suc page \<le> last" "last \<le> max (Suc page) cap" "calls w' + Suc page = calls v + last"
      "reports w' = reports v" "finished' \<longleftrightarrow> ?fin last"
      "last = Suc page \<or> per * (last - 2) < length (filter (\<lambda>x. \<not> date x < since) xs)"
      by blast
    have "per * (page - 1) < length (filter (\<lambda>x. \<not> date x < since) xs)"
      using full_page_counts [OF nf] False by blast
    with r(7) have "last = page \<or> per * (last - 2) < length (filter (\<lambda>x. \<not> date x < since) xs)"
      by (metis Suc_1 Suc_diff_Suc diff_Suc_1' diff_Suc_Suc diff_zero less_eq_Suc_le numeral_2_eq_2 zero_less_Suc diff_Suc_1)
    moreover have "last \<le> max page cap" "page \<le> last" using r(2,3) False by linarith+
    moreover have "calls w' + page = calls w + last" using r(4) v(1) by linarith
    moreover have "reports w' = reports w" using r(5) v(2) by simp
    ultimately show ?thesis unfolding step r(1) using r(6)
      by (intro exI [of _ w'] exI [of _ last] exI [of _ finished']) blast
  qed
qed


text \<open>C11. A bounded listing is whole, or says that it is not. Over an endpoint that answers a listing
  newest first in pages, what is returned is a prefix of the rows of the window, all of them
  unless the truncation is reported, once; the calls made are at most the page ceiling, and at
  most two more than the pages the window fills, however long the history is.\<close>

theorem bounded_listing_is_whole_or_says_so:
  fixes ctx :: "'w ConnectorContext" and xs :: "'a list"
  assumes "\<And>page w. 1 \<le> page \<Longrightarrow> snd (fetch page w) = Inr (pageOf per page xs)"
    and "\<And>page w. calls (fst (fetch page w)) = Suc (calls w)"
    and "\<And>page w. reports (fst (fetch page w)) = reports w"
    and "\<And>w. reports (cx_onTruncated ctx (repo, resource) w) = Suc (reports w)"
    and "\<And>w. calls (cx_onTruncated ctx (repo, resource) w) = calls w"
    and "\<And>w. \<not> cx_aborted ctx w"
    and "newestFirst date xs" and "0 < per"
  shows "\<exists>w' out. pagesDownTo ctx repo (Some since) fetch date resource w = (w', Inr out) \<and>
    (\<exists>n. out = take n (filter (\<lambda>x. \<not> date x < since) xs)) \<and>
    (out = filter (\<lambda>x. \<not> date x < since) xs \<and> reports w' = reports w \<or> reports w' = Suc (reports w)) \<and>
    calls w' \<le> calls w + max 1 (case cx_maxPages ctx of Some n \<Rightarrow> n | None \<Rightarrow> MAX_PAGES) \<and>
    calls w' \<le> calls w + length (filter (\<lambda>x. \<not> date x < since) xs) div per + 2"
proof -
  let ?N = "\<lambda>x. \<not> date x < since"
  let ?cap = "case cx_maxPages ctx of Some n \<Rightarrow> n | None \<Rightarrow> MAX_PAGES"
  let ?fin = "\<lambda>p. pageOf per p xs = [] \<or> list_ex (\<lambda>x. date x < since) (pageOf per p xs)"
  obtain v where f: "fetch 1 w = (v, Inr (pageOf per 1 xs))"
    using assms(1) [of 1 w] by (cases "fetch 1 w") auto
  have v: "calls v = Suc (calls w)" "reports v = reports w"
    using assms(2,3) [of 1 w] f by simp_all
  have first: "pageOf per 1 xs = take (per * 1) xs" by (simp add: pageOf_def)
  obtain w1 last finished where
    r: "pagesLoop ctx fetch (\<lambda>x. date x < since) ?cap 1 (take (per * 1) xs) (?fin 1) v =
        (w1, Inr (take (per * last) xs, finished))"
    and b: "1 \<le> last" "last \<le> max 1 ?cap" "calls w1 + 1 = calls v + last" "reports w1 = reports v"
    and fin: "finished \<longleftrightarrow> ?fin last"
    and few: "last = 1 \<or> per * (last - 2) < length (filter ?N xs)"
    using pagesLoop_reads [where fetch = fetch and per = per and xs = xs and calls = calls and
        reports = reports and ctx = ctx and date = date, OF assms(1-3,6-8) order.refl, of since ?cap v]
    by blast
  have run: "pagesDownTo ctx repo (Some since) fetch date resource w =
      (if finished then w1 else cx_onTruncated ctx (repo, resource) w1, Inr (filter ?N (take (per * last) xs)))"
    using r unfolding pagesDownTo_def first [symmetric]
    by (simp add: andThen_def f [simplified] returns_def Let_def)
  have "filter ?N (take (per * last) xs) @ filter ?N (drop (per * last) xs) = filter ?N xs"
    by (metis append_take_drop_id filter_append)
  then have pre: "\<exists>n. filter ?N (take (per * last) xs) = take n (filter ?N xs)"
    by (metis append_eq_conv_conj)
  have whole: "filter ?N (take (per * last) xs) = filter ?N xs" if finished
    using last_page_completes [OF assms(7,8) b(1)] fin that by blast
  have "last \<le> length (filter ?N xs) div per + 2"
  proof (cases "last \<le> 2")
    case False
    with few have "(last - 2) * per \<le> length (filter ?N xs)" by (simp add: mult.commute)
    then have "last - 2 \<le> length (filter ?N xs) div per" using assms(8) by (simp add: less_eq_div_iff_mult_less_eq)
    then show ?thesis by simp
  qed simp
  with b v run pre whole show ?thesis
    by (cases finished) (simp_all add: assms(4,5))
qed

theorem bounded_listing_is_whole_or_says_so_witness:
  "\<exists>w' out. pagesDownTo \<lparr>cx_baseUrl = [], cx_owner = [], cx_scope = \<lparr>sc_include = None, sc_exclude = None,
        sc_trackNewRepos = None\<rparr>, cx_maxPages = Some 3, cx_aborted = (\<lambda>_. False),
        cx_allowsOptional = (\<lambda>_. True), cx_onTruncated = (\<lambda>_ (c, r). (c, Suc r))\<rparr>
      ''api'' (Some 5) (\<lambda>page (c, r). ((Suc c, r), Inr (pageOf 2 page [9, 8, 6, 3, 1 :: int]))) (\<lambda>x. x)
      TruncPipelines (0, 0) = (w', Inr out) \<and>
    (out = [9, 8, 6] \<and> snd w' = 0 \<or> snd w' = (1 :: nat)) \<and> fst w' \<le> (3 :: nat)"
proof -
  let ?ctx = "\<lparr>cx_baseUrl = [], cx_owner = [], cx_scope = \<lparr>sc_include = None, sc_exclude = None,
        sc_trackNewRepos = None\<rparr>, cx_maxPages = Some 3, cx_aborted = (\<lambda>_. False),
        cx_allowsOptional = (\<lambda>_. True), cx_onTruncated = (\<lambda>_ (c, r). (c, Suc r))\<rparr> ::
        (nat \<times> nat) ConnectorContext"
  let ?fetch = "\<lambda>page (c, r). ((Suc c, r), Inr (pageOf 2 page [9, 8, 6, 3, 1 :: int])) ::
        (nat \<times> nat) \<times> (apiError + int list)"
  have "newestFirst (\<lambda>x. x) [9, 8, 6, 3, 1 :: int]" by (simp add: newestFirst_def)
  from bounded_listing_is_whole_or_says_so [of ?fetch 2 "[9, 8, 6, 3, 1]" fst snd ?ctx "''api''"
      TruncPipelines "\<lambda>x. x" 5 "(0, 0)", OF _ _ _ _ _ _ this]
  show ?thesis by (auto split: prod.splits)
qed


section \<open>A comparison is read to its end\<close>

lemma compareLoop_reads:
  assumes "\<And>page w. 1 \<le> page \<Longrightarrow> \<exists>answer. snd (readPage page w) = Inr answer \<and>
      gk_commits answer = pageOf 100 page served"
    and "length served \<le> totalCommits"
  shows "1 \<le> page \<Longrightarrow> snd (compareLoop readPage totalCommits (Suc page) (take (100 * page) served) w) = Inr served"
proof (induction "length served - 100 * page" arbitrary: page w rule: less_induct)
  case less
  let ?cs = "take (100 * page) served"
  obtain v answer where r: "readPage (Suc page) w = (v, Inr answer)" "gk_commits answer = pageOf 100 (Suc page) served"
    using assms(1) [of "Suc page" w] by (cases "readPage (Suc page) w") auto
  have more: "?cs @ pageOf 100 (Suc page) served = take (100 * Suc page) served"
    using page_append [of "Suc page" 100 served] by (simp del: mult_Suc_right)
  show ?case
  proof (cases "length ?cs < totalCommits")
    case False
    with assms(2) have "?cs = served" by auto
    with False show ?thesis by (simp add: compareLoop.simps returns_def)
  next
    case room: True
    show ?thesis
    proof (cases "pageOf 100 (Suc page) served = []")
      case True
      then have "?cs = served" by (simp add: pageOf_def)
      with room r True show ?thesis
        by (simp add: compareLoop.simps [of readPage _ "Suc page"] andThen_def returns_def)
    next
      case False
      then have "length served - 100 * Suc page < length served - 100 * page"
        by (simp add: pageOf_def)
      from less.hyps [OF this, of v] room r False more less.prems show ?thesis
        by (simp add: compareLoop.simps [of readPage _ "Suc page"] andThen_def del: mult_Suc_right)
    qed
  qed
qed

text \<open>C12. A comparison is read to its end. Whatever the number of commits the platform serves for a
  range, in pages of a hundred and up to the total it announces, the connector returns all of them
  in order; and it ends, also when the platform serves fewer than it announced.\<close>

theorem comparison_is_read_to_its_end:
  assumes "\<And>page w. 1 \<le> page \<Longrightarrow>
      \<exists>answer. snd (api_compare gh repo (from' @ ''...'' @ to) 100 page w) = Inr answer \<and>
        gk_commits answer = pageOf 100 page served \<and> gk_total_commits answer = totalCommits"
    and "length served \<le> totalCommits"
  shows "snd (compare gh repo from' to w) = Inr served"
proof -
  let ?read = "api_compare gh repo (from' @ ''...'' @ to) 100"
  obtain v answer where r: "?read 1 w = (v, Inr answer)" "gk_commits answer = pageOf 100 1 served"
    "gk_total_commits answer = totalCommits"
    using assms(1) [of 1 w] by (cases "?read 1 w") auto
  have "\<And>page w. 1 \<le> page \<Longrightarrow> \<exists>answer. snd (?read page w) = Inr answer \<and>
      gk_commits answer = pageOf 100 page served" using assms(1) by blast
  from compareLoop_reads [where readPage = ?read and page = 1 and w = v, OF this assms(2) order.refl]
  show ?thesis using r by (simp add: compare_def andThen_def pageOf_def numeral_2_eq_2 Let_def)
qed

definition sample_commit :: "string \<Rightarrow> GhCommit" where
  "sample_commit sha = \<lparr>gc_sha = sha, gc_html_url = [], gc_message = [], gc_author_name = None,
     gc_author_date = None, gc_committer_date = None, gc_login = None, gc_parents = None\<rparr>"

definition silent_github :: "'w GhApi" where
  "silent_github = \<lparr>
     api_listForOrg = (\<lambda>_. returns []), api_openPulls = (\<lambda>_. returns []),
     api_workflowRuns = (\<lambda>_ _ _. returns []), api_deployments = (\<lambda>_ _ _. returns []),
     api_deploymentStatuses = (\<lambda>_ _. returns []), api_closedPulls = (\<lambda>_ _ _. returns []),
     api_pullCommits = (\<lambda>_ _. returns []), api_allPullCommits = (\<lambda>_ _. returns []),
     api_reviews = (\<lambda>_ _. returns []), api_tagNodes = (\<lambda>_. returns None),
     api_restTags = (\<lambda>_. returns []), api_branches = (\<lambda>_. returns []),
     api_defaultBranch = (\<lambda>_. returns ''main''),
     api_compare = (\<lambda>_ _ _ _. throws NotFound), api_log = (\<lambda>_ _. returns []),
     api_commit = (\<lambda>_ _. throws NotFound), api_commitPulls = (\<lambda>_ _. returns [])\<rparr>"

definition comparing_github :: "unit GhApi" where
  "comparing_github = silent_github\<lparr>api_compare := (\<lambda>_ _ _ page. returns
     \<lparr>gk_total_commits = 130, gk_commits = pageOf 100 page (replicate 120 (sample_commit ''c'')),
      gk_merge_base = None\<rparr>)\<rparr>"

theorem comparison_is_read_to_its_end_witness:
  "snd (compare comparing_github ''api'' ''v1'' ''v2'' ()) = Inr (replicate 120 (sample_commit ''c''))"
  by (rule comparison_is_read_to_its_end [where totalCommits = 130])
    (simp_all add: comparing_github_def returns_def)

section \<open>An event and a listing report one row\<close>

text \<open>
  What GitHub sends about a pull request, a run and their repository: the fields the mapper of
  the events reads, spelled as the listing of the same endpoint spells them. \<open>spell\<close> prints a date.
\<close>

definition optStr :: "string option \<Rightarrow> json" where
  "optStr s = (case s of Some x \<Rightarrow> JStr x | None \<Rightarrow> JNull)"

definition pullPayload :: "(instant \<Rightarrow> string) \<Rightarrow> string list \<Rightarrow> GhPull \<Rightarrow> json" where
  "pullPayload spell labels pr = JObj
     [(''number'', JNum (gp_number pr)), (''title'', JStr (gp_title pr)), (''body'', optStr (gp_body pr)),
      (''state'', JStr ''open''), (''draft'', JBool (gp_draft pr)),
      (''user'', case gp_login pr of Some l \<Rightarrow> JObj [(''login'', JStr l)] | None \<Rightarrow> JNull),
      (''html_url'', JStr (gp_html_url pr)), (''head'', JObj [(''ref'', JStr (gp_head_ref pr))]),
      (''created_at'', JStr (spell (gp_created_at pr))), (''updated_at'', JStr (spell (gp_updated_at pr))),
      (''merged_at'', JNull),
      (''requested_reviewers'', case gp_requested_reviewers pr of Some rs \<Rightarrow> JArr rs | None \<Rightarrow> JNull),
      (''labels'', JArr (map (\<lambda>n. JObj [(''name'', JStr n)]) labels))]"

definition runPayload :: "(instant \<Rightarrow> string) \<Rightarrow> GhRun \<Rightarrow> json" where
  "runPayload spell run = JObj
     [(''id'', JNum (gw_id run)), (''head_branch'', optStr (gw_head_branch run)),
      (''head_sha'', JStr (gw_head_sha run)), (''status'', optStr (gw_status run)),
      (''conclusion'', optStr (gw_conclusion run)), (''html_url'', JStr (gw_html_url run)),
      (''created_at'', JStr (spell (gw_created_at run))), (''updated_at'', JStr (spell (gw_updated_at run)))]"

definition repositoryPayload :: "'w ConnectorContext \<Rightarrow> string \<Rightarrow> json" where
  "repositoryPayload ctx repo =
     JObj [(''name'', JStr repo), (''html_url'', JStr (githubRepoUrl ctx repo))]"

lemma emptyOr_asString [simp]: "emptyOr (asString (Some (JStr s))) = s"
  by (simp add: emptyOr_def asString_def)

lemma emptyOr_asString_opt:
  "emptyOr (asString (Some (optStr s))) = (case s of Some b \<Rightarrow> b | None \<Rightarrow> [])"
  by (cases s) (simp_all add: emptyOr_def asString_def optStr_def)

lemma labelNames_named: "labelNames (Some (JArr (map (\<lambda>n. JObj [(''name'', JStr n)]) names))) = filter (\<lambda>s. s \<noteq> []) names"
  by (induction names) (simp_all add: labelNames_def labelName_def asObject_def asString_def member'_def emptyOr_def)

lemma gitHubLabelNames_named:
  "gitHubLabelNames (Some (JArr (map (\<lambda>n. JObj [(''name'', JStr n)]) names))) = filter (\<lambda>s. s \<noteq> []) names"
  by (simp add: gitHubLabelNames_def comp_def)

lemma asString_full: "s \<noteq> [] \<Longrightarrow> asString (Some (JStr s)) = Some s"
  by (simp add: asString_def)

lemma mapGitHubStatus_read:
  "mapGitHubStatus (asString (Some (optStr s))) (asString (Some (optStr c))) = mapGitHubStatus s c"
  by (auto simp: mapGitHubStatus_def asString_def optStr_def split: option.splits)

lemma asString_completed: "asString (Some (optStr s)) = Some ''completed'' \<longleftrightarrow> s = Some ''completed''"
  by (auto simp: asString_def optStr_def split: option.splits if_splits)

lemma pull_event_agrees:
  assumes spell: "\<And>t. spell t \<noteq> []" "\<And>t. msOf (spell t) = t" and "repo \<noteq> []"
    and "gp_merged_at pr = None" and "gp_login pr \<noteq> Some []"
    and "gp_labels pr = Some (JArr (map (\<lambda>n. JObj [(''name'', JStr n)]) names))"
  shows "toGitHubIntent msOf now ''pull_request''
      (JObj [(''pull_request'', pullPayload spell names pr), (''repository'', repositoryPayload ctx repo)]) =
    Some (PullRequestIntent (listedPull ctx now repo pr))"
  using assms(4,5)
  by (simp add: toGitHubIntent_def gitHubPullRequest_def pullPayload_def repositoryPayload_def asObject_def
      member'_def asString_full assms(1-3,6) asNumber_def asBoolean_def pullRequestState_def
      emptyOr_asString_opt labelNames_named gitHubLabelNames_named listedPull_def arrayLength_def
      split: option.splits) (auto simp: asString_def)

lemma run_event_agrees:
  assumes spell: "\<And>t. spell t \<noteq> []" "\<And>t. msOf (spell t) = t" and "repo \<noteq> []"
    and "gw_head_branch run \<noteq> Some []"
  shows "toGitHubIntent msOf now ''workflow_run''
      (JObj [(''workflow_run'', runPayload spell run), (''repository'', repositoryPayload ctx repo)]) =
    Some (PipelineIntent (listedRun ctx repo run))"
  using assms(4)
  by (simp add: toGitHubIntent_def gitHubWorkflowRun_def runPayload_def repositoryPayload_def asObject_def
      member'_def asString_full assms(1-3) asNumber_def mapGitHubStatus_read asString_completed listedRun_def
      split: option.splits) (auto simp: asString_def optStr_def emptyOr_def split: option.splits)

text \<open>C13. On GitHub a webhook and a listing agree. When the event spells an unmerged pull request
  that is open (one with no author, or with a login that is not empty) or a run (one with no
  branch, or with a name that is not empty) as the endpoint of the listing does, with dates that
  read back, the name of its repository and labels that are objects with a name, it reports the very row the listing of that
  repository reports: the same identifier, dates, state or status, author, reviewers, labels and
  duration. This is about GitHub alone: the two feeds of GitLab differ on the author
  of a request and on the update date and the duration of a pipeline.\<close>

theorem events_and_listings_agree:
  assumes "\<And>t. spell t \<noteq> []" and "\<And>t. msOf (spell t) = t" and "repo \<noteq> []"
    and "gp_merged_at pr = None" and "gp_login pr \<noteq> Some []"
    and "gp_labels pr = Some (JArr (map (\<lambda>n. JObj [(''name'', JStr n)]) names))"
    and "gw_head_branch run \<noteq> Some []"
  shows "toGitHubIntent msOf now ''pull_request''
      (JObj [(''pull_request'', pullPayload spell names pr), (''repository'', repositoryPayload ctx repo)]) =
    Some (PullRequestIntent (listedPull ctx now repo pr)) \<and>
    toGitHubIntent msOf now ''workflow_run''
      (JObj [(''workflow_run'', runPayload spell run), (''repository'', repositoryPayload ctx repo)]) =
    Some (PipelineIntent (listedRun ctx repo run))"
  using pull_event_agrees [OF assms(1-6)] run_event_agrees [OF assms(1-3,7)] by blast

definition sample_ctx :: "unit ConnectorContext" where
  "sample_ctx = \<lparr>cx_baseUrl = ''https://github.com/'', cx_owner = ''acme'',
     cx_scope = \<lparr>sc_include = None, sc_exclude = None, sc_trackNewRepos = None\<rparr>, cx_maxPages = None,
     cx_aborted = (\<lambda>_. False), cx_allowsOptional = (\<lambda>_. True), cx_onTruncated = (\<lambda>_ w. w)\<rparr>"

definition sample_pull :: GhPull where
  "sample_pull = \<lparr>gp_number = 6, gp_title = ''t'', gp_body = None, gp_draft = True,
     gp_login = Some ''ann'', gp_html_url = [], gp_head_ref = ''b'', gp_created_at = 1, gp_updated_at = 2,
     gp_merged_at = None, gp_requested_reviewers = None,
     gp_labels = Some (JArr (map (\<lambda>n. JObj [(''name'', JStr n)]) [''bug'']))\<rparr>"

definition sample_ghrun :: GhRun where
  "sample_ghrun = \<lparr>gw_id = 7, gw_head_branch = None, gw_head_sha = ''0123456789'',
     gw_status = Some ''completed'', gw_conclusion = Some ''success'', gw_html_url = [],
     gw_created_at = 0, gw_updated_at = 2500\<rparr>"

theorem events_and_listings_agree_witness:
  "toGitHubIntent readInt 9 ''workflow_run''
      (JObj [(''workflow_run'', runPayload showInt sample_ghrun), (''repository'', repositoryPayload sample_ctx ''api'')]) =
    Some (PipelineIntent (listedRun sample_ctx ''api'' sample_ghrun)) \<and>
   pl_durationSec (listedRun sample_ctx ''api'' sample_ghrun) = Some 3 \<and>
   pl_repoUrl (listedRun sample_ctx ''api'' sample_ghrun) = ''https://github.com/acme/api''"
proof -
  have "toGitHubIntent readInt 9 ''workflow_run''
      (JObj [(''workflow_run'', runPayload showInt sample_ghrun), (''repository'', repositoryPayload sample_ctx ''api'')]) =
    Some (PipelineIntent (listedRun sample_ctx ''api'' sample_ghrun))"
    using events_and_listings_agree [of showInt readInt "''api''" sample_pull "[''bug'']" sample_ghrun 9 sample_ctx]
    by (simp add: showInt_ne sample_pull_def sample_ghrun_def)
  then show ?thesis
    by (simp add: listedRun_def sample_ghrun_def sample_ctx_def githubRepoUrl_def repoUrl_def stripSlashes_def
        isDotCom_def dotComHost_def roundSeconds_def)
qed

end
