(* ===== verification/Connector_GitLab.thy ===== *)
theory Connector_GitLab
  imports Connectors
begin

text \<open>
  \<open>back/src/sources/connectors/gitlab.connector.ts\<close>: the listings of the GitLab connector. The
  client (gitbeaker) is the record \<open>GlApi\<close> of its calls: a bounded one takes the ceiling of pages,
  the date the API filters on and the page size, and reads as many pages as it may. Names both
  connectors use carry the suffix \<open>_gl\<close> or the prefix \<open>gitLab\<close>.

  The lemmas show what the loops over refused and unaffordable calls keep, when a first review is
  found, and that a listing bounded by the API itself is always reported as cut short.
\<close>

section \<open>What the API answers\<close>

record GlProject =
  lp_path :: string
  lp_visibility :: string

record GlMergeRequest =
  lm_iid :: "int option"
  lm_title :: "string option"
  lm_description :: "string option"
  lm_state :: string
  lm_draft :: bool
  lm_username :: "string option"
  lm_author_id :: "int option"
  lm_web_url :: string
  lm_source_branch :: "string option"
  lm_created_at :: instant
  lm_updated_at :: instant
  lm_merged_at :: "instant option"
  lm_reviewers :: "json option"
  lm_labels :: "json option"

record GlPipeline =
  lq_id :: int
  lq_ref :: string
  lq_status :: string
  lq_web_url :: string
  lq_created_at :: instant
  lq_updated_at :: "instant option"

record GlEnvironment =
  le_id :: "int option"
  le_name :: "string option"
  le_external_url :: "string option"

record GlDeployment =
  ld_id :: int
  ld_environment :: "GlEnvironment option"
  ld_job_url :: "string option"
  ld_ref :: "string option"
  ld_status :: string
  ld_created_at :: instant
  ld_updated_at :: "instant option"

record GlNote =
  ln_system :: bool
  ln_author_id :: "int option"
  ln_created_at :: instant

record GlCommit =
  lc_id :: "string option"
  lc_message :: "string option"
  lc_title :: "string option"
  lc_author_name :: "string option"
  lc_authored_date :: "instant option"
  lc_created_at :: "instant option"
  lc_committed_date :: "instant option"
  lc_web_url :: "string option"
  lc_parent_ids :: "string list option"

record GlTag =
  lt_name :: string
  lt_commit_id :: "string option"
  lt_commit_at :: "instant option"

record GlBranch =
  lb_name :: string
  lb_commit_id :: "string option"
  lb_default :: bool

record 'w GlApi =
  gl_projects :: "string \<Rightarrow> ('w, GlProject list) call"
  gl_opened :: "string \<Rightarrow> ('w, GlMergeRequest list) call"
  gl_pipelines :: "string \<Rightarrow> nat \<Rightarrow> instant option \<Rightarrow> nat \<Rightarrow> ('w, GlPipeline list) call"
  gl_deployments :: "string \<Rightarrow> nat \<Rightarrow> instant option \<Rightarrow> nat \<Rightarrow> ('w, GlDeployment list) call"
  gl_merged :: "string \<Rightarrow> nat \<Rightarrow> instant \<Rightarrow> nat \<Rightarrow> ('w, GlMergeRequest list) call"
  gl_mrCommits :: "string \<Rightarrow> int \<Rightarrow> ('w, GlCommit list) call"
  gl_notes :: "string \<Rightarrow> int \<Rightarrow> ('w, GlNote list) call"
  gl_tags :: "string \<Rightarrow> ('w, GlTag list) call"
  gl_branches :: "string \<Rightarrow> ('w, GlBranch list) call"
  gl_compare :: "string \<Rightarrow> string \<Rightarrow> string \<Rightarrow> ('w, GlCommit list option) call"
  gl_log :: "string \<Rightarrow> string \<Rightarrow> ('w, GlCommit list) call"
  gl_defaultBranch :: "string \<Rightarrow> ('w, string option) call"
  gl_commit :: "string \<Rightarrow> string \<Rightarrow> ('w, GlCommit) call"
  gl_mergeBase :: "string \<Rightarrow> string list \<Rightarrow> ('w, GlCommit option) call"
  gl_commitRequests :: "string \<Rightarrow> string \<Rightarrow> ('w, GlMergeRequest list) call"

section \<open>Mappings\<close>

definition gitLabLabelNames :: "json option \<Rightarrow> string list" where
  "gitLabLabelNames labels =
     (case labels of
        Some (JArr xs) \<Rightarrow>
          List.map_filter (\<lambda>label. case label of JStr s \<Rightarrow> if s \<noteq> [] then Some s else None | _ \<Rightarrow> None) xs
      | _ \<Rightarrow> [])"

definition toCommit_gl :: "GlCommit \<Rightarrow> string \<Rightarrow> string \<Rightarrow> Commit" where
  "toCommit_gl c baseUrl repo =
     (let sha = emptyOr (lc_id c)
      in \<lparr>cm_sha = sha,
          cm_message = emptyOr (orElse (lc_message c) (lc_title c)),
          cm_author = (case lc_author_name c of Some a \<Rightarrow> a | None \<Rightarrow> ''unknown''),
          cm_authoredAt = (case orElse (lc_authored_date c) (lc_created_at c) of Some d \<Rightarrow> d | None \<Rightarrow> 0),
          cm_url = (case lc_web_url c of Some u \<Rightarrow> u
                    | None \<Rightarrow> baseUrl @ ''/'' @ repo @ ''/-/commit/'' @ sha),
          cm_parents = (case lc_parent_ids c of Some ps \<Rightarrow> length ps | None \<Rightarrow> 1)\<rparr>)"

definition gitlabRepoUrl :: "'w ConnectorContext \<Rightarrow> string \<Rightarrow> string" where
  "gitlabRepoUrl ctx repo = repoUrl \<lparr>rl_kind = GitLab, rl_baseUrl = cx_baseUrl ctx,
     rl_owner = cx_owner ctx, rl_repo = repo\<rparr>"

text \<open>The number of a request, which every listing carries.\<close>

definition iidOf :: "GlMergeRequest \<Rightarrow> int" where
  "iidOf mr = (case lm_iid mr of Some n \<Rightarrow> n | None \<Rightarrow> 0)"

definition listedRequest :: "'w ConnectorContext \<Rightarrow> instant \<Rightarrow> string \<Rightarrow> GlMergeRequest \<Rightarrow> SourcePullRequest" where
  "listedRequest ctx now repo mr = \<lparr>
     spr_id = idOf ''gl'' repo (iidOf mr),
     spr_number = iidOf mr,
     spr_title = emptyOr (lm_title mr),
     spr_state = (if lm_draft mr then Draft else Open),
     spr_author = (case lm_username mr of Some u \<Rightarrow> u | None \<Rightarrow> ''unknown''),
     spr_repo = repo,
     spr_repoUrl = gitlabRepoUrl ctx repo,
     spr_url = lm_web_url mr,
     spr_headRef = emptyOr (lm_source_branch mr),
     spr_createdAt = lm_created_at mr,
     spr_updatedAt = lm_updated_at mr,
     spr_mergedAt = lm_merged_at mr,
     spr_reviewers = arrayLength (lm_reviewers mr),
     spr_ageHours = ageHours now (lm_created_at mr),
     spr_tickets = [],
     spr_body = emptyOr (lm_description mr),
     spr_labels = gitLabLabelNames (lm_labels mr)\<rparr>"

definition listedPipeline :: "'w ConnectorContext \<Rightarrow> string \<Rightarrow> GlPipeline \<Rightarrow> Pipeline" where
  "listedPipeline ctx repo p = \<lparr>
     pl_id = idOf ''gl'' repo (lq_id p),
     pl_repo = repo,
     pl_repoUrl = gitlabRepoUrl ctx repo,
     pl_ref = lq_ref p,
     pl_status = mapGitLabStatus (lq_status p),
     pl_url = lq_web_url p,
     pl_createdAt = lq_created_at p,
     pl_updatedAt = (case lq_updated_at p of Some u \<Rightarrow> u | None \<Rightarrow> lq_created_at p),
     pl_durationSec = None\<rparr>"

definition listedDeployment :: "'w ConnectorContext \<Rightarrow> string \<Rightarrow> GlDeployment \<Rightarrow> Deployment" where
  "listedDeployment ctx repo d =
     (let environment = ld_environment d;
          environmentPage = map_option (\<lambda>i. gitlabRepoUrl ctx repo @ ''/-/environments/'' @ showInt i)
            (Option.bind environment le_id)
      in \<lparr>dp_id = idOf ''gl'' repo (ld_id d),
          dp_repo = repo,
          dp_environment = (case Option.bind environment le_name of Some n \<Rightarrow> n | None \<Rightarrow> ''unknown''),
          dp_ref = emptyOr (ld_ref d),
          dp_status = mapGitLabStatus (ld_status d),
          dp_createdAt = ld_created_at d,
          dp_environmentUrl = orNull (Option.bind environment le_external_url),
          dp_url = orElse (orNull (ld_job_url d)) environmentPage\<rparr>)"

section \<open>Listings\<close>

definition bound :: "instant option \<Rightarrow> 'w ConnectorContext \<Rightarrow> nat" where
  "bound since ctx =
     (case since of
        Some _ \<Rightarrow> (case cx_maxPages ctx of Some n \<Rightarrow> n | None \<Rightarrow> MAX_PAGES)
      | None \<Rightarrow> 1)"

definition reportIfTruncated ::
  "'w ConnectorContext \<Rightarrow> string \<Rightarrow> TruncatedResource \<Rightarrow> 'a list \<Rightarrow> ('a \<Rightarrow> instant option) \<Rightarrow>
   instant option \<Rightarrow> ('w, unit) call" where
  "reportIfTruncated ctx repo resource items date since =
     (case since of
        None \<Rightarrow> returns ()
      | Some sinceMs \<Rightarrow>
          if items = [] then returns ()
          else if list_ex (\<lambda>item. case date item of Some d \<Rightarrow> d < sinceMs | None \<Rightarrow> False) items then returns ()
          else (\<lambda>w. (cx_onTruncated ctx (repo, resource) w, Inr ())))"

definition listAllRepositories_gl :: "'w GlApi \<Rightarrow> 'w ConnectorContext \<Rightarrow> ('w, RepositoryRef list) call" where
  "listAllRepositories_gl gl ctx =
     andThen (gl_projects gl (cx_owner ctx)) (\<lambda>projects.
       returns (map (\<lambda>p. \<lparr>rr_name = lp_path p,
         rr_visibility = (if lp_visibility p = ''public'' then PublicRepo
           else if lp_visibility p = ''internal'' then InternalRepo else PrivateRepo)\<rparr>) projects))"

definition gitLabRepositories :: "'w GlApi \<Rightarrow> 'w ConnectorContext \<Rightarrow> ('w, string list) call" where
  "gitLabRepositories gl ctx =
     andThen (listAllRepositories_gl gl ctx) (\<lambda>projects.
       returns (applyScope (map rr_name projects) (cx_scope ctx)))"

definition gitLabPullRequests ::
  "'w GlApi \<Rightarrow> 'w ConnectorContext \<Rightarrow> instant \<Rightarrow> string list \<Rightarrow> ('w, SourcePullRequest list) call" where
  "gitLabPullRequests gl ctx now repos =
     forEach (\<lambda>repo.
       andThen (throwIfAborted ctx) (\<lambda>_.
       andThen (gl_opened gl repo) (\<lambda>mrs.
         returns (map (listedRequest ctx now repo) mrs)))) repos"

definition gitLabPipelines ::
  "'w GlApi \<Rightarrow> 'w ConnectorContext \<Rightarrow> string list \<Rightarrow> instant option \<Rightarrow> ('w, Pipeline list) call" where
  "gitLabPipelines gl ctx repos since =
     forEach (\<lambda>repo.
       andThen (throwIfAborted ctx) (\<lambda>_.
       andThen (gl_pipelines gl repo (bound since ctx) since
           (if since \<noteq> None then DEEP_PAGE else LIVE_PIPELINE_PAGE)) (\<lambda>items.
       andThen (reportIfTruncated ctx repo TruncPipelines items (\<lambda>p. Some (lq_created_at p)) since) (\<lambda>_.
         returns (map (listedPipeline ctx repo) items))))) repos"

definition gitLabDeployments ::
  "'w GlApi \<Rightarrow> 'w ConnectorContext \<Rightarrow> string list \<Rightarrow> instant option \<Rightarrow> ('w, Deployment list) call" where
  "gitLabDeployments gl ctx repos since =
     forEach (\<lambda>repo.
       andThen (throwIfAborted ctx) (\<lambda>_.
       andThen (gl_deployments gl repo (bound since ctx) since
           (if since \<noteq> None then DEEP_PAGE else LIVE_DEPLOYMENT_PAGE)) (\<lambda>items.
       andThen (reportIfTruncated ctx repo TruncDeployments items
           (\<lambda>d. orElse (ld_updated_at d) (Some (ld_created_at d))) since) (\<lambda>_.
         returns (map (listedDeployment ctx repo) items))))) repos"

definition firstReviewAt_gl :: "'w GlApi \<Rightarrow> string \<Rightarrow> int \<Rightarrow> int option \<Rightarrow> ('w, instant option) call" where
  "firstReviewAt_gl gl repo iid authorId =
     attempt
       (andThen (gl_notes gl repo iid) (\<lambda>notes.
          returns (oldest (map ln_created_at
            (filter (\<lambda>note. case authorId of Some a \<Rightarrow> ln_author_id note \<noteq> Some a | None \<Rightarrow> True)
              (filter (\<lambda>note. \<not> ln_system note) notes))))))
       (\<lambda>_. returns None)"

definition firstCommitAt_gl :: "'w GlApi \<Rightarrow> string \<Rightarrow> int \<Rightarrow> ('w, instant option) call" where
  "firstCommitAt_gl gl repo iid =
     attempt
       (andThen (gl_mrCommits gl repo iid) (\<lambda>commits.
          returns (oldest (List.map_filter (\<lambda>c. orElse (lc_authored_date c) (lc_created_at c)) commits))))
       (\<lambda>_. returns None)"

definition gitLabMergedPullRequests ::
  "'w GlApi \<Rightarrow> 'w ConnectorContext \<Rightarrow> string list \<Rightarrow> instant \<Rightarrow> ('w, SourceMergedPullRequest list) call" where
  "gitLabMergedPullRequests gl ctx repos since =
     forEach (\<lambda>repo.
       andThen (throwIfAborted ctx) (\<lambda>_.
       andThen (gl_merged gl repo (bound (Some since) ctx) since LIVE_MERGED_PAGE) (\<lambda>mrs.
       andThen (reportIfTruncated ctx repo TruncMerged mrs (\<lambda>mr. Some (lm_updated_at mr)) (Some since)) (\<lambda>_.
         forEach (\<lambda>mr.
           case lm_merged_at mr of
             None \<Rightarrow> returns []
           | Some mergedAt \<Rightarrow>
               if mergedAt < since then returns []
               else
                 andThen (throwIfAborted ctx) (\<lambda>_.
                 andThen (mayEnrich ctx) (\<lambda>enrich.
                 andThen (if enrich then firstCommitAt_gl gl repo (iidOf mr) else returns None) (\<lambda>commitAt.
                 andThen (if enrich then firstReviewAt_gl gl repo (iidOf mr) (lm_author_id mr)
                          else returns None) (\<lambda>reviewAt.
                   returns [\<lparr>
                     smr_id = idOf ''gl'' repo (iidOf mr),
                     smr_repo = repo,
                     smr_number = iidOf mr,
                     smr_title = emptyOr (lm_title mr),
                     smr_url = lm_web_url mr,
                     smr_headRef = emptyOr (lm_source_branch mr),
                     smr_openedAt = lm_created_at mr,
                     smr_firstCommitAt = commitAt,
                     smr_firstReviewAt = reviewAt,
                     smr_mergedAt = mergedAt,
                     smr_labels = gitLabLabelNames (lm_labels mr),
                     smr_body = emptyOr (lm_description mr)\<rparr>]))))) mrs)))) repos"

section \<open>Refs\<close>

definition listTags_gl :: "'w GlApi \<Rightarrow> string \<Rightarrow> ('w, Tag list) call" where
  "listTags_gl gl repo =
     andThen (gl_tags gl repo) (\<lambda>tags.
       returns (byTagDate (map (\<lambda>tag. \<lparr>tag_name = lt_name tag, tag_sha = emptyOr (lt_commit_id tag),
         tag_taggedAt = lt_commit_at tag\<rparr>) tags)))"

definition listBranches_gl :: "'w GlApi \<Rightarrow> string \<Rightarrow> ('w, Branch list) call" where
  "listBranches_gl gl repo =
     andThen (gl_branches gl repo) (\<lambda>branches.
       returns (map (\<lambda>b. \<lparr>br_name = lb_name b, br_sha = emptyOr (lb_commit_id b),
         br_isDefault = lb_default b\<rparr>) branches))"

definition listCommitsBetween_gl ::
  "'w GlApi \<Rightarrow> 'w ConnectorContext \<Rightarrow> string \<Rightarrow> string option \<Rightarrow> string \<Rightarrow> ('w, Commit list) call" where
  "listCommitsBetween_gl gl ctx repo from' to =
     (let baseUrl = stripSlash (cx_baseUrl ctx)
      in attempt
        (case orNull from' of
           Some f \<Rightarrow> andThen (gl_compare gl repo f to) (\<lambda>diff.
             returns (map (\<lambda>c. toCommit_gl c baseUrl repo) (case diff of Some cs \<Rightarrow> cs | None \<Rightarrow> [])))
         | None \<Rightarrow> andThen (gl_log gl repo to) (\<lambda>cs.
             returns (map (\<lambda>c. toCommit_gl c baseUrl repo) cs)))
        (\<lambda>e. throws (if isNotFound e then unresolvableRange repo from' to else e)))"

definition defaultBranch_gl :: "'w GlApi \<Rightarrow> string \<Rightarrow> ('w, string) call" where
  "defaultBranch_gl gl repo =
     andThen (gl_defaultBranch gl repo) (\<lambda>b. returns (case b of Some n \<Rightarrow> n | None \<Rightarrow> ''main''))"

text \<open>A commit whose \<open>id\<close> is empty or absent is no commit.\<close>

definition refOf :: "GlCommit option \<Rightarrow> RefCommit option" where
  "refOf c = map_option (\<lambda>sha. \<lparr>rc_sha = sha, rc_committedAt = Option.bind c lc_committed_date\<rparr>)
     (orNull (Option.bind c lc_id))"

definition refCommit_gl :: "'w GlApi \<Rightarrow> string \<Rightarrow> string \<Rightarrow> ('w, RefCommit option) call" where
  "refCommit_gl gl repo ref =
     attempt (andThen (gl_commit gl repo ref) (\<lambda>c. returns (refOf (Some c))))
       (\<lambda>e. if isNotFound e then returns None else throws e)"

definition mergeBase_gl :: "'w GlApi \<Rightarrow> string \<Rightarrow> string \<Rightarrow> string \<Rightarrow> ('w, RefCommit option) call" where
  "mergeBase_gl gl repo ref other =
     attempt (andThen (gl_mergeBase gl repo [other, ref]) (\<lambda>base. returns (refOf base)))
       (\<lambda>e. if isNotFound e then returns None else throws e)"

primrec commitPullRequests_gl_loop ::
  "'w GlApi \<Rightarrow> 'w ConnectorContext \<Rightarrow> string \<Rightarrow> string list \<Rightarrow> (string, CommitPullRequest) jsmap \<Rightarrow>
   ('w, (string, CommitPullRequest) jsmap) call" where
  "commitPullRequests_gl_loop gl ctx repo [] requests = returns requests"
| "commitPullRequests_gl_loop gl ctx repo (sha # shas) requests =
     andThen (throwIfAborted ctx) (\<lambda>_.
     andThen (mayEnrich ctx) (\<lambda>enrich.
       if \<not> enrich then commitPullRequests_gl_loop gl ctx repo shas requests
       else
         andThen (attempt (andThen (gl_commitRequests gl repo sha) (\<lambda>mrs.
             returns (case orElse (find (\<lambda>mr. lm_state mr = ''merged'') mrs)
                              (case mrs of mr # _ \<Rightarrow> Some mr | [] \<Rightarrow> None) of
                 None \<Rightarrow> requests
               | Some merged \<Rightarrow>
                   (case lm_iid merged of
                      None \<Rightarrow> requests
                    | Some iid \<Rightarrow>
                        AList.update sha \<lparr>cp_number = iid, cp_url = lm_web_url merged,
                          cp_headRef = emptyOr (lm_source_branch merged), cp_title = emptyOr (lm_title merged),
                          cp_body = emptyOr (lm_description merged)\<rparr> requests))))
           (\<lambda>_. returns requests))
         (\<lambda>requests'. commitPullRequests_gl_loop gl ctx repo shas requests')))"

definition commitPullRequests_gl ::
  "'w GlApi \<Rightarrow> 'w ConnectorContext \<Rightarrow> string \<Rightarrow> string list \<Rightarrow> ('w, (string, CommitPullRequest) jsmap) call" where
  "commitPullRequests_gl gl ctx repo shas = commitPullRequests_gl_loop gl ctx repo shas []"

primrec pullRequestCommits_gl_loop ::
  "'w GlApi \<Rightarrow> 'w ConnectorContext \<Rightarrow> string \<Rightarrow> int list \<Rightarrow> (int, Commit list) jsmap \<Rightarrow>
   ('w, (int, Commit list) jsmap) call" where
  "pullRequestCommits_gl_loop gl ctx repo [] commits = returns commits"
| "pullRequestCommits_gl_loop gl ctx repo (number # numbers) commits =
     andThen (throwIfAborted ctx) (\<lambda>_.
     andThen (mayEnrich ctx) (\<lambda>enrich.
       if \<not> enrich then pullRequestCommits_gl_loop gl ctx repo numbers commits
       else
         andThen (attempt (andThen (gl_mrCommits gl repo number) (\<lambda>listed.
             returns (AList.update number
               (map (\<lambda>c. toCommit_gl c (stripSlash (cx_baseUrl ctx)) repo) listed) commits)))
           (\<lambda>_. returns commits))
         (\<lambda>commits'. pullRequestCommits_gl_loop gl ctx repo numbers commits')))"

definition pullRequestCommits_gl ::
  "'w GlApi \<Rightarrow> 'w ConnectorContext \<Rightarrow> string \<Rightarrow> int list \<Rightarrow> ('w, (int, Commit list) jsmap) call" where
  "pullRequestCommits_gl gl ctx repo numbers = pullRequestCommits_gl_loop gl ctx repo numbers []"

section \<open>Truncation is always reported\<close>

text \<open>A bounded pipeline listing is always reported as cut short. The window is a filter of the
  API, so nothing older than it ever comes back, and the test takes that for a listing that never
  reached its bound: whenever the API honours the filter and answers a row, for however short a
  history, the truncation is reported; only an empty answer is not.\<close>

theorem a_filtered_listing_is_reported_truncated:
  assumes "\<And>w. \<not> cx_aborted ctx w"
    and "gl_pipelines gl repo (bound (Some since) ctx) (Some since) DEEP_PAGE w = (w', Inr items)"
    and "\<forall>p \<in> set items. since \<le> lq_created_at p"
  shows "gitLabPipelines gl ctx [repo] (Some since) w =
    (if items = [] then w' else cx_onTruncated ctx (repo, TruncPipelines) w',
     Inr (map (listedPipeline ctx repo) items))"
proof -
  have "\<not> list_ex (\<lambda>p. lq_created_at p < since) items" using assms(3) by (auto simp: list_ex_iff)
  with assms(1,2) show ?thesis
    by (simp add: gitLabPipelines_def andThen_def throwIfAborted_def reportIfTruncated_def returns_def)
qed

definition one_pipeline :: GlPipeline where
  "one_pipeline = \<lparr>lq_id = 1, lq_ref = ''main'', lq_status = ''success'', lq_web_url = [],
     lq_created_at = 50, lq_updated_at = None\<rparr>"

definition small_gitlab :: "nat GlApi" where
  "small_gitlab = \<lparr>
     gl_projects = (\<lambda>_. returns []), gl_opened = (\<lambda>_. returns []),
     gl_pipelines = (\<lambda>_ _ after _. returns (filter (\<lambda>p. case after of Some s \<Rightarrow> s \<le> lq_created_at p | None \<Rightarrow> True)
       [one_pipeline])),
     gl_deployments = (\<lambda>_ _ _ _. returns []), gl_merged = (\<lambda>_ _ _ _. returns []),
     gl_mrCommits = (\<lambda>_ _. returns []), gl_notes = (\<lambda>_ _. returns []), gl_tags = (\<lambda>_. returns []),
     gl_branches = (\<lambda>_. returns []), gl_compare = (\<lambda>_ _ _. returns None), gl_log = (\<lambda>_ _. returns []),
     gl_defaultBranch = (\<lambda>_. returns None), gl_commit = (\<lambda>_ _. throws NotFound),
     gl_mergeBase = (\<lambda>_ _. returns None), gl_commitRequests = (\<lambda>_ _. returns [])\<rparr>"

definition counting_ctx :: "nat ConnectorContext" where
  "counting_ctx = \<lparr>cx_baseUrl = ''https://gitlab.com'', cx_owner = ''acme'',
     cx_scope = \<lparr>sc_include = None, sc_exclude = None, sc_trackNewRepos = None\<rparr>, cx_maxPages = None,
     cx_aborted = (\<lambda>_. False), cx_allowsOptional = (\<lambda>_. True), cx_onTruncated = (\<lambda>_ n. Suc n)\<rparr>"

theorem a_filtered_listing_is_reported_truncated_witness:
  "gitLabPipelines small_gitlab counting_ctx [''acme/api''] (Some 40) 0 =
     (1, Inr [listedPipeline counting_ctx ''acme/api'' one_pipeline])"
proof -
  have "gl_pipelines small_gitlab ''acme/api'' (bound (Some 40) counting_ctx) (Some 40) DEEP_PAGE 0 =
      (0, Inr [one_pipeline])"
    by (simp add: small_gitlab_def one_pipeline_def returns_def)
  from a_filtered_listing_is_reported_truncated [OF _ this] show ?thesis
    by (simp add: counting_ctx_def one_pipeline_def)
qed

end
