(* ===== verification/Jobs.thy ===== *)
theory Jobs
  imports Prelude
begin

text \<open>
  Queued work that is deduplicated on its id: the version readings of
  \<open>back/src/version-rules/probe-job.ts\<close> with their processor
  (\<open>version-probe.processor.ts\<close>), and the deep re-reads and replays of
  \<open>back/src/collection/collector.service.ts\<close>. BullMQ is not code of this repository: a queue is
  an abstract value with the three calls the code makes of it, and what the properties rely on
  (an added job is found under its id and has not settled; BullMQ refuses an id with a colon) is
  stated as their hypotheses.
\<close>

section \<open>The queue\<close>

text \<open>The states of \<open>JOB_STATES\<close>, and the two more that BullMQ has grown.\<close>

datatype JobState = Waiting | WaitingChildren | Prioritized | Active | Delayed | Completed
  | JobFailed | JobUnknown

definition isJobSettled :: "JobState \<Rightarrow> bool" where
  "isJobSettled state \<longleftrightarrow> state = Completed \<or> state = JobFailed \<or> state = JobUnknown"

text \<open>
  \<open>getJob(id)\<close> followed by \<open>getState()\<close>, \<open>job.remove()\<close>, and \<open>queue.add(name, data, {jobId})\<close>,
  which answers nothing when the call throws.
\<close>

record ('q, 'd) QueueApi =
  q_state :: "'q \<Rightarrow> string \<Rightarrow> JobState option"
  q_remove :: "string \<Rightarrow> 'q \<Rightarrow> 'q"
  q_add :: "string \<Rightarrow> string \<Rightarrow> 'd \<Rightarrow> 'q \<Rightarrow> 'q option"

section \<open>Readings\<close>

definition PROBE_JOB :: string where "PROBE_JOB = ''probe-environment''"

definition PROBE_RETRY_ATTEMPTS :: int where "PROBE_RETRY_ATTEMPTS = 2"

record ProbeJobData =
  pj_sourceId :: string
  pj_repo :: string
  pj_environment :: string
  pj_attempt :: "int option"

definition probeJobId :: "string \<Rightarrow> string \<Rightarrow> string \<Rightarrow> string" where
  "probeJobId sourceId repo environment =
     ''probe:'' @ sourceId @ '':'' @ repo @ '':'' @ environment"

text \<open>The queue it leaves, and what it returns; \<open>None\<close> when it throws.\<close>

definition enqueueProbe :: "('q, ProbeJobData) QueueApi \<Rightarrow> ProbeJobData \<Rightarrow> 'q \<Rightarrow> 'q \<times> bool option" where
  "enqueueProbe api data q =
     (let id' = probeJobId (pj_sourceId data) (pj_repo data) (pj_environment data);
          add = (\<lambda>q. case q_add api PROBE_JOB id' data q of
                  Some q' \<Rightarrow> (q', Some True) | None \<Rightarrow> (q, None))
      in case q_state api q id' of
           None \<Rightarrow> add q
         | Some state \<Rightarrow>
             if \<not> isJobSettled state then (q, Some False) else add (q_remove api id' q))"

record ProbeOutcome =
  po_read :: bool
  po_changed :: bool

datatype ProbeJobResult = Ignored | Probed ProbeOutcome bool | ProbeThrew

text \<open>\<open>outcome\<close> is what \<open>probeDeployment\<close> answered for the job's pair.\<close>

definition processProbe ::
  "('q, ProbeJobData) QueueApi \<Rightarrow> string \<Rightarrow> ProbeJobData \<Rightarrow> ProbeOutcome \<Rightarrow> 'q \<Rightarrow> 'q \<times> ProbeJobResult" where
  "processProbe api jobName data outcome q =
     (if jobName \<noteq> PROBE_JOB then (q, Ignored)
      else
        let attempt = (case pj_attempt data of Some a \<Rightarrow> a | None \<Rightarrow> 1)
        in if po_read outcome \<and> \<not> po_changed outcome \<and> attempt < PROBE_RETRY_ATTEMPTS
           then (case enqueueProbe api (data\<lparr>pj_attempt := Some (attempt + 1)\<rparr>) q of
                   (q', Some _) \<Rightarrow> (q', Probed outcome True)
                 | (q', None) \<Rightarrow> (q', ProbeThrew))
           else (q, Probed outcome False))"

section \<open>Deep re-reads and replays\<close>

definition refreshJobId :: "string \<Rightarrow> string" where
  "refreshJobId sourceId = ''refresh-'' @ sourceId"

definition rebuildJobId :: "string \<Rightarrow> string" where
  "rebuildJobId sourceId = ''rebuild-'' @ sourceId"

datatype CollectJob = CollectSource string bool | RebuildMetrics string "int option"

datatype collectError = UnknownSource | RefreshInFlight JobState | RebuildInFlight JobState | QueueRefused

text \<open>The part the two share: refuse a job in flight, replace a settled one.\<close>

definition supersede ::
  "('q, CollectJob) QueueApi \<Rightarrow> (JobState \<Rightarrow> collectError) \<Rightarrow> string \<Rightarrow> string \<Rightarrow> CollectJob \<Rightarrow> 'q \<Rightarrow>
   'q \<times> (collectError + string)" where
  "supersede api busy name id' data q =
     (let add = (\<lambda>q. case q_add api name id' data q of
            Some q' \<Rightarrow> (q', Inr id') | None \<Rightarrow> (q, Inl QueueRefused))
      in case q_state api q id' of
           None \<Rightarrow> add q
         | Some state \<Rightarrow>
             if \<not> isJobSettled state then (q, Inl (busy state)) else add (q_remove api id' q))"

text \<open>
  \<open>depths\<close> is the depth each source states: \<open>readSpec\<close> throws on an unknown source, and
  \<open>setHistoryDays\<close> writes the one asked for.
\<close>

definition queueRefresh ::
  "('q, CollectJob) QueueApi \<Rightarrow> string \<Rightarrow> int option \<Rightarrow> (string, int option) jsmap \<times> 'q \<Rightarrow>
   ((string, int option) jsmap \<times> 'q) \<times> (collectError + string)" where
  "queueRefresh api sourceId historyDays st =
     (case st of (depths, q) \<Rightarrow>
       (case map_of depths sourceId of
          None \<Rightarrow> (st, Inl UnknownSource)
        | Some _ \<Rightarrow>
            let depths' = (case historyDays of
                  Some d \<Rightarrow> AList.update sourceId (Some d) depths | None \<Rightarrow> depths)
            in (case supersede api RefreshInFlight ''collect-source'' (refreshJobId sourceId)
                   (CollectSource sourceId True) q of
                 (q', r) \<Rightarrow> ((depths', q'), r))))"

definition queueRebuild ::
  "('q, CollectJob) QueueApi \<Rightarrow> string \<Rightarrow> int option \<Rightarrow> (string, int option) jsmap \<times> 'q \<Rightarrow>
   ((string, int option) jsmap \<times> 'q) \<times> (collectError + string)" where
  "queueRebuild api sourceId days st =
     (case st of (depths, q) \<Rightarrow>
       (case map_of depths sourceId of
          None \<Rightarrow> (st, Inl UnknownSource)
        | Some _ \<Rightarrow>
            (case supersede api RebuildInFlight ''rebuild-metrics'' (rebuildJobId sourceId)
                   (RebuildMetrics sourceId days) q of
               (q', r) \<Rightarrow> ((depths, q'), r))))"

section \<open>One run at a time\<close>

lemma supersede_busy:
  "q_state api q id' = Some s \<Longrightarrow> \<not> isJobSettled s \<Longrightarrow> supersede api busy name id' data q = (q, Inl (busy s))"
  by (simp add: supersede_def)

lemma supersede_queued:
  "supersede api busy name id' data q = (q', Inr r) \<Longrightarrow>
     \<exists>q0. q_add api name id' data q0 = Some q' \<and> r = id'"
  by (auto simp: supersede_def Let_def split: option.splits if_splits)

text \<open>A source has one deep re-read at a time. Where the queue finds an added job under its id
  until it settles, a refresh that was queued makes a second request, whatever depth it asks for,
  answer the conflict and leave the queue as it is, until the job settles; and a re-read and a
  replay of a source never share an id.\<close>

theorem one_refresh_at_a_time:
  assumes add_found: "\<And>name i d q q'. q_add api name i d q = Some q' \<Longrightarrow> \<exists>s. q_state api q' i = Some s \<and> \<not> isJobSettled s"
    and first: "queueRefresh api src depth1 (depths, q) = ((depths', q'), Inr handle)"
  shows "(\<exists>s depths''. queueRefresh api src depth2 (depths', q') = ((depths'', q'), Inl (RefreshInFlight s)) \<and>
            \<not> isJobSettled s) \<and>
         handle = refreshJobId src \<and> refreshJobId src \<noteq> rebuildJobId src'"
proof -
  from first obtain r where known: "map_of depths src \<noteq> None"
    and s: "supersede api RefreshInFlight ''collect-source'' (refreshJobId src) (CollectSource src True) q = (q', Inr handle)"
    and d': "depths' = (case depth1 of Some d \<Rightarrow> AList.update src (Some d) depths | None \<Rightarrow> depths)"
    by (auto simp: queueRefresh_def Let_def split: option.splits prod.splits)
  from supersede_queued [OF s] obtain q0 where
    q0: "q_add api ''collect-source'' (refreshJobId src) (CollectSource src True) q0 = Some q'" and
    h: "handle = refreshJobId src" by blast
  from add_found [OF q0] obtain st where st: "q_state api q' (refreshJobId src) = Some st" "\<not> isJobSettled st"
    by blast
  have known': "map_of depths' src \<noteq> None" using known by (simp add: d' update_conv' split: option.split)
  then obtain v where v: "map_of depths' src = Some v" by blast
  define depths'' where "depths'' = (case depth2 of Some d \<Rightarrow> AList.update src (Some d) depths' | None \<Rightarrow> depths')"
  have "queueRefresh api src depth2 (depths', q') = ((depths'', q'), Inl (RefreshInFlight st))"
    by (simp add: queueRefresh_def Let_def v supersede_busy [OF st] depths''_def)
  with st(2) h show ?thesis by (auto simp: refreshJobId_def rebuildJobId_def)
qed

text \<open>A queue in memory: one state per id, as the hypotheses describe.\<close>

definition freshQueue :: "((string \<times> JobState) list, 'd) QueueApi" where
  "freshQueue = \<lparr>q_state = map_of, q_remove = (\<lambda>i. filter (\<lambda>e. fst e \<noteq> i)),
     q_add = (\<lambda>_ i _ q. Some ((i, Waiting) # q))\<rparr>"

theorem one_refresh_at_a_time_witness:
  "queueRefresh freshQueue ''s1'' None ([(''s1'', None)], []) =
     (([(''s1'', None)], [(''refresh-s1'', Waiting)]), Inr ''refresh-s1'') \<and>
   (\<exists>s d. queueRefresh freshQueue ''s1'' (Some 365) ([(''s1'', None)], [(''refresh-s1'', Waiting)]) =
      ((d, [(''refresh-s1'', Waiting)]), Inl (RefreshInFlight s)))"
proof -
  have law: "\<exists>s. q_state freshQueue q' i = Some s \<and> \<not> isJobSettled s"
    if "q_add freshQueue name i d q = Some q'" for name i d and q q' :: "(string \<times> JobState) list"
    using that by (auto simp: freshQueue_def isJobSettled_def)
  have first: "queueRefresh freshQueue ''s1'' None ([(''s1'', None)], []) =
     (([(''s1'', None)], [(''refresh-s1'', Waiting)]), Inr ''refresh-s1'')"
    by (simp add: queueRefresh_def supersede_def freshQueue_def refreshJobId_def)
  have "\<exists>s d. queueRefresh freshQueue ''s1'' (Some 365) ([(''s1'', None)], [(''refresh-s1'', Waiting)]) =
      ((d, [(''refresh-s1'', Waiting)]), Inl (RefreshInFlight s))"
    using one_refresh_at_a_time [where api = freshQueue, OF _ first, of "Some 365"] law by blast
  with first show ?thesis by blast
qed

section \<open>Readings that are never queued\<close>

text \<open>
  Two things the code does against its intent. An id is spelled with colons, which BullMQ refuses
  (the collector's own ids avoid them for that reason), so no reading is ever queued. And were the
  id accepted, the retry is asked for while its own job, which holds the same id, is still active:
  it is taken for a duplicate, though the processor reports it as retried.
\<close>

theorem probe_ids_are_refused:
  assumes refuses: "\<And>name i d q. CHR '':'' \<in> set i \<Longrightarrow> q_add api name i d q = None"
  shows "snd (enqueueProbe api data q) \<noteq> Some True"
proof -
  have "CHR '':'' \<in> set (probeJobId s r e)" for s r e by (simp add: probeJobId_def)
  then have "q_add api PROBE_JOB (probeJobId s r e) data q = None" for s r e q by (rule refuses)
  then show ?thesis by (simp add: enqueueProbe_def Let_def split: option.split)
qed

theorem probe_retry_is_never_queued:
  assumes own: "q_state api q (probeJobId (pj_sourceId data) (pj_repo data) (pj_environment data)) = Some Active"
    and same: "po_read outcome" "\<not> po_changed outcome" and first: "pj_attempt data = None"
  shows "processProbe api PROBE_JOB data outcome q = (q, Probed outcome True)"
  using assms by (simp add: processProbe_def enqueueProbe_def isJobSettled_def PROBE_RETRY_ATTEMPTS_def)

end
