(* ===== verification/Webhooks.thy ===== *)
theory Webhooks
  imports Connectors Sync Jobs
begin

text \<open>
  \<open>back/src/ingest/webhooks\<close>: the authentication of a delivery (\<open>signature.ts\<close>), its acceptance
  (\<open>webhook.service.ts\<close>: authenticate, recognise a repeat, queue the work) and the writing of
  what it asked for (\<open>ingest.processor.ts\<close>). The keyed digest of \<open>node:crypto\<close>, the decryption
  of the stored secret, \<open>JSON.parse\<close> and the queues are parameters; the clock is an argument.

  The properties: nothing is recorded or queued for a caller that does not hold the secret, a
  delivery is handled once, and an event that arrives late changes nothing the store knew.
\<close>

section \<open>Authentication\<close>



datatype HeaderValue = OneHeader string | ManyHeaders "string list"

type_synonym HeaderBag = "(string \<times> HeaderValue) list"

datatype RejectReason = Unsigned | BadSignature | NoEvent

datatype Verdict = Ok string string | Rejected RejectReason

text \<open>The first of several values; an absent or empty one is undefined. Names are lower case.\<close>

definition readHeader :: "HeaderBag \<Rightarrow> string \<Rightarrow> string option" where
  "readHeader headers name =
     (case (case map_of headers name of
              None \<Rightarrow> None
            | Some (OneHeader v) \<Rightarrow> Some v
            | Some (ManyHeaders vs) \<Rightarrow> (case vs of v # _ \<Rightarrow> Some v | [] \<Rightarrow> None)) of
        Some v \<Rightarrow> if v = [] then None else Some v
      | None \<Rightarrow> None)"

definition constantTimeEquals :: "string \<Rightarrow> string \<Rightarrow> bool" where
  "constantTimeEquals a b \<longleftrightarrow> (if length a \<noteq> length b then False else a = b)"

definition verifyGitHub :: "(string \<Rightarrow> string \<Rightarrow> string) \<Rightarrow> HeaderBag \<Rightarrow> string \<Rightarrow> string \<Rightarrow> Verdict" where
  "verifyGitHub hmac headers body secret =
     (case readHeader headers ''x-github-event'' of
        None \<Rightarrow> Rejected NoEvent
      | Some event \<Rightarrow>
          (case readHeader headers ''x-hub-signature-256'' of
             None \<Rightarrow> Rejected Unsigned
           | Some signature \<Rightarrow>
               let expected = ''sha256='' @ hmac secret body
               in if \<not> constantTimeEquals signature expected then Rejected BadSignature
                  else Ok (case readHeader headers ''x-github-delivery'' of
                         Some d \<Rightarrow> d | None \<Rightarrow> expected) event))"

definition verifyGitLab :: "instant \<Rightarrow> HeaderBag \<Rightarrow> string \<Rightarrow> Verdict" where
  "verifyGitLab now headers secret =
     (case readHeader headers ''x-gitlab-event'' of
        None \<Rightarrow> Rejected NoEvent
      | Some event \<Rightarrow>
          (case readHeader headers ''x-gitlab-token'' of
             None \<Rightarrow> Rejected Unsigned
           | Some token \<Rightarrow>
               if \<not> constantTimeEquals token secret then Rejected BadSignature
               else Ok (case readHeader headers ''x-gitlab-event-uuid'' of
                      Some d \<Rightarrow> d | None \<Rightarrow> event @ '':'' @ showInt now) event))"

definition verify ::
  "(string \<Rightarrow> string \<Rightarrow> string) \<Rightarrow> instant \<Rightarrow> SourceKind \<Rightarrow> HeaderBag \<Rightarrow> string \<Rightarrow> string \<Rightarrow> Verdict" where
  "verify hmac now kind headers body secret =
     (if kind = GitHub then verifyGitHub hmac headers body secret
      else verifyGitLab now headers secret)"

section \<open>Acceptance\<close>

record 'c WebhookSource =
  ws_kind :: SourceKind
  ws_stored :: bool
  ws_webhooksEnabled :: bool
  ws_webhookSecret :: "'c option"

text \<open>What surrounds the service: the digest, the decryption, which throws on a tag or a key that
  does not fit, the parser, the dates and the queue.\<close>

record ('c, 'q) WebhookEnv =
  we_hmac :: "string \<Rightarrow> string \<Rightarrow> string"
  we_decrypt :: "'c \<Rightarrow> string option"
  we_parse :: "string \<Rightarrow> json option"
  we_msOf :: "string \<Rightarrow> instant"
  we_add :: "string \<times> IngestIntent \<Rightarrow> 'q \<Rightarrow> 'q option"

datatype webhookError = WebhookUnknown | SecretUnreadable | WebhookRejected | QueueThrew

datatype DeliveryOutcome = Accepted | Duplicate | IgnoredDelivery

definition remember :: "string \<Rightarrow> string \<Rightarrow> string \<Rightarrow> instant \<Rightarrow> SyncDb \<Rightarrow> SyncDb \<times> bool" where
  "remember sourceId deliveryId event now db =
     (case createRow (sourceId, deliveryId) \<lparr>wd_event = event, wd_receivedAt = now\<rparr> (db_deliveries db) of
        Some t \<Rightarrow> (db\<lparr>db_deliveries := t\<rparr>, True)
      | None \<Rightarrow> (db, False))"

definition toIntent ::
  "('c, 'q) WebhookEnv \<Rightarrow> instant \<Rightarrow> SourceKind \<Rightarrow> string \<Rightarrow> string \<Rightarrow> IngestIntent option" where
  "toIntent env now kind event body =
     (case we_parse env body of
        None \<Rightarrow> None
      | Some payload \<Rightarrow>
          if kind = GitHub then toGitHubIntent (we_msOf env) now event payload
          else toGitLabIntent (we_msOf env) now event payload)"

definition accept ::
  "('c, 'q) WebhookEnv \<Rightarrow> (string \<Rightarrow> 'c WebhookSource option) \<Rightarrow> instant \<Rightarrow>
   string \<Rightarrow> HeaderBag \<Rightarrow> string \<Rightarrow> SyncDb \<times> 'q \<Rightarrow> (SyncDb \<times> 'q) \<times> (webhookError + DeliveryOutcome)" where
  "accept env sources now sourceId headers body st =
     (case st of (db, q) \<Rightarrow>
       (case sources sourceId of
          None \<Rightarrow> (st, Inl WebhookUnknown)
        | Some source \<Rightarrow>
            if \<not> ws_webhooksEnabled source \<or> \<not> ws_stored source then (st, Inl WebhookUnknown)
            else case ws_webhookSecret source of
              None \<Rightarrow> (st, Inl WebhookUnknown)
            | Some cipher \<Rightarrow>
                (case we_decrypt env cipher of
                   None \<Rightarrow> (st, Inl SecretUnreadable)
                 | Some secret \<Rightarrow>
                (case verify (we_hmac env) now (ws_kind source) headers body secret of
                   Rejected _ \<Rightarrow> (st, Inl WebhookRejected)
                 | Ok deliveryId event \<Rightarrow>
                     (case remember sourceId deliveryId event now db of
                        (db', False) \<Rightarrow> ((db', q), Inr Duplicate)
                      | (db', True) \<Rightarrow>
                          (case toIntent env now (ws_kind source) event body of
                             None \<Rightarrow> ((db', q), Inr IgnoredDelivery)
                           | Some intent \<Rightarrow>
                               (case we_add env (sourceId, intent) q of
                                  Some q' \<Rightarrow> ((db', q'), Inr Accepted)
                                | None \<Rightarrow> ((db', q), Inl QueueThrew))))))))"

section \<open>Writing an event\<close>

datatype ProcessResult = UnknownJob | Written nat "bool option"

definition askForReading ::
  "('p, ProbeJobData) QueueApi \<Rightarrow> string \<Rightarrow> Deployment \<Rightarrow> 'p \<Rightarrow> 'p \<times> bool" where
  "askForReading api sourceId deployment probes =
     (if dp_status deployment \<noteq> Success then (probes, False)
      else case enqueueProbe api \<lparr>pj_sourceId = sourceId, pj_repo = dp_repo deployment,
               pj_environment = dp_environment deployment, pj_attempt = None\<rparr> probes of
             (probes', Some queued) \<Rightarrow> (probes', queued)
           | (probes', None) \<Rightarrow> (probes', False))"

definition process ::
  "('p, ProbeJobData) QueueApi \<Rightarrow> string \<Rightarrow> string \<Rightarrow> IngestIntent \<Rightarrow> instant \<Rightarrow>
   Store \<times> 'p \<Rightarrow> (Store \<times> 'p) \<times> ProcessResult" where
  "process api jobName sourceId intent seenAt st =
     (if jobName \<noteq> ''ingest-event'' then (st, UnknownJob)
      else case st of (store, probes) \<Rightarrow>
        (case intent of
           PullRequestIntent item \<Rightarrow>
             (case upsertPullRequests sourceId [item] seenAt (pulls store) of
                (t, n) \<Rightarrow> ((store\<lparr>pulls := t\<rparr>, probes), Written n None))
         | PipelineIntent item \<Rightarrow>
             (case upsertPipelines sourceId [item] seenAt (pipelines store) of
                (t, n) \<Rightarrow> ((store\<lparr>pipelines := t\<rparr>, probes), Written n None))
         | DeploymentIntent item \<Rightarrow>
             (case upsertDeployments sourceId [item] seenAt (deployments store) of
                (t, n) \<Rightarrow> (case askForReading api sourceId item probes of
                   (probes', b) \<Rightarrow> ((store\<lparr>deployments := t\<rparr>, probes'), Written n (Some b))))))"

section \<open>Nothing for a stranger\<close>

lemma constantTimeEquals_eq [simp]: "constantTimeEquals a b \<longleftrightarrow> a = b"
  by (auto simp: constantTimeEquals_def)

text \<open>The proof a delivery has to carry: the digest of its body under the secret, or the secret.\<close>

definition authentic ::
  "('c, 'q) WebhookEnv \<Rightarrow> 'c WebhookSource \<Rightarrow> HeaderBag \<Rightarrow> string \<Rightarrow> bool" where
  "authentic env source headers body \<longleftrightarrow>
     (\<exists>cipher secret. ws_webhookSecret source = Some cipher \<and> we_decrypt env cipher = Some secret \<and>
        (if ws_kind source = GitHub
         then readHeader headers ''x-hub-signature-256'' =
                Some (''sha256='' @ we_hmac env secret body)
         else readHeader headers ''x-gitlab-token'' = Some secret))"

lemma verify_authentic:
  "verify (we_hmac env) now (ws_kind source) headers body secret = Ok d e \<Longrightarrow>
   ws_webhookSecret source = Some cipher \<Longrightarrow> we_decrypt env cipher = Some secret \<Longrightarrow>
   authentic env source headers body"
  by (auto simp: verify_def verifyGitHub_def verifyGitLab_def authentic_def Let_def
      split: option.splits if_splits)

text \<open>A source that listens, and what it keeps as its secret.\<close>

definition listening :: "(string \<Rightarrow> 'c WebhookSource option) \<Rightarrow> string \<Rightarrow> 'c WebhookSource \<Rightarrow> 'c \<Rightarrow> bool" where
  "listening sources src source cipher \<longleftrightarrow> sources src = Some source \<and> ws_webhooksEnabled source \<and>
     ws_stored source \<and> ws_webhookSecret source = Some cipher"

lemma accept_listening:
  "listening sources src source cipher \<Longrightarrow>
   accept env sources now src headers body st =
     (case we_decrypt env cipher of
        None \<Rightarrow> (st, Inl SecretUnreadable)
      | Some secret \<Rightarrow>
          (case verify (we_hmac env) now (ws_kind source) headers body secret of
             Rejected _ \<Rightarrow> (st, Inl WebhookRejected)
           | Ok deliveryId event \<Rightarrow>
               (case remember src deliveryId event now (fst st) of
                  (db', False) \<Rightarrow> ((db', snd st), Inr Duplicate)
                | (db', True) \<Rightarrow>
                    (case toIntent env now (ws_kind source) event body of
                       None \<Rightarrow> ((db', snd st), Inr IgnoredDelivery)
                     | Some intent \<Rightarrow>
                         (case we_add env (src, intent) (snd st) of
                            Some q' \<Rightarrow> ((db', q'), Inr Accepted)
                          | None \<Rightarrow> ((db', snd st), Inl QueueThrew))))))"
  unfolding accept_def listening_def by (cases st) (simp only: prod.case fst_conv snd_conv option.case not_True_eq_False simp_thms if_False)

lemma accept_not_listening:
  "(\<And>source cipher. \<not> listening sources src source cipher) \<Longrightarrow>
   accept env sources now src headers body st = (st, Inl WebhookUnknown)"
  by (cases st) (auto simp: accept_def listening_def split: option.split)

text \<open>C14. Nothing is recorded and nothing is queued for a caller that cannot prove it holds the
  secret of a listening, stored source: either the delivery is authentic, or the database and the
  queue are exactly as they were and the answer is one of three errors. The first does not tell an
  unknown source from one that is not listening; the second says that the secret of a listening
  source could not be read back, whatever was sent; the third, that it could and does not fit.\<close>

theorem only_authentic_deliveries_are_handled:
  assumes "accept env sources now src headers body st = (st', res)"
  shows "(\<exists>source cipher. listening sources src source cipher \<and> authentic env source headers body) \<or>
         (st' = st \<and>
            (res = Inl WebhookUnknown \<and> (\<forall>source cipher. \<not> listening sources src source cipher) \<or>
             res = Inl SecretUnreadable \<and>
               (\<exists>source cipher. listening sources src source cipher \<and> we_decrypt env cipher = None) \<or>
             res = Inl WebhookRejected \<and>
               (\<exists>source cipher. listening sources src source cipher \<and> we_decrypt env cipher \<noteq> None)))"
proof (cases "\<exists>source cipher. listening sources src source cipher")
  case False
  with accept_not_listening [of sources src env now headers body st] assms show ?thesis by auto
next
  case True
  then obtain source cipher where l: "listening sources src source cipher" by blast
  note run = assms [unfolded accept_listening [OF l]]
  show ?thesis
  proof (cases "we_decrypt env cipher")
    case None
    with run l show ?thesis by auto
  next
    case (Some secret)
    show ?thesis
    proof (cases "verify (we_hmac env) now (ws_kind source) headers body secret")
      case (Ok d e)
      with verify_authentic [OF Ok _ Some] l show ?thesis by (auto simp: listening_def)
    next
      case (Rejected r)
      with run Some l show ?thesis by auto
    qed
  qed
qed

definition sample_env :: "(string, (string \<times> IngestIntent) list) WebhookEnv" where
  "sample_env = \<lparr>we_hmac = (\<lambda>k b. k @ b), we_decrypt = Some, we_parse = (\<lambda>_. None),
     we_msOf = (\<lambda>_. 0), we_add = (\<lambda>i q. Some (q @ [i]))\<rparr>"

definition sample_source :: "string WebhookSource" where
  "sample_source = \<lparr>ws_kind = GitHub, ws_stored = True, ws_webhooksEnabled = True,
     ws_webhookSecret = Some ''k''\<rparr>"

definition sample_headers :: "string \<Rightarrow> HeaderBag" where
  "sample_headers signature = [(''x-github-event'', OneHeader ''ping''),
     (''x-hub-signature-256'', OneHeader signature), (''x-github-delivery'', OneHeader ''d1'')]"

lemmas accept_defs = accept_def verify_def verifyGitHub_def verifyGitLab_def readHeader_def
  remember_def toIntent_def createRow_def

theorem only_authentic_deliveries_are_handled_witness:
  "\<exists>st'. accept sample_env [''s'' \<mapsto> sample_source] 5 ''s'' (sample_headers ''forged'') ''b'' (sample_db, []) =
      (st', Inl WebhookRejected) \<and> st' = (sample_db, []) \<and>
      \<not> authentic sample_env sample_source (sample_headers ''forged'') ''b''"
proof -
  have r: "accept sample_env [''s'' \<mapsto> sample_source] 5 ''s'' (sample_headers ''forged'') ''b'' (sample_db, []) =
      ((sample_db, []), Inl WebhookRejected)"
    by (simp add: accept_defs sample_env_def sample_source_def sample_headers_def)
  have "\<not> authentic sample_env sample_source (sample_headers ''forged'') ''b''"
    by (simp add: authentic_def sample_env_def sample_source_def sample_headers_def readHeader_def)
  with r only_authentic_deliveries_are_handled [OF r] show ?thesis by auto
qed

section \<open>A delivery is handled once\<close>

definition stamped :: "'c WebhookSource \<Rightarrow> HeaderBag \<Rightarrow> bool" where
  "stamped source headers \<longleftrightarrow> ws_kind source = GitHub \<or> readHeader headers ''x-gitlab-event-uuid'' \<noteq> None"

lemma verify_stamped:
  "stamped source headers \<Longrightarrow> verify h now (ws_kind source) headers body secret =
     verify h later (ws_kind source) headers body secret"
  by (auto simp: verify_def verifyGitLab_def stamped_def split: option.split)

text \<open>A delivery the provider stamps is handled once. Once it has been answered, sending it again
  at any later time, on any later database that still holds it, is a duplicate: nothing is
  written and nothing is queued, whatever became of the first.\<close>

lemma accept_remembers:
  assumes "accept env sources now src headers body (db, q) = ((db1, q1), res)"
    and "res \<notin> {Inl WebhookUnknown, Inl SecretUnreadable, Inl WebhookRejected}"
  obtains source cipher secret d e where "listening sources src source cipher"
    "we_decrypt env cipher = Some secret"
    "verify (we_hmac env) now (ws_kind source) headers body secret = Ok d e"
    "(src, d) \<in> fst ` set (db_deliveries db1)"
proof (cases "\<exists>source cipher. listening sources src source cipher")
  case False
  with accept_not_listening [of sources src env now headers body "(db, q)"] assms show ?thesis by auto
next
  case True
  then obtain source cipher where l: "listening sources src source cipher" by blast
  note run = assms(1) [unfolded accept_listening [OF l]]
  with assms(2) obtain secret d e where v: "we_decrypt env cipher = Some secret"
    "verify (we_hmac env) now (ws_kind source) headers body secret = Ok d e"
    by (auto split: option.splits Verdict.splits)
  have "(src, d) \<in> fst ` set (db_deliveries db1)"
    using run v by (auto simp: remember_def createRow_def split: if_splits option.splits)
  with l v that show ?thesis by blast
qed

lemma accept_repeats:
  assumes "listening sources src source cipher" and "we_decrypt env cipher = Some secret"
    and "verify (we_hmac env) now (ws_kind source) headers body secret = Ok d e"
    and "stamped source headers" and "(src, d) \<in> fst ` set (db_deliveries db2)"
  shows "accept env sources later src headers body (db2, q2) = ((db2, q2), Inr Duplicate)"
  using assms(2,3,5) verify_stamped [OF assms(4), of _ now body _ later]
  by (simp add: accept_listening [OF assms(1)] remember_def createRow_def)

theorem a_repeat_is_a_duplicate:
  assumes first: "accept env sources now src headers body (db, q) = ((db1, q1), res)"
    and answered: "res \<notin> {Inl WebhookUnknown, Inl SecretUnreadable, Inl WebhookRejected}"
    and source: "sources src = Some source" and stamp: "stamped source headers"
    and held: "fst ` set (db_deliveries db1) \<subseteq> fst ` set (db_deliveries db2)"
  shows "accept env sources later src headers body (db2, q2) = ((db2, q2), Inr Duplicate)"
proof -
  obtain source' cipher secret d e where a: "listening sources src source' cipher"
    "we_decrypt env cipher = Some secret"
    "verify (we_hmac env) now (ws_kind source') headers body secret = Ok d e"
    "(src, d) \<in> fst ` set (db_deliveries db1)"
    by (rule accept_remembers [OF first answered])
  have "source' = source" using a(1) source by (simp add: listening_def)
  moreover have "(src, d) \<in> fst ` set (db_deliveries db2)" using a(4) held by blast
  ultimately show ?thesis using accept_repeats [OF a(1-3)] stamp by blast
qed

theorem a_repeat_is_a_duplicate_witness:
  "\<exists>db1. accept sample_env [''s'' \<mapsto> sample_source] 5 ''s'' (sample_headers ''sha256=kb'') ''b'' (sample_db, []) =
      ((db1, []), Inr IgnoredDelivery) \<and>
      accept sample_env [''s'' \<mapsto> sample_source] 9 ''s'' (sample_headers ''sha256=kb'') ''b'' (db1, []) =
      ((db1, []), Inr Duplicate)"
proof -
  obtain db1 where r: "accept sample_env [''s'' \<mapsto> sample_source] 5 ''s'' (sample_headers ''sha256=kb'') ''b'' (sample_db, []) =
      ((db1, []), Inr IgnoredDelivery)"
    by (simp add: accept_defs sample_env_def sample_source_def sample_headers_def sample_db_def)
  have s: "[''s'' \<mapsto> sample_source] ''s'' = Some sample_source" by simp
  have "stamped sample_source (sample_headers ''sha256=kb'')" by (simp add: stamped_def sample_source_def)
  from a_repeat_is_a_duplicate [OF r _ s this subset_refl] r show ?thesis by blast
qed

text \<open>
  The delivery is recorded before the work is queued: if the queue then refuses it, the caller is
  answered an error, and the provider's retry of that delivery is taken for a repeat. The event is
  lost until a synchronisation lists what it said.
\<close>

theorem queue_failure_loses_the_event:
  assumes first: "accept env sources now src headers body (db, q) = ((db1, q), Inl QueueThrew)"
    and source: "sources src = Some source" "stamped source headers"
  shows "accept env sources later src headers body (db1, q2) = ((db1, q2), Inr Duplicate)"
  by (rule a_repeat_is_a_duplicate [OF first _ source subset_refl]) simp

section \<open>Late events\<close>

text \<open>An event that arrives late changes nothing. When the store already holds a newer state of
  the pull request or of the run it is about, processing it writes no field but the date the
  request was last seen, leaves every other row alone, and asks for no reading.\<close>

theorem late_events_change_nothing:
  assumes u: "unique_keys (pulls store)" "unique_keys (pipelines store)"
  shows "(\<forall>(item :: SourcePullRequest) r. map_of (pulls store) (src, spr_id item) = Some r \<and> spr_updatedAt item < pr_updatedAt r \<longrightarrow>
      (\<exists>store'. process api ''ingest-event'' src (PullRequestIntent item) T (store, probes) =
          ((store', probes), Written 0 None) \<and>
        (\<forall>k. map_of (pulls store') k =
          (if k = (src, spr_id item) then Some (r\<lparr>pr_seenAt := T\<rparr>) else map_of (pulls store) k)) \<and>
        store' = store\<lparr>pulls := pulls store'\<rparr>)) \<and>
    (\<forall>(item :: Pipeline) r. map_of (pipelines store) (src, pl_id item) = Some r \<and> pl_updatedAt item < plr_updatedAt r \<longrightarrow>
      process api ''ingest-event'' src (PipelineIntent item) T (store, probes) = ((store, probes), Written 0 None))"
proof (intro conjI allI impI)
  fix item :: SourcePullRequest and r
  assume a: "map_of (pulls store) (src, spr_id item) = Some r \<and> spr_updatedAt item < pr_updatedAt r"
  have stale: "mergeOpenPullRequest (Some r) item T = None" using a mergeOpen_stale by simp
  obtain t where up: "upsertPullRequests src [item] T (pulls store) = (t, 0)" and
    t: "t = fst (updateMany (\<lambda>(s, e) _. s = src \<and> e \<in> set [spr_id item]) (\<lambda>r. r\<lparr>pr_seenAt := T\<rparr>) (pulls store))"
    using a stale by (simp add: upsertPullRequests_def upsertPullRequest_step_def map_of_loadRows)
  have "map_of t k = (if k = (src, spr_id item) then Some (r\<lparr>pr_seenAt := T\<rparr>) else map_of (pulls store) k)" for k
    using a by (cases k) (auto simp: t map_of_updateMany option.map_ident)
  then show "\<exists>store'. process api ''ingest-event'' src (PullRequestIntent item) T (store, probes) =
          ((store', probes), Written 0 None) \<and>
        (\<forall>k. map_of (pulls store') k =
          (if k = (src, spr_id item) then Some (r\<lparr>pr_seenAt := T\<rparr>) else map_of (pulls store) k)) \<and>
        store' = store\<lparr>pulls := pulls store'\<rparr>"
    by (intro exI [of _ "store\<lparr>pulls := t\<rparr>"]) (simp add: process_def up)
next
  fix item :: Pipeline and r
  assume a: "map_of (pipelines store) (src, pl_id item) = Some r \<and> pl_updatedAt item < plr_updatedAt r"
  then have "mergePipeline (Some r) item T = None" by (simp add: mergePipeline_def Let_def)
  with a show "process api ''ingest-event'' src (PipelineIntent item) T (store, probes) =
      ((store, probes), Written 0 None)"
    by (simp add: process_def upsertPipelines_def map_of_loadRows)
qed


definition held_pull :: PullRequestRow where
  "held_pull = sample_row\<lparr>pr_updatedAt := 9\<rparr>"

definition late_pull :: SourcePullRequest where
  "late_pull = \<lparr>spr_id = ''gh:api:6'', spr_number = 6, spr_title = ''old'', spr_state = Open,
     spr_author = ''ann'', spr_repo = ''api'', spr_repoUrl = [], spr_url = [], spr_headRef = [],
     spr_createdAt = 1, spr_updatedAt = 4, spr_mergedAt = None, spr_reviewers = 0,
     spr_ageHours = 0, spr_tickets = [], spr_body = [], spr_labels = []\<rparr>"

definition held_store :: Store where
  "held_store = \<lparr>repos = [], pulls = [((''s'', ''gh:api:6''), held_pull)], pipelines = [],
     deployments = []\<rparr>"

definition still_queue :: "(unit, ProbeJobData) QueueApi" where
  "still_queue = \<lparr>q_state = (\<lambda>_ _. None), q_remove = (\<lambda>_ q. q), q_add = (\<lambda>_ _ _ q. Some q)\<rparr>"

theorem late_events_change_nothing_witness:
  "\<exists>store'. process still_queue ''ingest-event'' ''s'' (PullRequestIntent late_pull) 20 (held_store, ()) =
      ((store', ()), Written 0 None) \<and>
    map_of (pulls store') (''s'', ''gh:api:6'') = Some (held_pull\<lparr>pr_seenAt := 20\<rparr>)"
proof -
  have u: "unique_keys (pulls held_store)" "unique_keys (pipelines held_store)"
    by (simp_all add: held_store_def unique_keys_def)
  have k: "map_of (pulls held_store) (''s'', spr_id late_pull) = Some held_pull \<and>
      spr_updatedAt late_pull < pr_updatedAt held_pull" and i: "spr_id late_pull = ''gh:api:6''"
    by (simp_all add: held_store_def late_pull_def held_pull_def)
  from late_events_change_nothing [OF u, of "''s''" still_queue 20 "()"] k obtain store' where
    "process still_queue ''ingest-event'' ''s'' (PullRequestIntent late_pull) 20 (held_store, ()) =
       ((store', ()), Written 0 None)"
    "\<forall>k. map_of (pulls store') k = (if k = (''s'', spr_id late_pull) then Some (held_pull\<lparr>pr_seenAt := 20\<rparr>)
       else map_of (pulls held_store) k)"
    by blast
  then show ?thesis using i by auto
qed

end
