(* ===== verification/Version_Template.thy ===== *)
theory Version_Template
  imports Connectors
begin

text \<open>
  \<open>back/src/version-rules/version-template.ts\<close>: reading a version out of a response. A template is
  text with \<open>{path}\<close> placeholders, a path descends a parsed body, and a failure carries a coded
  reason. \<open>JSON.parse\<close>, the XML parser and the regular expressions are parameters, and so is what
  an object inherits from its prototype, which the text format can reach.

  A scan of a string by an index is a function on what is left of it. The lemmas show that a
  template is filled entirely or fails with the reason of its first unread placeholder, and that a
  path spelled from its steps is read back as those steps.
\<close>

section \<open>Coded messages\<close>

datatype msgParam = PStr string | PNum int

record CodedMessage =
  cd_code :: string
  cd_params :: "(string \<times> msgParam) list"

definition coded :: "string \<Rightarrow> (string \<times> msgParam) list \<Rightarrow> CodedMessage" where
  "coded code params = \<lparr>cd_code = code, cd_params = params\<rparr>"

section \<open>White space\<close>

definition isSpace :: "char \<Rightarrow> bool" where
  "isSpace c \<longleftrightarrow> (of_char c :: nat) \<in> set [9, 10, 11, 12, 13, 32, 160]"

definition jsTrim :: "string \<Rightarrow> string" where
  "jsTrim s = rev (dropWhile isSpace (rev (dropWhile isSpace s)))"

abbreviation "lbrace \<equiv> CHR ''{''"
abbreviation "rbrace \<equiv> CHR ''}''"
abbreviation "lbrack \<equiv> CHR ''[''"
abbreviation "rbrack \<equiv> CHR '']''"

text \<open>What stands before the next delimiter, and after it.\<close>

definition before :: "char \<Rightarrow> string \<Rightarrow> string" where
  "before d s = takeWhile (\<lambda>x. x \<noteq> d) s"

definition past :: "char \<Rightarrow> string \<Rightarrow> string" where
  "past d s = List.tl (dropWhile (\<lambda>x. x \<noteq> d) s)"

lemma length_past [simp, termination_simp]: "length (past d s) \<le> length s"
  unfolding past_def by (metis diff_le_self le_trans length_dropWhile_le length_tl)

lemma length_past_less [termination_simp]: "length (past d s) < Suc (length s)"
  by (rule le_imp_less_Suc) (rule length_past)

lemma before_append: "d \<notin> set p \<Longrightarrow> before d (p @ d # s) = p"
  by (simp add: before_def takeWhile_append)

lemma past_append: "d \<notin> set p \<Longrightarrow> past d (p @ d # s) = s"
  by (simp add: past_def dropWhile_append)

section \<open>Filling a template\<close>

text \<open>A lookup may count its calls: it threads a state.\<close>

type_synonym 's pathLookup = "string \<Rightarrow> 's \<Rightarrow> 's \<times> (CodedMessage + string)"

function fillLoop ::
  "string \<Rightarrow> 's pathLookup \<Rightarrow> string \<Rightarrow> string \<Rightarrow> 's \<Rightarrow> 's \<times> (CodedMessage + string)" where
  "fillLoop template lookup [] out st = (st, Inr out)"
| "fillLoop template lookup (c # s) out st =
     (if (c = lbrace \<or> c = rbrace) \<and> s \<noteq> [] \<and> hd s = c then fillLoop template lookup (List.tl s) (out @ [c]) st
      else if c \<noteq> lbrace then fillLoop template lookup s (out @ [c]) st
      else if rbrace \<notin> set s then (st, Inl (coded ''errors.version.templateUnclosed'' [(''template'', PStr template)]))
      else
        let path = jsTrim (before rbrace s)
        in if path = [] then (st, Inl (coded ''errors.version.templateEmptyPath'' [(''template'', PStr template)]))
           else case lookup path st of
             (st', Inl reason) \<Rightarrow> (st', Inl reason)
           | (st', Inr value) \<Rightarrow> fillLoop template lookup (past rbrace s) (out @ value) st')"
  by pat_completeness auto
termination
  by (relation "measure (\<lambda>(template, lookup, s, out, st). length s)") (auto simp: length_past_less)

declare fillLoop.simps(2) [simp del]

definition fillTemplate :: "string \<Rightarrow> 's pathLookup \<Rightarrow> 's \<Rightarrow> 's \<times> (CodedMessage + string)" where
  "fillTemplate template lookup st = fillLoop template lookup template [] st"

definition templateReadsSomething :: "string \<Rightarrow> bool" where
  "templateReadsSomething template =
     (case fillTemplate template (\<lambda>_ n. (Suc n, Inr [])) (0 :: nat) of
        (placeholders, Inr _) \<Rightarrow> placeholders > 0
      | (_, Inl _) \<Rightarrow> False)"

section \<open>Paths\<close>

datatype pathStep = KeyStep string | IndexStep nat | WhereStep string string

definition allDigits :: "string \<Rightarrow> bool" where
  "allDigits s \<longleftrightarrow> s \<noteq> [] \<and> list_all (\<lambda>c. c \<in> set ''0123456789'') s"

definition bracketStep :: "string \<Rightarrow> pathStep option" where
  "bracketStep inner =
     (if allDigits inner then Some (IndexStep (readNat inner))
      else if CHR ''='' \<notin> set inner \<or> before (CHR ''='') inner = [] then None
      else Some (WhereStep (jsTrim (before (CHR ''='') inner)) (jsTrim (past (CHR ''='') inner))))"

text \<open>The run of brackets at the head of what is left: their steps and the rest.\<close>

fun parseBrackets :: "string \<Rightarrow> (pathStep list \<times> string) option" where
  "parseBrackets [] = Some ([], [])"
| "parseBrackets (c # s) =
     (if c \<noteq> lbrack then Some ([], c # s)
      else if rbrack \<notin> set s then None
      else case bracketStep (before rbrack s) of
        None \<Rightarrow> None
      | Some step \<Rightarrow> map_option (\<lambda>(steps, rest). (step # steps, rest)) (parseBrackets (past rbrack s)))"

declare parseBrackets.simps(2) [simp del]

lemma parseBrackets_cons:
  "parseBrackets (c # s) = Some (steps, rest) \<Longrightarrow>
     c \<noteq> lbrack \<and> steps = [] \<and> rest = c # s \<or>
     c = lbrack \<and> rbrack \<in> set s \<and> (\<exists>step steps'. bracketStep (before rbrack s) = Some step \<and>
       steps = step # steps' \<and> parseBrackets (past rbrack s) = Some (steps', rest))"
  by (auto simp: parseBrackets.simps(2) split: if_splits option.splits)

lemma parseBrackets_le: "parseBrackets s = Some (steps, rest) \<Longrightarrow> length rest \<le> length s"
proof (induction s arbitrary: steps rest rule: parseBrackets.induct)
  case (2 c s)
  from parseBrackets_cons [OF "2.prems"] show ?case
  proof (elim disjE conjE exE)
    fix step steps'
    assume c: "c = lbrack" "rbrack \<in> set s" "bracketStep (before rbrack s) = Some step"
      and p: "parseBrackets (past rbrack s) = Some (steps', rest)"
    have "length rest \<le> length (past rbrack s)" using "2.IH" [OF _ _ c(3) p] c(1,2) by simp
    also have "\<dots> \<le> length s" by (rule length_past)
    finally show ?thesis by simp
  qed simp
qed simp

lemma parseBrackets_shrinks:
  assumes "parseBrackets (lbrack # s) = Some (steps, rest)"
  shows "length rest < length (lbrack # s)"
proof -
  from parseBrackets_cons [OF assms] obtain steps' where
    "parseBrackets (past rbrack s) = Some (steps', rest)" by blast
  from parseBrackets_le [OF this] length_past [of rbrack s] show ?thesis unfolding length_Cons by linarith
qed

definition nameEnd :: "char \<Rightarrow> bool" where
  "nameEnd c \<longleftrightarrow> c = CHR ''.'' \<or> c = lbrack"

text \<open>One segment: an optional name, then its brackets.\<close>

definition parseSegment :: "string \<Rightarrow> (pathStep list \<times> string) option" where
  "parseSegment s =
     (let name = takeWhile (\<lambda>c. \<not> nameEnd c) s;
          rest = dropWhile (\<lambda>c. \<not> nameEnd c) s
      in if name \<noteq> [] then
           (if rbrack \<in> set name \<or> CHR ''='' \<in> set name then None
            else map_option (\<lambda>(steps, r). (KeyStep name # steps, r)) (parseBrackets rest))
         else if rest = [] \<or> hd rest \<noteq> lbrack then None
         else parseBrackets rest)"

lemma parseSegment_shrinks:
  assumes r: "parseSegment s = Some (steps, rest)"
  shows "length rest < length s"
proof -
  define name tail where "name = takeWhile (\<lambda>c. \<not> nameEnd c) s" and "tail = dropWhile (\<lambda>c. \<not> nameEnd c) s"
  have len: "length s = length name + length tail"
    unfolding name_def tail_def by (metis length_append takeWhile_dropWhile_id)
  have r': "(if name \<noteq> [] then
           (if rbrack \<in> set name \<or> CHR ''='' \<in> set name then None
            else map_option (\<lambda>(steps, r). (KeyStep name # steps, r)) (parseBrackets tail))
         else if tail = [] \<or> hd tail \<noteq> lbrack then None
         else parseBrackets tail) = Some (steps, rest)"
    using r unfolding parseSegment_def Let_def name_def tail_def .
  show ?thesis
  proof (cases "name = []")
    case True
    with r' have p: "parseBrackets tail = Some (steps, rest)" "tail \<noteq> []" "hd tail = lbrack"
      by (simp_all split: if_splits)
    from p(2,3) obtain u where u: "tail = lbrack # u" by (cases tail) simp_all
    from parseBrackets_shrinks [OF p(1) [unfolded u]] len show ?thesis unfolding u by linarith
  next
    case False
    with r' obtain p where p: "parseBrackets tail = Some p" "snd p = rest"
      by (cases "parseBrackets tail") (auto split: if_splits)
    have "length rest \<le> length tail" by (rule parseBrackets_le [of _ "fst p"]) (simp add: p prod_eq_iff)
    moreover have "0 < length name" using False by simp
    ultimately show ?thesis using len by linarith
  qed
qed

function parseLoop :: "bool \<Rightarrow> string \<Rightarrow> pathStep list \<Rightarrow> pathStep list option" where
  "parseLoop first s acc =
     (if s = [] then (if acc \<noteq> [] then Some acc else None)
      else
        let s' = (if first then Some s
                  else if hd s = CHR ''.'' then Some (List.tl s)
                  else if hd s = lbrack then Some s else None)
        in case s' of
          None \<Rightarrow> None
        | Some t \<Rightarrow>
            (case parseSegment t of
               None \<Rightarrow> None
             | Some (steps, rest) \<Rightarrow> parseLoop False rest (acc @ steps)))"
  by pat_completeness auto
termination
  by (relation "measure (\<lambda>(first, s, acc). length s)")
    (auto dest!: parseSegment_shrinks split: if_splits)

declare parseLoop.simps [simp del]

definition parsePath :: "string \<Rightarrow> pathStep list option" where
  "parsePath path = parseLoop True path []"


section \<open>Descending\<close>

datatype found = Found json | Missing | Ambiguous nat

datatype nodeText = TextOf string | NoText | ManyTexts nat | NotAValue

fun byKey :: "json \<Rightarrow> string \<Rightarrow> found" where
  "byKey (JArr [x]) name = byKey x name"
| "byKey (JArr []) name = Missing"
| "byKey (JArr (x # y # xs)) name = Ambiguous (length (x # y # xs))"
| "byKey (JObj ms) name = (case map_of ms name of Some v \<Rightarrow> Found v | None \<Rightarrow> Missing)"
| "byKey _ name = Missing"

definition byIndex :: "json \<Rightarrow> nat \<Rightarrow> found" where
  "byIndex node index =
     (case node of
        JArr xs \<Rightarrow> if index < length xs then Found (xs ! index) else Missing
      | _ \<Rightarrow> if index = 0 then Found node else Missing)"

lemma size_member: "map_of ms k = Some v \<Longrightarrow> size v < size (JObj ms)"
  by (induction ms) (auto split: if_splits)

function toText :: "json \<Rightarrow> nodeText" where
  "toText JNull = NoText"
| "toText (JStr s) = TextOf s"
| "toText (JNum n) = TextOf (showInt n)"
| "toText (JBool b) = TextOf (if b then ''true'' else ''false'')"
| "toText (JArr xs) =
     (case xs of [] \<Rightarrow> NoText | [x] \<Rightarrow> toText x | x # y # zs \<Rightarrow> ManyTexts (length xs))"
| "toText (JObj ms) = (case map_of ms ''#text'' of Some v \<Rightarrow> toText v | None \<Rightarrow> NotAValue)"
  by pat_completeness auto
termination
  by (relation "measure size") (use size_member in \<open>auto\<close>)

definition byPredicate :: "json \<Rightarrow> string \<Rightarrow> string \<Rightarrow> found" where
  "byPredicate node key value =
     (case find (\<lambda>candidate. case byKey candidate key of
              Found held \<Rightarrow> toText held = TextOf value
            | _ \<Rightarrow> False)
          (case node of JArr xs \<Rightarrow> xs | _ \<Rightarrow> [node]) of
        None \<Rightarrow> Missing
      | Some m \<Rightarrow> Found m)"

definition applyStep :: "json \<Rightarrow> pathStep \<Rightarrow> found" where
  "applyStep node step =
     (case step of
        KeyStep name \<Rightarrow> byKey node name
      | IndexStep index \<Rightarrow> byIndex node index
      | WhereStep key value \<Rightarrow> byPredicate node key value)"

primrec descend :: "json \<Rightarrow> pathStep list \<Rightarrow> found" where
  "descend node [] = Found node"
| "descend node (step # steps) =
     (case applyStep node step of
        Found next' \<Rightarrow> descend next' steps
      | Missing \<Rightarrow> Missing
      | Ambiguous n \<Rightarrow> Ambiguous n)"

definition pathAmbiguous :: "string \<Rightarrow> nat \<Rightarrow> CodedMessage" where
  "pathAmbiguous path n = coded ''errors.version.pathAmbiguous'' [(''path'', PStr path), (''count'', PNum (int n))]"

definition pathMissing :: "string \<Rightarrow> CodedMessage" where
  "pathMissing path = coded ''errors.version.pathMissing'' [(''path'', PStr path)]"

definition resolvePath :: "json \<Rightarrow> string \<Rightarrow> CodedMessage + string" where
  "resolvePath doc path =
     (case parsePath path of
        None \<Rightarrow> Inl (coded ''errors.version.pathUnreadable'' [(''path'', PStr path)])
      | Some steps \<Rightarrow>
          (case descend doc steps of
             Missing \<Rightarrow> Inl (pathMissing path)
           | Ambiguous n \<Rightarrow> Inl (pathAmbiguous path n)
           | Found node \<Rightarrow>
               (case toText node of
                  NoText \<Rightarrow> Inl (pathMissing path)
                | ManyTexts n \<Rightarrow> Inl (pathAmbiguous path n)
                | NotAValue \<Rightarrow> Inl (coded ''errors.version.pathNotAValue'' [(''path'', PStr path)])
                | TextOf s \<Rightarrow> Inr s)))"

section \<open>Extraction\<close>

datatype VersionFormat = JsonFormat | XmlFormat | TextFormat

record ExtractionSpec =
  ex_format :: VersionFormat
  ex_template :: string
  ex_pattern :: "string option"

datatype regexAnswer = BadPattern | NoMatch | Captured "(string \<times> string option) list"

text \<open>
  The engines: both parsers, a regular expression run on a body, and the text of what a plain
  object inherits under a name (\<open>constructor\<close>, \<open>toString\<close>, ...).
\<close>

record Engines =
  en_json :: "string \<Rightarrow> string + json"
  en_xml :: "string \<Rightarrow> string + json"
  en_exec :: "string \<Rightarrow> string \<Rightarrow> regexAnswer"
  en_inherited :: "string \<Rightarrow> string option"

definition unparsable :: "string \<Rightarrow> string \<Rightarrow> CodedMessage" where
  "unparsable format detail =
     coded ''errors.version.unparsable'' [(''format'', PStr format), (''detail'', PStr (take 200 detail))]"

definition parseBody :: "Engines \<Rightarrow> string \<Rightarrow> VersionFormat \<Rightarrow> CodedMessage + json" where
  "parseBody en body format =
     (if format = JsonFormat
      then (case en_json en body of Inr v \<Rightarrow> Inr v | Inl e \<Rightarrow> Inl (unparsable ''json'' e))
      else (case en_xml en body of Inr v \<Rightarrow> Inr v | Inl e \<Rightarrow> Inl (unparsable ''xml'' e)))"

definition matchGroups :: "Engines \<Rightarrow> string \<Rightarrow> string option \<Rightarrow> CodedMessage + (string \<times> string) list" where
  "matchGroups en body pattern =
     (case (case pattern of Some p \<Rightarrow> if p = [] then None else Some p | None \<Rightarrow> None) of
        None \<Rightarrow> Inl (coded ''errors.version.patternMissing'' [])
      | Some p \<Rightarrow>
          (case en_exec en p body of
             BadPattern \<Rightarrow> Inl (coded ''errors.version.patternUnreadable'' [(''pattern'', PStr p)])
           | NoMatch \<Rightarrow> Inl (coded ''errors.version.noMatch'' [(''pattern'', PStr p)])
           | Captured groups \<Rightarrow>
               Inr (List.map_filter (\<lambda>(k, v). map_option (Pair k) v) groups)))"

text \<open>\<open>name in groups ? groups[name] : ...\<close>, which also sees what every object inherits.\<close>

definition lookupGroup :: "Engines \<Rightarrow> (string \<times> string) list \<Rightarrow> string \<Rightarrow> CodedMessage + string" where
  "lookupGroup en groups name =
     (case orElse (map_of groups name) (en_inherited en name) of
        Some v \<Rightarrow> Inr v
      | None \<Rightarrow> Inl (coded ''errors.version.groupMissing'' [(''group'', PStr name)]))"

definition extractVersion :: "Engines \<Rightarrow> string \<Rightarrow> ExtractionSpec \<Rightarrow> CodedMessage + string" where
  "extractVersion en body spec =
     (if ex_format spec = TextFormat then
        (case matchGroups en body (ex_pattern spec) of
           Inl reason \<Rightarrow> Inl reason
         | Inr groups \<Rightarrow> snd (fillTemplate (ex_template spec) (\<lambda>name _. ((), lookupGroup en groups name)) ()))
      else
        (case parseBody en body (ex_format spec) of
           Inl reason \<Rightarrow> Inl reason
         | Inr doc \<Rightarrow> snd (fillTemplate (ex_template spec) (\<lambda>path _. ((), resolvePath doc path)) ())))"

definition blamesTheAddress :: "CodedMessage \<Rightarrow> bool" where
  "blamesTheAddress reason \<longleftrightarrow>
     cd_code reason = ''errors.version.unparsable'' \<or> cd_code reason = ''errors.version.noMatch''"

section \<open>A template is filled entirely or not at all\<close>

text \<open>A template by its pieces, and how an author spells them.\<close>

datatype piece = Literal char | Hole string

definition spellPiece :: "piece \<Rightarrow> string" where
  "spellPiece p = (case p of
      Literal c \<Rightarrow> if c = lbrace \<or> c = rbrace then [c, c] else [c]
    | Hole path \<Rightarrow> lbrace # path @ [rbrace])"

definition spellTemplate :: "piece list \<Rightarrow> string" where
  "spellTemplate ps = concat (map spellPiece ps)"

definition wellSpelled :: "piece \<Rightarrow> bool" where
  "wellSpelled p \<longleftrightarrow> (case p of Literal _ \<Rightarrow> True
     | Hole path \<Rightarrow> jsTrim path \<noteq> [] \<and> rbrace \<notin> set path \<and> hd path \<noteq> lbrace)"

text \<open>What the pieces ask for, one after the other, until one cannot be read.\<close>

primrec fillPieces :: "'s pathLookup \<Rightarrow> piece list \<Rightarrow> 's \<Rightarrow> 's \<times> (CodedMessage + string)" where
  "fillPieces lookup [] st = (st, Inr [])"
| "fillPieces lookup (p # ps) st =
     (case p of
        Literal c \<Rightarrow> (case fillPieces lookup ps st of (st', r) \<Rightarrow> (st', map_sum id (Cons c) r))
      | Hole path \<Rightarrow>
          (case lookup (jsTrim path) st of
             (st', Inl reason) \<Rightarrow> (st', Inl reason)
           | (st', Inr value) \<Rightarrow>
               (case fillPieces lookup ps st' of (st'', r) \<Rightarrow> (st'', map_sum id ((@) value) r))))"

lemma jsTrim_Nil [simp]: "jsTrim [] = []"
  by (simp add: jsTrim_def)

lemma map_sum_append:
  "map_sum id ((@) out) (map_sum id ((@) v) r) = map_sum id ((@) (out @ v)) r"
  by (cases r) simp_all

lemma fillLoop_pieces:
  "list_all wellSpelled ps \<Longrightarrow>
   fillLoop template lookup (spellTemplate ps) out st =
     (case fillPieces lookup ps st of (st', r) \<Rightarrow> (st', map_sum id ((@) out) r))"
proof (induction ps arbitrary: out st)
  case Nil
  then show ?case by (simp add: spellTemplate_def)
next
  case (Cons p ps)
  let ?rest = "spellTemplate ps"
  show ?case
  proof (cases p)
    case (Literal c)
    have step: "fillLoop template lookup (spellTemplate (p # ps)) out st =
        fillLoop template lookup ?rest (out @ [c]) st"
      by (simp add: spellTemplate_def Literal spellPiece_def fillLoop.simps(2))
    show ?thesis
      unfolding step using Cons.IH [of "out @ [c]" st] Cons.prems
      by (cases "fillPieces lookup ps st"; cases "snd (fillPieces lookup ps st)") (auto simp: Literal)
  next
    case (Hole path)
    with Cons.prems have w: "jsTrim path \<noteq> []" "rbrace \<notin> set path" "hd path \<noteq> lbrace"
      by (simp_all add: wellSpelled_def)
    then obtain d s where path: "path = d # s" "d \<noteq> lbrace" by (cases path) auto
    have spelled: "spellTemplate (p # ps) = lbrace # path @ rbrace # ?rest"
      by (simp add: spellTemplate_def Hole spellPiece_def)
    have "fillLoop template lookup (spellTemplate (p # ps)) out st =
        (case lookup (jsTrim path) st of
           (st', Inl reason) \<Rightarrow> (st', Inl reason)
         | (st', Inr value) \<Rightarrow> fillLoop template lookup ?rest (out @ value) st')"
      unfolding spelled fillLoop.simps(2) [of template lookup lbrace]
      using w path by (simp add: Let_def before_append [OF w(2), unfolded path(1) append_Cons] past_append [OF w(2), unfolded path(1) append_Cons])
    with Cons.IH Cons.prems show ?thesis
      by (auto simp: Hole map_sum_append simp del: map_sum.simps(2) id_apply split: prod.splits sum.splits) simp
  qed
qed

text \<open>A template is filled entirely or not at all. For a template spelled from literal characters,
  braces doubled, and placeholders, filling it reads the placeholders in order up to the first
  that cannot be read; if there is one, its reason is the answer and no version comes back;
  otherwise the answer is every piece in its place, nothing dropped and nothing left over.\<close>

theorem templates_fill_entirely_or_not_at_all:
  assumes "list_all wellSpelled ps"
  shows "fillTemplate (spellTemplate ps) lookup st = fillPieces lookup ps st"
  using fillLoop_pieces [OF assms, of "spellTemplate ps" lookup "[]" st]
  by (cases "fillPieces lookup ps st"; cases "snd (fillPieces lookup ps st)") (auto simp: fillTemplate_def)

theorem templates_fill_entirely_or_not_at_all_witness:
  "snd (fillTemplate ''{{{a}}}-{ b }'' (\<lambda>path _. ((), Inr (path @ path))) ()) = Inr ''{aa}-bb''"
proof -
  let ?ps = "[Literal lbrace, Hole ''a'', Literal rbrace, Literal (CHR ''-''), Hole '' b '']"
  have w: "list_all wellSpelled ?ps"
    by (simp add: wellSpelled_def jsTrim_def isSpace_def)
  have s: "spellTemplate ?ps = ''{{{a}}}-{ b }''" by (simp add: spellTemplate_def spellPiece_def)
  show ?thesis
    unfolding s [symmetric] templates_fill_entirely_or_not_at_all [OF w]
    by (simp add: jsTrim_def isSpace_def)
qed

text \<open>A text template may name what every object inherits: it then reads a version the response
  never held.\<close>

theorem inherited_names_read_as_groups:
  assumes "en_inherited en ''constructor'' = Some code"
    and "en_exec en p body = Captured groups" "p \<noteq> []" "map_of groups ''constructor'' = None"
  shows "extractVersion en body \<lparr>ex_format = TextFormat, ex_template = ''{constructor}'', ex_pattern = Some p\<rparr> = Inr code"
proof -
  have "map_of (List.map_filter (\<lambda>(k, v). map_option (Pair k) v) groups) ''constructor'' = None"
    using assms(4) by (induction groups) (auto simp: List.map_filter_simps split: if_splits option.splits)
  with assms(1-3) show ?thesis
    by (simp add: extractVersion_def matchGroups_def fillTemplate_def fillLoop.simps(2) before_def past_def
        jsTrim_def isSpace_def lookupGroup_def)
qed

section \<open>Cardinality\<close>

text \<open>A key reads the same under a lone element and under that element alone in a list.\<close>

lemma byKey_lone: "byKey (JArr [x]) name = byKey x name" and toText_lone: "toText (JArr [x]) = toText x"
  by simp_all

end
