(* ===== verification/Private_Address.thy ===== *)
theory Private_Address
  imports Version_Template "HOL-Library.Word"
begin

text \<open>
  \<open>back/src/version-rules/private-address.ts\<close>: the addresses a probe must never reach, decided on
  the text of a resolved address. Octets are read with \<open>Number\<close>, whose grammar is written out
  (its values as exact rationals); the sixteen bytes of an IPv6 address are naturals.

  The lemmas show that the tests on octets are exactly a list of address blocks, that an IPv4
  address in any of its IPv6 forms is refused exactly when it is refused itself, and exhibit
  reserved IPv6 addresses that are let through.
\<close>

section \<open>Number\<close>

definition isDigit :: "char \<Rightarrow> bool" where
  "isDigit c \<longleftrightarrow> 48 \<le> (of_char c :: nat) \<and> (of_char c :: nat) \<le> 57"

definition hexValueOf :: "char \<Rightarrow> nat option" where
  "hexValueOf c =
     (let n = of_char c in
      if 48 \<le> n \<and> n \<le> 57 then Some (n - 48)
      else if 97 \<le> n \<and> n \<le> 102 then Some (n - 87)
      else if 65 \<le> n \<and> n \<le> 70 then Some (n - 55)
      else None)"

definition readBase :: "nat \<Rightarrow> string \<Rightarrow> nat option" where
  "readBase base s =
     (if s \<noteq> [] \<and> list_all (\<lambda>c. case hexValueOf c of Some d \<Rightarrow> d < base | None \<Rightarrow> False) s
      then Some (foldl (\<lambda>n c. base * n + the (hexValueOf c)) 0 s)
      else None)"

text \<open>A sign, digits with an optional fraction, an optional exponent.\<close>

definition readSign :: "string \<Rightarrow> int \<times> string" where
  "readSign s = (case s of [] \<Rightarrow> (1, [])
     | c # r \<Rightarrow> if c = CHR ''-'' then (-1, r) else if c = CHR ''+'' then (1, r) else (1, s))"

definition scale10 :: "int \<Rightarrow> rat" where
  "scale10 e = (if e < 0 then 1 / 10 ^ nat (- e) else 10 ^ nat e)"

definition readDecimal :: "string \<Rightarrow> rat option" where
  "readDecimal s =
     (case readSign s of (sign, r) \<Rightarrow>
       let whole = takeWhile isDigit r;
           r1 = dropWhile isDigit r;
           frac = (case r1 of [] \<Rightarrow> [] | c # f \<Rightarrow> if c = CHR ''.'' then takeWhile isDigit f else []);
           r2 = (case r1 of [] \<Rightarrow> [] | c # f \<Rightarrow> if c = CHR ''.'' then dropWhile isDigit f else r1);
           mantissa = of_int sign * (of_nat (readNat (whole @ frac)) * scale10 (- int (length frac)))
       in if whole @ frac = [] then None
          else case r2 of
            [] \<Rightarrow> Some mantissa
          | c # e \<Rightarrow>
              if c \<noteq> CHR ''e'' \<and> c \<noteq> CHR ''E'' then None
              else case readSign e of (esign, digits) \<Rightarrow>
                if digits \<noteq> [] \<and> list_all isDigit digits
                then Some (mantissa * scale10 (esign * int (readNat digits)))
                else None)"

text \<open>\<open>None\<close> stands for \<open>NaN\<close> and the infinities.\<close>

definition jsNumber :: "string \<Rightarrow> rat option" where
  "jsNumber text' =
     (let s = jsTrim text' in
      if s = [] then Some 0
      else case s of
        z # x # r \<Rightarrow>
          if z = CHR ''0'' \<and> x \<in> set ''xX'' then map_option of_nat (readBase 16 r)
          else if z = CHR ''0'' \<and> x \<in> set ''oO'' then map_option of_nat (readBase 8 r)
          else if z = CHR ''0'' \<and> x \<in> set ''bB'' then map_option of_nat (readBase 2 r)
          else readDecimal s
      | _ \<Rightarrow> readDecimal s)"

text \<open>\<open>Number.isInteger(o) && o >= 0 && o <= 255\<close>\<close>

definition asOctet :: "string \<Rightarrow> nat option" where
  "asOctet s =
     (case jsNumber s of
        Some q \<Rightarrow> if of_int \<lfloor>q\<rfloor> = q \<and> 0 \<le> q \<and> q \<le> 255 then Some (nat \<lfloor>q\<rfloor>) else None
      | None \<Rightarrow> None)"

text \<open>The octets of a dotted quad, when all four can be read.\<close>

fun allSome :: "'a option list \<Rightarrow> 'a list option" where
  "allSome [] = Some []"
| "allSome (None # xs) = None"
| "allSome (Some x # xs) = map_option (Cons x) (allSome xs)"

definition readOctets :: "string \<Rightarrow> nat list option" where
  "readOctets ip =
     (let octets = map asOctet (splitOn (CHR ''.'') ip)
      in if length octets \<noteq> 4 then None else allSome octets)"

section \<open>IPv4\<close>

definition forbiddenOctets :: "nat \<Rightarrow> nat \<Rightarrow> bool" where
  "forbiddenOctets a b \<longleftrightarrow>
     a = 0 \<or>
     a = 10 \<or>
     (a = 100 \<and> b \<ge> 64 \<and> b \<le> 127) \<or>
     a = 127 \<or>
     (a = 169 \<and> b = 254) \<or>
     (a = 172 \<and> b \<ge> 16 \<and> b \<le> 31) \<or>
     (a = 192 \<and> b = 0) \<or>
     (a = 192 \<and> b = 88) \<or>
     (a = 192 \<and> b = 168) \<or>
     (a = 198 \<and> b \<ge> 18 \<and> b \<le> 19) \<or>
     (a = 198 \<and> b = 51) \<or>
     (a = 203 \<and> b = 0) \<or>
     a \<ge> 224"

definition isForbiddenIpv4 :: "string \<Rightarrow> bool" where
  "isForbiddenIpv4 ip =
     (case readOctets ip of
        Some (a # b # _) \<Rightarrow> forbiddenOctets a b
      | _ \<Rightarrow> True)"

section \<open>IPv6\<close>

text \<open>\<open>address.split('::')\<close>\<close>

fun splitDouble :: "string \<Rightarrow> string list" where
  "splitDouble [] = [[]]"
| "splitDouble [c] = [[c]]"
| "splitDouble (c # d # s) =
     (if c = CHR '':'' \<and> d = CHR '':'' then [] # splitDouble s
      else case splitDouble (d # s) of w # ws \<Rightarrow> (c # w) # ws | [] \<Rightarrow> [[c]])"

definition hexGroup :: "string \<Rightarrow> nat option" where
  "hexGroup g = (if length g \<le> 4 then readBase 16 g else None)"

definition groupWords :: "string \<Rightarrow> nat list option" where
  "groupWords g =
     (if CHR ''.'' \<in> set g
      then (case readOctets g of
              Some [o0, o1, o2, o3] \<Rightarrow> Some [o0 * 256 + o1, o2 * 256 + o3]
            | _ \<Rightarrow> None)
      else map_option (\<lambda>w. [w]) (hexGroup g))"

definition toWords :: "string \<Rightarrow> nat list option" where
  "toWords part =
     (if part = [] then Some []
      else map_option concat (allSome (map groupWords (splitOn (CHR '':'') part))))"

definition wordBytes :: "nat \<Rightarrow> nat list" where
  "wordBytes w = [(w div 256) mod 256, w mod 256]"

definition parseIpv6 :: "string \<Rightarrow> nat list option" where
  "parseIpv6 ip =
     (let address = takeWhile (\<lambda>c. c \<noteq> CHR ''%'') ip;
          halves = splitDouble address
      in if length halves > 2 then None
         else case (toWords (hd halves), if length halves = 2 then toWords (halves ! 1) else Some []) of
           (Some head, Some tail) \<Rightarrow>
             let filled = 8 - int (length head) - int (length tail)
             in if (if length halves = 2 then filled < 0 else filled \<noteq> 0) then None
                else Some (concat (map wordBytes
                  (head @ replicate (if length halves = 2 then nat filled else 0) 0 @ tail)))
         | _ \<Rightarrow> None)"

definition isForbiddenIpv6 :: "string \<Rightarrow> bool" where
  "isForbiddenIpv6 ip =
     (case parseIpv6 ip of
        None \<Rightarrow> True
      | Some bytes \<Rightarrow>
          (list_all (\<lambda>b. b = 0) (take 15 bytes) \<and> bytes ! 15 \<le> 1) \<or>
          (bytes ! 0) div 2 * 2 = 0xfc \<or>
          (bytes ! 0 = 0xfe \<and> (bytes ! 1) div 64 * 64 = 0x80) \<or>
          bytes ! 0 = 0xff)"

text \<open>\<open>ip.match(/(\d+\.\d+\.\d+\.\d+)$/)\<close>: four runs of digits at the end.\<close>

definition dottedTail :: "string \<Rightarrow> string option" where
  "dottedTail ip =
     (let parts = splitOn (CHR ''.'') ip;
          n = length parts
      in if n < 4 then None
         else
           let first = rev (takeWhile isDigit (rev (parts ! (n - 4))));
               rest = drop (n - 3) parts
           in if first \<noteq> [] \<and> list_all (\<lambda>p. p \<noteq> [] \<and> list_all isDigit p) rest
              then Some (joinWith ''.'' (first # rest)) else None)"

definition asIpv4 :: "nat list \<Rightarrow> nat \<Rightarrow> string" where
  "asIpv4 bytes offset = joinWith ''.'' (map showNat (take 4 (drop offset bytes)))"

definition embeddedIpv4 :: "string \<Rightarrow> string option" where
  "embeddedIpv4 ip =
     (if CHR '':'' \<notin> set ip then None
      else case dottedTail ip of
        Some d \<Rightarrow> Some d
      | None \<Rightarrow>
          (case parseIpv6 ip of
             None \<Rightarrow> None
           | Some bytes \<Rightarrow>
               if list_all (\<lambda>b. b = 0) (take 10 bytes) \<and> bytes ! 10 = 0xff \<and> bytes ! 11 = 0xff
               then Some (asIpv4 bytes 12)
               else if bytes ! 0 = 0x20 \<and> bytes ! 1 = 0x02 then Some (asIpv4 bytes 2)
               else if bytes ! 0 = 0x00 \<and> bytes ! 1 = 0x64 \<and> bytes ! 2 = 0xff \<and> bytes ! 3 = 0x9b
               then Some (asIpv4 bytes 12)
               else None))"

definition isForbiddenAddress :: "string \<Rightarrow> bool" where
  "isForbiddenAddress ip =
     (case embeddedIpv4 ip of
        Some mapped \<Rightarrow> isForbiddenIpv4 mapped
      | None \<Rightarrow> if CHR '':'' \<in> set ip then isForbiddenIpv6 ip else isForbiddenIpv4 ip)"

section \<open>Reading what is printed\<close>

lemmas isDigit_iff = isDigit_def

lemma showNat_isDigit: "c \<in> set (showNat n) \<Longrightarrow> isDigit c"
  by (drule showNat_digits) (auto simp: isDigit_iff of_char_digit)

lemma isDigit_not_space: "isDigit c \<Longrightarrow> \<not> isSpace c"
  by (auto simp: isDigit_iff isSpace_def)

lemma jsTrim_digits: "list_all isDigit s \<Longrightarrow> jsTrim s = s"
proof -
  assume d: "list_all isDigit s"
  have "dropWhile isSpace s = s" "dropWhile isSpace (rev s) = rev s"
    using d isDigit_not_space by (cases s; cases "rev s"; auto simp: list_all_iff dest!: arg_cong [of _ _ set])+
  then show ?thesis by (simp add: jsTrim_def)
qed

lemma readDecimal_digits:
  assumes "list_all isDigit s" "s \<noteq> []"
  shows "readDecimal s = Some (of_nat (readNat s))"
proof -
  obtain c r where s: "s = c # r" using assms(2) by (cases s) auto
  have c: "c \<noteq> CHR ''-''" "c \<noteq> CHR ''+''" using assms(1) by (auto simp: s isDigit_iff)
  have w: "takeWhile isDigit s = s" "dropWhile isDigit s = []"
    using assms(1) by (auto simp: list_all_iff)
  have "readSign s = (1, s)" using c by (simp add: s readSign_def)
  then show ?thesis unfolding readDecimal_def Let_def by (simp only: prod.case w) (simp add: scale10_def assms(2))
qed

lemma jsNumber_digits:
  assumes "list_all isDigit s" "s \<noteq> []"
  shows "jsNumber s = Some (of_nat (readNat s))"
proof -
  have no: "x \<notin> set ''xXoObB''" if "x \<in> set s" for x
    using that assms(1) by (auto simp: list_all_iff isDigit_iff)
  show ?thesis
  proof (cases s)
    case (Cons z t)
    then show ?thesis
      using no readDecimal_digits [OF assms] jsTrim_digits [OF assms(1)]
      by (cases t) (auto simp: jsNumber_def)
  qed (use assms in simp)
qed

lemma asOctet_digits: "list_all isDigit s \<Longrightarrow> s \<noteq> [] \<Longrightarrow> readNat s \<le> 255 \<Longrightarrow> asOctet s = Some (readNat s)"
  by (simp add: asOctet_def jsNumber_digits)

lemma asOctet_showNat: "n \<le> 255 \<Longrightarrow> asOctet (showNat n) = Some n"
  using asOctet_digits [of "showNat n"] showNat_isDigit by (auto simp: list_all_iff)

lemma splitOn_ne: "splitOn d s \<noteq> []"
  by (induction s) (auto split: list.splits)

lemma splitOn_append: "d \<notin> set w \<Longrightarrow> splitOn d (w @ d # s) = w # splitOn d s"
  by (induction w) auto

lemma splitOn_none: "d \<notin> set w \<Longrightarrow> splitOn d w = [w]"
  by (induction w) auto

lemma splitOn_joinWith:
  "ws \<noteq> [] \<Longrightarrow> list_all (\<lambda>w. d \<notin> set w) ws \<Longrightarrow> splitOn d (joinWith [d] ws) = ws"
  by (induction "[d]" ws rule: joinWith.induct) (simp_all add: splitOn_none splitOn_append)

lemma dot_not_in_showNat: "CHR ''.'' \<notin> set (showNat n)"
  using showNat_isDigit [of "CHR ''.''" n] by (auto simp: isDigit_iff)

text \<open>The text of an IPv4 address.\<close>

definition dotted :: "nat \<Rightarrow> nat \<Rightarrow> nat \<Rightarrow> nat \<Rightarrow> string" where
  "dotted a b c d = joinWith ''.'' (map showNat [a, b, c, d])"

lemma splitOn_dotted: "splitOn (CHR ''.'') (dotted a b c d) = [showNat a, showNat b, showNat c, showNat d]"
  unfolding dotted_def by (subst splitOn_joinWith) (simp_all add: dot_not_in_showNat)

lemma readOctets_dotted:
  "a \<le> 255 \<Longrightarrow> b \<le> 255 \<Longrightarrow> c \<le> 255 \<Longrightarrow> d \<le> 255 \<Longrightarrow> readOctets (dotted a b c d) = Some [a, b, c, d]"
  by (simp add: readOctets_def splitOn_dotted asOctet_showNat)

lemma isForbiddenIpv4_dotted:
  "a \<le> 255 \<Longrightarrow> b \<le> 255 \<Longrightarrow> c \<le> 255 \<Longrightarrow> d \<le> 255 \<Longrightarrow>
   isForbiddenIpv4 (dotted a b c d) = forbiddenOctets a b"
  by (simp add: isForbiddenIpv4_def readOctets_dotted)

section \<open>The blocks\<close>

text \<open>The refused blocks as an operator would list them: the first two octets of the base and the
  length of the prefix, on addresses read as 32-bit words.\<close>

definition blockList :: "(nat \<times> nat \<times> nat) list" where
  "blockList =
     [(0, 0, 8), (10, 0, 8), (100, 64, 10), (127, 0, 8), (169, 254, 16), (172, 16, 12), (192, 0, 16),
      (192, 88, 16), (192, 168, 16), (198, 18, 15), (198, 51, 16), (203, 0, 16), (224, 0, 3)]"

definition forbiddenBlocks :: "(32 word \<times> nat) list" where
  "forbiddenBlocks = map (\<lambda>(a, b, n). (word_of_nat ((a * 256 + b) * 65536), n)) blockList"

definition inBlock :: "32 word \<Rightarrow> 32 word \<times> nat \<Rightarrow> bool" where
  "inBlock address block \<longleftrightarrow> drop_bit (32 - snd block) address = drop_bit (32 - snd block) (fst block)"

definition addressWord :: "nat \<Rightarrow> nat \<Rightarrow> nat \<Rightarrow> nat \<Rightarrow> 32 word" where
  "addressWord a b c d = word_of_nat (((a * 256 + b) * 256 + c) * 256 + d)"

lemma high_bits:
  fixes m :: nat
  assumes "n \<le> 16"
  shows "m div 2 ^ (32 - n) = m div 65536 div 2 ^ (16 - n)"
proof -
  obtain k where k: "16 = n + k" using assms le_Suc_ex by blast
  have "32 - n = 16 + k" "16 - n = k" using k by linarith+
  then show ?thesis by (simp add: power_add div_mult2_eq)
qed

lemma drop_bit_word_eq:
  assumes "p < 2 ^ 32" "q < 2 ^ 32"
  shows "drop_bit n (word_of_nat p :: 32 word) = drop_bit n (word_of_nat q) \<longleftrightarrow> p div 2 ^ n = q div 2 ^ n"
proof -
  have u: "unat (word_of_nat m :: 32 word) = m" if "m < 2 ^ 32" for m :: nat
    using that by (simp add: unsigned_of_nat take_bit_nat_eq_self)
  show ?thesis
    using u [OF assms(1)] u [OF assms(2)] unat_drop_bit_eq [of n "word_of_nat p :: 32 word"]
      unat_drop_bit_eq [of n "word_of_nat q :: 32 word"]
    unfolding drop_bit_eq_div by (metis word_unat_eq_iff)
qed

lemma block_by_octets:
  assumes "a \<le> 255" "b \<le> 255" "c \<le> 255" "d \<le> 255" "n \<le> 16" "h < 65536"
  shows "inBlock (addressWord a b c d) (word_of_nat (h * 65536), n) \<longleftrightarrow>
    (a * 256 + b) div 2 ^ (16 - n) = h div 2 ^ (16 - n)"
proof -
  let ?x = "((a * 256 + b) * 256 + c) * 256 + d"
  have x: "?x < 2 ^ 32" "h * 65536 < 2 ^ 32" using assms by simp_all
  have xd: "?x div 65536 = a * 256 + b" using assms by (simp add: div_nat_eqI)
  have hd: "h * 65536 div 65536 = h" by simp
  show ?thesis
    unfolding inBlock_def addressWord_def fst_conv snd_conv drop_bit_word_eq [OF x] high_bits [OF assms(5)] xd hd ..
qed


lemma high_octet: "0 < k \<Longrightarrow> (a * (m * k) + b) div k = a * m + b div k" for a b k m :: nat
  using div_mult_self1 [of k b "a * m"] by (simp add: ac_simps)

lemma div_iff: "0 < k \<Longrightarrow> m div k = q \<longleftrightarrow> q * k \<le> m \<and> m < (q + 1) * k" for m k q :: nat
proof -
  assume k: "0 < k"
  have "m div k = q \<longleftrightarrow> q \<le> m div k \<and> m div k < q + 1" by auto
  with k show ?thesis by (simp only: less_eq_div_iff_mult_less_eq div_less_iff_less_mult)
qed

lemma digits_unique: "x < m \<Longrightarrow> y < m \<Longrightarrow> a * m + x = c * m + y \<longleftrightarrow> a = c \<and> x = y" for a c m x y :: nat
proof
  assume l: "x < m" "y < m" and e: "a * m + x = c * m + y"
  from l have "(a * m + x) div m = a" "(c * m + y) div m = c" "(a * m + x) mod m = x" "(c * m + y) mod m = y" by simp_all
  with e show "a = c \<and> x = y" by metis
qed simp

lemma octet_block:
  fixes a b k m x y :: nat
  assumes "b \<le> 255" "m * k = 256" "0 < k" "y < m"
  shows "(a * 256 + b) div k = x * m + y \<longleftrightarrow> a = x \<and> y * k \<le> b \<and> b < (y + 1) * k"
proof -
  have "b < m * k" using assms by simp
  then have "b div k < m" using assms(3) by (simp add: div_less_iff_less_mult)
  then show ?thesis
    using high_octet [OF assms(3), of a m b] digits_unique [OF _ assms(4), of "b div k" a x] div_iff [OF assms(3), of b y]
    by (simp add: assms(2))
qed

lemma forbidden_blocks:
  assumes "a \<le> 255" "b \<le> 255" "c \<le> 255" "d \<le> 255"
  shows "list_ex (inBlock (addressWord a b c d)) forbiddenBlocks \<longleftrightarrow> forbiddenOctets a b"
proof -
  let ?h = "a * 256 + b"
  have 8: "?h div 256 = a" using assms by simp
  have 10: "?h div 64 = 401 \<longleftrightarrow> a = 100 \<and> 64 \<le> b \<and> b \<le> 127"
    using octet_block [OF assms(2), of 4 64 1 a 100] by simp arith
  have 12: "?h div 16 = 2753 \<longleftrightarrow> a = 172 \<and> 16 \<le> b \<and> b \<le> 31"
    using octet_block [OF assms(2), of 16 16 1 a 172] by simp arith
  have 15: "?h div 2 = 25353 \<longleftrightarrow> a = 198 \<and> 18 \<le> b \<and> b \<le> 19"
    using octet_block [OF assms(2), of 128 2 9 a 198] by simp arith
  have "?h div (256 * 32) = ?h div 256 div 32" by (rule div_mult2_eq)
  then have 3: "?h div 8192 = 7 \<longleftrightarrow> 224 \<le> a" using assms(1,2) div_iff [of 32 a 7] by simp
  have 16: "?h = x * 256 + y \<longleftrightarrow> a = x \<and> b = y" if "y \<le> 255" for x y
    using assms(2) that by (intro digits_unique) simp_all
  have ok: "n \<le> 16 \<and> x * 256 + y < 65536" if "(x, y, n) \<in> set blockList" for x y n
    using that by (auto simp: blockList_def)
  have "list_ex (inBlock (addressWord a b c d)) forbiddenBlocks \<longleftrightarrow>
      list_ex (\<lambda>(x, y, n). ?h div 2 ^ (16 - n) = (x * 256 + y) div 2 ^ (16 - n)) blockList"
    unfolding forbiddenBlocks_def list_ex_iff set_map bex_simps
  proof (rule bex_cong [OF refl])
    fix z
    assume z: "z \<in> set blockList"
    obtain x y n where xyn: "z = (x, y, n)" by (cases z)
    show "inBlock (addressWord a b c d) ((\<lambda>(a, b, n). (word_of_nat ((a * 256 + b) * 65536), n)) z) =
        (case z of (x, y, n) \<Rightarrow> ?h div 2 ^ (16 - n) = (x * 256 + y) div 2 ^ (16 - n))"
      using block_by_octets [OF assms, of n "x * 256 + y"] ok [of x y n] z unfolding xyn case_prod_conv by blast
  qed
  also have "\<dots> \<longleftrightarrow> forbiddenOctets a b"
    using 16 [of 254 169] 16 [of 0 192] 16 [of 88 192] 16 [of 168 192] 16 [of 51 198] 16 [of 0 203]
    by (simp add: blockList_def forbiddenOctets_def 8 10 12 15 3)
  finally show ?thesis .
qed

section \<open>IPv4 in IPv6 clothing\<close>

lemma hexGroup_chars:
  assumes "hexGroup g = Some w"
  shows "g \<noteq> []" "CHR '':'' \<notin> set g" "CHR ''.'' \<notin> set g" "CHR ''%'' \<notin> set g"
  using assms by (auto simp: hexGroup_def readBase_def hexValueOf_def list_all_iff split: if_splits)

lemma splitDouble_ne: "splitDouble s \<noteq> []"
  by (induction s rule: splitDouble.induct) (auto split: list.splits)

lemma splitDouble_char:
  "c \<noteq> CHR '':'' \<Longrightarrow> splitDouble (c # s) = (c # hd (splitDouble s)) # List.tl (splitDouble s)"
  using splitDouble_ne [of s] by (cases s) (auto split: list.splits)

lemma splitDouble_word:
  "CHR '':'' \<notin> set g \<Longrightarrow> splitDouble (g @ s) = (g @ hd (splitDouble s)) # List.tl (splitDouble s)"
  using splitDouble_ne [of s] by (induction g) (auto simp: splitDouble_char)

lemma splitDouble_colon:
  "d \<noteq> CHR '':'' \<Longrightarrow> splitDouble (CHR '':'' # d # s) =
     (CHR '':'' # hd (splitDouble (d # s))) # List.tl (splitDouble (d # s))"
  using splitDouble_ne [of "d # s"] by (auto split: list.splits)

lemma splitDouble_join:
  assumes "\<And>w. w \<in> set ws \<Longrightarrow> w \<noteq> [] \<and> CHR '':'' \<notin> set w"
  shows "splitDouble (joinWith '':'' ws @ s) = (joinWith '':'' ws @ hd (splitDouble s)) # List.tl (splitDouble s)"
  using assms
proof (induction "'':''" ws rule: joinWith.induct)
  case 1
  then show ?case using splitDouble_ne [of s] by simp
next
  case (2 w)
  then show ?case by (simp add: splitDouble_word)
next
  case (3 w v ws)
  obtain d r where v: "v = d # r" "d \<noteq> CHR '':''" using "3.prems" [of v] by (cases v) auto
  obtain r' where j: "joinWith '':'' (v # ws) @ s = d # r'" by (cases ws) (auto simp: v(1))
  have IH: "splitDouble (joinWith '':'' (v # ws) @ s) =
      (joinWith '':'' (v # ws) @ hd (splitDouble s)) # List.tl (splitDouble s)"
    using 3 by simp
  have "splitDouble (joinWith '':'' (w # v # ws) @ s) = splitDouble (w @ CHR '':'' # d # r')"
    using j by simp
  also have "\<dots> = (w @ CHR '':'' # hd (splitDouble (d # r'))) # List.tl (splitDouble (d # r'))"
    using "3.prems" [of w] v(2) splitDouble_word [of w "CHR '':'' # d # r'"] splitDouble_colon [of d r']
    by simp
  finally show ?case unfolding j [symmetric] IH by simp
qed

text \<open>Groups and their values.\<close>

definition hexGroups :: "string list \<Rightarrow> nat list \<Rightarrow> bool" where
  "hexGroups gs ws \<longleftrightarrow> map hexGroup gs = map Some ws"

lemma hexGroups_words: "hexGroups gs ws \<Longrightarrow> g \<in> set gs \<Longrightarrow> g \<noteq> [] \<and> CHR '':'' \<notin> set g \<and> CHR ''.'' \<notin> set g \<and> CHR ''%'' \<notin> set g"
  unfolding hexGroups_def by (metis hexGroup_chars in_set_conv_nth length_map nth_map)

lemma joinWith_eq_Nil: "g \<noteq> [] \<Longrightarrow> joinWith d (g # gs) \<noteq> []"
  by (cases gs) simp_all

lemma groupWords_hex: "hexGroup g = Some w \<Longrightarrow> groupWords g = Some [w]"
  using hexGroup_chars(3) by (simp add: groupWords_def)

lemma dottedTail_none: "CHR ''.'' \<notin> set ip \<Longrightarrow> dottedTail ip = None"
  by (simp add: dottedTail_def splitOn_none)

lemma takeWhile_all: "CHR ''%'' \<notin> set ip \<Longrightarrow> takeWhile (\<lambda>c. c \<noteq> CHR ''%'') ip = ip"
  by (simp add: takeWhile_eq_all_conv) blast

lemma hexGroup_lits:
  "hexGroup ''ffff'' = Some 65535" "hexGroup ''2002'' = Some 8194" "hexGroup ''64'' = Some 100"
  "hexGroup ''ff9b'' = Some 65435"
  by (simp_all add: hexGroup_def readBase_def hexValueOf_def)

lemma toWords_join: "hexGroups gs ws \<Longrightarrow> toWords (joinWith '':'' gs) = Some ws"
proof (cases gs)
  case (Cons g gs')
  assume h: "hexGroups gs ws"
  have "joinWith '':'' gs \<noteq> []" using hexGroups_words [OF h, of g] joinWith_eq_Nil Cons by auto
  moreover have "splitOn (CHR '':'') (joinWith '':'' gs) = gs"
    using hexGroups_words [OF h] Cons by (intro splitOn_joinWith) (auto simp: list_all_iff)
  moreover have "allSome (map groupWords gs) = Some (map (\<lambda>w. [w]) ws)"
    using h unfolding hexGroups_def
  proof (induction gs arbitrary: ws)
    case (Cons g gs)
    then obtain w ws' where "ws = w # ws'" by (cases ws) auto
    with Cons show ?case by (simp add: groupWords_hex)
  qed simp
  ultimately show ?thesis by (simp add: toWords_def comp_def)
qed (simp add: toWords_def hexGroups_def)

lemma chars_joinWith: "c \<in> set (joinWith d ws) \<Longrightarrow> c \<in> set d \<or> (\<exists>w \<in> set ws. c \<in> set w)"
  by (induction d ws rule: joinWith.induct) auto

text \<open>An address with its zeros elided is read as its groups around as many zeros as are missing.\<close>

lemma parseIpv6_elided:
  assumes hs: "hexGroups hs ws" and ts: "hexGroups ts vs" and len: "length ws + length vs \<le> 8"
  shows "parseIpv6 (joinWith '':'' hs @ ''::'' @ joinWith '':'' ts) =
    Some (concat (map wordBytes (ws @ replicate (8 - length ws - length vs) 0 @ vs)))"
proof -
  let ?ip = "joinWith '':'' hs @ ''::'' @ joinWith '':'' ts"
  have "CHR ''%'' \<notin> set ?ip"
    using hexGroups_words [OF hs] hexGroups_words [OF ts] by (auto dest!: chars_joinWith)
  then have p: "takeWhile (\<lambda>c. c \<noteq> CHR ''%'') ?ip = ?ip" by (rule takeWhile_all)
  have "splitDouble (joinWith '':'' ts) = [joinWith '':'' ts]"
    using splitDouble_join [of ts "[]"] hexGroups_words [OF ts] by simp
  then have s: "splitDouble ?ip = [joinWith '':'' hs, joinWith '':'' ts]"
    using splitDouble_join [of hs "''::'' @ joinWith '':'' ts"] hexGroups_words [OF hs] by simp
  have f: "nat (8 - int (length ws) - int (length vs)) = 8 - length ws - length vs" by simp
  show ?thesis
    unfolding parseIpv6_def Let_def p s
    using toWords_join [OF hs] toWords_join [OF ts] len f by simp
qed

lemma hexGroups_lits:
  "hexGroups [] []"
  "hexGroup g1 = Some w1 \<Longrightarrow> hexGroup g2 = Some w2 \<Longrightarrow> hexGroups [''ffff'', g1, g2] [65535, w1, w2]"
  "hexGroup g1 = Some w1 \<Longrightarrow> hexGroup g2 = Some w2 \<Longrightarrow> hexGroups [''2002'', g1, g2] [8194, w1, w2]"
  "hexGroups [''64'', ''ff9b''] [100, 65435]"
  "hexGroup g1 = Some w1 \<Longrightarrow> hexGroup g2 = Some w2 \<Longrightarrow> hexGroups [g1, g2] [w1, w2]"
  by (simp_all add: hexGroups_def hexGroup_lits)

lemma wordBytes_pair: "x \<le> 255 \<Longrightarrow> y \<le> 255 \<Longrightarrow> wordBytes (x * 256 + y) = [x, y]"
  by (simp add: wordBytes_def)

lemma wordBytes_lits:
  "wordBytes 0 = [0, 0]" "wordBytes 65535 = [255, 255]" "wordBytes 8194 = [32, 2]"
  "wordBytes 100 = [0, 100]" "wordBytes 65435 = [255, 155]"
  by (simp_all add: wordBytes_def)

lemma zeros: "replicate 5 (0 :: nat) = [0, 0, 0, 0, 0]" "replicate 4 (0 :: nat) = [0, 0, 0, 0]"
  by (simp_all add: numeral_eq_Suc)

text \<open>The bytes of the four forms.\<close>

lemma parsed_forms:
  assumes "a \<le> 255" "b \<le> 255" "c \<le> 255" "d \<le> 255"
    and g: "hexGroup g1 = Some (a * 256 + b)" "hexGroup g2 = Some (c * 256 + d)"
  shows "parseIpv6 (''::ffff:'' @ g1 @ '':'' @ g2) =
      Some [0, 0, 0, 0, 0, 0, 0, 0, 0, 0, 255, 255, a, b, c, d]"
    and "parseIpv6 (''2002:'' @ g1 @ '':'' @ g2 @ ''::'') =
      Some [32, 2, a, b, c, d, 0, 0, 0, 0, 0, 0, 0, 0, 0, 0]"
    and "parseIpv6 (''64:ff9b::'' @ g1 @ '':'' @ g2) =
      Some [0, 100, 255, 155, 0, 0, 0, 0, 0, 0, 0, 0, a, b, c, d]"
  using parseIpv6_elided [OF hexGroups_lits(1) hexGroups_lits(2) [OF g]]
    parseIpv6_elided [OF hexGroups_lits(3) [OF g] hexGroups_lits(1)]
    parseIpv6_elided [OF hexGroups_lits(4) hexGroups_lits(5) [OF g]]
  by (simp_all add: wordBytes_lits wordBytes_pair [OF assms(1,2)] wordBytes_pair [OF assms(3,4)] zeros)

lemma dottedTail_dotted: "dottedTail (''::ffff:'' @ dotted a b c d) = Some (dotted a b c d)"
proof -
  have s: "splitOn (CHR ''.'') (''::ffff:'' @ dotted a b c d) =
      [''::ffff:'' @ showNat a, showNat b, showNat c, showNat d]"
    using splitOn_joinWith [of "[''::ffff:'' @ showNat a, showNat b, showNat c, showNat d]" "CHR ''.''"]
    by (simp add: dotted_def dot_not_in_showNat)
  have d: "list_all isDigit (showNat n)" for n using showNat_isDigit by (auto simp: list_all_iff)
  have "takeWhile isDigit (rev (''::ffff:'' @ showNat a)) = rev (showNat a)"
    using d by (simp add: takeWhile_append2 list_all_iff isDigit_def takeWhile_tail)
  then show ?thesis using d unfolding dottedTail_def s Let_def by (simp add: dotted_def numeral_eq_Suc)
qed

lemma colon_not_in_dotted: "CHR '':'' \<notin> set (dotted a b c d)"
  by (simp add: dotted_def showNat_no_colon)

lemma hex_forms_embed:
  assumes "a \<le> 255" "b \<le> 255" "c \<le> 255" "d \<le> 255"
    and g: "hexGroup g1 = Some (a * 256 + b)" "hexGroup g2 = Some (c * 256 + d)"
  shows "embeddedIpv4 (''::ffff:'' @ g1 @ '':'' @ g2) = Some (dotted a b c d)"
    and "embeddedIpv4 (''2002:'' @ g1 @ '':'' @ g2 @ ''::'') = Some (dotted a b c d)"
    and "embeddedIpv4 (''64:ff9b::'' @ g1 @ '':'' @ g2) = Some (dotted a b c d)"
  using hexGroup_chars(3) [OF g(1)] hexGroup_chars(3) [OF g(2)]
  unfolding embeddedIpv4_def parsed_forms [OF assms]
  by (simp_all add: dottedTail_none asIpv4_def dotted_def)

text \<open>C15. An IPv4 address does not pass in IPv6 clothing. Whatever way its two halves are spelled in
  hexadecimal, an IPv4 address written as an IPv4-mapped, a 6to4 or a NAT64 address, or as a
  mapped dotted quad, is refused exactly when the address itself is, and that is exactly when it
  lies in one of thirteen blocks of the 32-bit space: this network, the private, shared, loopback,
  link-local, protocol, documentation, relay and benchmarking blocks, and everything from
  multicast up.\<close>

theorem no_forbidden_ipv4_in_ipv6_clothing:
  assumes "a \<le> 255" "b \<le> 255" "c \<le> 255" "d \<le> 255"
    and "hexGroup g1 = Some (a * 256 + b)" "hexGroup g2 = Some (c * 256 + d)"
  shows "\<forall>ip \<in> {dotted a b c d, ''::ffff:'' @ dotted a b c d, ''::ffff:'' @ g1 @ '':'' @ g2,
      ''2002:'' @ g1 @ '':'' @ g2 @ ''::'', ''64:ff9b::'' @ g1 @ '':'' @ g2}.
    isForbiddenAddress ip \<longleftrightarrow> list_ex (inBlock (addressWord a b c d)) forbiddenBlocks"
proof -
  have f: "isForbiddenIpv4 (dotted a b c d) \<longleftrightarrow> list_ex (inBlock (addressWord a b c d)) forbiddenBlocks"
    using assms(1-4) by (simp add: isForbiddenIpv4_dotted forbidden_blocks)
  have plain: "isForbiddenAddress (dotted a b c d) = isForbiddenIpv4 (dotted a b c d)"
    by (simp add: isForbiddenAddress_def embeddedIpv4_def colon_not_in_dotted)
  have mapped: "embeddedIpv4 (''::ffff:'' @ dotted a b c d) = Some (dotted a b c d)"
    unfolding embeddedIpv4_def dottedTail_dotted by simp
  have "isForbiddenAddress ip = isForbiddenIpv4 (dotted a b c d)"
    if "embeddedIpv4 ip = Some (dotted a b c d)" for ip
    using that by (simp add: isForbiddenAddress_def)
  with hex_forms_embed [OF assms] mapped plain f show ?thesis by blast
qed


theorem no_forbidden_ipv4_in_ipv6_clothing_witness:
  "isForbiddenAddress (dotted 169 254 169 254) \<and> isForbiddenAddress ''::ffff:a9fe:a9FE'' \<and>
   isForbiddenAddress ''2002:a9fe:a9FE::'' \<and> isForbiddenAddress ''64:ff9b::a9fe:a9FE''"
proof -
  have g: "hexGroup ''a9fe'' = Some (169 * 256 + 254)" "hexGroup ''a9FE'' = Some (169 * 256 + 254)"
    by (simp_all add: hexGroup_def readBase_def hexValueOf_def)
  have "list_ex (inBlock (addressWord 169 254 169 254)) forbiddenBlocks"
    by (simp add: forbidden_blocks forbiddenOctets_def)
  with no_forbidden_ipv4_in_ipv6_clothing [OF _ _ _ _ g] show ?thesis by simp
qed

section \<open>Reserved addresses that pass\<close>

lemma passes_ipv6:
  assumes "hexGroups hs ws" "hexGroups ts vs" "length ws + length vs \<le> 8"
    and "concat (map wordBytes (ws @ replicate (8 - length ws - length vs) 0 @ vs)) = bytes"
  shows "isForbiddenAddress (joinWith '':'' hs @ ''::'' @ joinWith '':'' ts) \<longleftrightarrow>
    (let mapped = list_all (\<lambda>b. b = 0) (take 10 bytes) \<and> bytes ! 10 = 0xff \<and> bytes ! 11 = 0xff;
         six = bytes ! 0 = 0x20 \<and> bytes ! 1 = 0x02;
         nat64 = bytes ! 0 = 0x00 \<and> bytes ! 1 = 0x64 \<and> bytes ! 2 = 0xff \<and> bytes ! 3 = 0x9b
     in if mapped \<or> \<not> six \<and> nat64 then isForbiddenIpv4 (asIpv4 bytes 12)
        else if six then isForbiddenIpv4 (asIpv4 bytes 2)
        else (list_all (\<lambda>b. b = 0) (take 15 bytes) \<and> bytes ! 15 \<le> 1) \<or> (bytes ! 0) div 2 * 2 = 0xfc \<or>
          (bytes ! 0 = 0xfe \<and> (bytes ! 1) div 64 * 64 = 0x80) \<or> bytes ! 0 = 0xff)"
proof -
  let ?ip = "joinWith '':'' hs @ ''::'' @ joinWith '':'' ts"
  have "CHR ''.'' \<notin> set ?ip"
    using hexGroups_words [OF assms(1)] hexGroups_words [OF assms(2)] by (auto dest!: chars_joinWith)
  then have "dottedTail ?ip = None" by (rule dottedTail_none)
  with parseIpv6_elided [OF assms(1-3)] show ?thesis
    unfolding assms(4) by (auto simp: isForbiddenAddress_def embeddedIpv4_def isForbiddenIpv6_def Let_def)
qed

text \<open>
  The documentation block of IPv6, a site-local address and an IPv4-compatible loopback are
  reserved, and are not refused.
\<close>

theorem reserved_ipv6_addresses_pass:
  "\<not> isForbiddenAddress ''2001:db8::1'' \<and> \<not> isForbiddenAddress ''fec0::1'' \<and>
   \<not> isForbiddenAddress ''::7f00:1''"
proof -
  have h: "hexGroups [''2001'', ''db8''] [8193, 3512]" "hexGroups [''1''] [1]" "hexGroups [''fec0''] [65216]"
    "hexGroups [''7f00'', ''1''] [32512, 1]" "hexGroups [] []"
    by (simp_all add: hexGroups_def hexGroup_def readBase_def hexValueOf_def)
  note z = zeros wordBytes_def numeral_eq_Suc
  have r: "replicate 6 (0 :: nat) = [0, 0, 0, 0, 0, 0]" by (simp add: numeral_eq_Suc)
  show ?thesis
    using passes_ipv6 [OF h(1,2) _ refl] passes_ipv6 [OF h(3,2) _ refl] passes_ipv6 [OF h(5,4) _ refl]
    by (simp add: zeros r wordBytes_def)
qed

end
