(* ===== verification/Version_Target.thy ===== *)
theory Version_Target
  imports Private_Address
begin

text \<open>
  \<open>back/src/version-rules/version-target.ts\<close> and \<open>version-probe.ts\<close>: which rules answer for an
  environment and in what order, the address a rule gives, and the request that reads it. The
  regular expressions, the URL parser, the resolver and the socket are parameters; a request is
  the addresses offered to the socket and what came back of it.

  The lemmas show that the rules tried are those that claim the environment, each once, and that
  a request only ever offers addresses outside the refused ranges.
\<close>

section \<open>Rules\<close>

datatype VersionAuthKind = NoAuth | BearerAuth | BasicAuth | HeaderAuth

record ProbeAuth =
  pa_kind :: VersionAuthKind
  pa_header :: "string option"
  pa_secret :: "string option"

record ResolvedVersionRule =
  vr_id :: string
  vr_name :: string
  vr_environment :: "string option"
  vr_repo :: "string option"
  vr_urlTemplate :: string
  vr_format :: VersionFormat
  vr_template :: string
  vr_pattern :: "string option"
  vr_headers :: "(string, string) jsmap"
  vr_priority :: int
  vr_auth :: ProbeAuth

record ProbeSubject =
  ps_repo :: string
  ps_environment :: string
  ps_ref :: "string option"
  ps_environmentUrl :: "string option"
  ps_attributes :: dims

text \<open>\<open>new RegExp(pattern).test(value)\<close>; \<open>None\<close> when the pattern cannot be compiled.\<close>

type_synonym regexTest = "string \<Rightarrow> string \<Rightarrow> bool option"

definition matches :: "regexTest \<Rightarrow> string option \<Rightarrow> string \<Rightarrow> bool" where
  "matches regex pattern value =
     (case orNull pattern of
        None \<Rightarrow> True
      | Some p \<Rightarrow> (case regex p value of Some b \<Rightarrow> b | None \<Rightarrow> False))"

definition appliesToRepo :: "regexTest \<Rightarrow> ResolvedVersionRule \<Rightarrow> string \<Rightarrow> bool" where
  "appliesToRepo regex rule repo =
     (if orNull (vr_repo rule) = None then True
      else if repo = [] then False
      else matches regex (vr_repo rule) repo)"

definition claims :: "regexTest \<Rightarrow> ProbeSubject \<Rightarrow> ResolvedVersionRule \<Rightarrow> bool" where
  "claims regex subject rule \<longleftrightarrow>
     matches regex (vr_environment rule) (ps_environment subject) \<and> appliesToRepo regex rule (ps_repo subject)"

definition rulesFor :: "regexTest \<Rightarrow> ProbeSubject \<Rightarrow> ResolvedVersionRule list \<Rightarrow> ResolvedVersionRule list" where
  "rulesFor regex subject rules = sort_key vr_priority (filter (claims regex subject) rules)"

text \<open>\<open>rule !== held\<close> compares objects: it drops the rule found, and no other.\<close>

definition preferring :: "ResolvedVersionRule list \<Rightarrow> string option \<Rightarrow> ResolvedVersionRule list" where
  "preferring rules lastAnswered =
     (case orNull lastAnswered of
        None \<Rightarrow> rules
      | Some i \<Rightarrow>
          (case find (\<lambda>rule. vr_id rule = i) rules of
             None \<Rightarrow> rules
           | Some held \<Rightarrow> held # remove1 held rules))"

lemma preferring_mset: "mset (preferring rules lastAnswered) = mset rules"
  by (auto simp: preferring_def find_Some_iff split: option.splits)

lemma set_preferring_rulesFor:
  "set (preferring (rulesFor regex subject rules) lastAnswered) = {rule \<in> set rules. claims regex subject rule}"
  using mset_eq_setD [OF preferring_mset [of "rulesFor regex subject rules" lastAnswered]]
  by (simp add: rulesFor_def)

section \<open>Addresses\<close>

definition reasonFor :: "string \<Rightarrow> CodedMessage" where
  "reasonFor name =
     (if name = ''environmentUrl'' then coded ''errors.version.noEnvironmentUrl'' []
      else if prefix ''attr.'' name then coded ''errors.version.noAttribute'' [(''key'', PStr (drop 5 name))]
      else if name = ''ref'' then coded ''errors.version.noRef'' []
      else coded ''errors.version.unknownPlaceholder'' [(''name'', PStr name)])"

text \<open>The value of a placeholder: a plain object is read, so inherited names have one too.\<close>

definition placeholderValue :: "(string \<Rightarrow> string option) \<Rightarrow> ProbeSubject \<Rightarrow> string \<Rightarrow> string option" where
  "placeholderValue inherited subject name =
     (if prefix ''attr.'' name then orElse (map_of (ps_attributes subject) (drop 5 name)) (inherited (drop 5 name))
      else if name = ''environmentUrl'' then orNull (map_option stripSlashes (ps_environmentUrl subject))
      else if name = ''repo'' then Some (ps_repo subject)
      else if name = ''environment'' then Some (ps_environment subject)
      else if name = ''ref'' then orNull (ps_ref subject)
      else inherited name)"

text \<open>The characters of \<open>[\w.@-]\<close>.\<close>

definition nameChar :: "char \<Rightarrow> bool" where
  "nameChar c \<longleftrightarrow> (let n = (of_char c :: nat) in
     48 \<le> n \<and> n \<le> 57 \<or> 65 \<le> n \<and> n \<le> 90 \<or> 97 \<le> n \<and> n \<le> 122) \<or>
     c = CHR ''_'' \<or> c = CHR ''.'' \<or> c = CHR ''@'' \<or> c = CHR ''-''"

text \<open>\<open>template.replace(/\{([\w.@-]+)\}/g, ...)\<close>, keeping the first placeholder without a value.\<close>

lemma tail_shrinks: "length (List.tl (dropWhile P s)) < Suc (length s)"
  by (metis diff_le_self le_imp_less_Suc le_trans length_dropWhile_le length_tl)

lemma tail_shrinks': "length (dropWhile P s) - Suc 0 < Suc (length s)"
  using tail_shrinks [of P s] by simp

function substitute ::
  "(string \<Rightarrow> string option) \<Rightarrow> string \<Rightarrow> CodedMessage option \<Rightarrow> string \<times> CodedMessage option" where
  "substitute value [] missing = ([], missing)"
| "substitute value (c # s) missing =
     (let name = takeWhile nameChar s;
          rest = dropWhile nameChar s
      in if c = lbrace \<and> name \<noteq> [] \<and> rest \<noteq> [] \<and> hd rest = rbrace
         then (case value name of
             Some v \<Rightarrow> (case substitute value (List.tl rest) missing of (u, m) \<Rightarrow> (v @ u, m))
           | None \<Rightarrow>
               (case substitute value (List.tl rest) (orElse missing (Some (reasonFor name))) of
                  (u, m) \<Rightarrow> (lbrace # name @ [rbrace] @ u, m)))
         else (case substitute value s missing of (u, m) \<Rightarrow> (c # u, m)))"
  by pat_completeness auto
termination
  by (relation "measure (\<lambda>(lookup, s, missing). length s)") (simp_all add: tail_shrinks')

declare substitute.simps(2) [simp del]

definition probeUrl :: "(string \<Rightarrow> string option) \<Rightarrow> ResolvedVersionRule \<Rightarrow> ProbeSubject \<Rightarrow> CodedMessage + string" where
  "probeUrl inherited rule subject =
     (case substitute (placeholderValue inherited subject) (vr_urlTemplate rule) None of
        (url, Some missing) \<Rightarrow> Inl missing
      | (url, None) \<Rightarrow> Inr url)"

section \<open>The request\<close>

record ProbeResult =
  pres_ok :: bool
  pres_status :: "int option"
  pres_body :: string
  pres_reason :: "CodedMessage option"

record UrlParts =
  up_protocol :: string
  up_hostname :: string

text \<open>How a response ends: it does, its stream breaks, or nothing more comes within the timeout.\<close>

datatype ending = Ended | Broke string | Stalled

datatype sendOutcome =
    Responded int string "string list" ending
  | NoResponse
  | SocketError string

record 'w Net =
  nt_parse :: "string \<Rightarrow> UrlParts option"
  nt_isIP :: "string \<Rightarrow> bool"
  nt_lookup :: "string \<Rightarrow> 'w \<Rightarrow> 'w \<times> (string + string list)"
  nt_send :: "string \<Rightarrow> (string, string) jsmap \<Rightarrow> string list \<Rightarrow> 'w \<Rightarrow> 'w \<times> sendOutcome"
  nt_base64 :: "string \<Rightarrow> string"

definition PROBE_TIMEOUT_MS :: int where "PROBE_TIMEOUT_MS = 5000"
definition PROBE_MAX_BYTES :: nat where "PROBE_MAX_BYTES = 256 * 1024"

definition failed :: "CodedMessage \<Rightarrow> int option \<Rightarrow> ProbeResult" where
  "failed reason status = \<lparr>pres_ok = False, pres_status = status, pres_body = [], pres_reason = Some reason\<rparr>"

definition unreachable :: "string \<Rightarrow> CodedMessage" where
  "unreachable detail = coded ''errors.version.unreachable'' [(''detail'', PStr (take 200 detail))]"

definition authHeaders :: "'w Net \<Rightarrow> ProbeAuth \<Rightarrow> (string, string) jsmap" where
  "authHeaders net auth =
     (case orNull (pa_secret auth) of
        None \<Rightarrow> []
      | Some secret \<Rightarrow>
          (case pa_kind auth of
             NoAuth \<Rightarrow> []
           | BearerAuth \<Rightarrow> [(''authorization'', ''Bearer '' @ secret)]
           | BasicAuth \<Rightarrow> [(''authorization'', ''Basic '' @ nt_base64 net secret)]
           | HeaderAuth \<Rightarrow> (case orNull (pa_header auth) of Some h \<Rightarrow> [(h, secret)] | None \<Rightarrow> [])))"

definition spread :: "(string, string) jsmap \<Rightarrow> (string, string) jsmap \<Rightarrow> (string, string) jsmap" where
  "spread into from' = foldl (\<lambda>m (k, v). AList.update k v m) into from'"

definition probeHeaders :: "'w Net \<Rightarrow> (string, string) jsmap \<Rightarrow> ProbeAuth \<Rightarrow> (string, string) jsmap" where
  "probeHeaders net headers auth = spread (spread
     [(''accept'', ''application/json, application/xml, text/xml, text/plain;q=0.9, */*;q=0.8''),
      (''user-agent'', ''git-pulse-version-probe'')] headers) (authHeaders net auth)"

text \<open>The chunks of a body, until there are too many bytes of them.\<close>

fun readChunks :: "nat \<Rightarrow> nat \<Rightarrow> string list \<Rightarrow> string option" where
  "readChunks maxBytes n [] = Some []"
| "readChunks maxBytes n (chunk # chunks) =
     (if n + length chunk > maxBytes then None
      else map_option ((@) chunk) (readChunks maxBytes (n + length chunk) chunks))"

definition received :: "sendOutcome \<Rightarrow> ProbeResult" where
  "received outcome =
     (case outcome of
        NoResponse \<Rightarrow> failed (coded ''errors.version.timeout'' [(''timeoutMs'', PNum PROBE_TIMEOUT_MS)]) None
      | SocketError detail \<Rightarrow> failed (unreachable detail) None
      | Responded status location chunks ending \<Rightarrow>
          if 300 \<le> status \<and> status < 400
          then failed (coded ''errors.version.redirected''
                 [(''status'', PNum status), (''location'', PStr location)]) (Some status)
          else case readChunks PROBE_MAX_BYTES 0 chunks of
            None \<Rightarrow> failed (coded ''errors.version.bodyTooLarge'' [(''limit'', PNum (int PROBE_MAX_BYTES))]) (Some status)
          | Some body \<Rightarrow>
              (case ending of
                 Broke detail \<Rightarrow> failed (unreachable detail) (Some status)
               | Stalled \<Rightarrow> failed (coded ''errors.version.timeout'' [(''timeoutMs'', PNum PROBE_TIMEOUT_MS)]) None
               | Ended \<Rightarrow>
                   if status < 200 \<or> 300 \<le> status
                   then \<lparr>pres_ok = False, pres_status = Some status, pres_body = body,
                         pres_reason = Some (coded ''errors.version.httpStatus'' [(''status'', PNum status)])\<rparr>
                   else \<lparr>pres_ok = True, pres_status = Some status, pres_body = body, pres_reason = None\<rparr>))"

definition guardedLookup :: "'w Net \<Rightarrow> string \<Rightarrow> 'w \<Rightarrow> 'w \<times> (string + string list)" where
  "guardedLookup net hostname w =
     (case nt_lookup net hostname w of
        (w', Inl e) \<Rightarrow> (w', Inl e)
      | (w', Inr addresses) \<Rightarrow>
          let allowed = filter (\<lambda>address. \<not> isForbiddenAddress address) addresses
          in if allowed = [] then (w', Inl (hostname @ '' resolves to no address a probe may reach''))
             else (w', Inr allowed))"

definition unbracket :: "string \<Rightarrow> string" where
  "unbracket s =
     (let t = (case s of c # r \<Rightarrow> if c = lbrack then r else s | [] \<Rightarrow> [])
      in if t \<noteq> [] \<and> last t = rbrack then butlast t else t)"

text \<open>A name goes through the guarded lookup; an address written in the URL is offered as it is.\<close>

definition probe :: "'w Net \<Rightarrow> string \<Rightarrow> (string, string) jsmap \<Rightarrow> ProbeAuth \<Rightarrow> 'w \<Rightarrow> 'w \<times> ProbeResult" where
  "probe net url headers auth w =
     (case nt_parse net url of
        None \<Rightarrow> (w, failed (coded ''errors.version.invalidUrl'' [(''url'', PStr url)]) None)
      | Some parts \<Rightarrow>
          if up_protocol parts \<noteq> ''http:'' \<and> up_protocol parts \<noteq> ''https:''
          then (w, failed (coded ''errors.version.unsupportedScheme''
                  [(''scheme'', PStr (remove1 (CHR '':'') (up_protocol parts)))]) None)
          else
            let literal = unbracket (up_hostname parts)
            in if nt_isIP net literal \<and> isForbiddenAddress literal
               then (w, failed (coded ''errors.version.forbiddenAddress'' [(''host'', PStr literal)]) None)
               else
                 case (if nt_isIP net literal then (w, Inr [literal]) else guardedLookup net (up_hostname parts) w) of
                   (w', Inl e) \<Rightarrow> (w', failed (unreachable e) None)
                 | (w', Inr addresses) \<Rightarrow>
                     (case nt_send net url (probeHeaders net headers auth) addresses w' of
                        (w'', outcome) \<Rightarrow> (w'', received outcome)))"

section \<open>A probe offers no forbidden address\<close>

lemma readChunks_whole:
  "n \<le> m \<Longrightarrow> readChunks m n chunks = (if n + length (concat chunks) \<le> m then Some (concat chunks) else None)"
  by (induction chunks arbitrary: n) auto

text \<open>What is said of the one response to a request: a redirect, and a success.\<close>

definition redirects :: "sendOutcome \<Rightarrow> int \<Rightarrow> string \<Rightarrow> bool" where
  "redirects outcome status location \<longleftrightarrow> 300 \<le> status \<and> status < 400 \<and>
     (\<exists>chunks ending. outcome = Responded status location chunks ending)"

definition succeeds :: "sendOutcome \<Rightarrow> string \<Rightarrow> bool" where
  "succeeds outcome body \<longleftrightarrow> (\<exists>status location chunks. outcome = Responded status location chunks Ended \<and>
     200 \<le> status \<and> status < 300 \<and> body = concat chunks \<and> length body \<le> PROBE_MAX_BYTES)"

lemma received_redirect:
  "redirects outcome status location \<Longrightarrow> received outcome =
     failed (coded ''errors.version.redirected'' [(''status'', PNum status), (''location'', PStr location)]) (Some status)"
  by (auto simp: redirects_def received_def)

lemma received_ok:
  "pres_ok (received outcome) \<longleftrightarrow> succeeds outcome (pres_body (received outcome))"
proof (cases outcome)
  case (Responded status location chunks e)
  have "length (concat chunks) \<le> PROBE_MAX_BYTES" if "concat chunks = []" using that by (metis list.size(3) zero_le)
  with Responded show ?thesis
    by (cases e) (auto simp: received_def succeeds_def failed_def readChunks_whole
        simp del: concat_eq_Nil_conv Nil_eq_concat_conv dest: sym)
qed (simp_all add: received_def succeeds_def failed_def)

definition well_guarded :: "string \<Rightarrow> (string \<times> string list \<times> sendOutcome) list \<Rightarrow> ProbeResult \<Rightarrow> bool" where
  "well_guarded url requests res \<longleftrightarrow>
     (case requests of
        [] \<Rightarrow> \<not> pres_ok res
      | [(target, addresses, outcome)] \<Rightarrow>
          target = url \<and> addresses \<noteq> [] \<and> list_all (\<lambda>address. \<not> isForbiddenAddress address) addresses \<and>
          (\<forall>status location. redirects outcome status location \<longrightarrow>
             res = failed (coded ''errors.version.redirected''
               [(''status'', PNum status), (''location'', PStr location)]) (Some status)) \<and>
          (pres_ok res \<longleftrightarrow> succeeds outcome (pres_body res))
      | _ \<Rightarrow> False)"

text \<open>C16. Whatever a rule's address is, however it resolves and whatever comes back, a probe offers
  the socket no address of the refused ranges. It requests either nothing, and fails, or its own
  address once, and answers what came back: a redirect is its own failure, naming the status and
  where it led, and neither followed nor read; and the probe succeeds exactly when the response had
  a status from 200 to 299, reached its end and held at most 256 KiB, with the whole of its body.
  \<open>seen\<close> observes the requests, the addresses offered and the responses, which the socket alone
  adds to.\<close>

theorem probes_offer_no_forbidden_address:
  assumes "\<And>u h addresses w. seen (fst (nt_send net u h addresses w)) =
      seen w @ [(u, addresses, snd (nt_send net u h addresses w))]"
    and "\<And>name w. seen (fst (nt_lookup net name w)) = seen w"
  shows "\<exists>requests. seen (fst (probe net url headers auth w)) = seen w @ requests \<and>
    well_guarded url requests (snd (probe net url headers auth w))"
proof -
  let ?quiet = "\<lambda>r. \<exists>requests. seen (fst r) = seen w @ requests \<and> well_guarded url requests (snd r)"
  have none: "?quiet (w', failed m s)" if "seen w' = seen w" for w' m s
    using that by (intro exI [of _ "[]"]) (simp add: well_guarded_def failed_def)
  have sent: "?quiet (case nt_send net url h addresses w' of (w'', outcome) \<Rightarrow> (w'', received outcome))"
    if "seen w' = seen w" "list_all (\<lambda>address. \<not> isForbiddenAddress address) addresses" "addresses \<noteq> []"
    for h addresses w'
    using that assms(1) [of url h addresses w']
    by (cases "nt_send net url h addresses w'")
      (auto simp: well_guarded_def received_redirect received_ok intro!: exI [of _ "[(url, addresses, _)]"])
  show ?thesis
  proof (cases "nt_parse net url")
    case None
    then show ?thesis using none by (simp add: probe_def)
  next
    case (Some parts)
    let ?literal = "unbracket (up_hostname parts)"
    consider (refused) "up_protocol parts \<noteq> ''http:'' \<and> up_protocol parts \<noteq> ''https:'' \<or>
        nt_isIP net ?literal \<and> isForbiddenAddress ?literal"
      | (literal) "up_protocol parts = ''http:'' \<or> up_protocol parts = ''https:''" "nt_isIP net ?literal"
        "\<not> isForbiddenAddress ?literal"
      | (name) "up_protocol parts = ''http:'' \<or> up_protocol parts = ''https:''" "\<not> nt_isIP net ?literal"
      by blast
    then show ?thesis
    proof cases
      case refused
      then show ?thesis using none Some by (auto simp: probe_def Let_def)
    next
      case literal
      then show ?thesis using sent [of w "[?literal]"] Some by (auto simp: probe_def Let_def)
    next
      case name
      obtain w' r where l: "nt_lookup net (up_hostname parts) w = (w', r)" by fastforce
      have w': "seen w' = seen w" using assms(2) [of "up_hostname parts" w] l by simp
      show ?thesis
      proof (cases r)
        case (Inl e)
        then show ?thesis using name none [OF w'] Some l by (auto simp: probe_def guardedLookup_def Let_def)
      next
        case (Inr addresses)
        let ?allowed = "filter (\<lambda>address. \<not> isForbiddenAddress address) addresses"
        have g: "guardedLookup net (up_hostname parts) w = (if ?allowed = []
            then (w', Inl (up_hostname parts @ '' resolves to no address a probe may reach'')) else (w', Inr ?allowed))"
          using Inr l by (simp add: guardedLookup_def Let_def)
        show ?thesis
        proof (cases "?allowed = []")
          case True
          then show ?thesis using name none [OF w'] Some g by (auto simp: probe_def Let_def)
        next
          case False
          then show ?thesis
            using name sent [OF w', of ?allowed] Some g by (auto simp: probe_def Let_def list_all_iff)
        qed
      qed
    qed
  qed
qed


definition sample_net :: "(string \<times> string list \<times> sendOutcome) list Net" where
  "sample_net = \<lparr>nt_parse = (\<lambda>u. Some \<lparr>up_protocol = ''http:'', up_hostname = u\<rparr>), nt_isIP = (\<lambda>_. False),
     nt_lookup = (\<lambda>name w. (w, Inr [dotted 127 0 0 1, dotted 8 8 4 4])),
     nt_send = (\<lambda>u h addresses w.
       (w @ [(u, addresses, Responded 302 ''http://127.0.0.1/'' [] Ended)], Responded 302 ''http://127.0.0.1/'' [] Ended)),
     nt_base64 = (\<lambda>s. s)\<rparr>"

definition no_auth :: ProbeAuth where
  "no_auth = \<lparr>pa_kind = NoAuth, pa_header = None, pa_secret = None\<rparr>"

theorem probes_offer_no_forbidden_address_witness:
  "\<exists>requests. fst (probe sample_net ''h.test'' [] no_auth []) = requests \<and>
     well_guarded ''h.test'' requests (snd (probe sample_net ''h.test'' [] no_auth []))"
  using probes_offer_no_forbidden_address [of "\<lambda>w. w" sample_net "''h.test''" "[]" no_auth "[]"]
  by (simp add: sample_net_def)

end
