(* ===== verification/Pagination.thy ===== *)
theory Pagination
  imports Prelude
begin

text \<open>
  The window every list route answers through (\<open>common/pagination.ts\<close>).
\<close>

record PageQuery =
  pq_limit :: "nat option"
  pq_offset :: "nat option"

record PageWindow =
  pw_limit :: nat
  pw_offset :: nat

record 'a Page =
  pg_items :: "'a list"
  pg_total :: nat
  pg_limit :: nat
  pg_offset :: nat
  pg_hasMore :: bool

definition toPage :: "'a list \<Rightarrow> nat \<Rightarrow> PageWindow \<Rightarrow> 'a Page" where
  "toPage items n window = \<lparr>pg_items = items, pg_total = n, pg_limit = pw_limit window,
     pg_offset = pw_offset window, pg_hasMore = (pw_offset window + length items < n)\<rparr>"

definition paginate :: "'a list \<Rightarrow> PageWindow \<Rightarrow> 'a Page" where
  "paginate all window = toPage (take (pw_limit window) (drop (pw_offset window) all)) (length all) window"

definition toWindow :: "PageQuery option \<Rightarrow> nat \<Rightarrow> PageWindow" where
  "toWindow query defaultLimit =
     \<lparr>pw_limit = (case Option.bind query pq_limit of Some n \<Rightarrow> n | None \<Rightarrow> defaultLimit),
      pw_offset = (case Option.bind query pq_offset of Some n \<Rightarrow> n | None \<Rightarrow> 0)\<rparr>"

end
