(* ===== verification/Version_Readings.thy ===== *)
theory Version_Readings
  imports Version_Target Pagination "HOL-Library.Option_ord"
begin

text \<open>
  What each environment runs: which environments a run reads (\<open>pending-probes.ts\<close>), the walk over
  the addresses of one (\<open>version-readings.service.ts\<close>), what is filed (\<open>version-reading.store.ts\<close>)
  and the timeline read back (\<open>version-history.ts\<close>, \<open>common/pagination.ts\<close>). The rules, the
  classified deployments and the declared environments are arguments; the requests of one batch
  are made one after the other, where the code makes four at a time.

  The lemmas show that a selection loses no environment, that a walk files its best attempt, and
  that the pages of a timeline are the timeline.
\<close>

section \<open>Selecting environments\<close>

definition PROBE_BATCH :: nat where "PROBE_BATCH = 25"
definition PROBE_MIN_INTERVAL_MINUTES :: int where "PROBE_MIN_INTERVAL_MINUTES = 15"

record ProbeCandidate =
  pc_repo :: string
  pc_environment :: string
  pc_deploymentId :: "string option"
  pc_ref :: "string option"
  pc_deployedAt :: "instant option"
  pc_environmentUrl :: "string option"
  pc_attributes :: dims

record LastReading =
  lr_observedAt :: instant
  lr_deploymentId :: "string option"
  lr_ruleId :: "string option"

record ProbeSelection =
  sel_targets :: "ProbeCandidate list"
  sel_skipped :: nat
  sel_deferred :: nat

definition pairKey :: "string \<Rightarrow> string \<Rightarrow> string" where
  "pairKey repo environment = repo @ [CHR 0x00] @ environment"

type_synonym readings = "(string, LastReading) jsmap"

definition isDue :: "readings \<Rightarrow> instant \<Rightarrow> int \<Rightarrow> ProbeCandidate \<Rightarrow> bool" where
  "isDue readings now interval candidate =
     (case map_of readings (pairKey (pc_repo candidate) (pc_environment candidate)) of
        None \<Rightarrow> True
      | Some held \<Rightarrow>
          if lr_deploymentId held \<noteq> pc_deploymentId candidate then True
          else now - lr_observedAt held \<ge> interval)"

text \<open>The rank: minus infinity is \<open>None\<close>, which sorts first.\<close>

definition rank :: "readings \<Rightarrow> ProbeCandidate \<Rightarrow> int option" where
  "rank readings candidate =
     (case map_of readings (pairKey (pc_repo candidate) (pc_environment candidate)) of
        None \<Rightarrow> None
      | Some held \<Rightarrow>
          if lr_deploymentId held \<noteq> pc_deploymentId candidate then Some (-1)
          else Some (lr_observedAt held))"

definition selectProbes ::
  "ProbeCandidate list \<Rightarrow> readings \<Rightarrow> instant \<Rightarrow> nat \<Rightarrow> int \<Rightarrow> ProbeSelection" where
  "selectProbes candidates readings now limit minIntervalMinutes =
     (let interval = minIntervalMinutes * 60 * 1000;
          due = filter (isDue readings now interval) candidates;
          ranked = sort_key (rank readings) due
      in \<lparr>sel_targets = take limit ranked,
          sel_skipped = length candidates - length due,
          sel_deferred = length due - limit\<rparr>)"

text \<open>A deployment of the classified listing, as the selection reads it.\<close>

record ClassifiedDeployment =
  cl_id :: string
  cl_repo :: string
  cl_environment :: string
  cl_ref :: string
  cl_status :: PipelineStatus
  cl_createdAt :: instant
  cl_environmentUrl :: "string option"
  cl_attributes :: dims

definition holdLatest :: "ClassifiedDeployment \<Rightarrow> (string, ClassifiedDeployment) jsmap \<Rightarrow> (string, ClassifiedDeployment) jsmap" where
  "holdLatest deployment latest =
     (if cl_status deployment \<noteq> Success then latest
      else
        let key = pairKey (cl_repo deployment) (cl_environment deployment)
        in case map_of latest key of
          None \<Rightarrow> AList.update key deployment latest
        | Some held \<Rightarrow>
            if cl_createdAt deployment > cl_createdAt held then AList.update key deployment latest else latest)"

definition deployedCandidate :: "ClassifiedDeployment \<Rightarrow> ProbeCandidate" where
  "deployedCandidate d = \<lparr>pc_repo = cl_repo d, pc_environment = cl_environment d,
     pc_deploymentId = Some (cl_id d), pc_ref = Some (cl_ref d), pc_deployedAt = Some (cl_createdAt d),
     pc_environmentUrl = cl_environmentUrl d, pc_attributes = cl_attributes d\<rparr>"

definition latestPerEnvironment :: "ClassifiedDeployment list \<Rightarrow> ProbeCandidate list" where
  "latestPerEnvironment ds = map (deployedCandidate \<circ> snd) (fold holdLatest ds [])"

record DeclaredEnvironment =
  de'_repo :: string
  de'_environment :: string
  de'_url :: "string option"
  de'_attributes :: dims

definition withDeclared :: "ProbeCandidate list \<Rightarrow> DeclaredEnvironment list \<Rightarrow> ProbeCandidate list" where
  "withDeclared deployed declared =
     (let covered = (\<lambda>c. pairKey (pc_repo c) (pc_environment c)) ` set deployed
      in deployed @
         map (\<lambda>e. \<lparr>pc_repo = de'_repo e, pc_environment = de'_environment e, pc_deploymentId = None,
           pc_ref = None, pc_deployedAt = None, pc_environmentUrl = de'_url e, pc_attributes = de'_attributes e\<rparr>)
           (filter (\<lambda>e. pairKey (de'_repo e) (de'_environment e) \<notin> covered) declared))"

section \<open>Filing a reading\<close>

datatype VersionProbeStatus = ProbeOk | ProbeNoMatch | ProbeUnreachable | ProbeSkipped

record NewReading =
  nr_repo :: string
  nr_environment :: string
  nr_version :: "string option"
  nr_deploymentId :: "string option"
  nr_ref :: "string option"
  nr_ruleId :: "string option"
  nr_url :: "string option"
  nr_status :: VersionProbeStatus
  nr_error :: "CodedMessage option"
  nr_observedAt :: instant
  nr_deployedAt :: "instant option"

record EnvironmentVersionRow =
  ev_version :: "string option"
  ev_deploymentId :: "string option"
  ev_ref :: "string option"
  ev_ruleId :: "string option"
  ev_url :: "string option"
  ev_status :: VersionProbeStatus
  ev_error :: "CodedMessage option"
  ev_observedAt :: instant
  ev_changedAt :: "instant option"

record VersionChangeRow =
  vc_pair :: "string \<times> string \<times> string"
  vc_version :: string
  vc_deploymentId :: "string option"
  vc_ref :: "string option"
  vc_observedAt :: instant

record DeploymentVersionRow =
  dv_repo :: string
  dv_environment :: string
  dv_ref :: string
  dv_deployedAt :: instant
  dv_version :: "string option"
  dv_ruleId :: "string option"
  dv_url :: "string option"
  dv_status :: VersionProbeStatus
  dv_error :: "CodedMessage option"
  dv_observedAt :: instant
  dv_delaySec :: int

record ReadingDb =
  rd_current :: "(string \<times> string \<times> string, EnvironmentVersionRow) jsmap"
  rd_changes :: "VersionChangeRow list"
  rd_frozen :: "(string \<times> string, DeploymentVersionRow) jsmap"

definition frozenWrite :: "string \<Rightarrow> NewReading \<Rightarrow> ReadingDb \<Rightarrow> ReadingDb" where
  "frozenWrite sourceId reading db =
     (case (orNull (nr_deploymentId reading), nr_deployedAt reading) of
        (Some deploymentId, Some deployedAt) \<Rightarrow>
          db\<lparr>rd_frozen := AList.update (sourceId, deploymentId) \<lparr>
            dv_repo = nr_repo reading, dv_environment = nr_environment reading,
            dv_ref = emptyOr (nr_ref reading), dv_deployedAt = deployedAt, dv_version = nr_version reading,
            dv_ruleId = nr_ruleId reading, dv_url = nr_url reading, dv_status = nr_status reading,
            dv_error = orElse (nr_error reading)
              (Option.bind (map_of (rd_frozen db) (sourceId, deploymentId)) dv_error), dv_observedAt = nr_observedAt reading,
            dv_delaySec = max 0 (roundSeconds (nr_observedAt reading - deployedAt))\<rparr> (rd_frozen db)\<rparr>
      | _ \<Rightarrow> db)"

text \<open>
  Both writes are upserts of the Prisma client, for which an error of \<open>undefined\<close> is a column left
  as it is: no error clears none.
\<close>

definition recordReading :: "string \<Rightarrow> NewReading \<Rightarrow> ReadingDb \<Rightarrow> ReadingDb \<times> bool" where
  "recordReading sourceId reading db =
     (let key = (sourceId, nr_repo reading, nr_environment reading);
          existing = map_of (rd_current db) key;
          changed = nr_version reading \<noteq> None \<and> nr_version reading \<noteq> Option.bind existing ev_version;
          row = \<lparr>ev_version = nr_version reading, ev_deploymentId = nr_deploymentId reading,
            ev_ref = nr_ref reading, ev_ruleId = nr_ruleId reading, ev_url = nr_url reading,
            ev_status = nr_status reading,
            ev_error = orElse (nr_error reading) (Option.bind existing ev_error),
            ev_observedAt = nr_observedAt reading,
            ev_changedAt = (if changed then Some (nr_observedAt reading) else Option.bind existing ev_changedAt)\<rparr>;
          db1 = db\<lparr>rd_current := AList.update key row (rd_current db)\<rparr>;
          db2 = (if changed
                 then db1\<lparr>rd_changes := rd_changes db1 @ [\<lparr>vc_pair = key, vc_version = the (nr_version reading),
                   vc_deploymentId = nr_deploymentId reading, vc_ref = nr_ref reading,
                   vc_observedAt = nr_observedAt reading\<rparr>]\<rparr>
                 else db1)
      in (frozenWrite sourceId reading db2, changed))"


section \<open>Reading one environment\<close>

record Attempt =
  at_ruleId :: string
  at_rule :: string
  at_version :: "string option"
  at_url :: "string option"
  at_httpStatus :: "int option"
  at_tookMs :: int
  at_status :: VersionProbeStatus
  at_error :: "CodedMessage option"
  at_tryAnother :: bool

record 'w Prober =
  pb_net :: "'w Net"
  pb_engines :: Engines
  pb_regex :: regexTest
  pb_clock :: "'w \<Rightarrow> instant"

definition reach :: "Attempt \<Rightarrow> nat" where
  "reach a = (if at_status a = ProbeNoMatch then 2 else if at_status a = ProbeUnreachable then 1 else 0)"

text \<open>One rule tried against one environment, filing nothing.\<close>

definition attemptRule :: "'w Prober \<Rightarrow> ResolvedVersionRule \<Rightarrow> ProbeSubject \<Rightarrow> 'w \<Rightarrow> 'w \<times> Attempt" where
  "attemptRule pb rule subject w =
     (case probeUrl (en_inherited (pb_engines pb)) rule subject of
        Inl reason \<Rightarrow>
          (w, \<lparr>at_ruleId = vr_id rule, at_rule = vr_name rule, at_version = None, at_url = None,
            at_httpStatus = None, at_tookMs = 0, at_status = ProbeSkipped, at_error = Some reason,
            at_tryAnother = True\<rparr>)
      | Inr url \<Rightarrow>
          (case probe (pb_net pb) url (vr_headers rule) (vr_auth rule) w of
             (w', response) \<Rightarrow>
               let made = \<lparr>at_ruleId = vr_id rule, at_rule = vr_name rule, at_version = None,
                     at_url = Some url, at_httpStatus = pres_status response,
                     at_tookMs = pb_clock pb w' - pb_clock pb w, at_status = ProbeUnreachable,
                     at_error = pres_reason response, at_tryAnother = True\<rparr>
               in if \<not> pres_ok response then (w', made)
                  else case extractVersion (pb_engines pb) (pres_body response)
                         \<lparr>ex_format = vr_format rule, ex_template = vr_template rule, ex_pattern = vr_pattern rule\<rparr> of
                    Inr version \<Rightarrow>
                      (w', made\<lparr>at_version := Some version, at_status := ProbeOk, at_error := None, at_tryAnother := False\<rparr>)
                  | Inl reason \<Rightarrow>
                      (w', made\<lparr>at_status := ProbeNoMatch, at_error := Some reason,
                        at_tryAnother := blamesTheAddress reason\<rparr>)))"

text \<open>The loop over the candidates: the attempts made, the one that settled, the furthest otherwise.\<close>

primrec walk ::
  "'w Prober \<Rightarrow> ProbeSubject \<Rightarrow> ResolvedVersionRule list \<Rightarrow> Attempt list \<Rightarrow> Attempt option \<Rightarrow> 'w \<Rightarrow>
   'w \<times> Attempt list \<times> Attempt option \<times> Attempt option" where
  "walk pb subject [] attempts furthest w = (w, attempts, None, furthest)"
| "walk pb subject (rule # rules) attempts furthest w =
     (case attemptRule pb rule subject w of
        (w', a) \<Rightarrow>
          if \<not> at_tryAnother a then (w', attempts @ [a], Some a, furthest)
          else walk pb subject rules (attempts @ [a])
            (case furthest of
               None \<Rightarrow> Some a
             | Some f \<Rightarrow> if reach a > reach f then Some a else Some f) w')"

record EnvironmentReading =
  er_read :: bool
  er_ok :: bool
  er_changed :: bool
  er_trace :: "Attempt list"
  er_filed :: "Attempt option"

definition subjectOf :: "ProbeCandidate \<Rightarrow> ProbeSubject" where
  "subjectOf target = \<lparr>ps_repo = pc_repo target, ps_environment = pc_environment target,
     ps_ref = pc_ref target, ps_environmentUrl = pc_environmentUrl target, ps_attributes = pc_attributes target\<rparr>"

definition readOne ::
  "'w Prober \<Rightarrow> string \<Rightarrow> ProbeCandidate \<Rightarrow> ResolvedVersionRule list \<Rightarrow> string option \<Rightarrow>
   'w \<times> ReadingDb \<Rightarrow> ('w \<times> ReadingDb) \<times> EnvironmentReading" where
  "readOne pb sourceId target rules lastAnswered st =
     (let subject = subjectOf target;
          candidates = preferring (rulesFor (pb_regex pb) subject rules) lastAnswered
      in if candidates = [] then
           (st, \<lparr>er_read = False, er_ok = False, er_changed = False, er_trace = [], er_filed = None\<rparr>)
         else
           (case walk pb subject candidates [] None (fst st) of
              (w', attempts, settled, furthest) \<Rightarrow>
                let outcome = the (orElse settled furthest)
                in case recordReading sourceId
                     \<lparr>nr_repo = pc_repo target, nr_environment = pc_environment target,
                      nr_version = at_version outcome, nr_deploymentId = pc_deploymentId target,
                      nr_ref = pc_ref target, nr_ruleId = Some (at_ruleId outcome), nr_url = at_url outcome,
                      nr_status = at_status outcome, nr_error = at_error outcome,
                      nr_observedAt = pb_clock pb w', nr_deployedAt = pc_deployedAt target\<rparr> (snd st) of
                     (db', changed) \<Rightarrow>
                       ((w', db'), \<lparr>er_read = (at_status outcome \<noteq> ProbeSkipped), er_ok = (at_status outcome = ProbeOk),
                         er_changed = changed, er_trace = attempts, er_filed = Some outcome\<rparr>)))"

section \<open>Reading a source\<close>

record VersionProbeOutcome =
  po_probed :: nat
  po_skipped :: nat
  po_failed :: nat
  po_changed :: nat
  po_rules :: nat
  po_environments :: nat
  po_trace :: "Attempt list list"

definition countReading :: "EnvironmentReading \<Rightarrow> VersionProbeOutcome \<Rightarrow> VersionProbeOutcome" where
  "countReading result outcome =
     (let traced = outcome\<lparr>po_trace := po_trace outcome @ [er_trace result]\<rparr>
      in if \<not> er_read result then traced\<lparr>po_skipped := po_skipped traced + 1\<rparr>
         else traced\<lparr>po_probed := po_probed traced + 1,
           po_failed := po_failed traced + (if er_ok result then 0 else 1),
           po_changed := po_changed traced + (if er_changed result then 1 else 0)\<rparr>)"

primrec probeTargets ::
  "'w Prober \<Rightarrow> string \<Rightarrow> ResolvedVersionRule list \<Rightarrow> (ProbeCandidate \<Rightarrow> string option) \<Rightarrow> ProbeCandidate list \<Rightarrow>
   VersionProbeOutcome \<Rightarrow> 'w \<times> ReadingDb \<Rightarrow> ('w \<times> ReadingDb) \<times> VersionProbeOutcome" where
  "probeTargets pb sourceId rules remembered [] outcome st = (st, outcome)"
| "probeTargets pb sourceId rules remembered (target # targets) outcome st =
     (case readOne pb sourceId target rules (remembered target) st of
        (st', result) \<Rightarrow> probeTargets pb sourceId rules remembered targets (countReading result outcome) st')"

definition lastReadings :: "string \<Rightarrow> ReadingDb \<Rightarrow> readings" where
  "lastReadings sourceId db =
     foldl (\<lambda>m ((src, repo, environment), row). AList.update (pairKey repo environment)
         \<lparr>lr_observedAt = ev_observedAt row, lr_deploymentId = ev_deploymentId row, lr_ruleId = ev_ruleId row\<rparr> m) []
       (filter (\<lambda>((src, _), _). src = sourceId) (rd_current db))"

definition rememberedRule :: "readings \<Rightarrow> ProbeCandidate \<Rightarrow> string option" where
  "rememberedRule readings target =
     Option.bind (map_of readings (pairKey (pc_repo target) (pc_environment target))) lr_ruleId"

definition probeSource ::
  "'w Prober \<Rightarrow> ResolvedVersionRule list \<Rightarrow> ClassifiedDeployment list \<Rightarrow> DeclaredEnvironment list \<Rightarrow>
   string \<Rightarrow> bool \<Rightarrow> 'w \<times> ReadingDb \<Rightarrow> ('w \<times> ReadingDb) \<times> VersionProbeOutcome" where
  "probeSource pb rules deployments declared sourceId force st =
     (if rules = [] then
        (st, \<lparr>po_probed = 0, po_skipped = 0, po_failed = 0, po_changed = 0, po_rules = 0,
              po_environments = 0, po_trace = []\<rparr>)
      else
        let readings = lastReadings sourceId (snd st);
            candidates = withDeclared (latestPerEnvironment deployments) declared;
            selection = selectProbes candidates readings (pb_clock pb (fst st)) PROBE_BATCH
              (if force then 0 else PROBE_MIN_INTERVAL_MINUTES)
        in probeTargets pb sourceId rules (\<lambda>target. if force then None else rememberedRule readings target)
             (sel_targets selection)
             \<lparr>po_probed = 0, po_skipped = sel_skipped selection + sel_deferred selection, po_failed = 0,
              po_changed = 0, po_rules = length rules, po_environments = length candidates, po_trace = []\<rparr> st)"

definition probeDeployment ::
  "'w Prober \<Rightarrow> ResolvedVersionRule list \<Rightarrow> ClassifiedDeployment list \<Rightarrow> string \<Rightarrow> string \<Rightarrow> string \<Rightarrow>
   'w \<times> ReadingDb \<Rightarrow> ('w \<times> ReadingDb) \<times> bool \<times> bool" where
  "probeDeployment pb rules deployments sourceId repo environment st =
     (if rules = [] then (st, False, False)
      else case latestPerEnvironment
          (filter (\<lambda>d. cl_repo d = repo \<and> cl_environment d = environment) deployments) of
        [] \<Rightarrow> (st, False, False)
      | target # _ \<Rightarrow>
          (case readOne pb sourceId target rules (rememberedRule (lastReadings sourceId (snd st)) target) st of
             (st', result) \<Rightarrow> (st', er_read result, er_changed result)))"

section \<open>Timelines\<close>

record VersionChangeEntry =
  ce_version :: string
  ce_observedAt :: instant
  ce_until :: "instant option"
  ce_deploymentId :: "string option"
  ce_ref :: "string option"

definition toEntries :: "VersionChangeRow list \<Rightarrow> VersionChangeRow option \<Rightarrow> VersionChangeEntry list" where
  "toEntries rows newer =
     map (\<lambda>index.
       let row = rows ! index;
           successor = (if index = 0 then newer else Some (rows ! (index - 1)))
       in \<lparr>ce_version = vc_version row, ce_observedAt = vc_observedAt row,
           ce_until = map_option vc_observedAt successor, ce_deploymentId = vc_deploymentId row,
           ce_ref = vc_ref row\<rparr>) [0..<length rows]"

record VersionHistory =
  vh_changes :: "VersionChangeEntry Page"
  vh_firstSeenAt :: "instant option"

text \<open>The rows of one environment, newest first; rows of one instant keep the order of the table.\<close>

definition newestChanges :: "string \<times> string \<times> string \<Rightarrow> ReadingDb \<Rightarrow> VersionChangeRow list" where
  "newestChanges key db = sort_key (\<lambda>r. - vc_observedAt r) (filter (\<lambda>r. vc_pair r = key) (rd_changes db))"

definition history :: "string \<Rightarrow> string \<Rightarrow> string \<Rightarrow> PageWindow \<Rightarrow> ReadingDb \<Rightarrow> VersionHistory" where
  "history sourceId repo environment window db =
     (let all = newestChanges (sourceId, repo, environment) db;
          overRead = (if pw_offset window > 0 then 1 else 0);
          rows = take (pw_limit window + overRead) (drop (pw_offset window - overRead) all);
          newer = (if overRead > 0 then (case rows of r # _ \<Rightarrow> Some r | [] \<Rightarrow> None) else None);
          page = (if overRead > 0 then drop 1 rows else rows)
      in \<lparr>vh_changes = toPage (toEntries page newer) (length all) window,
          vh_firstSeenAt = (if all = [] then None else Some (Min (vc_observedAt ` set all)))\<rparr>)"


section \<open>A selection loses no environment\<close>

lemma selection_counts:
  assumes sel_def: "sel = selectProbes candidates readings now limit mins"
  shows "length (sel_targets sel) + sel_skipped sel + sel_deferred sel = length candidates"
proof -
  define due where "due = filter (isDue readings now (mins * 60 * 1000)) candidates"
  have le: "length due \<le> length candidates" unfolding due_def by (rule length_filter_le)
  have "sel_targets sel = take limit (sort_key (rank readings) due)"
    "sel_skipped sel = length candidates - length due" "sel_deferred sel = length due - limit"
    by (simp_all only: sel_def selectProbes_def Let_def due_def ProbeSelection.simps)
  with le show ?thesis by (simp add: min_def)
qed

lemma probeTargets_counts:
  "snd (probeTargets pb src rules remembered targets outcome st) = out \<Longrightarrow>
   po_failed outcome \<le> po_probed outcome \<Longrightarrow> po_changed outcome \<le> po_probed outcome \<Longrightarrow>
   po_probed out + po_skipped out = po_probed outcome + po_skipped outcome + length targets \<and>
   po_probed out \<le> po_probed outcome + length targets \<and>
   po_failed out \<le> po_probed out \<and> po_changed out \<le> po_probed out \<and> po_environments out = po_environments outcome \<and>
   length (po_trace out) = length (po_trace outcome) + length targets"
proof (induction targets arbitrary: outcome st)
  case (Cons target targets)
  obtain st' result where r: "readOne pb src target rules (remembered target) st = (st', result)" by fastforce
  have "po_failed (countReading result outcome) \<le> po_probed (countReading result outcome)"
    "po_changed (countReading result outcome) \<le> po_probed (countReading result outcome)"
    using Cons.prems(2,3) by (simp_all add: countReading_def Let_def)
  from Cons.IH [OF _ this, of st'] Cons.prems(1) show ?case
    by (auto simp: r countReading_def Let_def split: if_splits)
qed simp

text \<open>The order of a run, on what the table says of an environment: nothing at all, a reading taken
  of another deployment than the one that is there now, or the date of the last reading.\<close>

definition heldReading :: "readings \<Rightarrow> ProbeCandidate \<Rightarrow> LastReading option" where
  "heldReading readings c = map_of readings (pairKey (pc_repo c) (pc_environment c))"

definition never_read :: "readings \<Rightarrow> ProbeCandidate \<Rightarrow> bool" where
  "never_read readings c \<longleftrightarrow> heldReading readings c = None"

definition reached_since :: "readings \<Rightarrow> ProbeCandidate \<Rightarrow> bool" where
  "reached_since readings c \<longleftrightarrow>
     (\<exists>h. heldReading readings c = Some h \<and> lr_deploymentId h \<noteq> pc_deploymentId c)"

definition read_at :: "readings \<Rightarrow> ProbeCandidate \<Rightarrow> instant" where
  "read_at readings c = lr_observedAt (the (heldReading readings c))"

definition more_deserving :: "readings \<Rightarrow> ProbeCandidate \<Rightarrow> ProbeCandidate \<Rightarrow> bool" where
  "more_deserving readings t c \<longleftrightarrow> never_read readings t \<or>
     \<not> never_read readings c \<and>
       (reached_since readings t \<or>
        \<not> reached_since readings c \<and> read_at readings t \<le> read_at readings c)"

definition worth_reading :: "readings \<Rightarrow> instant \<Rightarrow> int \<Rightarrow> ProbeCandidate \<Rightarrow> bool" where
  "worth_reading readings now mins c \<longleftrightarrow> never_read readings c \<or> reached_since readings c \<or>
     read_at readings c + mins * 60000 \<le> now"

lemmas reading_defs = never_read_def reached_since_def read_at_def heldReading_def

lemma rank_more_deserving:
  assumes "list_all (\<lambda>(k, h). 0 \<le> lr_observedAt h) readings"
  shows "rank readings t \<le> rank readings c \<longleftrightarrow> more_deserving readings t c"
proof -
  have dated: "0 \<le> lr_observedAt h" if "map_of readings k = Some h" for k h
    using assms map_of_SomeD [OF that] by (auto simp: list_all_iff)
  show ?thesis
  proof (cases "heldReading readings t"; cases "heldReading readings c")
    fix h g assume "heldReading readings t = Some h" "heldReading readings c = Some g"
    moreover from this have "0 \<le> lr_observedAt h" "0 \<le> lr_observedAt g"
      by (auto simp: heldReading_def dest: dated)
    ultimately show ?thesis by (simp add: rank_def more_deserving_def reading_defs)
  qed (auto simp: rank_def more_deserving_def reading_defs split: option.split)
qed

lemma isDue_worth_reading: "isDue readings now (mins * 60 * 1000) = worth_reading readings now mins"
  by (auto simp: fun_eq_iff isDue_def worth_reading_def reading_defs split: option.splits)

lemma lastReadings_dated:
  assumes "list_all (\<lambda>(k, row). 0 \<le> ev_observedAt row) (rd_current db)"
  shows "list_all (\<lambda>(k, h). 0 \<le> lr_observedAt h) (lastReadings src db)"
proof -
  let ?ok = "\<lambda>m :: readings. list_all (\<lambda>(k, h). 0 \<le> lr_observedAt h) m"
  let ?file = "\<lambda>m ((src, repo, environment), row). AList.update (pairKey repo environment)
      \<lparr>lr_observedAt = ev_observedAt row, lr_deploymentId = ev_deploymentId row, lr_ruleId = ev_ruleId row\<rparr> m"
  have upd: "?ok (AList.update k h m)" if "?ok m" "0 \<le> lr_observedAt h" for k h m
    using that by (induction m) auto
  have filed: "?ok m \<Longrightarrow> list_all (\<lambda>(k, row). 0 \<le> ev_observedAt row) rows \<Longrightarrow> ?ok (foldl ?file m rows)"
    for m rows
    by (induction rows arbitrary: m) (auto simp: upd)
  have "list_all (\<lambda>(k, row). 0 \<le> ev_observedAt row) (filter P (rd_current db))" for P
    using assms by (auto simp: list_all_iff)
  then show ?thesis unfolding lastReadings_def by (intro filed) simp_all
qed

lemma sorted_by_rank:
  assumes "list_all (\<lambda>(k, h). 0 \<le> lr_observedAt h) readings"
  shows "sorted_wrt (more_deserving readings) (sort_key (rank readings) due)"
proof -
  have "sorted_wrt (\<lambda>x y. rank readings x \<le> rank readings y) (sort_key (rank readings) due)"
    using sorted_sort_key [of "rank readings" due] by (simp add: sorted_wrt_map)
  then show ?thesis by (simp add: rank_more_deserving [OF assms])
qed

text \<open>C17. A run accounts for every environment and reads the most deserving. For a source that
  has version rules, and given that no reading is dated before 1970, the environments worth reading (never read, reached by another deployment
  than the one last read, or read as long ago as the interval) stand in the order of their urgency:
  those never read, then those reached since, then the others from the oldest reading on. The run
  reads that line from its head, as many as the batch holds and all of them when there are fewer.
  The report adds up: what was read and what was not make up all the environments, and what failed
  or changed was read.\<close>

theorem a_run_accounts_for_every_environment:
  assumes "probeSource pb rules deployments declared src force (w, db) = (st', out)" and "rules \<noteq> []"
    and dated: "list_all (\<lambda>(k, row). 0 \<le> ev_observedAt row) (rd_current db)"
  shows "po_probed out + po_skipped out = po_environments out \<and> po_probed out \<le> PROBE_BATCH \<and>
    po_failed out \<le> po_probed out \<and> po_changed out \<le> po_probed out \<and>
    (let candidates = withDeclared (latestPerEnvironment deployments) declared;
         readings = lastReadings src db;
         mins = (if force then 0 else PROBE_MIN_INTERVAL_MINUTES)
     in po_environments out = length candidates \<and>
        (\<exists>targets left.
          mset (targets @ left) = mset (filter (worth_reading readings (pb_clock pb w) mins) candidates) \<and>
          sorted_wrt (more_deserving readings) (targets @ left) \<and>
          length targets \<le> PROBE_BATCH \<and> (length targets < PROBE_BATCH \<longrightarrow> left = []) \<and>
          probeTargets pb src rules (\<lambda>target. if force then None else rememberedRule readings target) targets
            \<lparr>po_probed = 0, po_skipped = length candidates - length targets, po_failed = 0, po_changed = 0,
             po_rules = length rules, po_environments = length candidates, po_trace = []\<rparr> (w, db) = (st', out)))"
proof -
  let ?cands = "withDeclared (latestPerEnvironment deployments) declared"
  let ?readings = "lastReadings src db"
  let ?mins = "if force then 0 else PROBE_MIN_INTERVAL_MINUTES"
  let ?line = "sort_key (rank ?readings) (filter (worth_reading ?readings (pb_clock pb w) ?mins) ?cands)"
  define sel where "sel = selectProbes ?cands ?readings (pb_clock pb w) PROBE_BATCH ?mins"
  define start where "start = \<lparr>po_probed = 0, po_skipped = length ?cands - length (sel_targets sel), po_failed = 0,
    po_changed = 0, po_rules = length rules, po_environments = length ?cands, po_trace = []\<rparr>"
  have sum: "length (sel_targets sel) + sel_skipped sel + sel_deferred sel = length ?cands"
    by (rule selection_counts [OF sel_def])
  then have "sel_skipped sel + sel_deferred sel = length ?cands - length (sel_targets sel)" by linarith
  then have run: "probeTargets pb src rules (\<lambda>target. if force then None else rememberedRule ?readings target)
      (sel_targets sel) start (w, db) = (st', out)"
    using assms(1,2) by (simp add: probeSource_def Let_def sel_def start_def)
  from probeTargets_counts [OF arg_cong [OF run, of snd, unfolded snd_conv]] have c:
    "po_probed out + po_skipped out = length ?cands - length (sel_targets sel) + length (sel_targets sel)"
    "po_probed out \<le> length (sel_targets sel)" "po_failed out \<le> po_probed out" "po_changed out \<le> po_probed out"
    "po_environments out = length ?cands"
    by (simp_all add: start_def)
  have t: "sel_targets sel = take PROBE_BATCH ?line"
    unfolding sel_def selectProbes_def Let_def isDue_worth_reading by (simp only: ProbeSelection.simps)
  have le: "length (sel_targets sel) \<le> PROBE_BATCH" unfolding t by simp
  have whole: "sel_targets sel @ drop PROBE_BATCH ?line = ?line" unfolding t by simp
  have line: "mset (sel_targets sel @ drop PROBE_BATCH ?line) =
        mset (filter (worth_reading ?readings (pb_clock pb w) ?mins) ?cands)"
      "sorted_wrt (more_deserving ?readings) (sel_targets sel @ drop PROBE_BATCH ?line)"
    unfolding whole by (simp_all add: sorted_by_rank lastReadings_dated [OF dated])
  have rest: "length (sel_targets sel) < PROBE_BATCH \<longrightarrow> drop PROBE_BATCH ?line = []"
    unfolding t by (simp add: min_def)
  have counts: "po_probed out + po_skipped out = po_environments out" "po_probed out \<le> PROBE_BATCH"
    using c(1,2,5) sum le by linarith+
  from run have "\<exists>targets left.
      mset (targets @ left) = mset (filter (worth_reading ?readings (pb_clock pb w) ?mins) ?cands) \<and>
      sorted_wrt (more_deserving ?readings) (targets @ left) \<and>
      length targets \<le> PROBE_BATCH \<and> (length targets < PROBE_BATCH \<longrightarrow> left = []) \<and>
      probeTargets pb src rules (\<lambda>target. if force then None else rememberedRule ?readings target) targets
        \<lparr>po_probed = 0, po_skipped = length ?cands - length targets, po_failed = 0, po_changed = 0,
         po_rules = length rules, po_environments = length ?cands, po_trace = []\<rparr> (w, db) = (st', out)"
    using line le rest unfolding start_def
    by (intro exI [of _ "sel_targets sel"] exI [of _ "drop PROBE_BATCH ?line"] conjI) assumption+
  with counts c(3-5) show ?thesis unfolding Let_def by (intro conjI) assumption+
qed

definition sample_prober :: "nat Prober" where
  "sample_prober = \<lparr>pb_net = \<lparr>nt_parse = (\<lambda>_. None), nt_isIP = (\<lambda>_. False), nt_lookup = (\<lambda>_ w. (w, Inr [])),
       nt_send = (\<lambda>_ _ _ w. (w, NoResponse)), nt_base64 = (\<lambda>s. s)\<rparr>,
     pb_engines = \<lparr>en_json = Inl, en_xml = Inl, en_exec = (\<lambda>_ _. NoMatch), en_inherited = (\<lambda>_. None)\<rparr>,
     pb_regex = (\<lambda>p s. Some (p = s)), pb_clock = (\<lambda>w. int w)\<rparr>"

definition sample_rule :: ResolvedVersionRule where
  "sample_rule = \<lparr>vr_id = ''r1'', vr_name = ''actuator'', vr_environment = Some ''prod'', vr_repo = None,
     vr_urlTemplate = ''here'', vr_format = JsonFormat, vr_template = ''{v}'', vr_pattern = None,
     vr_headers = [], vr_priority = 1, vr_auth = no_auth\<rparr>"

definition sample_target :: ProbeCandidate where
  "sample_target = \<lparr>pc_repo = [], pc_environment = ''prod'', pc_deploymentId = None, pc_ref = None,
     pc_deployedAt = None, pc_environmentUrl = None, pc_attributes = []\<rparr>"

definition sample_readings :: ReadingDb where
  "sample_readings = \<lparr>rd_current = [], rd_changes = [], rd_frozen = []\<rparr>"

theorem a_run_accounts_for_every_environment_witness:
  "\<exists>st' out. probeSource sample_prober [sample_rule] []
      [\<lparr>de'_repo = [], de'_environment = ''prod'', de'_url = None, de'_attributes = []\<rparr>] ''s'' True
      (7, sample_readings) = (st', out) \<and>
    po_probed out + po_skipped out = po_environments out \<and> po_failed out \<le> po_probed out \<and> po_probed out \<le> PROBE_BATCH"
proof -
  obtain st' out where r: "probeSource sample_prober [sample_rule] []
      [\<lparr>de'_repo = [], de'_environment = ''prod'', de'_url = None, de'_attributes = []\<rparr>] ''s'' True
      (7, sample_readings) = (st', out)" by fastforce
  have d: "list_all (\<lambda>(k, row). 0 \<le> ev_observedAt row) (rd_current sample_readings)"
    by (simp add: sample_readings_def)
  from a_run_accounts_for_every_environment [OF r _ d] r show ?thesis by blast
qed

section \<open>The pages of a timeline are the timeline\<close>

lemma toEntries_nth:
  "i < length rows \<Longrightarrow> toEntries rows newer ! i =
    \<lparr>ce_version = vc_version (rows ! i), ce_observedAt = vc_observedAt (rows ! i),
     ce_until = map_option vc_observedAt (if i = 0 then newer else Some (rows ! (i - 1))),
     ce_deploymentId = vc_deploymentId (rows ! i), ce_ref = vc_ref (rows ! i)\<rparr>"
  by (simp add: toEntries_def Let_def)

lemma length_toEntries [simp]: "length (toEntries rows newer) = length rows"
  by (simp add: toEntries_def)

lemma toEntries_window:
  "0 < offset \<Longrightarrow> offset \<le> length rows \<Longrightarrow>
   toEntries (take limit (drop offset rows)) (Some (rows ! (offset - 1))) = take limit (drop offset (toEntries rows None))"
  by (rule nth_equalityI) (auto simp: toEntries_nth)

lemma toEntries_first: "toEntries (take limit rows) None = take limit (toEntries rows None)"
  by (rule nth_equalityI) (auto simp: toEntries_nth)

text \<open>Every page of a timeline is the window of the whole timeline: the entries, how long each
  version held, the totals and whether there is more are what reading all the changes at once and
  cutting the page out of them would give, at the first page, at a joint and past the end.\<close>

theorem pages_of_a_timeline_are_the_timeline:
  "vh_changes (history src repo environment window db) =
     paginate (toEntries (newestChanges (src, repo, environment) db) None) window"
proof -
  let ?all = "newestChanges (src, repo, environment) db"
  let ?off = "pw_offset window" and ?lim = "pw_limit window"
  show ?thesis
  proof (cases "?off = 0")
    case True
    then show ?thesis by (simp add: history_def Let_def paginate_def toEntries_first)
  next
    case off: False
    let ?rows = "take (Suc ?lim) (drop (?off - 1) ?all)"
    have page: "drop 1 ?rows = take ?lim (drop ?off ?all)"
      using off by (simp add: drop_take drop_Suc [symmetric])
    have e: "toEntries (drop 1 ?rows) (case ?rows of r # _ \<Rightarrow> Some r | [] \<Rightarrow> None) =
        take ?lim (drop ?off (toEntries ?all None))"
    proof (cases "?off \<le> length ?all")
      case True
      with off have "drop (?off - 1) ?all = ?all ! (?off - 1) # drop ?off ?all"
        using Cons_nth_drop_Suc [of "?off - 1" ?all] by simp
      with page toEntries_window [of ?off ?all ?lim] off True show ?thesis by simp
    next
      case False
      then show ?thesis unfolding page by (simp add: toEntries_def)
    qed
    then show ?thesis using off by (simp add: history_def Let_def paginate_def)
  qed
qed


section \<open>A walk files its best attempt\<close>

definition further :: "Attempt \<Rightarrow> Attempt option \<Rightarrow> Attempt option" where
  "further a furthest =
     (case furthest of None \<Rightarrow> Some a | Some f \<Rightarrow> if reach a > reach f then Some a else Some f)"

lemma attemptRule_id: "at_ruleId (snd (attemptRule pb rule subject w)) = vr_id rule"
  by (simp add: attemptRule_def Let_def split: sum.splits prod.splits)

lemma walk_spec:
  "walk pb subject rules attempts furthest w = (w', out, settled, far) \<Longrightarrow>
   \<exists>new. out = attempts @ new \<and> length new \<le> length rules \<and>
     map at_ruleId new = map vr_id (take (length new) rules) \<and>
     (case settled of
        Some a \<Rightarrow> new \<noteq> [] \<and> a = List.last new \<and> \<not> at_tryAnother a \<and> list_all at_tryAnother (butlast new)
      | None \<Rightarrow> length new = length rules \<and> list_all at_tryAnother new \<and> far = fold further new furthest)"
proof (induction rules arbitrary: attempts furthest w)
  case Nil
  then show ?case by auto
next
  case (Cons rule rules)
  obtain v a where a: "attemptRule pb rule subject w = (v, a)" by fastforce
  have i: "at_ruleId a = vr_id rule" using attemptRule_id [of pb rule subject w] a by simp
  show ?case
  proof (cases "at_tryAnother a")
    case False
    with Cons.prems a i show ?thesis by (intro exI [of _ "[a]"]) auto
  next
    case True
    with Cons.prems a have "walk pb subject rules (attempts @ [a]) (further a furthest) v = (w', out, settled, far)"
      by (simp add: further_def)
    from Cons.IH [OF this] obtain new where new: "out = attempts @ a # new" "length new \<le> length rules"
      "map at_ruleId new = map vr_id (take (length new) rules)"
      "case settled of
        Some a \<Rightarrow> new \<noteq> [] \<and> a = List.last new \<and> \<not> at_tryAnother a \<and> list_all at_tryAnother (butlast new)
      | None \<Rightarrow> length new = length rules \<and> list_all at_tryAnother new \<and> far = fold further new (further a furthest)"
      by auto
    with True i show ?thesis
      by (intro exI [of _ "a # new"]) (auto split: option.splits)
  qed
qed

lemma fold_further:
  "\<exists>f. fold further new (Some g) = Some f \<and> (f = g \<or> f \<in> set new) \<and> reach g \<le> reach f \<and>
    (\<forall>a \<in> set new. reach a \<le> reach f)"
proof (induction new arbitrary: g)
  case (Cons a new)
  show ?case
  proof (cases "reach a > reach g")
    case True
    with Cons [of a] show ?thesis by (fastforce simp: further_def)
  next
    case False
    with Cons [of g] show ?thesis by (fastforce simp: further_def)
  qed
qed simp

lemma fold_further_None:
  assumes "new \<noteq> []"
  shows "\<exists>f. fold further new None = Some f \<and> f \<in> set new \<and> (\<forall>a \<in> set new. reach a \<le> reach f)"
proof -
  obtain a rest where "new = a # rest" using assms by (cases new) auto
  with fold_further [of rest a] show ?thesis by (auto simp: further_def)
qed

text \<open>The row of an environment after a reading is filed.\<close>

lemma recordReading_row:
  "map_option ev_version (map_of (rd_current (fst (recordReading src r db))) (src, nr_repo r, nr_environment r)) =
     Some (nr_version r)"
  "map_option ev_status (map_of (rd_current (fst (recordReading src r db))) (src, nr_repo r, nr_environment r)) =
     Some (nr_status r)"
  by (simp_all add: recordReading_def Let_def frozenWrite_def update_conv' split: option.splits)

text \<open>A walk files its best attempt. When some rule claims the environment, the rules are tried in
  order from the one that answered last, each at most once, and exactly one attempt is filed:
  either the first that found the application, at which the walk stops, or, when every one of the
  candidates blamed its address, one that none of the others got further than; and the version and
  the status the environment then shows are those of that attempt.\<close>

theorem a_walk_files_its_best_attempt:
  assumes run: "readOne pb src target rules lastAnswered (w, db) = ((w', db'), result)"
    and claimed: "preferring (rulesFor (pb_regex pb) (subjectOf target) rules) lastAnswered = candidates" "candidates \<noteq> []"
  shows "\<exists>filed n. er_filed result = Some filed \<and> 0 < n \<and> n \<le> length candidates \<and>
    map at_ruleId (er_trace result) = map vr_id (take n candidates) \<and> filed \<in> set (er_trace result) \<and>
    (if at_tryAnother filed
     then n = length candidates \<and> list_all (\<lambda>a. at_tryAnother a \<and> reach a \<le> reach filed) (er_trace result)
     else filed = List.last (er_trace result) \<and> list_all at_tryAnother (butlast (er_trace result))) \<and>
    map_option ev_version (map_of (rd_current db') (src, pc_repo target, pc_environment target)) = Some (at_version filed) \<and>
    map_option ev_status (map_of (rd_current db') (src, pc_repo target, pc_environment target)) = Some (at_status filed)"
proof -
  obtain v attempts settled far where wk: "walk pb (subjectOf target) candidates [] None w = (v, attempts, settled, far)"
    by (metis prod_cases3 surj_pair)
  from walk_spec [OF wk] have new: "length attempts \<le> length candidates"
    "map at_ruleId attempts = map vr_id (take (length attempts) candidates)"
    "case settled of
        Some a \<Rightarrow> attempts \<noteq> [] \<and> a = List.last attempts \<and> \<not> at_tryAnother a \<and> list_all at_tryAnother (butlast attempts)
      | None \<Rightarrow> length attempts = length candidates \<and> list_all at_tryAnother attempts \<and> far = fold further attempts None"
    by auto
  have ne: "attempts \<noteq> []" using new(3) claimed(2) by (cases settled) auto
  define filed where "filed = the (orElse settled far)"
  have f: "filed \<in> set attempts \<and>
    (if at_tryAnother filed
     then length attempts = length candidates \<and> list_all (\<lambda>a. at_tryAnother a \<and> reach a \<le> reach filed) attempts
     else filed = List.last attempts \<and> list_all at_tryAnother (butlast attempts))"
  proof (cases settled)
    case None
    with fold_further_None [OF ne] new(3) show ?thesis by (auto simp: filed_def list_all_iff)
  next
    case (Some a)
    with new(3) show ?thesis by (auto simp: filed_def)
  qed
  define r where "r = \<lparr>nr_repo = pc_repo target, nr_environment = pc_environment target,
     nr_version = at_version filed, nr_deploymentId = pc_deploymentId target, nr_ref = pc_ref target,
     nr_ruleId = Some (at_ruleId filed), nr_url = at_url filed, nr_status = at_status filed,
     nr_error = at_error filed, nr_observedAt = pb_clock pb v, nr_deployedAt = pc_deployedAt target\<rparr>"
  have out: "er_filed result = Some filed" "er_trace result = attempts" "db' = fst (recordReading src r db)"
    using run claimed wk by (auto simp: readOne_def Let_def filed_def [symmetric] r_def split: prod.splits)
  have row: "nr_repo r = pc_repo target" "nr_environment r = pc_environment target"
    "nr_version r = at_version filed" "nr_status r = at_status filed"
    by (simp_all add: r_def)
  show ?thesis
    using f ne new(1,2) recordReading_row [of src r db]
    by (intro exI [of _ filed] exI [of _ "length attempts"]) (simp add: out row)
qed


theorem a_walk_files_its_best_attempt_witness:
  "\<exists>st' result filed. readOne sample_prober ''s'' sample_target [sample_rule] None (7, sample_readings) = (st', result) \<and>
     er_filed result = Some filed \<and> at_ruleId filed = ''r1''"
proof -
  obtain w' db' result where r: "readOne sample_prober ''s'' sample_target [sample_rule] None (7, sample_readings) =
      ((w', db'), result)" by (metis surj_pair)
  have c: "preferring (rulesFor (pb_regex sample_prober) (subjectOf sample_target) [sample_rule]) None = [sample_rule]"
    by (simp add: preferring_def rulesFor_def claims_def matches_def appliesToRepo_def orNull_def sample_prober_def
        sample_rule_def sample_target_def subjectOf_def)
  obtain filed n where f: "er_filed result = Some filed" "0 < n" "n \<le> length [sample_rule]"
    "map at_ruleId (er_trace result) = map vr_id (take n [sample_rule])" "filed \<in> set (er_trace result)"
    using a_walk_files_its_best_attempt [OF r c] by blast
  from f(2,3) have "n = 1" by simp
  with f(4,5) have "at_ruleId filed = ''r1''" by (auto simp: sample_rule_def)
  with r f(1) show ?thesis by blast
qed

section \<open>What a failed reading leaves\<close>

text \<open>What the row of a reading's environment shows.\<close>

definition rowVersion :: "string \<Rightarrow> NewReading \<Rightarrow> ReadingDb \<Rightarrow> string option" where
  "rowVersion src r db = Option.bind (map_of (rd_current db) (src, nr_repo r, nr_environment r)) ev_version"

definition rowError :: "string \<Rightarrow> NewReading \<Rightarrow> ReadingDb \<Rightarrow> CodedMessage option" where
  "rowError src r db = Option.bind (map_of (rd_current db) (src, nr_repo r, nr_environment r)) ev_error"

lemma frozenWrite_keeps [simp]:
  "rd_current (frozenWrite src r db) = rd_current db" "rd_changes (frozenWrite src r db) = rd_changes db"
  by (simp_all add: frozenWrite_def split: option.splits)

lemma recordReading_version:
  "nr_repo q = nr_repo r \<Longrightarrow> nr_environment q = nr_environment r \<Longrightarrow>
   rowVersion src q (fst (recordReading src r db)) = nr_version r"
  by (simp add: rowVersion_def recordReading_def Let_def update_conv')

lemma recordReading_error:
  "nr_repo q = nr_repo r \<Longrightarrow> nr_environment q = nr_environment r \<Longrightarrow>
   rowError src q (fst (recordReading src r db)) = orElse (nr_error r) (rowError src r db)"
  by (simp add: rowError_def recordReading_def Let_def update_conv')

lemma recordReading_changed:
  "nr_version r = Some v \<Longrightarrow> rowVersion src r db \<noteq> Some v \<Longrightarrow>
   snd (recordReading src r db) \<and>
   rd_changes (fst (recordReading src r db)) = rd_changes db @ [List.last (rd_changes (fst (recordReading src r db)))] \<and>
   vc_version (List.last (rd_changes (fst (recordReading src r db)))) = v"
  by (simp add: rowVersion_def recordReading_def Let_def)

text \<open>
  A failed reading forgets the version, so that the next reading of the same version counts as
  a change and is entered in the timeline a second time.
\<close>

theorem a_failure_repeats_the_timeline:
  assumes v: "nr_version r = Some v" "nr_version f = None" "nr_repo f = nr_repo r" "nr_environment f = nr_environment r"
    and runs: "recordReading src r db = (db1, c1)" "recordReading src f db1 = (db2, c2)" "recordReading src r db2 = (db3, c3)"
  shows "c3 \<and> rd_changes db3 = rd_changes db2 @ [List.last (rd_changes db3)] \<and>
    vc_version (List.last (rd_changes db3)) = v"
proof -
  have "rowVersion src r db2 = None"
    using recordReading_version [where q = r and r = f and src = src and db = db1] v runs(2) by simp
  then show ?thesis
    using recordReading_changed [where r = r and src = src and db = db2 and v = v] v runs(3) by simp
qed

text \<open>An error survives the readings that succeed after it.\<close>

theorem an_error_survives_a_success:
  assumes e: "nr_error f = Some e" "nr_error r = None" "nr_repo r = nr_repo f" "nr_environment r = nr_environment f"
    and runs: "recordReading src f db = (db1, c1)" "recordReading src r db1 = (db2, c2)"
  shows "rowError src r db2 = Some e"
  using recordReading_error [where q = r and r = f and src = src and db = db]
    recordReading_error [where q = r and r = r and src = src and db = db1] e runs by (simp add: orElse_def)

end
