(* ===== verification/Settings.thy ===== *)
theory Settings
  imports Private_Address Dora_Metrics
begin

text \<open>
  The settings of an install (\<open>settings/settings.service.ts\<close>): a table of texts under keys, read
  back with a fallback for what is absent or unreadable, and an update that checks every field
  before it writes one. A field of the request is absent, null or a value (\<open>option option\<close>);
  numbers read from the table are rationals, as \<open>Number\<close> can read any. The listeners notified of
  an update are not modelled.

  The lemmas show that an update is read back field by field, that no history of updates leaves a
  number out of its bounds or a word out of its list, and that blank or null labels pass the
  check that incidents have some.
\<close>

section \<open>The settings\<close>

record AppSettings =
  st_doraWindowDays :: rat
  st_stalePrHours :: rat
  st_collectCron :: string
  st_pruneCron :: string
  st_retentionMarginDays :: rat
  st_pageSize :: rat
  st_publicDashboard :: bool
  st_failureSource :: FailureSource
  st_incidentLabels :: "string list"
  st_quotaReservePct :: rat
  st_componentAttribute :: "string option"
  st_collectionPageCap :: rat
  st_releaseNotesGenerator :: string
  st_overviewDirection :: string
  st_displayMode :: string

record UpdateSettingsDto =
  sd_doraWindowDays :: "rat option option"
  sd_stalePrHours :: "rat option option"
  sd_collectCron :: "string option option"
  sd_pruneCron :: "string option option"
  sd_retentionMarginDays :: "rat option option"
  sd_pageSize :: "rat option option"
  sd_publicDashboard :: "bool option option"
  sd_failureSource :: "FailureSource option option"
  sd_incidentLabels :: "string list option option"
  sd_quotaReservePct :: "rat option option"
  sd_componentAttribute :: "string option option"
  sd_collectionPageCap :: "rat option option"
  sd_releaseNotesGenerator :: "string option option"
  sd_overviewDirection :: "string option option"
  sd_displayMode :: "string option option"

datatype SettingsError = OutOfRange string int int | InvalidCron string | IncidentLabelsRequired | TypeFault

type_synonym settings_table = "(string, string) jsmap"

definition OVERVIEW_DIRECTIONS :: "string list" where
  "OVERVIEW_DIRECTIONS = [''control'', ''instrument'', ''stream'', ''versions'']"
definition DISPLAY_MODES :: "string list" where
  "DISPLAY_MODES = [''system'', ''light'', ''dark'']"
definition RELEASE_NOTES_GENERATORS :: "string list" where
  "RELEASE_NOTES_GENERATORS = [''builtin'', ''conventional-changelog'']"

definition FALLBACKS :: AppSettings where
  "FALLBACKS = \<lparr>st_doraWindowDays = 30, st_stalePrHours = 72, st_collectCron = ''*/15 * * * *'',
     st_pruneCron = ''0 3 * * *'', st_retentionMarginDays = 7, st_pageSize = 10, st_publicDashboard = True,
     st_failureSource = FromPipelines, st_incidentLabels = [], st_quotaReservePct = 10,
     st_componentAttribute = None, st_collectionPageCap = 20, st_releaseNotesGenerator = ''builtin'',
     st_overviewDirection = ''control'', st_displayMode = ''system''\<rparr>"

section \<open>Reading\<close>

definition readNumber :: "string option \<Rightarrow> rat \<Rightarrow> rat" where
  "readNumber raw fallback =
     (case raw of None \<Rightarrow> fallback | Some s \<Rightarrow> (case jsNumber s of Some v \<Rightarrow> v | None \<Rightarrow> fallback))"

definition readBoolean :: "string option \<Rightarrow> bool \<Rightarrow> bool" where
  "readBoolean raw fallback =
     (if raw = Some ''true'' then True else if raw = Some ''false'' then False else fallback)"

definition readText :: "string option \<Rightarrow> string \<Rightarrow> string" where
  "readText raw fallback = (case raw of Some s \<Rightarrow> s | None \<Rightarrow> fallback)"

definition readOptionalText :: "string option \<Rightarrow> string option" where
  "readOptionalText raw = orNull (map_option jsTrim raw)"

definition readOneOf :: "string option \<Rightarrow> string list \<Rightarrow> string \<Rightarrow> string" where
  "readOneOf raw allowed fallback =
     (case raw of Some s \<Rightarrow> if s \<in> set allowed then s else fallback | None \<Rightarrow> fallback)"

definition readFailureSource :: "string option \<Rightarrow> FailureSource" where
  "readFailureSource raw =
     (if raw = Some ''incidents'' then FromIncidents else if raw = Some ''both'' then FromBoth
      else st_failureSource FALLBACKS)"

definition readList :: "string option \<Rightarrow> string list" where
  "readList raw = filter (\<lambda>e. e \<noteq> []) (map jsTrim (splitOn (CHR '','') (emptyOr raw)))"

definition getSettings :: "settings_table \<Rightarrow> AppSettings" where
  "getSettings stored =
     \<lparr>st_doraWindowDays = readNumber (map_of stored ''doraWindowDays'') (st_doraWindowDays FALLBACKS),
      st_stalePrHours = readNumber (map_of stored ''stalePrHours'') (st_stalePrHours FALLBACKS),
      st_collectCron = readText (map_of stored ''collectCron'') (st_collectCron FALLBACKS),
      st_pruneCron = readText (map_of stored ''pruneCron'') (st_pruneCron FALLBACKS),
      st_retentionMarginDays = readNumber (map_of stored ''retentionMarginDays'') (st_retentionMarginDays FALLBACKS),
      st_pageSize = readNumber (map_of stored ''pageSize'') (st_pageSize FALLBACKS),
      st_publicDashboard = readBoolean (map_of stored ''publicDashboard'') (st_publicDashboard FALLBACKS),
      st_failureSource = readFailureSource (map_of stored ''failureSource''),
      st_incidentLabels = readList (map_of stored ''incidentLabels''),
      st_quotaReservePct = readNumber (map_of stored ''quotaReservePct'') (st_quotaReservePct FALLBACKS),
      st_componentAttribute = readOptionalText (map_of stored ''componentAttribute''),
      st_collectionPageCap = readNumber (map_of stored ''collectionPageCap'') (st_collectionPageCap FALLBACKS),
      st_releaseNotesGenerator = readOneOf (map_of stored ''releaseNotesGenerator'') RELEASE_NOTES_GENERATORS
        (st_releaseNotesGenerator FALLBACKS),
      st_overviewDirection = readOneOf (map_of stored ''overviewDirection'') OVERVIEW_DIRECTIONS
        (st_overviewDirection FALLBACKS),
      st_displayMode = readOneOf (map_of stored ''displayMode'') DISPLAY_MODES (st_displayMode FALLBACKS)\<rparr>"

section \<open>Updating\<close>

text \<open>\<open>LIMITS\<close>\<close>

definition SETTING_LIMITS :: "(string \<times> int \<times> int) list" where
  "SETTING_LIMITS = [(''doraWindowDays'', 1, 730), (''stalePrHours'', 1, 8760), (''pageSize'', 1, 200),
     (''quotaReservePct'', 0, 90), (''retentionMarginDays'', 0, 365), (''collectionPageCap'', 1, 100)]"

text \<open>\<open>Number.isInteger\<close>\<close>

definition isWhole :: "rat \<Rightarrow> bool" where
  "isWhole v \<longleftrightarrow> of_int \<lfloor>v\<rfloor> = v"

definition assertInRange :: "string \<Rightarrow> rat option option \<Rightarrow> SettingsError option" where
  "assertInRange key v =
     (case v of
        None \<Rightarrow> None
      | Some n \<Rightarrow>
          (case the (map_of SETTING_LIMITS key) of (lo, hi) \<Rightarrow>
            if n \<noteq> None \<and> isWhole (the n) \<and> of_int lo \<le> the n \<and> the n \<le> of_int hi then None else Some (OutOfRange key lo hi)))"

text \<open>\<open>pattern.trim().split(/\s+/)\<close>\<close>

fun splitSpaces :: "string \<Rightarrow> string list" where
  "splitSpaces [] = [[]]"
| "splitSpaces (c # s) =
     (if isSpace c then
        (case s of d # _ \<Rightarrow> if isSpace d then splitSpaces s else [] # splitSpaces s | [] \<Rightarrow> [[], []])
      else case splitSpaces s of w # ws \<Rightarrow> (c # w) # ws | [] \<Rightarrow> [[c]])"

definition validCron :: "string \<Rightarrow> bool" where
  "validCron pattern =
     (let fields = splitSpaces (jsTrim pattern) in
      (length fields = 5 \<or> length fields = 6) \<and>
      list_all (\<lambda>f. f \<noteq> [] \<and> list_all (\<lambda>c. c \<in> set ''0123456789*/,-?LW#'') f) fields)"

definition assertValidCron :: "string option option \<Rightarrow> SettingsError option" where
  "assertValidCron v =
     (case v of
        None \<Rightarrow> None
      | Some None \<Rightarrow> Some TypeFault
      | Some (Some pattern) \<Rightarrow> if validCron pattern then None else Some (InvalidCron pattern))"

definition assertIncidentsConfigured :: "UpdateSettingsDto \<Rightarrow> settings_table \<Rightarrow> SettingsError option" where
  "assertIncidentsConfigured dto stored =
     (if sd_failureSource dto = None \<and> sd_incidentLabels dto = None then None
      else
        let current = getSettings stored;
            failureSource = (case sd_failureSource dto of Some (Some f) \<Rightarrow> f | _ \<Rightarrow> st_failureSource current);
            labels = (case sd_incidentLabels dto of Some (Some l) \<Rightarrow> l | _ \<Rightarrow> st_incidentLabels current)
        in if failureSource \<noteq> FromPipelines \<and> labels = [] then Some IncidentLabelsRequired else None)"

text \<open>\<open>String(value)\<close>, and the empty text for null. The checks let only whole numbers get here.\<close>

definition showWhole :: "rat \<Rightarrow> string" where
  "showWhole v = showInt \<lfloor>v\<rfloor>"

definition showBool :: "bool \<Rightarrow> string" where
  "showBool b = (if b then ''true'' else ''false'')"

definition showFailureSource :: "FailureSource \<Rightarrow> string" where
  "showFailureSource f =
     (case f of FromPipelines \<Rightarrow> ''pipelines'' | FromIncidents \<Rightarrow> ''incidents'' | FromBoth \<Rightarrow> ''both'')"

definition writeEntry :: "string \<Rightarrow> ('a \<Rightarrow> string) \<Rightarrow> 'a option option \<Rightarrow> settings_table \<Rightarrow> settings_table" where
  "writeEntry key shown v stored =
     (case v of
        None \<Rightarrow> stored
      | Some x \<Rightarrow> AList.update key (case x of None \<Rightarrow> [] | Some y \<Rightarrow> shown y) stored)"

definition writeEntries :: "UpdateSettingsDto \<Rightarrow> settings_table \<Rightarrow> settings_table" where
  "writeEntries dto stored =
     writeEntry ''displayMode'' (\<lambda>s. s) (sd_displayMode dto)
    (writeEntry ''overviewDirection'' (\<lambda>s. s) (sd_overviewDirection dto)
    (writeEntry ''releaseNotesGenerator'' (\<lambda>s. s) (sd_releaseNotesGenerator dto)
    (writeEntry ''collectionPageCap'' showWhole (sd_collectionPageCap dto)
    (writeEntry ''componentAttribute'' (\<lambda>s. s) (sd_componentAttribute dto)
    (writeEntry ''quotaReservePct'' showWhole (sd_quotaReservePct dto)
    (writeEntry ''incidentLabels'' (joinWith '','') (sd_incidentLabels dto)
    (writeEntry ''failureSource'' showFailureSource (sd_failureSource dto)
    (writeEntry ''publicDashboard'' showBool (sd_publicDashboard dto)
    (writeEntry ''pageSize'' showWhole (sd_pageSize dto)
    (writeEntry ''retentionMarginDays'' showWhole (sd_retentionMarginDays dto)
    (writeEntry ''pruneCron'' (\<lambda>s. s) (sd_pruneCron dto)
    (writeEntry ''collectCron'' (\<lambda>s. s) (sd_collectCron dto)
    (writeEntry ''stalePrHours'' showWhole (sd_stalePrHours dto)
    (writeEntry ''doraWindowDays'' showWhole (sd_doraWindowDays dto) stored))))))))))))))"

definition firstFault :: "SettingsError option list \<Rightarrow> SettingsError option" where
  "firstFault checks = foldr orElse checks None"

definition settingsFault :: "UpdateSettingsDto \<Rightarrow> settings_table \<Rightarrow> SettingsError option" where
  "settingsFault dto stored = firstFault
     [assertInRange ''doraWindowDays'' (sd_doraWindowDays dto),
      assertInRange ''stalePrHours'' (sd_stalePrHours dto),
      assertInRange ''pageSize'' (sd_pageSize dto),
      assertInRange ''quotaReservePct'' (sd_quotaReservePct dto),
      assertInRange ''retentionMarginDays'' (sd_retentionMarginDays dto),
      assertInRange ''collectionPageCap'' (sd_collectionPageCap dto),
      assertValidCron (sd_collectCron dto),
      assertValidCron (sd_pruneCron dto),
      assertIncidentsConfigured dto stored]"

definition updateSettings :: "UpdateSettingsDto \<Rightarrow> settings_table \<Rightarrow> settings_table \<times> (SettingsError + AppSettings)" where
  "updateSettings dto stored =
     (case settingsFault dto stored of
        Some e \<Rightarrow> (stored, Inl e)
      | None \<Rightarrow> (writeEntries dto stored, Inr (getSettings (writeEntries dto stored))))"


section \<open>What is saved is what is read\<close>

lemma map_of_writeEntry:
  "map_of (writeEntry key shown v stored) k =
     (if k = key then (case v of None \<Rightarrow> map_of stored k | Some x \<Rightarrow> Some (case x of None \<Rightarrow> [] | Some y \<Rightarrow> shown y))
      else map_of stored k)"
  by (simp add: writeEntry_def update_conv' split: option.split)

lemma readNumber_showInt: "0 \<le> n \<Longrightarrow> readNumber (Some (showInt n)) fallback = of_int n"
proof -
  assume n: "0 \<le> n"
  have "list_all isDigit (showNat (nat n))" using showNat_isDigit by (simp add: list_all_iff)
  with n show ?thesis by (simp add: readNumber_def showInt_def jsNumber_digits)
qed

lemma readNumber_showWhole: "isWhole v \<Longrightarrow> 0 \<le> v \<Longrightarrow> readNumber (Some (showWhole v)) fallback = v"
  by (simp add: showWhole_def readNumber_showInt isWhole_def)

lemma readBoolean_showBool [simp]: "readBoolean (Some (showBool b)) fallback = b"
  by (simp add: readBoolean_def showBool_def)

lemma readFailureSource_show [simp]: "readFailureSource (Some (showFailureSource f)) = f"
  by (cases f) (simp_all add: readFailureSource_def showFailureSource_def FALLBACKS_def)

text \<open>The labels a list of texts spells once it is stored separated by commas: a text with a comma is
  as many labels, each is trimmed, and a blank one is none.\<close>

definition labelsSpelled :: "string list \<Rightarrow> string list" where
  "labelsSpelled labels =
     filter (\<lambda>l. l \<noteq> []) (map jsTrim (concat (map (splitOn (CHR '','')) labels)))"

lemma splitOn_apart: "splitOn d (s @ d # r) = splitOn d s @ splitOn d r"
proof (induction s)
  case (Cons c s)
  obtain w ws where "splitOn d s = w # ws" using splitOn_ne [of d s] by (cases "splitOn d s") auto
  with Cons show ?case by auto
qed simp

lemma splitOn_joined: "labels \<noteq> [] \<Longrightarrow> splitOn d (joinWith [d] labels) = concat (map (splitOn d) labels)"
  by (induction "[d]" labels rule: joinWith.induct) (simp_all add: splitOn_apart)

lemma readList_join: "readList (Some (joinWith '','' labels)) = labelsSpelled labels"
proof (cases "labels = []")
  case False
  then show ?thesis by (simp add: readList_def emptyOr_def labelsSpelled_def splitOn_joined)
qed (simp add: readList_def emptyOr_def jsTrim_def labelsSpelled_def)

lemma labelsSpelled_plain:
  "list_all (\<lambda>l. l \<noteq> [] \<and> jsTrim l = l \<and> CHR '','' \<notin> set l) labels \<Longrightarrow> labelsSpelled labels = labels"
  by (induction labels) (simp_all add: labelsSpelled_def splitOn_none)

text \<open>An update as its author means it: a field absent stays, null is the fallback.\<close>

definition overlaid :: "'a option option \<Rightarrow> ('a \<Rightarrow> 'b) \<Rightarrow> 'b \<Rightarrow> 'b \<Rightarrow> 'b" where
  "overlaid v f current fallback = (case v of None \<Rightarrow> current | Some None \<Rightarrow> fallback | Some (Some x) \<Rightarrow> f x)"

definition wordOf :: "string list \<Rightarrow> string \<Rightarrow> string \<Rightarrow> string" where
  "wordOf allowed fallback w = (if w \<in> set allowed then w else fallback)"

definition merged :: "UpdateSettingsDto \<Rightarrow> AppSettings \<Rightarrow> AppSettings" where
  "merged dto s =
     \<lparr>st_doraWindowDays = overlaid (sd_doraWindowDays dto) (\<lambda>n. n) (st_doraWindowDays s) 0,
      st_stalePrHours = overlaid (sd_stalePrHours dto) (\<lambda>n. n) (st_stalePrHours s) 0,
      st_collectCron = overlaid (sd_collectCron dto) (\<lambda>c. c) (st_collectCron s) [],
      st_pruneCron = overlaid (sd_pruneCron dto) (\<lambda>c. c) (st_pruneCron s) [],
      st_retentionMarginDays = overlaid (sd_retentionMarginDays dto) (\<lambda>n. n) (st_retentionMarginDays s) 0,
      st_pageSize = overlaid (sd_pageSize dto) (\<lambda>n. n) (st_pageSize s) 0,
      st_publicDashboard = overlaid (sd_publicDashboard dto) (\<lambda>b. b) (st_publicDashboard s) True,
      st_failureSource = overlaid (sd_failureSource dto) (\<lambda>f. f) (st_failureSource s) FromPipelines,
      st_incidentLabels = overlaid (sd_incidentLabels dto) labelsSpelled (st_incidentLabels s) [],
      st_quotaReservePct = overlaid (sd_quotaReservePct dto) (\<lambda>n. n) (st_quotaReservePct s) 0,
      st_componentAttribute = overlaid (sd_componentAttribute dto) (\<lambda>a. orNull (Some (jsTrim a))) (st_componentAttribute s) None,
      st_collectionPageCap = overlaid (sd_collectionPageCap dto) (\<lambda>n. n) (st_collectionPageCap s) 0,
      st_releaseNotesGenerator = overlaid (sd_releaseNotesGenerator dto) (wordOf RELEASE_NOTES_GENERATORS ''builtin'') (st_releaseNotesGenerator s) ''builtin'',
      st_overviewDirection = overlaid (sd_overviewDirection dto) (wordOf OVERVIEW_DIRECTIONS ''control'') (st_overviewDirection s) ''control'',
      st_displayMode = overlaid (sd_displayMode dto) (wordOf DISPLAY_MODES ''system'') (st_displayMode s) ''system''\<rparr>"

lemma firstFault_None: "firstFault checks = None \<longleftrightarrow> list_all (\<lambda>c. c = None) checks"
  by (induction checks) (simp_all add: firstFault_def orElse_eq_None)

lemma settingsFault_None:
  assumes "settingsFault dto stored = None"
  shows "assertInRange ''doraWindowDays'' (sd_doraWindowDays dto) = None"
    "assertInRange ''stalePrHours'' (sd_stalePrHours dto) = None"
    "assertInRange ''pageSize'' (sd_pageSize dto) = None"
    "assertInRange ''quotaReservePct'' (sd_quotaReservePct dto) = None"
    "assertInRange ''retentionMarginDays'' (sd_retentionMarginDays dto) = None"
    "assertInRange ''collectionPageCap'' (sd_collectionPageCap dto) = None"
    "assertValidCron (sd_collectCron dto) = None" "assertValidCron (sd_pruneCron dto) = None"
  using assms by (simp_all add: settingsFault_def firstFault_None)

lemma number_read:
  assumes "assertInRange key v = None" "map_of SETTING_LIMITS key = Some (lo, hi)" "0 \<le> lo"
  shows "readNumber (case v of None \<Rightarrow> raw | Some x \<Rightarrow> Some (case x of None \<Rightarrow> [] | Some y \<Rightarrow> showWhole y)) fallback =
    overlaid v (\<lambda>n. n) (readNumber raw fallback) 0"
proof -
  have "0 \<le> n" if "of_int lo \<le> n" for n :: rat using that assms(3) by (meson of_int_0_le_iff order_trans)
  with assms(1,2) show ?thesis
    by (auto simp: assertInRange_def overlaid_def readNumber_showWhole split: option.splits if_splits)
qed

lemma cron_read:
  "assertValidCron v = None \<Longrightarrow>
   readText (case v of None \<Rightarrow> raw | Some x \<Rightarrow> Some (case x of None \<Rightarrow> [] | Some y \<Rightarrow> y)) fallback =
     overlaid v (\<lambda>c. c) (readText raw fallback) []"
  by (auto simp: assertValidCron_def overlaid_def readText_def split: option.splits)

lemma oneOf_read:
  "[] \<notin> set allowed \<Longrightarrow>
   readOneOf (case v of None \<Rightarrow> raw | Some x \<Rightarrow> Some (case x of None \<Rightarrow> [] | Some y \<Rightarrow> y)) allowed fallback =
     overlaid v (wordOf allowed fallback) (readOneOf raw allowed fallback) fallback"
  by (auto simp: wordOf_def overlaid_def readOneOf_def split: option.splits)

lemma keys_apart:
  "map_of SETTING_LIMITS ''doraWindowDays'' = Some (1, 730)" "map_of SETTING_LIMITS ''stalePrHours'' = Some (1, 8760)"
  "map_of SETTING_LIMITS ''pageSize'' = Some (1, 200)" "map_of SETTING_LIMITS ''quotaReservePct'' = Some (0, 90)"
  "map_of SETTING_LIMITS ''retentionMarginDays'' = Some (0, 365)" "map_of SETTING_LIMITS ''collectionPageCap'' = Some (1, 100)"
  by (simp_all add: SETTING_LIMITS_def)

text \<open>C25. What is saved is what is read. An update that is accepted answers, and leaves to be read,
  the settings as they were with every field it carries replaced by what its value means and no
  other field touched, whatever the table held before. A number (whole and in its bounds, or the
  update is refused), a switch, a choice of failures and a schedule mean themselves; a name of an
  attribute is trimmed, and blank is none; a word out of its list is the fallback; the labels are
  split at their commas and trimmed, and the blank ones dropped, so those without comma or outer
  blanks read back as they were; null means the fallback.\<close>

theorem what_is_saved_is_what_is_read:
  assumes saved: "updateSettings dto stored = (stored', Inr settings)"
  shows "settings = merged dto (getSettings stored) \<and> getSettings stored' = settings"
proof -
  have none: "settingsFault dto stored = None" and st: "stored' = writeEntries dto stored" "settings = getSettings stored'"
    using saved by (auto simp: updateSettings_def split: option.splits)
  note checks = settingsFault_None [OF none]
  have labels: "readList (case sd_incidentLabels dto of None \<Rightarrow> raw | Some x \<Rightarrow> Some (case x of None \<Rightarrow> [] | Some y \<Rightarrow> joinWith '','' y)) =
      overlaid (sd_incidentLabels dto) labelsSpelled (readList raw) []" for raw
    using readList_join [of "[]"] by (simp add: overlaid_def readList_join labelsSpelled_def split: option.split)
  have switch: "readBoolean (case v of None \<Rightarrow> raw | Some x \<Rightarrow> Some (case x of None \<Rightarrow> [] | Some y \<Rightarrow> showBool y)) True =
      overlaid v (\<lambda>b. b) (readBoolean raw True) True" for v raw
    by (simp add: overlaid_def readBoolean_def showBool_def split: option.split)
  have source: "readFailureSource (case v of None \<Rightarrow> raw | Some x \<Rightarrow> Some (case x of None \<Rightarrow> [] | Some y \<Rightarrow> showFailureSource y)) =
      overlaid v (\<lambda>f. f) (readFailureSource raw) FromPipelines" for v raw
    using readFailureSource_show by (auto simp: overlaid_def readFailureSource_def [of "Some []"] FALLBACKS_def split: option.split)
  have attr: "readOptionalText (case v of None \<Rightarrow> raw | Some x \<Rightarrow> Some (case x of None \<Rightarrow> [] | Some y \<Rightarrow> y)) =
      overlaid v (\<lambda>a. orNull (Some (jsTrim a))) (readOptionalText raw) None" for v raw
    by (simp add: overlaid_def readOptionalText_def orNull_def jsTrim_def split: option.split)
  have nonempty: "[] \<notin> set RELEASE_NOTES_GENERATORS" "[] \<notin> set OVERVIEW_DIRECTIONS" "[] \<notin> set DISPLAY_MODES"
    by (simp_all add: RELEASE_NOTES_GENERATORS_def OVERVIEW_DIRECTIONS_def DISPLAY_MODES_def)
  have "getSettings (writeEntries dto stored) = merged dto (getSettings stored)"
    unfolding getSettings_def merged_def writeEntries_def
    by (simp add: map_of_writeEntry labels switch source attr
        number_read [OF checks(1) keys_apart(1)] number_read [OF checks(2) keys_apart(2)]
        number_read [OF checks(3) keys_apart(3)] number_read [OF checks(4) keys_apart(4)]
        number_read [OF checks(5) keys_apart(5)] number_read [OF checks(6) keys_apart(6)]
        cron_read [OF checks(7)] cron_read [OF checks(8)]
        oneOf_read [OF nonempty(1)] oneOf_read [OF nonempty(2)] oneOf_read [OF nonempty(3)]
        FALLBACKS_def)
  with st show ?thesis by simp
qed

definition untouched :: UpdateSettingsDto where
  "untouched = \<lparr>sd_doraWindowDays = None, sd_stalePrHours = None, sd_collectCron = None, sd_pruneCron = None,
     sd_retentionMarginDays = None, sd_pageSize = None, sd_publicDashboard = None, sd_failureSource = None,
     sd_incidentLabels = None, sd_quotaReservePct = None, sd_componentAttribute = None, sd_collectionPageCap = None,
     sd_releaseNotesGenerator = None, sd_overviewDirection = None, sd_displayMode = None\<rparr>"

definition sample_update :: UpdateSettingsDto where
  "sample_update = untouched\<lparr>sd_doraWindowDays := Some (Some 90), sd_failureSource := Some (Some FromBoth),
     sd_incidentLabels := Some (Some [''incident'', ''sev 1, sev 2 '', '' '']), sd_componentAttribute := Some None\<rparr>"

lemma untouched_range: "assertInRange key None = None" "assertValidCron None = None"
  by (simp_all add: assertInRange_def assertValidCron_def)

theorem what_is_saved_is_what_is_read_witness:
  "\<exists>stored' settings. updateSettings sample_update [] = (stored', Inr settings) \<and> st_doraWindowDays settings = 90 \<and>
     st_incidentLabels (getSettings stored') = [''incident'', ''sev 1'', ''sev 2''] \<and> st_failureSource settings = FromBoth \<and>
     st_pageSize settings = 10"
proof -
  have "settingsFault sample_update [] = None"
    by (simp add: settingsFault_def firstFault_None sample_update_def untouched_def untouched_range)
       (simp add: assertInRange_def isWhole_def keys_apart assertIncidentsConfigured_def)
  then obtain stored' settings where u: "updateSettings sample_update [] = (stored', Inr settings)"
    by (simp add: updateSettings_def)
  from what_is_saved_is_what_is_read [OF u] have
    m: "settings = merged sample_update (getSettings [])" "getSettings stored' = merged sample_update (getSettings [])" by simp_all
  have "st_doraWindowDays (merged sample_update (getSettings [])) = 90"
    "st_incidentLabels (merged sample_update (getSettings [])) = [''incident'', ''sev 1'', ''sev 2'']"
    "st_failureSource (merged sample_update (getSettings [])) = FromBoth"
    "st_pageSize (merged sample_update (getSettings [])) = 10"
    by (simp_all add: merged_def overlaid_def sample_update_def untouched_def getSettings_def readNumber_def FALLBACKS_def
        labelsSpelled_def jsTrim_def isSpace_def)
  with u m show ?thesis by auto
qed

section \<open>Whatever is saved, the settings stay settings\<close>

definition between :: "int \<Rightarrow> int \<Rightarrow> rat \<Rightarrow> bool" where
  "between lo hi v \<longleftrightarrow> (\<exists>n. v = of_int n \<and> lo \<le> n \<and> n \<le> hi)"

definition wellTyped :: "AppSettings \<Rightarrow> bool" where
  "wellTyped s \<longleftrightarrow>
     between 1 730 (st_doraWindowDays s) \<and> between 1 8760 (st_stalePrHours s) \<and> between 1 200 (st_pageSize s) \<and>
     between 0 90 (st_quotaReservePct s) \<and> between 0 365 (st_retentionMarginDays s) \<and>
     between 1 100 (st_collectionPageCap s) \<and> validCron (st_collectCron s) \<and> validCron (st_pruneCron s) \<and>
     st_releaseNotesGenerator s \<in> set RELEASE_NOTES_GENERATORS \<and> st_overviewDirection s \<in> set OVERVIEW_DIRECTIONS \<and>
     st_displayMode s \<in> set DISPLAY_MODES"

lemma between_overlaid:
  assumes "assertInRange key v = None" "map_of SETTING_LIMITS key = Some (lo, hi)" "between lo hi current"
  shows "between lo hi (overlaid v (\<lambda>n. n) current 0)"
proof (cases v)
  case (Some n)
  with assms(1,2) obtain x where x: "n = Some x" "isWhole x" "of_int lo \<le> x" "x \<le> of_int hi"
    by (auto simp: assertInRange_def split: option.splits if_splits)
  have "\<lfloor>x\<rfloor> \<le> hi" using floor_mono [OF x(4)] by simp
  moreover have "lo \<le> \<lfloor>x\<rfloor>" using x(3) by (simp add: le_floor_iff)
  moreover have "x = of_int \<lfloor>x\<rfloor>" using x(2) unfolding isWhole_def by (rule sym)
  ultimately have "between lo hi x" unfolding between_def by blast
  with Some x(1) show ?thesis by (simp add: overlaid_def)
qed (use assms(3) in \<open>simp add: overlaid_def\<close>)

lemma cron_overlaid:
  "assertValidCron v = None \<Longrightarrow> validCron current \<Longrightarrow> validCron (overlaid v (\<lambda>c. c) current [])"
  by (auto simp: assertValidCron_def overlaid_def split: option.splits if_splits)

lemma readOneOf_allowed: "fallback \<in> set allowed \<Longrightarrow> readOneOf raw allowed fallback \<in> set allowed"
  by (simp add: readOneOf_def split: option.split)

lemma fallbacks_allowed:
  "st_releaseNotesGenerator FALLBACKS \<in> set RELEASE_NOTES_GENERATORS"
  "st_overviewDirection FALLBACKS \<in> set OVERVIEW_DIRECTIONS" "st_displayMode FALLBACKS \<in> set DISPLAY_MODES"
  by (simp_all add: FALLBACKS_def RELEASE_NOTES_GENERATORS_def OVERVIEW_DIRECTIONS_def DISPLAY_MODES_def)

lemma wellTyped_step:
  assumes "wellTyped (getSettings stored)"
  shows "wellTyped (getSettings (fst (updateSettings dto stored)))"
proof (cases "settingsFault dto stored")
  case None
  note checks = settingsFault_None [OF None]
  let ?s = "getSettings stored" and ?s' = "getSettings (writeEntries dto stored)"
  have words: "st_releaseNotesGenerator (getSettings t) \<in> set RELEASE_NOTES_GENERATORS"
    "st_overviewDirection (getSettings t) \<in> set OVERVIEW_DIRECTIONS" "st_displayMode (getSettings t) \<in> set DISPLAY_MODES" for t
    using fallbacks_allowed by (simp_all add: getSettings_def readOneOf_allowed)
  have "st_doraWindowDays ?s' = overlaid (sd_doraWindowDays dto) (\<lambda>n. n) (st_doraWindowDays ?s) 0"
    "st_stalePrHours ?s' = overlaid (sd_stalePrHours dto) (\<lambda>n. n) (st_stalePrHours ?s) 0"
    "st_pageSize ?s' = overlaid (sd_pageSize dto) (\<lambda>n. n) (st_pageSize ?s) 0"
    "st_quotaReservePct ?s' = overlaid (sd_quotaReservePct dto) (\<lambda>n. n) (st_quotaReservePct ?s) 0"
    "st_retentionMarginDays ?s' = overlaid (sd_retentionMarginDays dto) (\<lambda>n. n) (st_retentionMarginDays ?s) 0"
    "st_collectionPageCap ?s' = overlaid (sd_collectionPageCap dto) (\<lambda>n. n) (st_collectionPageCap ?s) 0"
    "st_collectCron ?s' = overlaid (sd_collectCron dto) (\<lambda>c. c) (st_collectCron ?s) []"
    "st_pruneCron ?s' = overlaid (sd_pruneCron dto) (\<lambda>c. c) (st_pruneCron ?s) []"
    unfolding getSettings_def writeEntries_def
    by (simp_all add: map_of_writeEntry
        number_read [OF checks(1) keys_apart(1)] number_read [OF checks(2) keys_apart(2)]
        number_read [OF checks(3) keys_apart(3)] number_read [OF checks(4) keys_apart(4)]
        number_read [OF checks(5) keys_apart(5)] number_read [OF checks(6) keys_apart(6)]
        cron_read [OF checks(7)] cron_read [OF checks(8)])
  with assms words show ?thesis
    unfolding wellTyped_def updateSettings_def None option.case fst_conv
    by (simp add: between_overlaid [OF checks(1) keys_apart(1)] between_overlaid [OF checks(2) keys_apart(2)]
        between_overlaid [OF checks(3) keys_apart(3)] between_overlaid [OF checks(4) keys_apart(4)]
        between_overlaid [OF checks(5) keys_apart(5)] between_overlaid [OF checks(6) keys_apart(6)]
        cron_overlaid [OF checks(7)] cron_overlaid [OF checks(8)])
qed (use assms in \<open>simp add: updateSettings_def\<close>)

interpretation settings: run_invariant "\<lambda>dto stored. fst (updateSettings dto stored)" "\<lambda>_. True" "\<lambda>stored. wellTyped (getSettings stored)"
  by unfold_locales (rule wellTyped_step)

lemma wellTyped_fallbacks: "wellTyped (getSettings [])"
proof -
  have "validCron (st_collectCron FALLBACKS)" "validCron (st_pruneCron FALLBACKS)"
    by (simp_all add: FALLBACKS_def validCron_def jsTrim_def isSpace_def)
  moreover have "between lo hi (numeral k)" if "lo \<le> numeral k" "numeral k \<le> hi" for lo hi k
    unfolding between_def using that by (intro exI [of _ "numeral k"]) simp
  ultimately show ?thesis
    using fallbacks_allowed by (simp add: wellTyped_def getSettings_def readNumber_def readText_def readOneOf_def FALLBACKS_def)
qed

text \<open>C26. Whatever is saved, the settings stay settings. After any history of update requests on a fresh
  install, accepted or refused, with fields absent, null or of any value, every number read is a
  whole one within its bounds, both schedules have the shape of a cron pattern, and the generator,
  the direction and the mode are words of their closed lists.\<close>

theorem settings_stay_settings:
  "wellTyped (getSettings (fold (\<lambda>dto stored. fst (updateSettings dto stored)) requests []))"
  by (rule settings.run_kept [OF _ wellTyped_fallbacks]) (simp add: list_all_iff)

text \<open>
  Incidents need a label, and a blank one passes for one: it is counted when it is saved and dropped
  when it is read. So does null, which is checked as if the labels were kept and then clears them.
\<close>

theorem blank_labels_pass_for_labels:
  "(\<exists>stored. updateSettings (untouched\<lparr>sd_failureSource := Some (Some FromIncidents), sd_incidentLabels := Some (Some ['' ''])\<rparr>) [] =
      (stored, Inr (getSettings stored)) \<and> st_failureSource (getSettings stored) = FromIncidents \<and> st_incidentLabels (getSettings stored) = []) \<and>
   (\<exists>stored. updateSettings (untouched\<lparr>sd_incidentLabels := Some None\<rparr>)
       [(''failureSource'', ''incidents''), (''incidentLabels'', ''sev1'')] = (stored, Inr (getSettings stored)) \<and>
      st_failureSource (getSettings stored) = FromIncidents \<and> st_incidentLabels (getSettings stored) = [])"
  by (simp add: updateSettings_def settingsFault_def firstFault_None untouched_def untouched_range assertIncidentsConfigured_def
      writeEntries_def writeEntry_def getSettings_def readFailureSource_def readList_def emptyOr_def jsTrim_def isSpace_def
      showFailureSource_def firstFault_def)

end
