(* ===== verification/Rule_Engines.thy ===== *)
theory Rule_Engines
  imports Version_Target
begin

text \<open>
  The engines that apply an administrator's rules: the classification of an environment's name
  (\<open>env-rules/env-classifier.ts\<close>), the address it answers at (\<open>env-urls/env-url.ts\<close>) and the
  tickets a request refers to (\<open>ticket-rules/ticket-extractor.ts\<close>). Regular expressions are
  parameters, and so is what a plain object inherits under a name; an object or a \<open>Map\<close> built key by
  key is an association list.

  The theorems give each engine a specification that does not walk: the attribute of the first rule
  of the highest priority, an address that is whole or the platform's own, the first claim on each
  ticket.
\<close>

section \<open>Classification\<close>

datatype EnvRuleKind = SimpleRule | MetaRule

record EnvRule =
  er_name :: string
  er_pattern :: string
  er_kind :: EnvRuleKind
  er_priority :: int
  er_attributes :: dims
  er_repo :: "string option"

record ClassifiedEnvironment =
  ce_name :: string
  ce_attributes :: dims
  ce_metaEnvironments :: "string list"

record RegexEngine =
  rx_exec :: "string \<Rightarrow> string \<Rightarrow> regexAnswer"
  rx_all :: "string \<Rightarrow> string \<Rightarrow> (string \<times> string option) list option"
  rx_inherited :: "string \<Rightarrow> string option"

text \<open>\<open>safeRegExp(pattern)?.test(value) ?? false\<close>\<close>

definition rxTest :: "RegexEngine \<Rightarrow> string \<Rightarrow> string \<Rightarrow> bool" where
  "rxTest rx pattern v = (case rx_exec rx pattern v of Captured _ \<Rightarrow> True | _ \<Rightarrow> False)"

definition envRuleApplies :: "RegexEngine \<Rightarrow> EnvRule \<Rightarrow> string option \<Rightarrow> bool" where
  "envRuleApplies rx rule repo =
     (case orNull (er_repo rule) of
        None \<Rightarrow> True
      | Some pattern \<Rightarrow> (case repo of None \<Rightarrow> False | Some r \<Rightarrow> rxTest rx pattern r))"

text \<open>\<open>{ ...forced, ...captured }\<close>\<close>

definition contributed :: "dims \<Rightarrow> (string \<times> string option) list \<Rightarrow> dims" where
  "contributed forced groups =
     fold (\<lambda>(k, v) m. AList.update k v m) (List.map_filter (\<lambda>(k, v). map_option (Pair k) v) groups) forced"

type_synonym classifying = "dims \<times> (string, int) jsmap \<times> string list"

text \<open>
  One attribute of a rule: \<open>key in winningPriority\<close> also sees what every object inherits, and a
  number is never less than that.
\<close>

definition claimAttribute :: "RegexEngine \<Rightarrow> int \<Rightarrow> string \<times> string \<Rightarrow> dims \<times> (string, int) jsmap \<Rightarrow> dims \<times> (string, int) jsmap" where
  "claimAttribute rx priority kv st =
     (case kv of (key, v) \<Rightarrow> case st of (attributes, winning) \<Rightarrow>
       if (case map_of winning key of
             None \<Rightarrow> rx_inherited rx key = None
           | Some held \<Rightarrow> priority < held)
       then (AList.update key v attributes, AList.update key priority winning) else st)"

definition classifyStep :: "RegexEngine \<Rightarrow> string \<Rightarrow> string option \<Rightarrow> EnvRule \<Rightarrow> classifying \<Rightarrow> classifying" where
  "classifyStep rx name repo rule st =
     (if \<not> envRuleApplies rx rule repo then st
      else case rx_exec rx (er_pattern rule) name of
        Captured groups \<Rightarrow>
          (case st of (attributes, winning, metas) \<Rightarrow>
            if er_kind rule = MetaRule then (attributes, winning, metas @ [er_name rule])
            else
              (case fold (claimAttribute rx (er_priority rule)) (contributed (er_attributes rule) groups) (attributes, winning) of
                 (attributes', winning') \<Rightarrow> (attributes', winning', metas)))
      | _ \<Rightarrow> st)"

definition classifyEnvironment :: "RegexEngine \<Rightarrow> string \<Rightarrow> EnvRule list \<Rightarrow> string option \<Rightarrow> ClassifiedEnvironment" where
  "classifyEnvironment rx name rules repo =
     (case fold (classifyStep rx name repo) rules ([], [], []) of
        (attributes, winning, metas) \<Rightarrow>
          \<lparr>ce_name = name, ce_attributes = attributes, ce_metaEnvironments = sort (remdups metas)\<rparr>)"

section \<open>Placeholders\<close>

text \<open>\<open>\w\<close>, and \<open>template.replace(/\{(...+)\}/g, ...)\<close> with the names that had no value, in order.\<close>

definition wordChar :: "char \<Rightarrow> bool" where
  "wordChar c \<longleftrightarrow> nameChar c \<and> c \<notin> set ''.@-''"

function replacing :: "(char \<Rightarrow> bool) \<Rightarrow> (string \<Rightarrow> string option) \<Rightarrow> string \<Rightarrow> string \<times> string list" where
  "replacing ok lookup [] = ([], [])"
| "replacing ok lookup (c # s) =
     (let name = takeWhile ok s;
          rest = dropWhile ok s
      in if c = lbrace \<and> name \<noteq> [] \<and> rest \<noteq> [] \<and> hd rest = rbrace
         then (case replacing ok lookup (List.tl rest) of (u, missing) \<Rightarrow>
             (case lookup name of
                Some v \<Rightarrow> (v @ u, missing)
              | None \<Rightarrow> (lbrace # name @ [rbrace] @ u, name # missing)))
         else (case replacing ok lookup s of (u, missing) \<Rightarrow> (c # u, missing)))"
  by pat_completeness auto
termination
  by (relation "measure (\<lambda>(ok, lookup, s). length s)") (simp_all add: tail_shrinks')

declare replacing.simps(2) [simp del]

section \<open>Addresses of environments\<close>

datatype EnvUrlMode = Fill | Overwrite

record EnvUrlRule =
  eu_name :: string
  eu_pattern :: string
  eu_repo :: "string option"
  eu_urlTemplate :: string
  eu_mode :: EnvUrlMode
  eu_priority :: int

record ManualEnvironment =
  me'_repo :: string
  me'_environment :: string
  me'_url :: "string option"
  me'_mode :: EnvUrlMode

record EnvUrlResolution =
  re_url :: "string option"
  re_rule :: "string option"
  re_declared :: bool
  re_unresolved :: "string option"

definition declarationFor :: "ProbeSubject \<Rightarrow> ManualEnvironment list \<Rightarrow> ManualEnvironment option" where
  "declarationFor subject declared =
     (let named = filter (\<lambda>e. me'_environment e = ps_environment subject) declared
      in orElse (List.find (\<lambda>e. me'_repo e = ps_repo subject) named) (List.find (\<lambda>e. me'_repo e = []) named))"

definition urlRuleApplies :: "RegexEngine \<Rightarrow> EnvUrlRule \<Rightarrow> string \<Rightarrow> bool" where
  "urlRuleApplies rx rule repo =
     (case orNull (eu_repo rule) of None \<Rightarrow> True | Some pattern \<Rightarrow> repo \<noteq> [] \<and> rxTest rx pattern repo)"

definition ruleFor :: "RegexEngine \<Rightarrow> ProbeSubject \<Rightarrow> EnvUrlRule list \<Rightarrow> EnvUrlRule option" where
  "ruleFor rx subject rules =
     (case filter (\<lambda>r. rxTest rx (eu_pattern r) (ps_environment subject) \<and> urlRuleApplies rx r (ps_repo subject)) rules of
        [] \<Rightarrow> None
      | r # rest \<Rightarrow> Some (foldl (\<lambda>best r. if eu_priority r < eu_priority best then r else best) r rest))"

definition allowedFor :: "EnvUrlMode \<Rightarrow> string option \<Rightarrow> bool" where
  "allowedFor mode published \<longleftrightarrow> mode = Overwrite \<or> published = None"

definition fixedName :: "ProbeSubject \<Rightarrow> string \<Rightarrow> string option" where
  "fixedName subject name =
     (if name = ''environment'' then Some (ps_environment subject)
      else if name = ''repo'' then orNull (Some (ps_repo subject))
      else if name = ''ref'' then orNull (ps_ref subject) else None)"

definition renderValue :: "RegexEngine \<Rightarrow> ProbeSubject \<Rightarrow> (string \<times> string option) list \<Rightarrow> string \<Rightarrow> string option" where
  "renderValue rx subject groups name =
     (if prefix ''attr.'' name
      then orElse (map_of (ps_attributes subject) (drop 5 name)) (rx_inherited rx (drop 5 name))
      else orElse (Option.bind (map_of groups name) (\<lambda>v. v)) (orElse (fixedName subject name) (rx_inherited rx name)))"

definition render :: "RegexEngine \<Rightarrow> string \<Rightarrow> ProbeSubject \<Rightarrow> (string \<times> string option) list \<Rightarrow> string + string" where
  "render rx template subject groups =
     (case replacing nameChar (renderValue rx subject groups) template of
        (url, []) \<Rightarrow> Inr url
      | (_, name # _) \<Rightarrow> Inl name)"

definition resolveEnvUrl ::
  "RegexEngine \<Rightarrow> ProbeSubject \<Rightarrow> EnvUrlRule list \<Rightarrow> ManualEnvironment list \<Rightarrow> EnvUrlResolution" where
  "resolveEnvUrl rx subject rules declared =
     (let published = orNull (ps_environmentUrl subject);
          standing = \<lparr>re_url = published, re_rule = None, re_declared = False, re_unresolved = None\<rparr>;
          manual = Option.bind (declarationFor subject declared)
            (\<lambda>m. if allowedFor (me'_mode m) published then orNull (me'_url m) else None)
      in case manual of
        Some url \<Rightarrow> standing\<lparr>re_url := Some url, re_declared := True\<rparr>
      | None \<Rightarrow>
          (case ruleFor rx subject rules of
             None \<Rightarrow> standing
           | Some rule \<Rightarrow>
               if \<not> allowedFor (eu_mode rule) published then standing\<lparr>re_rule := Some (eu_name rule)\<rparr>
               else
                 (case render rx (eu_urlTemplate rule) subject
                    (case rx_exec rx (eu_pattern rule) (ps_environment subject) of Captured g \<Rightarrow> g | _ \<Rightarrow> []) of
                    Inr url \<Rightarrow> standing\<lparr>re_url := Some url, re_rule := Some (eu_name rule)\<rparr>
                  | Inl name \<Rightarrow> standing\<lparr>re_rule := Some (eu_name rule), re_unresolved := Some name\<rparr>)))"

definition environmentUrlFor :: "RegexEngine \<Rightarrow> ProbeSubject \<Rightarrow> EnvUrlRule list \<Rightarrow> ManualEnvironment list \<Rightarrow> string option" where
  "environmentUrlFor rx subject rules declared = re_url (resolveEnvUrl rx subject rules declared)"

section \<open>Tickets\<close>

record TicketRuleTracker =
  rt_tracker :: TicketRefTracker
  rt_baseUrl :: string
  rt_urlTemplate :: "string option"

record TicketRule =
  tr_name :: string
  tr_pattern :: string
  tr_sources :: "TicketSource list"
  tr_priority :: int
  tr_tracker :: TicketRuleTracker

type_synonym TicketTexts = "TicketSource \<Rightarrow> string option"

record TicketOrigin =
  to_owner :: string
  to_repo :: string

definition TICKET_SOURCES :: "TicketSource list" where
  "TICKET_SOURCES = [Branch, Title, Body, Commit]"

definition TRACKER_URL_TEMPLATES :: "TrackerKind \<Rightarrow> string" where
  "TRACKER_URL_TEMPLATES kind =
     (case kind of
        Jira \<Rightarrow> ''{base}/browse/{key}''
      | Linear \<Rightarrow> ''{base}/issue/{key}''
      | GithubTracker \<Rightarrow> ''{base}/{owner}/{repo}/issues/{key}''
      | GitlabTracker \<Rightarrow> ''{base}/{repo}/-/issues/{key}'')"

text \<open>\<open>baseUrl.replace(/\/$/, '')\<close>\<close>

definition stripOneSlash :: "string \<Rightarrow> string" where
  "stripOneSlash s = (if s \<noteq> [] \<and> List.last s = CHR ''/'' then butlast s else s)"

definition urlValue :: "RegexEngine \<Rightarrow> TicketRuleTracker \<Rightarrow> string \<Rightarrow> TicketOrigin option \<Rightarrow> string \<Rightarrow> string option" where
  "urlValue rx tracker key origin name =
     (if name = ''base'' then Some (stripOneSlash (rt_baseUrl tracker))
      else if name = ''key'' then Some (encodeURIComponent key)
      else if name = ''owner'' then map_option to_owner origin
      else if name = ''repo'' then map_option to_repo origin
      else rx_inherited rx name)"

definition buildUrl :: "RegexEngine \<Rightarrow> TicketRuleTracker \<Rightarrow> string \<Rightarrow> TicketOrigin option \<Rightarrow> string option" where
  "buildUrl rx tracker key origin =
     (let template = (case orNull (rt_urlTemplate tracker) of
            Some t \<Rightarrow> t | None \<Rightarrow> TRACKER_URL_TEMPLATES (trk_kind (rt_tracker tracker)))
      in case replacing wordChar (urlValue rx tracker key origin) template of
        (url, []) \<Rightarrow> Some url
      | _ \<Rightarrow> None)"

text \<open>The key of a match: its \<open>key\<close> group, or the whole of it; an empty key is none.\<close>

definition matchKey :: "string \<times> string option \<Rightarrow> string" where
  "matchKey match = (case snd match of Some k \<Rightarrow> k | None \<Rightarrow> fst match)"

definition ticketOf :: "RegexEngine \<Rightarrow> TicketRule \<Rightarrow> string \<Rightarrow> TicketSource \<Rightarrow> TicketOrigin option \<Rightarrow> TicketRef" where
  "ticketOf rx rule key source origin =
     \<lparr>tk_key = key, tk_url = orNull (buildUrl rx (tr_tracker rule) key origin), tk_foundIn = source,
      tk_tracker = rt_tracker (tr_tracker rule)\<rparr>"

definition noteMatch ::
  "RegexEngine \<Rightarrow> TicketOrigin option \<Rightarrow> TicketRule \<Rightarrow> TicketSource \<Rightarrow> string \<times> string option \<Rightarrow>
   (string, TicketRef \<times> int) jsmap \<Rightarrow> (string, TicketRef \<times> int) jsmap" where
  "noteMatch rx origin rule source match found =
     (let key = matchKey match in
      if key = [] then found
      else case map_of found key of
        Some (_, priority) \<Rightarrow>
          if priority \<le> tr_priority rule then found
          else AList.update key (ticketOf rx rule key source origin, tr_priority rule) found
      | None \<Rightarrow> AList.update key (ticketOf rx rule key source origin, tr_priority rule) found)"

definition extractTickets :: "RegexEngine \<Rightarrow> TicketTexts \<Rightarrow> TicketRule list \<Rightarrow> TicketOrigin option \<Rightarrow> TicketRef list" where
  "extractTickets rx texts rules origin =
     map (fst \<circ> snd)
       (fold (\<lambda>rule found.
          fold (\<lambda>source found.
            if source \<notin> set (tr_sources rule) then found
            else case orNull (texts source) of
              None \<Rightarrow> found
            | Some txt \<Rightarrow>
                (case rx_all rx (tr_pattern rule) txt of
                   None \<Rightarrow> found
                 | Some hits \<Rightarrow> fold (noteMatch rx origin rule source) hits found)) TICKET_SOURCES found)
        (sort_key tr_priority rules) [])"


section \<open>An attribute comes from the first of its best rules\<close>

definition leastFirst :: "(int \<times> 'v) list \<Rightarrow> (int \<times> 'v) option" where
  "leastFirst cs = List.find (\<lambda>c. list_all (\<lambda>d. fst c \<le> fst d) cs) cs"

lemma leastFirst_Nil [simp]: "leastFirst [] = None"
  by (simp add: leastFirst_def)

lemma least_exists: "cs \<noteq> [] \<Longrightarrow> \<exists>c \<in> set cs. list_all (\<lambda>d. fst c \<le> (fst d :: int)) cs"
proof (induction cs)
  case (Cons a cs)
  show ?case
  proof (cases "cs = []")
    case False
    with Cons obtain c where "c \<in> set cs" "list_all (\<lambda>d. fst c \<le> fst d) cs" by blast
    then show ?thesis
      by (cases "fst a \<le> fst c") (auto simp: list_all_iff intro!: bexI [of _ c])
  qed simp
qed simp

lemma leastFirst_snoc:
  "leastFirst (cs @ [c]) =
     (case leastFirst cs of None \<Rightarrow> Some c | Some b \<Rightarrow> if fst c < fst b then Some c else Some b)"
proof (cases "cs = []")
  case True
  then show ?thesis by (simp add: leastFirst_def)
next
  case False
  have find_cong': "(\<And>x. x \<in> set xs \<Longrightarrow> P x = Q x) \<Longrightarrow> List.find P xs = List.find Q xs" for P Q :: "int \<times> 'a \<Rightarrow> bool" and xs
    by (induction xs) auto
  have find_app: "List.find P (xs @ ys) = (case List.find P xs of None \<Rightarrow> List.find P ys | Some x \<Rightarrow> Some x)"
    for P :: "int \<times> 'a \<Rightarrow> bool" and xs ys by (induction xs) auto
  obtain b where b: "leastFirst cs = Some b"
    using least_exists [OF False] by (cases "leastFirst cs") (auto simp: leastFirst_def find_None_iff)
  then have least: "b \<in> set cs" "list_all (\<lambda>d. fst b \<le> fst d) cs"
    by (auto simp: leastFirst_def find_Some_iff)
  show ?thesis
  proof (cases "fst c < fst b")
    case True
    have "List.find (\<lambda>x. list_all (\<lambda>d. fst x \<le> fst d) (cs @ [c])) cs = None"
      using least True by (auto simp: find_None_iff list_all_iff)
    moreover have "list_all (\<lambda>d. fst c \<le> fst d) (cs @ [c])" using least True by (auto simp: list_all_iff)
    ultimately show ?thesis using b True by (simp add: leastFirst_def find_app)
  next
    case False
    have "List.find (\<lambda>x. list_all (\<lambda>d. fst x \<le> fst d) (cs @ [c])) cs = List.find (\<lambda>x. list_all (\<lambda>d. fst x \<le> fst d) cs) cs"
      using least False by (intro find_cong') (auto simp: list_all_iff)
    with b False show ?thesis by (simp add: leastFirst_def find_app)
  qed
qed

text \<open>What the walk holds of one key.\<close>

definition holds :: "string \<Rightarrow> (int \<times> string) option \<Rightarrow> dims \<Rightarrow> (string, int) jsmap \<Rightarrow> bool" where
  "holds key b attributes winning \<longleftrightarrow>
     map_of attributes key = map_option snd b \<and> map_of winning key = map_option fst b"

definition better :: "int \<times> string \<Rightarrow> (int \<times> string) option \<Rightarrow> (int \<times> string) option" where
  "better c b = (case b of None \<Rightarrow> Some c | Some d \<Rightarrow> if fst c < fst d then Some c else Some d)"

text \<open>A name every object inherits is held by nothing, and is never claimed.\<close>

lemma claims_inherited:
  "rx_inherited rx key \<noteq> None \<Longrightarrow> holds key None attributes winning \<Longrightarrow>
   fold (claimAttribute rx p) kvs (attributes, winning) = (a', w') \<Longrightarrow> holds key None a' w'"
proof (induction kvs arbitrary: attributes winning)
  case (Cons kv kvs)
  obtain k v where kv: "kv = (k, v)" by fastforce
  obtain a1 w1 where st: "claimAttribute rx p kv (attributes, winning) = (a1, w1)" by fastforce
  have "holds key None a1 w1"
    using st Cons.prems(1,2)
    by (cases "k = key") (auto simp: kv claimAttribute_def holds_def update_conv' split: option.splits if_splits)
  with Cons st show ?case by simp
qed simp

lemma claims_held:
  assumes "rx_inherited rx key = None"
  shows "holds key b attributes winning \<Longrightarrow> fold (claimAttribute rx p) kvs (attributes, winning) = (a', w') \<Longrightarrow>
    holds key (case map_of kvs key of None \<Rightarrow> b | Some v \<Rightarrow> better (p, v) b) a' w'"
proof (induction kvs arbitrary: attributes winning b)
  case (Cons kv kvs)
  obtain k v where kv: "kv = (k, v)" by fastforce
  obtain a1 w1 where st: "claimAttribute rx p kv (attributes, winning) = (a1, w1)" by fastforce
  have h1: "holds key (if k = key then better (p, v) b else b) a1 w1"
    using st Cons.prems(1) assms
    by (cases b) (auto simp: kv claimAttribute_def holds_def better_def update_conv' split: option.splits if_splits)
  have twice: "(case map_of kvs key of None \<Rightarrow> better (p, v) b | Some v' \<Rightarrow> better (p, v') (better (p, v) b)) = better (p, v) b"
    by (cases b) (auto simp: better_def split: option.split)
  from Cons.IH [OF h1] Cons.prems(2) st twice kv show ?case
    by (cases "k = key") (auto split: option.splits)
qed simp

text \<open>The claims the rules lay on one key, in the order of the rules.\<close>

definition claimOf :: "RegexEngine \<Rightarrow> string \<Rightarrow> string option \<Rightarrow> string \<Rightarrow> EnvRule \<Rightarrow> (int \<times> string) option" where
  "claimOf rx name repo key rule =
     (case rx_exec rx (er_pattern rule) name of
        Captured groups \<Rightarrow>
          if envRuleApplies rx rule repo \<and> er_kind rule = SimpleRule
          then map_option (Pair (er_priority rule)) (map_of (contributed (er_attributes rule) groups) key) else None
      | _ \<Rightarrow> None)"

definition joins :: "RegexEngine \<Rightarrow> string \<Rightarrow> string option \<Rightarrow> EnvRule \<Rightarrow> bool" where
  "joins rx name repo rule \<longleftrightarrow>
     er_kind rule = MetaRule \<and> envRuleApplies rx rule repo \<and> rxTest rx (er_pattern rule) name"

definition deciding :: "RegexEngine \<Rightarrow> string \<Rightarrow> string option \<Rightarrow> string \<Rightarrow> EnvRule list \<Rightarrow> (int \<times> string) option" where
  "deciding rx name repo key rules =
     (if rx_inherited rx key = None then leastFirst (List.map_filter (claimOf rx name repo key) rules) else None)"

lemma classify_fold:
  assumes "fold (classifyStep rx name repo) rules ([], [], []) = (a, w, metas)"
  shows "holds key (deciding rx name repo key rules) a w \<and>
    metas = map er_name (filter (joins rx name repo) rules)"
  using assms
proof (induction rules arbitrary: a w metas rule: rev_induct)
  case Nil
  then show ?case by (simp add: holds_def deciding_def map_filter_simps)
next
  case (snoc rule rules)
  obtain a0 w0 m0 where st: "fold (classifyStep rx name repo) rules ([], [], []) = (a0, w0, m0)" by (metis prod_cases3)
  from snoc.IH [OF st] have h: "holds key (deciding rx name repo key rules) a0 w0"
    and m: "m0 = map er_name (filter (joins rx name repo) rules)" by auto
  from snoc.prems st have s: "classifyStep rx name repo rule (a0, w0, m0) = (a, w, metas)" by simp
  let ?cs = "List.map_filter (claimOf rx name repo key) rules"
  have cs: "List.map_filter (claimOf rx name repo key) (rules @ [rule]) =
      (case claimOf rx name repo key rule of None \<Rightarrow> ?cs | Some c \<Rightarrow> ?cs @ [c])"
    by (simp add: map_filter_def split: option.split)
  show ?case
  proof (cases "envRuleApplies rx rule repo \<and> (\<exists>g. rx_exec rx (er_pattern rule) name = Captured g)")
    case False
    then have "claimOf rx name repo key rule = None" "\<not> joins rx name repo rule" "(a, w, metas) = (a0, w0, m0)"
      using s by (auto simp: claimOf_def joins_def rxTest_def classifyStep_def split: regexAnswer.splits)
    with h m cs show ?thesis by (auto simp: deciding_def split: if_splits)
  next
    case True
    then obtain g where g: "envRuleApplies rx rule repo" "rx_exec rx (er_pattern rule) name = Captured g" by blast
    show ?thesis
    proof (cases "er_kind rule")
      case MetaRule
      with g s have "a = a0" "w = w0" "metas = m0 @ [er_name rule]" by (auto simp: classifyStep_def)
      moreover have "claimOf rx name repo key rule = None" "joins rx name repo rule"
        using g MetaRule by (simp_all add: claimOf_def joins_def rxTest_def)
      ultimately show ?thesis using h m cs by (auto simp: deciding_def split: if_splits)
    next
      case SimpleRule
      with g s have f: "fold (claimAttribute rx (er_priority rule)) (contributed (er_attributes rule) g) (a0, w0) = (a, w)" "metas = m0"
        by (auto simp: classifyStep_def split: prod.splits)
      have c: "claimOf rx name repo key rule = map_option (Pair (er_priority rule)) (map_of (contributed (er_attributes rule) g) key)"
        "\<not> joins rx name repo rule" using g SimpleRule by (simp_all add: claimOf_def joins_def)
      show ?thesis
      proof (cases "rx_inherited rx key")
        case None
        from claims_held [OF None h f(1)] c f(2) m cs None show ?thesis
          by (auto simp: deciding_def leastFirst_snoc better_def split: option.splits)
      next
        case (Some inherited)
        from claims_inherited [of rx key, OF _ _ f(1)] h c f(2) m Some show ?thesis
          by (simp add: deciding_def)
      qed
    qed
  qed
qed

text \<open>C27. A classification is decided by priorities, not by the order things are written in. The value
  of an attribute is the one claimed by the first of the rules of the lowest priority number among
  those that match the name, apply to the repository and state it, captured rather than forced
  where a rule does both; only an attribute with the name of a member every object inherits
  (constructor, toString) gets no value, whatever the rules state, since \<open>key in winningPriority\<close>
  takes that member for a priority. The meta-environments are exactly the names of the meta rules
  that match, once each and sorted.\<close>

theorem an_attribute_comes_from_its_best_rule:
  "map_of (ce_attributes (classifyEnvironment rx name rules repo)) key =
      (if rx_inherited rx key = None
       then map_option snd (leastFirst (List.map_filter (claimOf rx name repo key) rules)) else None) \<and>
    set (ce_metaEnvironments (classifyEnvironment rx name rules repo)) = er_name ` {r \<in> set rules. joins rx name repo r} \<and>
    sorted (ce_metaEnvironments (classifyEnvironment rx name rules repo)) \<and>
    distinct (ce_metaEnvironments (classifyEnvironment rx name rules repo))"
proof -
  obtain a w metas where f: "fold (classifyStep rx name repo) rules ([], [], []) = (a, w, metas)" by (metis prod_cases3)
  from classify_fold [OF f, of key] show ?thesis
    by (auto simp: classifyEnvironment_def f holds_def deciding_def)
qed

definition sample_regex :: RegexEngine where
  "sample_regex = \<lparr>rx_exec = (\<lambda>p s. if p = s then Captured [(''stage'', Some p)] else NoMatch),
     rx_all = (\<lambda>p s. Some (if p = s then [(p, None), (p, None)] else [])), rx_inherited = (\<lambda>_. None)\<rparr>"

theorem an_attribute_comes_from_its_best_rule_witness:
  "map_of (ce_attributes (classifyEnvironment sample_regex ''prod''
     [\<lparr>er_name = ''late'', er_pattern = ''prod'', er_kind = SimpleRule, er_priority = 5, er_attributes = [], er_repo = None\<rparr>,
      \<lparr>er_name = ''best'', er_pattern = ''prod'', er_kind = SimpleRule, er_priority = 1, er_attributes = [(''tier'', ''1'')], er_repo = None\<rparr>,
      \<lparr>er_name = ''last'', er_pattern = ''prod'', er_kind = SimpleRule, er_priority = 1, er_attributes = [(''tier'', ''2'')], er_repo = None\<rparr>]
     None)) ''tier'' = Some ''1''"
  by (subst an_attribute_comes_from_its_best_rule [THEN conjunct1])
     (simp_all add: sample_regex_def map_filter_simps claimOf_def contributed_def envRuleApplies_def orNull_def leastFirst_def)

section \<open>An address is whole, or the platform's own\<close>

lemma foldl_least:
  "foldl (\<lambda>best r. if eu_priority r < eu_priority best then r else best) b rs \<in> set (b # rs) \<and>
   (\<forall>r \<in> set (b # rs). eu_priority (foldl (\<lambda>best r. if eu_priority r < eu_priority best then r else best) b rs) \<le> eu_priority r)"
proof (induction rs arbitrary: b)
  case (Cons r rs)
  show ?case using Cons [of "if eu_priority r < eu_priority b then r else b"] by (auto split: if_splits)
qed simp

definition claimsUrl :: "RegexEngine \<Rightarrow> ProbeSubject \<Rightarrow> EnvUrlRule \<Rightarrow> bool" where
  "claimsUrl rx subject r \<longleftrightarrow> rxTest rx (eu_pattern r) (ps_environment subject) \<and> urlRuleApplies rx r (ps_repo subject)"

lemma ruleFor_Some:
  assumes "ruleFor rx subject rules = Some rule"
  shows "rule \<in> set rules" "claimsUrl rx subject rule"
    "\<forall>r \<in> set rules. claimsUrl rx subject r \<longrightarrow> eu_priority rule \<le> eu_priority r"
proof -
  obtain b rs where f: "filter (claimsUrl rx subject) rules = b # rs"
    "rule = foldl (\<lambda>best r. if eu_priority r < eu_priority best then r else best) b rs"
    using assms by (auto simp: ruleFor_def claimsUrl_def [abs_def] split: list.splits)
  have "set (b # rs) = {r \<in> set rules. claimsUrl rx subject r}" unfolding f(1) [symmetric] by auto
  with foldl_least [of b rs] f(2) show "rule \<in> set rules" "claimsUrl rx subject rule"
    "\<forall>r \<in> set rules. claimsUrl rx subject r \<longrightarrow> eu_priority rule \<le> eu_priority r" by blast+
qed

lemma find_member: "List.find P xs = Some x \<Longrightarrow> x \<in> set xs \<and> P x"
  by (auto simp: find_Some_iff)

lemma declarationFor_Some:
  "declarationFor subject declared = Some m \<Longrightarrow>
   m \<in> set declared \<and> me'_environment m = ps_environment subject \<and> me'_repo m \<in> {ps_repo subject, []}"
  by (auto simp: declarationFor_def Let_def orElse_Some_iff dest: find_member)

text \<open>An address is whole, or the platform's own. Where it is not what the platform published, either
  a declaration for that environment and its repository (or none) states it; or a rule of the
  lowest priority among those that claim the environment renders it, every placeholder having a
  value; and where the platform published something, only an \<open>overwrite\<close> displaces it. A template
  with a hole leaves the platform's address and names its first hole.\<close>

theorem an_address_is_whole_or_the_platforms:
  assumes "resolveEnvUrl rx subject rules declared = res"
    and "published = orNull (ps_environmentUrl subject)"
  shows "(re_url res = published \<or>
      (\<exists>m \<in> set declared. me'_environment m = ps_environment subject \<and> me'_repo m \<in> {ps_repo subject, []} \<and>
        re_url res = me'_url m \<and> allowedFor (me'_mode m) published) \<or>
      (\<exists>rule \<in> set rules. claimsUrl rx subject rule \<and> (\<forall>r \<in> set rules. claimsUrl rx subject r \<longrightarrow> eu_priority rule \<le> eu_priority r) \<and>
        allowedFor (eu_mode rule) published \<and>
        (\<exists>groups url. re_url res = Some url \<and> replacing nameChar (renderValue rx subject groups) (eu_urlTemplate rule) = (url, [])))) \<and>
    (re_unresolved res \<noteq> None \<longrightarrow> re_url res = published)"
proof -
  have null: "orNull v = Some u \<Longrightarrow> v = Some u" for v u by (auto simp: orNull_def split: option.splits if_splits)
  let ?manual = "Option.bind (declarationFor subject declared) (\<lambda>m. if allowedFor (me'_mode m) published then orNull (me'_url m) else None)"
  show ?thesis
  proof (cases ?manual)
    case (Some url)
    then obtain m where m: "declarationFor subject declared = Some m" "allowedFor (me'_mode m) published" "me'_url m = Some url"
      by (auto simp: bind_eq_Some_conv split: if_splits dest: null)
    from assms Some have "re_url res = Some url" "re_unresolved res = None" by (auto simp: resolveEnvUrl_def Let_def)
    with m declarationFor_Some [OF m(1)] show ?thesis by auto
  next
    case None
    show ?thesis
    proof (cases "ruleFor rx subject rules")
      case no: None
      with None assms show ?thesis by (auto simp: resolveEnvUrl_def Let_def)
    next
      case (Some rule)
      note rule = ruleFor_Some [OF Some]
      let ?groups = "case rx_exec rx (eu_pattern rule) (ps_environment subject) of Captured g \<Rightarrow> g | _ \<Rightarrow> []"
      show ?thesis
      proof (cases "allowedFor (eu_mode rule) published")
        case False
        with None Some assms show ?thesis by (auto simp: resolveEnvUrl_def Let_def)
      next
        case True
        obtain url holes where r: "replacing nameChar (renderValue rx subject ?groups) (eu_urlTemplate rule) = (url, holes)" by fastforce
        show ?thesis
        proof (cases holes)
          case Nil
          with None Some True assms r have "re_url res = Some url" "re_unresolved res = None"
            by (auto simp: resolveEnvUrl_def Let_def render_def)
          with rule True r Nil show ?thesis by auto
        next
          case (Cons name rest)
          with None Some True assms r have "re_url res = published"
            by (auto simp: resolveEnvUrl_def Let_def render_def)
          then show ?thesis by simp
        qed
      qed
    qed
  qed
qed

section \<open>A ticket goes to its first best claim\<close>

type_synonym ticketClaim = "TicketRule \<times> TicketSource \<times> (string \<times> string option)"

text \<open>Every match of every rule in the texts it reads, in the order they are walked.\<close>

definition ticketClaims :: "RegexEngine \<Rightarrow> TicketTexts \<Rightarrow> TicketRule \<Rightarrow> ticketClaim list" where
  "ticketClaims rx texts rule =
     concat (map (\<lambda>source.
       if source \<notin> set (tr_sources rule) then []
       else case orNull (texts source) of
         None \<Rightarrow> []
       | Some txt \<Rightarrow> map (\<lambda>m. (rule, source, m)) (case rx_all rx (tr_pattern rule) txt of None \<Rightarrow> [] | Some ms \<Rightarrow> ms)) TICKET_SOURCES)"

definition noteClaim :: "RegexEngine \<Rightarrow> TicketOrigin option \<Rightarrow> ticketClaim \<Rightarrow> (string, TicketRef \<times> int) jsmap \<Rightarrow> (string, TicketRef \<times> int) jsmap" where
  "noteClaim rx origin c found = (case c of (rule, source, m) \<Rightarrow> noteMatch rx origin rule source m found)"

lemma fold_concat_map: "fold f (concat (map g xs)) s = fold (\<lambda>x. fold f (g x)) xs s"
  by (induction xs arbitrary: s) simp_all

lemma extractTickets_claims:
  "extractTickets rx texts rules origin =
     map (fst \<circ> snd) (fold (noteClaim rx origin) (concat (map (ticketClaims rx texts) (sort_key tr_priority rules))) [])"
proof -
  have one: "fold (noteClaim rx origin) (map (\<lambda>m. (rule, source, m)) ms) found = fold (noteMatch rx origin rule source) ms found" for rule source ms found
    by (induction ms arbitrary: found) (simp_all add: noteClaim_def)
  have src: "fold (noteClaim rx origin) (if source \<notin> set (tr_sources rule) then []
       else case orNull (texts source) of None \<Rightarrow> []
       | Some txt \<Rightarrow> map (\<lambda>m. (rule, source, m)) (case rx_all rx (tr_pattern rule) txt of None \<Rightarrow> [] | Some ms \<Rightarrow> ms)) found =
    (if source \<notin> set (tr_sources rule) then found
            else case orNull (texts source) of
              None \<Rightarrow> found
            | Some txt \<Rightarrow>
                (case rx_all rx (tr_pattern rule) txt of
                   None \<Rightarrow> found
                 | Some hits \<Rightarrow> fold (noteMatch rx origin rule source) hits found))" for source rule found
    by (simp add: one split: option.split)
  show ?thesis
    unfolding extractTickets_def fold_concat_map ticketClaims_def src by (simp add: fun_eq_iff)
qed

primrec firsts :: "string set \<Rightarrow> ticketClaim list \<Rightarrow> ticketClaim list" where
  "firsts seen [] = []"
| "firsts seen (c # cs) =
     (let key = matchKey (snd (snd c)) in
      if key = [] \<or> key \<in> seen then firsts seen cs else c # firsts (insert key seen) cs)"

definition claimRef :: "RegexEngine \<Rightarrow> TicketOrigin option \<Rightarrow> ticketClaim \<Rightarrow> TicketRef" where
  "claimRef rx origin c = ticketOf rx (fst c) (matchKey (snd (snd c))) (fst (snd c)) origin"

lemma update_append: "map_of m k = None \<Longrightarrow> AList.update k v m = m @ [(k, v)]"
  by (induction m) (auto split: if_splits)

lemma fold_noteClaim:
  assumes "sorted (map (tr_priority \<circ> fst) cls)" "\<forall>e \<in> set found. list_all (\<lambda>c. snd (snd e) \<le> tr_priority (fst c)) cls"
  shows "fold (noteClaim rx origin) cls found =
    found @ map (\<lambda>c. (matchKey (snd (snd c)), claimRef rx origin c, tr_priority (fst c))) (firsts (fst ` set found) cls)"
  using assms
proof (induction cls arbitrary: found)
  case (Cons c cls)
  obtain rule source m where c: "c = (rule, source, m)" by (metis prod_cases3)
  let ?key = "matchKey m"
  show ?case
  proof (cases "?key = [] \<or> ?key \<in> fst ` set found")
    case True
    have "noteClaim rx origin c found = found"
    proof (cases "?key = []")
      case False
      with True obtain ref p where "map_of found ?key = Some (ref, p)"
        by (cases "map_of found ?key") (auto simp: map_of_eq_None_iff)
      moreover from map_of_SomeD [OF this] Cons.prems(2) c have "p \<le> tr_priority rule" by force
      ultimately show ?thesis using False by (simp add: noteClaim_def noteMatch_def c Let_def)
    qed (simp add: noteClaim_def noteMatch_def c)
    with Cons.IH [of found] Cons.prems True c show ?thesis by auto
  next
    case False
    let ?e = "(?key, claimRef rx origin c, tr_priority rule)"
    have "map_of found ?key = None" using False by (simp add: map_of_eq_None_iff)
    with False have n: "noteClaim rx origin c found = found @ [?e]"
      by (simp add: noteClaim_def noteMatch_def c Let_def update_append claimRef_def)
    have "\<forall>e \<in> set (found @ [?e]). list_all (\<lambda>d. snd (snd e) \<le> tr_priority (fst d)) cls"
      using Cons.prems c by (auto simp: list_all_iff)
    from Cons.IH [OF _ this] Cons.prems(1) n False c show ?thesis by (simp add: Let_def)
  qed
qed simp

text \<open>What the firsts of a run of claims are.\<close>

lemma firsts_spec:
  "distinct (map (\<lambda>c. matchKey (snd (snd c))) (firsts seen cls)) \<and>
   (\<lambda>c. matchKey (snd (snd c))) ` set (firsts seen cls) = (\<lambda>c. matchKey (snd (snd c))) ` set cls - insert [] seen"
proof (induction cls arbitrary: seen)
  case (Cons c cls)
  show ?case
    using Cons [of seen] Cons [of "insert (matchKey (snd (snd c))) seen"] by (auto simp: Let_def)
qed simp

lemma firsts_member: "c \<in> set (firsts s cs) \<Longrightarrow> c \<in> set cs"
  by (induction cs arbitrary: s) (auto simp: Let_def split: if_splits)

lemma firsts_least:
  assumes "sorted (map (tr_priority \<circ> fst) cls)" "c \<in> set (firsts seen cls)"
    and "d \<in> set cls" "matchKey (snd (snd d)) = matchKey (snd (snd c))"
  shows "c \<in> set cls \<and> tr_priority (fst c) \<le> tr_priority (fst d)"
  using assms
proof (induction cls arbitrary: seen)
  case (Cons e cls)
  let ?k = "\<lambda>c. matchKey (snd (snd c))"
  show ?case
  proof (cases "?k e = [] \<or> ?k e \<in> seen")
    case True
    have notin: "?k c \<notin> seen \<and> ?k c \<noteq> []"
      using Cons.prems(2) firsts_spec [of seen "e # cls"] by blast
    with True Cons.prems have "d \<noteq> e" by auto
    with Cons.prems True show ?thesis using Cons.IH [of seen] by auto
  next
    case False
    show ?thesis
    proof (cases "c = e")
      case True
      with Cons.prems(1,3) show ?thesis by auto
    next
      case c: False
      with False Cons.prems(2) have cin: "c \<in> set (firsts (insert (?k e) seen) cls)" by (auto simp: Let_def)
      then have "?k c \<noteq> ?k e" using firsts_spec [of "insert (?k e) seen" cls] by blast
      with Cons.prems(3,4) have "d \<in> set cls" by auto
      from Cons.IH [OF _ cin this Cons.prems(4)] Cons.prems(1) show ?thesis by auto
    qed
  qed
qed simp

lemma ticketClaims_rule: "c \<in> set (ticketClaims rx texts rule) \<Longrightarrow> fst c = rule"
  by (auto simp: ticketClaims_def split: option.splits)

lemma sorted_claims: "sorted (map (tr_priority \<circ> fst) (concat (map (ticketClaims rx texts) (sort_key tr_priority rules))))"
proof -
  have "sorted (map tr_priority rs) \<Longrightarrow> sorted (map (tr_priority \<circ> fst) (concat (map (ticketClaims rx texts) rs)))" for rs
  proof (induction rs)
    case (Cons r rs)
    have same: "tr_priority (fst c) = tr_priority r" if "c \<in> set (ticketClaims rx texts r)" for c
      using ticketClaims_rule [OF that] by simp
    then have "map (tr_priority \<circ> fst) (ticketClaims rx texts r) = replicate (length (ticketClaims rx texts r)) (tr_priority r)"
      by (simp add: map_replicate_const [symmetric])
    then have "sorted (map (tr_priority \<circ> fst) (ticketClaims rx texts r))"
      by (simp only: sorted_replicate)
    moreover have "tr_priority r \<le> tr_priority (fst c)" if "c \<in> set (concat (map (ticketClaims rx texts) rs))" for c
      using that Cons.prems ticketClaims_rule by fastforce
    moreover have "sorted (map (tr_priority \<circ> fst) (concat (map (ticketClaims rx texts) rs)))"
      using Cons by (simp add: comp_def)
    ultimately show ?case
      unfolding list.map(2) concat.simps(2) map_append sorted_append by (fastforce simp add: same)
  qed simp
  then show ?thesis by simp
qed

text \<open>A ticket goes to its first best claim. The references found in the texts of a request are
  one for each key that some rule matches in a text it reads, and for no other; and each is
  attributed to a rule of the lowest priority number among all those that match its key, with the
  text it was found in and the address that rule's tracker gives it.\<close>

theorem a_ticket_goes_to_its_best_claim:
  assumes "extractTickets rx texts rules origin = refs"
    and "cls = {c. \<exists>rule \<in> set rules. c \<in> set (ticketClaims rx texts rule)}"
  shows "distinct (map tk_key refs) \<and>
    tk_key ` set refs = (\<lambda>c. matchKey (snd (snd c))) ` cls - {[]} \<and>
    (\<forall>ref \<in> set refs. \<exists>c \<in> cls. ref = claimRef rx origin c \<and>
      (\<forall>d \<in> cls. matchKey (snd (snd d)) = tk_key ref \<longrightarrow> tr_priority (fst c) \<le> tr_priority (fst d)))"
proof -
  let ?all = "concat (map (ticketClaims rx texts) (sort_key tr_priority rules))"
  have set: "set ?all = cls" using assms(2) by auto
  have refs: "refs = map (claimRef rx origin) (firsts {} ?all)"
    using assms(1) fold_noteClaim [OF sorted_claims, of "[]"] by (simp add: extractTickets_claims comp_def)
  have key: "tk_key (claimRef rx origin c) = matchKey (snd (snd c))" for c by (simp add: claimRef_def ticketOf_def)
  have "distinct (map tk_key refs)"
    using firsts_spec [of "{}" ?all] by (simp add: refs comp_def key)
  moreover have "tk_key ` set refs = (\<lambda>c. matchKey (snd (snd c))) ` cls - {[]}"
  proof -
    have "tk_key ` set refs = (\<lambda>c. matchKey (snd (snd c))) ` set (firsts {} ?all)"
      by (simp add: refs image_image key)
    also have "\<dots> = (\<lambda>c. matchKey (snd (snd c))) ` set ?all - {[]}" using firsts_spec [of "{}" ?all] by blast
    finally show ?thesis unfolding set .
  qed
  moreover have "\<exists>c \<in> cls. ref = claimRef rx origin c \<and>
      (\<forall>d \<in> cls. matchKey (snd (snd d)) = tk_key ref \<longrightarrow> tr_priority (fst c) \<le> tr_priority (fst d))" if "ref \<in> set refs" for ref
  proof -
    from that refs obtain c where c: "c \<in> set (firsts {} ?all)" "ref = claimRef rx origin c" by auto
    have "c \<in> cls" using firsts_member [OF c(1)] unfolding set .
    moreover have "tr_priority (fst c) \<le> tr_priority (fst d)" if "d \<in> cls" "matchKey (snd (snd d)) = tk_key ref" for d
      using firsts_least [OF sorted_claims c(1), of d] that c(2) key unfolding set by simp
    ultimately show ?thesis using c(2) by blast
  qed
  ultimately show ?thesis by blast
qed

theorem an_address_is_whole_or_the_platforms_witness:
  "\<exists>res. resolveEnvUrl sample_regex \<lparr>ps_repo = ''shop'', ps_environment = ''prod'', ps_ref = None, ps_environmentUrl = Some ''https://x'', ps_attributes = []\<rparr>
      [\<lparr>eu_name = ''r'', eu_pattern = ''prod'', eu_repo = None, eu_urlTemplate = ''{ref}'', eu_mode = Overwrite, eu_priority = 1\<rparr>] [] = res \<and>
     re_unresolved res = Some ''ref'' \<and> re_url res = Some ''https://x''"
proof -
  let ?subject = "\<lparr>ps_repo = ''shop'', ps_environment = ''prod'', ps_ref = None, ps_environmentUrl = Some ''https://x'', ps_attributes = []\<rparr> :: ProbeSubject"
  let ?rules = "[\<lparr>eu_name = ''r'', eu_pattern = ''prod'', eu_repo = None, eu_urlTemplate = ''{ref}'', eu_mode = Overwrite, eu_priority = 1\<rparr>]"
  have r: "resolveEnvUrl sample_regex ?subject ?rules [] = resolveEnvUrl sample_regex ?subject ?rules []" ..
  have u: "re_unresolved (resolveEnvUrl sample_regex ?subject ?rules []) = Some ''ref''"
    by (simp add: resolveEnvUrl_def declarationFor_def ruleFor_def rxTest_def urlRuleApplies_def allowedFor_def orNull_def
        sample_regex_def render_def replacing.simps renderValue_def fixedName_def nameChar_def Let_def)
  with an_address_is_whole_or_the_platforms [OF r refl]
  have "re_url (resolveEnvUrl sample_regex ?subject ?rules []) = orNull (ps_environmentUrl ?subject)" by blast
  with u show ?thesis by (simp add: orNull_def)
qed

definition sample_ticket_rule :: "string \<Rightarrow> int \<Rightarrow> TicketRule" where
  "sample_ticket_rule name priority = \<lparr>tr_name = name, tr_pattern = ''A-1'', tr_sources = [Title], tr_priority = priority,
     tr_tracker = \<lparr>rt_tracker = \<lparr>trk_id = name, trk_name = name, trk_kind = Jira\<rparr>, rt_baseUrl = ''u'', rt_urlTemplate = None\<rparr>\<rparr>"

theorem a_ticket_goes_to_its_best_claim_witness:
  "\<exists>refs. extractTickets sample_regex (\<lambda>s. if s = Title then Some ''A-1'' else None)
       [sample_ticket_rule ''late'' 2, sample_ticket_rule ''best'' 1] None = refs \<and>
     tk_key ` set refs = {''A-1''} \<and> distinct (map tk_key refs)"
proof -
  let ?texts = "\<lambda>s. if s = Title then Some ''A-1'' else None"
  let ?rules = "[sample_ticket_rule ''late'' 2, sample_ticket_rule ''best'' 1]"
  obtain refs where r: "extractTickets sample_regex ?texts ?rules None = refs" by blast
  have "{c. \<exists>rule \<in> set ?rules. c \<in> set (ticketClaims sample_regex ?texts rule)} = set (concat (map (ticketClaims sample_regex ?texts) ?rules))"
    by auto
  moreover have "(\<lambda>c. matchKey (snd (snd c))) ` set (concat (map (ticketClaims sample_regex ?texts) ?rules)) - {[]} = {''A-1''}"
    by (simp add: ticketClaims_def TICKET_SOURCES_def orNull_def sample_regex_def sample_ticket_rule_def matchKey_def)
  ultimately have "(\<lambda>c. matchKey (snd (snd c))) ` {c. \<exists>rule \<in> set ?rules. c \<in> set (ticketClaims sample_regex ?texts rule)} - {[]} = {''A-1''}"
    by simp
  with a_ticket_goes_to_its_best_claim [OF r refl] r show ?thesis by auto
qed

end
