(* ===== verification/Catalogue.thy ===== *)
theory Catalogue
  imports Pagination
begin

text \<open>
  The catalogues an administrator edits (\<open>env-rules\<close>, \<open>env-urls\<close>, \<open>ticket-rules\<close>,
  \<open>version-rules\<close>): tables of rows under an identifier the database draws, stamped with the
  times it wrote them. \<open>create\<close> appends, \<open>update\<close> patches the row of an identifier and fails when
  there is none, as \<open>delete\<close> does. A request brings the identifier the database would draw and the
  clock.

  The lemmas show what each operation keeps of a property of all rows; the services prove that what
  they write has it.
\<close>

record 'r entry =
  en_id :: string
  en_value :: 'r
  en_createdAt :: instant
  en_updatedAt :: instant

type_synonym 'r catalogue = "'r entry list"

definition storeEntry :: "string \<Rightarrow> instant \<Rightarrow> 'r \<Rightarrow> 'r catalogue \<Rightarrow> ('r catalogue \<times> 'r entry) option" where
  "storeEntry fresh now r cat =
     (if fresh \<in> en_id ` set cat then None
      else let e = \<lparr>en_id = fresh, en_value = r, en_createdAt = now, en_updatedAt = now\<rparr>
           in Some (cat @ [e], e))"

definition entryOf :: "string \<Rightarrow> 'r catalogue \<Rightarrow> 'r entry option" where
  "entryOf ident cat = List.find (\<lambda>e. en_id e = ident) cat"

definition restamp :: "instant \<Rightarrow> ('r \<Rightarrow> 'r) \<Rightarrow> 'r entry \<Rightarrow> 'r entry" where
  "restamp now f e = e\<lparr>en_value := f (en_value e), en_updatedAt := now\<rparr>"

definition editEntry :: "string \<Rightarrow> instant \<Rightarrow> ('r \<Rightarrow> 'r) \<Rightarrow> 'r catalogue \<Rightarrow> ('r catalogue \<times> 'r entry) option" where
  "editEntry ident now f cat =
     (case entryOf ident cat of
        None \<Rightarrow> None
      | Some e \<Rightarrow> Some (map (\<lambda>x. if en_id x = ident then restamp now f x else x) cat, restamp now f e))"

definition dropEntry :: "string \<Rightarrow> 'r catalogue \<Rightarrow> 'r catalogue option" where
  "dropEntry ident cat =
     (case entryOf ident cat of
        None \<Rightarrow> None | Some _ \<Rightarrow> Some (filter (\<lambda>e. en_id e \<noteq> ident) cat))"

text \<open>A patched field: an absent key keeps what is stored.\<close>

definition patched :: "'a option \<Rightarrow> 'a \<Rightarrow> 'a" where
  "patched new old = (case new of Some x \<Rightarrow> x | None \<Rightarrow> old)"

text \<open>
  \<open>findMany({ where, orderBy: [{ priority: 'asc' }, { createdAt: 'asc' }], skip, take })\<close> with its
  \<open>count\<close>.
\<close>

definition pageOf :: "('r entry \<Rightarrow> bool) \<Rightarrow> ('r \<Rightarrow> int) \<Rightarrow> PageWindow \<Rightarrow> 'r catalogue \<Rightarrow> 'r entry Page" where
  "pageOf P priority window cat =
     (let held = filter P cat;
          ordered = sort_key (\<lambda>e. priority (en_value e)) (sort_key en_createdAt held)
      in toPage (take (pw_limit window) (drop (pw_offset window) ordered)) (length held) window)"

section \<open>What the operations keep\<close>

definition everyEntry :: "('r \<Rightarrow> bool) \<Rightarrow> 'r catalogue \<Rightarrow> bool" where
  "everyEntry good cat \<longleftrightarrow> distinct (map en_id cat) \<and> list_all (good \<circ> en_value) cat"

lemma everyEntry_Nil [simp]: "everyEntry good []"
  by (simp add: everyEntry_def)

lemma everyEntry_member: "everyEntry good cat \<Longrightarrow> e \<in> set cat \<Longrightarrow> good (en_value e)"
  by (simp add: everyEntry_def list_all_iff)

lemma entryOf_Some: "entryOf ident cat = Some e \<Longrightarrow> e \<in> set cat \<and> en_id e = ident"
  by (auto simp: entryOf_def find_Some_iff)

lemma everyEntry_entryOf: "everyEntry good cat \<Longrightarrow> entryOf ident cat = Some e \<Longrightarrow> good (en_value e)"
  by (blast dest: everyEntry_member entryOf_Some)

lemma everyEntry_storeEntry [gp_inv]:
  "everyEntry good cat \<Longrightarrow> good r \<Longrightarrow> storeEntry fresh now r cat = Some (cat', e) \<Longrightarrow> everyEntry good cat'"
  by (auto simp: everyEntry_def storeEntry_def Let_def split: if_splits)

lemma map_en_id_restamp:
  "map (en_id \<circ> (\<lambda>x. if en_id x = ident then restamp now f x else x)) cat = map en_id cat"
  by (simp add: restamp_def)

lemma everyEntry_editEntry [gp_inv]:
  assumes "everyEntry good cat" and "editEntry ident now f cat = Some (cat', e)"
    and "\<And>e. e \<in> set cat \<Longrightarrow> en_id e = ident \<Longrightarrow> good (en_value e) \<Longrightarrow> good (f (en_value e))"
  shows "everyEntry good cat'"
proof -
  from assms(2) have cat': "cat' = map (\<lambda>x. if en_id x = ident then restamp now f x else x) cat"
    by (simp add: editEntry_def split: option.splits)
  from assms(1) have "distinct (map en_id cat')"
    unfolding cat' by (simp add: map_en_id_restamp everyEntry_def)
  moreover have "good (en_value x)" if "x \<in> set cat'" for x
    using that assms(1,3) unfolding cat' by (auto simp: restamp_def dest: everyEntry_member)
  ultimately show ?thesis by (simp add: everyEntry_def list_all_iff)
qed

lemma everyEntry_dropEntry [gp_inv]: "everyEntry good cat \<Longrightarrow> dropEntry ident cat = Some cat' \<Longrightarrow> everyEntry good cat'"
  by (auto simp: everyEntry_def dropEntry_def list_all_iff distinct_map_filter split: option.splits)

text \<open>Identifiers being unique, a patch that depends on the row it read is a patch of that row.\<close>

lemma entryOf_unique:
  assumes "distinct (map en_id cat)" and "entryOf ident cat = Some e" and "x \<in> set cat" and "en_id x = ident"
  shows "x = e"
  using assms entryOf_Some [OF assms(2)] by (simp add: distinct_map inj_on_def)

end
