(* ===== verification/Env_Urls.thy ===== *)
theory Env_Urls
  imports Rule_Engines Catalogue
begin

text \<open>
  \<open>back/src/env-urls/env-urls.service.ts\<close>: the rules that spell the addresses of environments, the
  environments declared by hand, and the address book a source reads them from. The selection of
  rules by a source is written by the sources service and is arbitrary here; the regular expression
  engine is a parameter.

  The theorem composes the service with the engine: whatever has been saved, an address that is not
  the platform's own opens on http or https, so none is a script.
\<close>

record DeclaredRow =
  dc_sourceId :: string
  dc_entry :: ManualEnvironment
  dc_attributes :: dims

record UrlDb =
  ud_sources :: "string list"
  ud_rules :: "EnvUrlRule catalogue"
  ud_selected :: "(string \<times> string) list"
  ud_declared :: "DeclaredRow catalogue"

record EnvUrlRuleDto =
  du_name :: "string option"
  du_pattern :: "string option"
  du_repo :: "string option"
  du_urlTemplate :: "string option"
  du_mode :: "EnvUrlMode option"
  du_priority :: "int option"

record ManualEnvironmentDto =
  dm_environment :: "string option"
  dm_repo :: "string option"
  dm_url :: "string option"
  dm_attributes :: "dims option"
  dm_mode :: "EnvUrlMode option"

datatype UrlError = UrlPatternInvalid string | UrlNotAddressable string | UrlRuleNotFound string
  | DeclaredNotAddressable string | DeclaredTwice string string | DeclaredNotFound string | UrlDbRefused

section \<open>The checks\<close>

text \<open>\<open>/^https?:\/\//i\<close>, whose letters are ASCII\<close>

definition lowerAscii :: "char \<Rightarrow> char" where
  "lowerAscii c = (let n = (of_char c :: nat) in if 65 \<le> n \<and> n \<le> 90 then char_of (n + 32) else c)"

definition addressable :: "string \<Rightarrow> bool" where
  "addressable s \<longleftrightarrow> prefix ''http://'' (map lowerAscii s) \<or> prefix ''https://'' (map lowerAscii s)"

definition patternFault :: "RegexEngine \<Rightarrow> string \<Rightarrow> string option" where
  "patternFault rx pattern = (if rx_exec rx pattern [] = BadPattern then Some pattern else None)"

definition assertWritableRule :: "RegexEngine \<Rightarrow> EnvUrlRuleDto \<Rightarrow> UrlError option" where
  "assertWritableRule rx dto =
     (case Option.bind (du_pattern dto) (patternFault rx) of
        Some p \<Rightarrow> Some (UrlPatternInvalid p)
      | None \<Rightarrow>
          (case Option.bind (orNull (du_repo dto)) (patternFault rx) of
             Some p \<Rightarrow> Some (UrlPatternInvalid p)
           | None \<Rightarrow>
               (case du_urlTemplate dto of
                  Some t \<Rightarrow> if addressable t then None else Some (UrlNotAddressable t)
                | None \<Rightarrow> None)))"

definition assertDeclarableUrl :: "string option \<Rightarrow> UrlError option" where
  "assertDeclarableUrl url =
     (case orNull url of
        None \<Rightarrow> None
      | Some u \<Rightarrow> if addressable u then None else Some (DeclaredNotAddressable u))"

section \<open>Rules\<close>

text \<open>The required fields of a creation are there: the validation of the body refuses it otherwise.\<close>

definition required :: "string option \<Rightarrow> string" where
  "required s = (case s of Some x \<Rightarrow> x | None \<Rightarrow> [])"

definition complete :: "EnvUrlRuleDto \<Rightarrow> bool" where
  "complete dto \<longleftrightarrow> orNull (du_name dto) \<noteq> None \<and> orNull (du_pattern dto) \<noteq> None \<and> orNull (du_urlTemplate dto) \<noteq> None"

definition createRule :: "RegexEngine \<Rightarrow> EnvUrlRuleDto \<Rightarrow> string \<Rightarrow> instant \<Rightarrow> UrlDb \<Rightarrow> UrlDb \<times> (UrlError + EnvUrlRule entry)" where
  "createRule rx dto fresh now db =
     (case assertWritableRule rx dto of
        Some e \<Rightarrow> (db, Inl e)
      | None \<Rightarrow>
          (case storeEntry fresh now
             \<lparr>eu_name = required (du_name dto), eu_pattern = required (du_pattern dto),
              eu_repo = orNull (du_repo dto), eu_urlTemplate = required (du_urlTemplate dto),
              eu_mode = patched (du_mode dto) Fill, eu_priority = patched (du_priority dto) 100\<rparr> (ud_rules db) of
             None \<Rightarrow> (db, Inl UrlDbRefused)
           | Some (rules, e) \<Rightarrow> (db\<lparr>ud_rules := rules\<rparr>, Inr e)))"

definition findRules :: "PageWindow \<Rightarrow> UrlDb \<Rightarrow> EnvUrlRule entry Page" where
  "findRules window db = pageOf (\<lambda>_. True) eu_priority window (ud_rules db)"

definition patchRule :: "EnvUrlRuleDto \<Rightarrow> EnvUrlRule \<Rightarrow> EnvUrlRule" where
  "patchRule dto rule =
     \<lparr>eu_name = patched (du_name dto) (eu_name rule), eu_pattern = patched (du_pattern dto) (eu_pattern rule),
      eu_repo = (case du_repo dto of None \<Rightarrow> eu_repo rule | r \<Rightarrow> orNull r),
      eu_urlTemplate = patched (du_urlTemplate dto) (eu_urlTemplate rule),
      eu_mode = patched (du_mode dto) (eu_mode rule), eu_priority = patched (du_priority dto) (eu_priority rule)\<rparr>"

definition updateRule :: "RegexEngine \<Rightarrow> string \<Rightarrow> EnvUrlRuleDto \<Rightarrow> instant \<Rightarrow> UrlDb \<Rightarrow> UrlDb \<times> (UrlError + EnvUrlRule entry)" where
  "updateRule rx ident dto now db =
     (case assertWritableRule rx dto of
        Some e \<Rightarrow> (db, Inl e)
      | None \<Rightarrow>
          (case editEntry ident now (patchRule dto) (ud_rules db) of
             None \<Rightarrow> (db, Inl (UrlRuleNotFound ident))
           | Some (rules, e) \<Rightarrow> (db\<lparr>ud_rules := rules\<rparr>, Inr e)))"

definition removeRule :: "string \<Rightarrow> UrlDb \<Rightarrow> UrlDb \<times> UrlError option" where
  "removeRule ident db =
     (case dropEntry ident (ud_rules db) of
        None \<Rightarrow> (db, Some (UrlRuleNotFound ident))
      | Some rules \<Rightarrow> (db\<lparr>ud_rules := rules, ud_selected := filter (\<lambda>(_, r). r \<noteq> ident) (ud_selected db)\<rparr>, None))"

section \<open>Declared environments\<close>

definition declaredKey :: "DeclaredRow \<Rightarrow> string \<times> string \<times> string" where
  "declaredKey row = (dc_sourceId row, me'_repo (dc_entry row), me'_environment (dc_entry row))"

text \<open>
  Whatever the database refuses (a key that is taken, a source that is not there) is reported as a
  duplicate by a creation and as not found by an update.
\<close>

definition createEnvironment ::
  "string \<Rightarrow> ManualEnvironmentDto \<Rightarrow> string \<Rightarrow> instant \<Rightarrow> UrlDb \<Rightarrow> UrlDb \<times> (UrlError + DeclaredRow entry)" where
  "createEnvironment sourceId dto fresh now db =
     (case assertDeclarableUrl (dm_url dto) of
        Some e \<Rightarrow> (db, Inl e)
      | None \<Rightarrow>
          let repo = patched (dm_repo dto) [];
              environment = required (dm_environment dto);
              row = \<lparr>dc_sourceId = sourceId,
                dc_entry = \<lparr>me'_repo = repo, me'_environment = environment, me'_url = orNull (dm_url dto),
                  me'_mode = patched (dm_mode dto) Fill\<rparr>,
                dc_attributes = patched (dm_attributes dto) []\<rparr>
          in if sourceId \<notin> set (ud_sources db) \<or> declaredKey row \<in> (declaredKey \<circ> en_value) ` set (ud_declared db)
             then (db, Inl (DeclaredTwice repo environment))
             else case storeEntry fresh now row (ud_declared db) of
               None \<Rightarrow> (db, Inl (DeclaredTwice repo environment))
             | Some (declared, e) \<Rightarrow> (db\<lparr>ud_declared := declared\<rparr>, Inr e))"

definition findEnvironments :: "string \<Rightarrow> PageWindow \<Rightarrow> UrlDb \<Rightarrow> DeclaredRow entry Page" where
  "findEnvironments sourceId window db =
     (let held = sort_key (\<lambda>e. me'_repo (dc_entry (en_value e)))
            (sort_key (\<lambda>e. me'_environment (dc_entry (en_value e)))
              (filter (\<lambda>e. dc_sourceId (en_value e) = sourceId) (ud_declared db)))
      in toPage (take (pw_limit window) (drop (pw_offset window) held)) (length held) window)"

definition patchEnvironment :: "ManualEnvironmentDto \<Rightarrow> DeclaredRow \<Rightarrow> DeclaredRow" where
  "patchEnvironment dto row =
     (let entry = dc_entry row in
      row\<lparr>dc_entry := \<lparr>me'_repo = patched (dm_repo dto) (me'_repo entry),
            me'_environment = patched (dm_environment dto) (me'_environment entry),
            me'_url = (case dm_url dto of None \<Rightarrow> me'_url entry | u \<Rightarrow> orNull u),
            me'_mode = patched (dm_mode dto) (me'_mode entry)\<rparr>,
          dc_attributes := patched (dm_attributes dto) (dc_attributes row)\<rparr>)"

definition updateEnvironment :: "string \<Rightarrow> ManualEnvironmentDto \<Rightarrow> instant \<Rightarrow> UrlDb \<Rightarrow> UrlDb \<times> (UrlError + DeclaredRow entry)" where
  "updateEnvironment ident dto now db =
     (case assertDeclarableUrl (dm_url dto) of
        Some e \<Rightarrow> (db, Inl e)
      | None \<Rightarrow>
          (case editEntry ident now (patchEnvironment dto) (ud_declared db) of
             None \<Rightarrow> (db, Inl (DeclaredNotFound ident))
           | Some (declared, e) \<Rightarrow>
               if distinct (map (declaredKey \<circ> en_value) declared)
               then (db\<lparr>ud_declared := declared\<rparr>, Inr e)
               else (db, Inl (DeclaredNotFound ident))))"

definition removeEnvironment :: "string \<Rightarrow> UrlDb \<Rightarrow> UrlDb \<times> UrlError option" where
  "removeEnvironment ident db =
     (case dropEntry ident (ud_declared db) of
        None \<Rightarrow> (db, Some (DeclaredNotFound ident))
      | Some declared \<Rightarrow> (db\<lparr>ud_declared := declared\<rparr>, None))"

section \<open>What is read\<close>

definition addressBook :: "string \<Rightarrow> UrlDb \<Rightarrow> EnvUrlRule list \<times> ManualEnvironment list" where
  "addressBook sourceId db =
     (map en_value (sort_key (\<lambda>e. eu_priority (en_value e))
        (filter (\<lambda>e. (sourceId, en_id e) \<in> set (ud_selected db)) (ud_rules db))),
      map (dc_entry \<circ> en_value) (filter (\<lambda>e. dc_sourceId (en_value e) = sourceId) (ud_declared db)))"

record DeclaredEnvironment =
  dn_repo :: string
  dn_environment :: string
  dn_url :: "string option"
  dn_attributes :: dims

definition declaredFor :: "string \<Rightarrow> UrlDb \<Rightarrow> DeclaredEnvironment list" where
  "declaredFor sourceId db =
     map (\<lambda>e. \<lparr>dn_repo = me'_repo (dc_entry (en_value e)), dn_environment = me'_environment (dc_entry (en_value e)),
                dn_url = me'_url (dc_entry (en_value e)), dn_attributes = dc_attributes (en_value e)\<rparr>)
       (sort_key (\<lambda>e. me'_repo (dc_entry (en_value e)))
         (sort_key (\<lambda>e. me'_environment (dc_entry (en_value e)))
           (filter (\<lambda>e. dc_sourceId (en_value e) = sourceId) (ud_declared db))))"

section \<open>The routes that change the catalogue\<close>

datatype UrlRequest =
    CreateRule EnvUrlRuleDto string
  | UpdateRule string EnvUrlRuleDto
  | RemoveRule string
  | CreateEnvironment string ManualEnvironmentDto string
  | UpdateEnvironment string ManualEnvironmentDto
  | RemoveEnvironment string

fun urlRoute :: "RegexEngine \<Rightarrow> UrlRequest \<times> instant \<Rightarrow> UrlDb \<Rightarrow> UrlDb" where
  "urlRoute rx (CreateRule dto fresh, now) db = (if complete dto then fst (createRule rx dto fresh now db) else db)"
| "urlRoute rx (UpdateRule ident dto, now) db = fst (updateRule rx ident dto now db)"
| "urlRoute rx (RemoveRule ident, now) db = fst (removeRule ident db)"
| "urlRoute rx (CreateEnvironment sourceId dto fresh, now) db = fst (createEnvironment sourceId dto fresh now db)"
| "urlRoute rx (UpdateEnvironment ident dto, now) db = fst (updateEnvironment ident dto now db)"
| "urlRoute rx (RemoveEnvironment ident, now) db = fst (removeEnvironment ident db)"

section \<open>What is saved can be used\<close>

lemma patternFault_None [simp]: "patternFault rx p = None \<longleftrightarrow> rx_exec rx p [] \<noteq> BadPattern"
  by (simp add: patternFault_def)

definition usableRule :: "RegexEngine \<Rightarrow> EnvUrlRule \<Rightarrow> bool" where
  "usableRule rx rule \<longleftrightarrow> addressable (eu_urlTemplate rule) \<and> patternFault rx (eu_pattern rule) = None \<and>
     Option.bind (eu_repo rule) (patternFault rx) = None"

definition usableDeclaration :: "DeclaredRow \<Rightarrow> bool" where
  "usableDeclaration row \<longleftrightarrow> list_all addressable (case me'_url (dc_entry row) of Some u \<Rightarrow> [u] | None \<Rightarrow> [])"

definition usable :: "RegexEngine \<Rightarrow> UrlDb \<Rightarrow> bool" where
  "usable rx db \<longleftrightarrow> everyEntry (usableRule rx) (ud_rules db) \<and> everyEntry usableDeclaration (ud_declared db)"

lemma writable_create:
  "assertWritableRule rx dto = None \<Longrightarrow> complete dto \<Longrightarrow>
   usableRule rx \<lparr>eu_name = n, eu_pattern = required (du_pattern dto), eu_repo = orNull (du_repo dto),
     eu_urlTemplate = required (du_urlTemplate dto), eu_mode = m, eu_priority = p\<rparr>"
  by (auto simp: assertWritableRule_def complete_def usableRule_def required_def orNull_def
      split: option.splits if_splits)

lemma writable_update:
  "assertWritableRule rx dto = None \<Longrightarrow> usableRule rx rule \<Longrightarrow> usableRule rx (patchRule dto rule)"
  by (auto simp: assertWritableRule_def usableRule_def patchRule_def patched_def
      split: option.splits if_splits)

lemma declarable_url:
  "assertDeclarableUrl url = None \<Longrightarrow> list_all addressable (case orNull url of Some u \<Rightarrow> [u] | None \<Rightarrow> [])"
  by (auto simp: assertDeclarableUrl_def split: option.splits if_splits)

lemma declarable_update:
  "assertDeclarableUrl (dm_url dto) = None \<Longrightarrow> usableDeclaration row \<Longrightarrow> usableDeclaration (patchEnvironment dto row)"
  using declarable_url [of "dm_url dto"]
  by (auto simp: usableDeclaration_def patchEnvironment_def Let_def split: option.splits)

lemma urlRoute_usable: "usable rx db \<Longrightarrow> usable rx (urlRoute rx request db)"
proof (induction rx request db rule: urlRoute.induct)
  case (1 rx dto fresh now db)
  then show ?case
    by (auto simp: usable_def createRule_def split: option.splits
        elim!: everyEntry_storeEntry [rotated 2] intro: writable_create)
next
  case (2 rx ident dto now db)
  then show ?case
    by (auto simp: usable_def updateRule_def split: option.splits
        elim!: everyEntry_editEntry intro: writable_update)
next
  case (3 rx ident now db)
  then show ?case by (auto simp: usable_def removeRule_def split: option.splits intro: everyEntry_dropEntry)
next
  case (4 rx sourceId dto fresh now db)
  then show ?case
    using declarable_url [of "dm_url dto"]
    by (auto simp: usable_def createEnvironment_def Let_def usableDeclaration_def [abs_def] split: option.splits
        elim!: everyEntry_storeEntry [rotated 2])
next
  case (5 rx ident dto now db)
  then show ?case
    by (auto simp: usable_def updateEnvironment_def split: option.splits
        elim!: everyEntry_editEntry intro: declarable_update)
next
  case (6 rx ident now db)
  then show ?case by (auto simp: usable_def removeEnvironment_def split: option.splits intro: everyEntry_dropEntry)
qed

interpretation url_catalogue: run_invariant "urlRoute rx" "\<lambda>_. True" "usable rx" for rx
  by unfold_locales (rule urlRoute_usable)

text \<open>What a template opens with is what its rendering opens with.\<close>

lemma replacing_prefix:
  "lbrace \<notin> set p \<Longrightarrow> fst (replacing ok lookup (p @ s)) = p @ fst (replacing ok lookup s)"
proof (induction p)
  case (Cons c p)
  then have "c \<noteq> lbrace" "fst (replacing ok lookup (p @ s)) = p @ fst (replacing ok lookup s)" by auto
  then show ?case by (simp add: replacing.simps(2) split_def)
qed simp

lemma addressable_prefix:
  assumes "addressable s"
  obtains p u where "s = p @ u" and "lbrace \<notin> set p" and "\<And>v. addressable (p @ v)"
proof -
  from assms obtain q where q: "q \<in> {''http://'', ''https://''}" "prefix q (map lowerAscii s)"
    by (auto simp: addressable_def)
  let ?p = "take (length q) s"
  have low: "map lowerAscii ?p = q"
    using q(2) by (auto simp: prefix_def take_map [symmetric])
  have "lbrace \<notin> set ?p"
  proof
    assume "lbrace \<in> set ?p"
    then have "lowerAscii lbrace \<in> set (map lowerAscii ?p)" by simp
    with low q(1) show False by (auto simp: lowerAscii_def Let_def)
  qed
  moreover have "addressable (?p @ v)" for v
    using low q(1) by (auto simp: addressable_def)
  ultimately show thesis by (intro that [of ?p "drop (length q) s"]) auto
qed

lemma addressable_replacing:
  assumes "addressable template" shows "addressable (fst (replacing ok lookup template))"
  using assms by (elim addressable_prefix) (simp add: replacing_prefix)

lemma resolved_address:
  assumes "environmentUrlFor rx subject rules declared = Some url"
    and "list_all (\<lambda>r. addressable (eu_urlTemplate r)) rules"
    and "list_all (\<lambda>m. list_all addressable (case me'_url m of Some u \<Rightarrow> [u] | None \<Rightarrow> [])) declared"
  shows "ps_environmentUrl subject = Some url \<or> addressable url"
proof -
  have null: "orNull v = Some u \<Longrightarrow> v = Some u" for v u by (auto simp: orNull_def split: option.splits if_splits)
  have manual: "addressable u" if "declarationFor subject declared = Some m" "orNull (me'_url m) = Some u" for m u
    using declarationFor_Some [OF that(1)] null [OF that(2)] assms(3) by (fastforce simp: list_all_iff)
  have rendered: "addressable u" if "ruleFor rx subject rules = Some rule" "render rx (eu_urlTemplate rule) subject g = Inr u" for rule g u
    using ruleFor_Some(1) [OF that(1)] that(2) assms(2)
      addressable_replacing [of "eu_urlTemplate rule" nameChar "renderValue rx subject g"]
    by (auto simp: render_def list_all_iff split: prod.splits list.splits)
  show ?thesis
    using assms(1) unfolding environmentUrlFor_def resolveEnvUrl_def Let_def
    by (auto split: option.splits sum.splits if_splits simp: bind_eq_Some_conv dest: null manual rendered)
qed

lemma addressBook_usable:
  assumes "usable rx db"
  shows "list_all (\<lambda>r. addressable (eu_urlTemplate r)) (fst (addressBook sourceId db))"
    and "list_all (\<lambda>m. list_all addressable (case me'_url m of Some u \<Rightarrow> [u] | None \<Rightarrow> []))
      (snd (addressBook sourceId db))"
  using assms by (auto simp: usable_def addressBook_def list_all_iff usableRule_def usableDeclaration_def
      dest!: everyEntry_member split: option.splits)

section \<open>No address is a script\<close>

text \<open>C28. No address is a script. Whatever rules and declarations have been created, changed and removed,
  in whatever order and whatever was refused, an address that a source's book gives an environment
  opens on http or https, or is the one the platform published; and every stored pattern, the one
  that confines a rule to repositories included, is one the engine accepts. A declaration is not the
  way in that the rules are not.\<close>

theorem no_address_is_a_script:
  assumes "ud_rules db = []" and "ud_declared db = []"
    and "db' = fold (urlRoute rx) requests db"
  shows "(\<forall>subject sourceId selected url.
      environmentUrlFor rx subject (fst (addressBook sourceId (db'\<lparr>ud_selected := selected\<rparr>)))
        (snd (addressBook sourceId (db'\<lparr>ud_selected := selected\<rparr>))) = Some url \<longrightarrow>
      ps_environmentUrl subject = Some url \<or> addressable url) \<and>
    (\<forall>e \<in> set (ud_rules db'). rx_exec rx (eu_pattern (en_value e)) [] \<noteq> BadPattern \<and>
      (\<forall>p. eu_repo (en_value e) = Some p \<longrightarrow> rx_exec rx p [] \<noteq> BadPattern))"
proof -
  have ok: "usable rx db'"
    unfolding assms(3) by (rule url_catalogue.run_kept) (simp_all add: list_all_iff usable_def assms)
  have "usable rx (db'\<lparr>ud_selected := selected\<rparr>)" for selected using ok by (simp add: usable_def)
  note book = resolved_address [OF _ addressBook_usable [OF this]]
  have "usableRule rx (en_value e)" if "e \<in> set (ud_rules db')" for e
    using that ok by (auto simp: usable_def dest: everyEntry_member)
  then have "\<forall>e \<in> set (ud_rules db'). usableRule rx (en_value e)" by blast
  then have "\<forall>e \<in> set (ud_rules db'). rx_exec rx (eu_pattern (en_value e)) [] \<noteq> BadPattern \<and>
      (\<forall>p. eu_repo (en_value e) = Some p \<longrightarrow> rx_exec rx p [] \<noteq> BadPattern)"
    by (auto simp: usableRule_def)
  with book show ?thesis by blast
qed

definition sample_url_dto :: EnvUrlRuleDto where
  "sample_url_dto = \<lparr>du_name = Some ''r'', du_pattern = Some ''prod'', du_repo = None,
     du_urlTemplate = Some ''HTTPS://{environment}.x'', du_mode = None, du_priority = None\<rparr>"

definition sample_script_dto :: ManualEnvironmentDto where
  "sample_script_dto = \<lparr>dm_environment = Some ''prod'', dm_repo = None, dm_url = Some ''javascript:alert(1)'',
     dm_attributes = None, dm_mode = Some Overwrite\<rparr>"

theorem no_address_is_a_script_witness:
  "let db = \<lparr>ud_sources = [''s''], ud_rules = [], ud_selected = [], ud_declared = []\<rparr>;
       db' = fold (urlRoute sample_regex)
         [(CreateRule sample_url_dto ''r1'', 5), (CreateEnvironment ''s'' sample_script_dto ''e1'', 6)] db;
       book = addressBook ''s'' (db'\<lparr>ud_selected := [(''s'', ''r1'')]\<rparr>);
       subject = \<lparr>ps_repo = ''shop'', ps_environment = ''prod'', ps_ref = None, ps_environmentUrl = None, ps_attributes = []\<rparr>
   in environmentUrlFor sample_regex subject (fst book) (snd book) = Some ''HTTPS://prod.x'' \<and> addressable ''HTTPS://prod.x''"
proof -
  let ?db = "\<lparr>ud_sources = [''s''], ud_rules = [], ud_selected = [], ud_declared = []\<rparr> :: UrlDb"
  let ?reqs = "[(CreateRule sample_url_dto ''r1'', 5), (CreateEnvironment ''s'' sample_script_dto ''e1'', 6)] :: (UrlRequest \<times> instant) list"
  let ?db' = "fold (urlRoute sample_regex) ?reqs ?db"
  let ?book = "addressBook ''s'' (?db'\<lparr>ud_selected := [(''s'', ''r1'')]\<rparr>)"
  let ?subject = "\<lparr>ps_repo = ''shop'', ps_environment = ''prod'', ps_ref = None, ps_environmentUrl = None, ps_attributes = []\<rparr> :: ProbeSubject"
  let ?rule = "\<lparr>eu_name = ''r'', eu_pattern = ''prod'', eu_repo = None, eu_urlTemplate = ''HTTPS://{environment}.x'',
      eu_mode = Fill, eu_priority = 100\<rparr>"
  have script: "\<not> addressable ''javascript:alert(1)''" by code_simp
  have template: "addressable ''HTTPS://{environment}.x''" by code_simp
  have "ud_rules ?db' = [\<lparr>en_id = ''r1'', en_value = ?rule, en_createdAt = 5, en_updatedAt = 5\<rparr>]"
    and "ud_declared ?db' = []"
    using script template
    by (simp_all add: complete_def sample_url_dto_def orNull_def createRule_def assertWritableRule_def patternFault_def
        sample_regex_def storeEntry_def required_def patched_def createEnvironment_def assertDeclarableUrl_def sample_script_dto_def Let_def)
  then have "fst ?book = [?rule]" "snd ?book = []" by (simp_all add: addressBook_def)
  then have e: "environmentUrlFor sample_regex ?subject (fst ?book) (snd ?book) = Some ''HTTPS://prod.x''"
    by (simp add: environmentUrlFor_def resolveEnvUrl_def declarationFor_def ruleFor_def rxTest_def urlRuleApplies_def
        allowedFor_def orNull_def sample_regex_def render_def replacing.simps renderValue_def fixedName_def nameChar_def Let_def)
  have "ps_environmentUrl ?subject = Some ''HTTPS://prod.x'' \<or> addressable ''HTTPS://prod.x''"
  proof -
    have "ud_rules ?db = []" "ud_declared ?db = []" by simp_all
    from no_address_is_a_script [OF this refl, of sample_regex ?reqs, THEN conjunct1] e show ?thesis by blast
  qed
  with e show ?thesis unfolding Let_def by simp
qed

end
