(* ===== verification/Rule_Services.thy ===== *)
theory Rule_Services
  imports Env_Urls
begin

text \<open>
  The services in front of the engines: \<open>back/src/env-rules/env-rules.service.ts\<close> (the catalogue of
  classification rules, and the classification of many names read once) and
  \<open>back/src/ticket-rules/ticket-rules.service.ts\<close> (the rules that read tickets, reached through the
  trackers a source attached). Selections and trackers are written by other services and are part of
  the state here.

  The theorems show that no rule is saved that could only be silent, that a batch classifies each
  name as it would be alone, and that a text no rule asks to read can be left out.
\<close>

section \<open>The catalogue of classification rules\<close>

datatype RuleTarget = OnEnvironment | OnRepository | OnIncident | OnPullRequest | OnPullRequestTitle

record EnvRuleRow =
  ew_rule :: EnvRule
  ew_target :: RuleTarget

record CreateEnvRuleDto =
  ce_dname :: string
  ce_pattern :: string
  ce_kind :: EnvRuleKind
  ce_target :: "RuleTarget option"
  ce_priority :: "int option"
  ce_dattributes :: "dims option"
  ce_repo :: "string option"

record UpdateEnvRuleDto =
  ue_name :: "string option"
  ue_pattern :: "string option"
  ue_kind :: "EnvRuleKind option"
  ue_target :: "RuleTarget option"
  ue_priority :: "int option"
  ue_attributes :: "dims option"
  ue_repo :: "string option"

datatype RuleError = RulePatternInvalid string | ContributesNothing string | RuleNotFound string
  | ReadsNothing | RuleDbRefused

record EnvRuleDb =
  ed_rules :: "EnvRuleRow catalogue"
  ed_selected :: "(string \<times> string) list"

text \<open>\<open>/\(\?<[A-Za-z_$][\w$]*>/\<close>: somewhere a group opens with a name.\<close>

definition identStart :: "char \<Rightarrow> bool" where
  "identStart c \<longleftrightarrow> (let n = (of_char c :: nat) in 65 \<le> n \<and> n \<le> 90 \<or> 97 \<le> n \<and> n \<le> 122) \<or> c = CHR ''_'' \<or> c = CHR ''$''"

definition opensNamedGroup :: "string \<Rightarrow> bool" where
  "opensNamedGroup s \<longleftrightarrow> prefix ''(?<'' s \<and>
     (case drop 3 s of [] \<Rightarrow> False
      | c # rest \<Rightarrow> identStart c \<and> prefix ''>'' (dropWhile (\<lambda>c. wordChar c \<or> c = CHR ''$'') rest))"

definition namesGroup :: "string \<Rightarrow> bool" where
  "namesGroup pattern \<longleftrightarrow> list_ex opensNamedGroup (map (\<lambda>n. drop n pattern) [0..<length pattern])"

definition assertContributes :: "EnvRuleKind \<Rightarrow> string \<Rightarrow> dims \<Rightarrow> RuleError option" where
  "assertContributes kind pattern attributes =
     (if kind \<noteq> SimpleRule then None
      else if attributes \<noteq> [] then None
      else if namesGroup pattern then None
      else Some (ContributesNothing pattern))"

text \<open>\<open>if (dto.repo) assertValidPattern(dto.repo)\<close>, after the pattern where one is given\<close>

definition patternsFault :: "RegexEngine \<Rightarrow> string option \<Rightarrow> string option \<Rightarrow> RuleError option" where
  "patternsFault rx pattern repo =
     map_option RulePatternInvalid
       (orElse (Option.bind pattern (patternFault rx)) (Option.bind (orNull repo) (patternFault rx)))"

definition createEnvRule ::
  "RegexEngine \<Rightarrow> CreateEnvRuleDto \<Rightarrow> string \<Rightarrow> instant \<Rightarrow> EnvRuleDb \<Rightarrow> EnvRuleDb \<times> (RuleError + EnvRuleRow entry)" where
  "createEnvRule rx dto fresh now db =
     (case orElse (patternsFault rx (Some (ce_pattern dto)) (ce_repo dto))
         (assertContributes (ce_kind dto) (ce_pattern dto) (patched (ce_dattributes dto) [])) of
        Some e \<Rightarrow> (db, Inl e)
      | None \<Rightarrow>
          (case storeEntry fresh now
             \<lparr>ew_rule = \<lparr>er_name = ce_dname dto, er_pattern = ce_pattern dto, er_kind = ce_kind dto,
                er_priority = patched (ce_priority dto) 100, er_attributes = patched (ce_dattributes dto) [],
                er_repo = orNull (ce_repo dto)\<rparr>,
              ew_target = patched (ce_target dto) OnEnvironment\<rparr> (ed_rules db) of
             None \<Rightarrow> (db, Inl RuleDbRefused)
           | Some (rules, e) \<Rightarrow> (db\<lparr>ed_rules := rules\<rparr>, Inr e)))"

definition findEnvRules :: "RuleTarget \<Rightarrow> PageWindow \<Rightarrow> EnvRuleDb \<Rightarrow> EnvRuleRow entry Page" where
  "findEnvRules target window db = pageOf (\<lambda>e. ew_target (en_value e) = target) (er_priority \<circ> ew_rule) window (ed_rules db)"

definition patchEnvRule :: "UpdateEnvRuleDto \<Rightarrow> EnvRuleRow \<Rightarrow> EnvRuleRow" where
  "patchEnvRule dto row =
     (let rule = ew_rule row in
      \<lparr>ew_rule = \<lparr>er_name = patched (ue_name dto) (er_name rule), er_pattern = patched (ue_pattern dto) (er_pattern rule),
         er_kind = patched (ue_kind dto) (er_kind rule), er_priority = patched (ue_priority dto) (er_priority rule),
         er_attributes = patched (ue_attributes dto) (er_attributes rule),
         er_repo = (case ue_repo dto of None \<Rightarrow> er_repo rule | r \<Rightarrow> orNull r)\<rparr>,
       ew_target = patched (ue_target dto) (ew_target row)\<rparr>)"

definition updateEnvRule ::
  "RegexEngine \<Rightarrow> string \<Rightarrow> UpdateEnvRuleDto \<Rightarrow> instant \<Rightarrow> EnvRuleDb \<Rightarrow> EnvRuleDb \<times> (RuleError + EnvRuleRow entry)" where
  "updateEnvRule rx ident dto now db =
     (case patternsFault rx (ue_pattern dto) (ue_repo dto) of
        Some e \<Rightarrow> (db, Inl e)
      | None \<Rightarrow>
          (case entryOf ident (ed_rules db) of
             None \<Rightarrow> (db, Inl (RuleNotFound ident))
           | Some current \<Rightarrow>
               let rule = ew_rule (en_value current) in
               (case assertContributes (patched (ue_kind dto) (er_kind rule)) (patched (ue_pattern dto) (er_pattern rule))
                    (patched (ue_attributes dto) (er_attributes rule)) of
                  Some e \<Rightarrow> (db, Inl e)
                | None \<Rightarrow>
                    (case editEntry ident now (patchEnvRule dto) (ed_rules db) of
                       None \<Rightarrow> (db, Inl (RuleNotFound ident))
                     | Some (rules, e) \<Rightarrow> (db\<lparr>ed_rules := rules\<rparr>, Inr e)))))"

definition removeEnvRule :: "string \<Rightarrow> EnvRuleDb \<Rightarrow> EnvRuleDb \<times> RuleError option" where
  "removeEnvRule ident db =
     (case dropEntry ident (ed_rules db) of
        None \<Rightarrow> (db, Some (RuleNotFound ident))
      | Some rules \<Rightarrow> (db\<lparr>ed_rules := rules, ed_selected := filter (\<lambda>(_, r). r \<noteq> ident) (ed_selected db)\<rparr>, None))"

section \<open>Classifying many\<close>

record ClassifySubject =
  cs_name :: string
  cs_repo :: "string option"

definition subjectKey :: "ClassifySubject \<Rightarrow> string" where
  "subjectKey subject = required (cs_repo subject) @ [CHR 0x00] @ cs_name subject"

definition rulesOf :: "EnvRuleDb \<Rightarrow> string \<Rightarrow> RuleTarget \<Rightarrow> EnvRule list" where
  "rulesOf db sourceId target =
     map (ew_rule \<circ> en_value) (sort_key (\<lambda>e. er_priority (ew_rule (en_value e)))
       (filter (\<lambda>e. ew_target (en_value e) = target \<and> (sourceId, en_id e) \<in> set (ed_selected db)) (ed_rules db)))"

definition classifyMany ::
  "RegexEngine \<Rightarrow> EnvRuleDb \<Rightarrow> string \<Rightarrow> ClassifySubject list \<Rightarrow> RuleTarget \<Rightarrow> ClassifiedEnvironment list" where
  "classifyMany rx db sourceId subjects target =
     map (\<lambda>s. classifyEnvironment rx (cs_name s) (rulesOf db sourceId target) (cs_repo s)) subjects"

definition classify :: "RegexEngine \<Rightarrow> EnvRuleDb \<Rightarrow> string \<Rightarrow> ClassifySubject \<Rightarrow> RuleTarget \<Rightarrow> ClassifiedEnvironment" where
  "classify rx db sourceId subject target = hd (classifyMany rx db sourceId [subject] target)"

definition classifyByPair ::
  "RegexEngine \<Rightarrow> EnvRuleDb \<Rightarrow> string \<Rightarrow> ClassifySubject list \<Rightarrow> RuleTarget \<Rightarrow> (string, ClassifiedEnvironment) jsmap" where
  "classifyByPair rx db sourceId subjects target =
     (let distinct' = map snd (fold (\<lambda>s. AList.update (subjectKey s) s) subjects []);
          classified = classifyMany rx db sourceId distinct' target
      in fold (\<lambda>(s, c). AList.update (subjectKey s) c) (zip distinct' classified) [])"

section \<open>The catalogue of ticket rules\<close>

record TicketRuleRow =
  tw_trackerId :: string
  tw_name :: string
  tw_pattern :: string
  tw_sources :: "TicketSource list"
  tw_priority :: int

record TicketRuleDto =
  dt_trackerId :: "string option"
  dt_name :: "string option"
  dt_pattern :: "string option"
  dt_sources :: "TicketSource list option"
  dt_priority :: "int option"

record TicketRuleDb =
  tb_rules :: "TicketRuleRow catalogue"
  tb_trackers :: "(string, TicketRuleTracker) jsmap"
  tb_attached :: "(string \<times> string) list"

definition assertReadsSomething :: "TicketSource list \<Rightarrow> RuleError + TicketSource list" where
  "assertReadsSomething sources =
     (let kept = filter (\<lambda>s. s \<in> set sources) TICKET_SOURCES
      in if kept = [] then Inl ReadsNothing else Inr kept)"

text \<open>\<open>...(dto.sources ? { sources: assertReadsSomething(dto.sources) } : {})\<close>\<close>

definition sourcesPatch :: "TicketSource list option \<Rightarrow> RuleError + TicketSource list option" where
  "sourcesPatch sources =
     (case sources of
        None \<Rightarrow> Inr None
      | Some s \<Rightarrow> (case assertReadsSomething s of Inl e \<Rightarrow> Inl e | Inr kept \<Rightarrow> Inr (Some kept)))"

text \<open>The default of the column is what was read before rules named their texts.\<close>

definition createTicketRule ::
  "RegexEngine \<Rightarrow> TicketRuleDto \<Rightarrow> string \<Rightarrow> instant \<Rightarrow> TicketRuleDb \<Rightarrow> TicketRuleDb \<times> (RuleError + TicketRuleRow entry)" where
  "createTicketRule rx dto fresh now db =
     (case patternFault rx (required (dt_pattern dto)) of
        Some p \<Rightarrow> (db, Inl (RulePatternInvalid p))
      | None \<Rightarrow>
          (case sourcesPatch (dt_sources dto) of
             Inl e \<Rightarrow> (db, Inl e)
           | Inr sources \<Rightarrow>
               (case (if map_of (tb_trackers db) (required (dt_trackerId dto)) = None then None
                      else storeEntry fresh now
                        \<lparr>tw_trackerId = required (dt_trackerId dto), tw_name = required (dt_name dto),
                         tw_pattern = required (dt_pattern dto), tw_sources = patched sources [Branch, Title, Commit],
                         tw_priority = patched (dt_priority dto) 100\<rparr> (tb_rules db)) of
                  None \<Rightarrow> (db, Inl RuleDbRefused)
                | Some (rules, e) \<Rightarrow> (db\<lparr>tb_rules := rules\<rparr>, Inr e))))"

definition findTicketRules :: "PageWindow \<Rightarrow> TicketRuleDb \<Rightarrow> TicketRuleRow entry Page" where
  "findTicketRules window db = pageOf (\<lambda>_. True) tw_priority window (tb_rules db)"

definition patchTicketRule :: "TicketRuleDto \<Rightarrow> TicketSource list option \<Rightarrow> TicketRuleRow \<Rightarrow> TicketRuleRow" where
  "patchTicketRule dto sources row =
     \<lparr>tw_trackerId = patched (dt_trackerId dto) (tw_trackerId row), tw_name = patched (dt_name dto) (tw_name row),
      tw_pattern = patched (dt_pattern dto) (tw_pattern row), tw_sources = patched sources (tw_sources row),
      tw_priority = patched (dt_priority dto) (tw_priority row)\<rparr>"

definition updateTicketRule ::
  "RegexEngine \<Rightarrow> string \<Rightarrow> TicketRuleDto \<Rightarrow> instant \<Rightarrow> TicketRuleDb \<Rightarrow> TicketRuleDb \<times> (RuleError + TicketRuleRow entry)" where
  "updateTicketRule rx ident dto now db =
     (case Option.bind (dt_pattern dto) (patternFault rx) of
        Some p \<Rightarrow> (db, Inl (RulePatternInvalid p))
      | None \<Rightarrow>
          (case sourcesPatch (dt_sources dto) of
             Inl e \<Rightarrow> (db, Inl e)
           | Inr sources \<Rightarrow>
               (case (if dt_trackerId dto \<noteq> None \<and> map_of (tb_trackers db) (the (dt_trackerId dto)) = None then None
                      else editEntry ident now (patchTicketRule dto sources) (tb_rules db)) of
                  None \<Rightarrow> (db, Inl (RuleNotFound ident))
                | Some (rules, e) \<Rightarrow> (db\<lparr>tb_rules := rules\<rparr>, Inr e))))"

definition removeTicketRule :: "string \<Rightarrow> TicketRuleDb \<Rightarrow> TicketRuleDb \<times> RuleError option" where
  "removeTicketRule ident db =
     (case dropEntry ident (tb_rules db) of
        None \<Rightarrow> (db, Some (RuleNotFound ident))
      | Some rules \<Rightarrow> (db\<lparr>tb_rules := rules\<rparr>, None))"

section \<open>Reading tickets\<close>

text \<open>A rule comes with its tracker; a foreign key says there is one.\<close>

definition toRuleLike :: "TicketRuleDb \<Rightarrow> TicketRuleRow \<Rightarrow> TicketRule option" where
  "toRuleLike db row =
     map_option (\<lambda>tracker. \<lparr>tr_name = tw_name row, tr_pattern = tw_pattern row, tr_sources = tw_sources row,
        tr_priority = tw_priority row, tr_tracker = tracker\<rparr>) (map_of (tb_trackers db) (tw_trackerId row))"

definition attachedRows :: "TicketRuleDb \<Rightarrow> string \<Rightarrow> TicketRuleRow list" where
  "attachedRows db sourceId =
     filter (\<lambda>row. (sourceId, tw_trackerId row) \<in> set (tb_attached db)) (map en_value (tb_rules db))"

definition attachedRules :: "TicketRuleDb \<Rightarrow> string \<Rightarrow> TicketRule list" where
  "attachedRules db sourceId = List.map_filter (toRuleLike db) (sort_key tw_priority (attachedRows db sourceId))"

definition previewTickets :: "RegexEngine \<Rightarrow> TicketRuleDb \<Rightarrow> TicketTexts \<Rightarrow> string option \<Rightarrow> string option \<Rightarrow> TicketRef list" where
  "previewTickets rx db texts owner repo =
     extractTickets rx texts (List.map_filter (toRuleLike db) (sort_key tw_priority (map en_value (tb_rules db))))
       (map_option (\<lambda>r. \<lparr>to_owner = required owner, to_repo = r\<rparr>) (orNull repo))"

definition sourcesFor :: "TicketRuleDb \<Rightarrow> string \<Rightarrow> TicketSource list" where
  "sourcesFor db sourceId = remdups (concat (map tw_sources (attachedRows db sourceId)))"

definition extractMany ::
  "RegexEngine \<Rightarrow> TicketRuleDb \<Rightarrow> string \<Rightarrow> TicketTexts list \<Rightarrow> TicketOrigin list \<Rightarrow> TicketRef list list" where
  "extractMany rx db sourceId texts origins =
     map (\<lambda>(i, t). extractTickets rx t (attachedRules db sourceId) (if i < length origins then Some (origins ! i) else None))
       (enumerate 0 texts)"

section \<open>No rule is saved that could only be silent\<close>

datatype EnvRuleRequest =
    CreateEnvRule CreateEnvRuleDto string
  | UpdateEnvRule string UpdateEnvRuleDto
  | RemoveEnvRule string

fun envRuleRoute :: "RegexEngine \<Rightarrow> EnvRuleRequest \<times> instant \<Rightarrow> EnvRuleDb \<Rightarrow> EnvRuleDb" where
  "envRuleRoute rx (CreateEnvRule dto fresh, now) db = fst (createEnvRule rx dto fresh now db)"
| "envRuleRoute rx (UpdateEnvRule ident dto, now) db = fst (updateEnvRule rx ident dto now db)"
| "envRuleRoute rx (RemoveEnvRule ident, now) db = fst (removeEnvRule ident db)"

datatype TicketRuleRequest =
    CreateTicketRule TicketRuleDto string
  | UpdateTicketRule string TicketRuleDto
  | RemoveTicketRule string

fun ticketRuleRoute :: "RegexEngine \<Rightarrow> TicketRuleRequest \<times> instant \<Rightarrow> TicketRuleDb \<Rightarrow> TicketRuleDb" where
  "ticketRuleRoute rx (CreateTicketRule dto fresh, now) db = fst (createTicketRule rx dto fresh now db)"
| "ticketRuleRoute rx (UpdateTicketRule ident dto, now) db = fst (updateTicketRule rx ident dto now db)"
| "ticketRuleRoute rx (RemoveTicketRule ident, now) db = fst (removeTicketRule ident db)"

definition speaks :: "RegexEngine \<Rightarrow> EnvRuleRow \<Rightarrow> bool" where
  "speaks rx row \<longleftrightarrow> rx_exec rx (er_pattern (ew_rule row)) [] \<noteq> BadPattern \<and>
     Option.bind (er_repo (ew_rule row)) (patternFault rx) = None \<and>
     (er_kind (ew_rule row) = SimpleRule \<longrightarrow> er_attributes (ew_rule row) \<noteq> [] \<or> namesGroup (er_pattern (ew_rule row)))"

definition reads :: "RegexEngine \<Rightarrow> TicketRuleRow \<Rightarrow> bool" where
  "reads rx row \<longleftrightarrow> rx_exec rx (tw_pattern row) [] \<noteq> BadPattern \<and> tw_sources row \<noteq> [] \<and> distinct (tw_sources row)"

lemma patternsFault_None:
  "patternsFault rx pattern repo = None \<longleftrightarrow>
     Option.bind pattern (patternFault rx) = None \<and> Option.bind (orNull repo) (patternFault rx) = None"
  by (auto simp: patternsFault_def orElse_def split: option.split)

lemma orElse_None [simp]: "orElse a b = None \<longleftrightarrow> a = None \<and> b = None"
  by (simp add: orElse_def split: option.split)

lemma assertContributes_None:
  "assertContributes kind pattern attributes = None \<longleftrightarrow> (kind = SimpleRule \<longrightarrow> attributes \<noteq> [] \<or> namesGroup pattern)"
  by (simp add: assertContributes_def)

lemma createEnvRule_speaks:
  assumes "everyEntry (speaks rx) (ed_rules db)"
  shows "everyEntry (speaks rx) (ed_rules (fst (createEnvRule rx dto fresh now db)))"
  using assms unfolding createEnvRule_def
  by (auto split: option.split elim!: everyEntry_storeEntry [rotated 2]
      simp: speaks_def patternsFault_None assertContributes_None)

lemma updateEnvRule_speaks:
  assumes ok: "everyEntry (speaks rx) (ed_rules db)"
  shows "everyEntry (speaks rx) (ed_rules (fst (updateEnvRule rx ident dto now db)))"
proof (cases "ed_rules (fst (updateEnvRule rx ident dto now db)) = ed_rules db")
  case False
  then obtain current rules e where c: "entryOf ident (ed_rules db) = Some current"
    and fault: "patternsFault rx (ue_pattern dto) (ue_repo dto) = None"
    and contributes: "assertContributes (patched (ue_kind dto) (er_kind (ew_rule (en_value current))))
      (patched (ue_pattern dto) (er_pattern (ew_rule (en_value current))))
      (patched (ue_attributes dto) (er_attributes (ew_rule (en_value current)))) = None"
    and edit: "editEntry ident now (patchEnvRule dto) (ed_rules db) = Some (rules, e)"
    and after: "ed_rules (fst (updateEnvRule rx ident dto now db)) = rules"
    by (auto simp: updateEnvRule_def Let_def split: option.splits)
  have "everyEntry (speaks rx) rules"
  proof (rule everyEntry_editEntry [OF ok edit])
    fix x assume x: "x \<in> set (ed_rules db)" "en_id x = ident" "speaks rx (en_value x)"
    have "x = current" using entryOf_unique [OF _ c x(1,2)] ok by (simp add: everyEntry_def)
    with x(3) fault contributes show "speaks rx (patchEnvRule dto (en_value x))"
      by (auto simp: speaks_def patchEnvRule_def Let_def patternsFault_None assertContributes_None patched_def
          split: option.splits)
  qed
  then show ?thesis unfolding after .
qed (simp add: ok)

lemma removeEnvRule_speaks:
  "everyEntry (speaks rx) (ed_rules db) \<Longrightarrow> everyEntry (speaks rx) (ed_rules (fst (removeEnvRule ident db)))"
  by (auto simp: removeEnvRule_def split: option.split intro: everyEntry_dropEntry)

interpretation env_rules: run_invariant "envRuleRoute rx" "\<lambda>_. True" "\<lambda>db :: EnvRuleDb. everyEntry (speaks rx) (ed_rules db)" for rx
proof
  fix r and s :: EnvRuleDb assume "everyEntry (speaks rx) (ed_rules s)"
  then show "everyEntry (speaks rx) (ed_rules (envRuleRoute rx r s))"
    by (cases "(rx, r, s)" rule: envRuleRoute.cases)
      (simp_all add: createEnvRule_speaks updateEnvRule_speaks removeEnvRule_speaks)
qed

lemma sourcesPatch_reads:
  "sourcesPatch sources = Inr (Some kept) \<Longrightarrow> kept \<noteq> [] \<and> distinct kept"
  by (auto simp: sourcesPatch_def assertReadsSomething_def Let_def TICKET_SOURCES_def split: option.splits sum.splits if_splits)

lemma createTicketRule_reads:
  assumes "everyEntry (reads rx) (tb_rules db)"
  shows "everyEntry (reads rx) (tb_rules (fst (createTicketRule rx dto fresh now db)))"
  using assms sourcesPatch_reads [of "dt_sources dto"] unfolding createTicketRule_def
  by (auto split: option.split sum.split if_splits elim!: everyEntry_storeEntry [rotated 2] simp: reads_def patched_def)

lemma updateTicketRule_reads:
  assumes "everyEntry (reads rx) (tb_rules db)"
  shows "everyEntry (reads rx) (tb_rules (fst (updateTicketRule rx ident dto now db)))"
  using assms sourcesPatch_reads [of "dt_sources dto"] unfolding updateTicketRule_def
  by (auto split: option.split sum.split if_splits elim!: everyEntry_editEntry simp: reads_def patched_def patchTicketRule_def)

lemma removeTicketRule_reads:
  "everyEntry (reads rx) (tb_rules db) \<Longrightarrow> everyEntry (reads rx) (tb_rules (fst (removeTicketRule ident db)))"
  by (auto simp: removeTicketRule_def split: option.split intro: everyEntry_dropEntry)

interpretation ticket_rules: run_invariant "ticketRuleRoute rx" "\<lambda>_. True" "\<lambda>db :: TicketRuleDb. everyEntry (reads rx) (tb_rules db)" for rx
proof
  fix r and s :: TicketRuleDb assume "everyEntry (reads rx) (tb_rules s)"
  then show "everyEntry (reads rx) (tb_rules (ticketRuleRoute rx r s))"
    by (cases "(rx, r, s)" rule: ticketRuleRoute.cases)
      (simp_all add: createTicketRule_reads updateTicketRule_reads removeTicketRule_reads)
qed

text \<open>C29. No rule is saved that could only be silent. Whatever classification and ticket rules have been
  created, changed and removed, and whatever was refused, the pattern of every stored rule is one the
  engine accepts and so is the one confining it to repositories; a simple classification rule forces
  an attribute or names a group, whichever request brought which half of it; and a ticket rule reads
  at least one text, none twice.\<close>

theorem no_rule_is_saved_silent:
  assumes "ed_rules env = []" and "tb_rules tickets = []"
    and "env' = fold (envRuleRoute rx) requests env" and "tickets' = fold (ticketRuleRoute rx) ticketRequests tickets"
  shows "(\<forall>e \<in> set (ed_rules env'). \<forall>rule. rule = ew_rule (en_value e) \<longrightarrow>
        rx_exec rx (er_pattern rule) [] \<noteq> BadPattern \<and>
        (\<forall>p. er_repo rule = Some p \<longrightarrow> rx_exec rx p [] \<noteq> BadPattern) \<and>
        (er_kind rule = MetaRule \<or> er_attributes rule \<noteq> [] \<or> namesGroup (er_pattern rule))) \<and>
    (\<forall>e \<in> set (tb_rules tickets'). rx_exec rx (tw_pattern (en_value e)) [] \<noteq> BadPattern \<and>
        tw_sources (en_value e) \<noteq> [] \<and> distinct (tw_sources (en_value e)))"
proof -
  have "everyEntry (speaks rx) (ed_rules env')" unfolding assms(3)
    by (rule env_rules.run_kept) (simp_all add: list_all_iff assms)
  moreover have "everyEntry (reads rx) (tb_rules tickets')" unfolding assms(4)
    by (rule ticket_rules.run_kept) (simp_all add: list_all_iff assms)
  ultimately have "\<forall>e \<in> set (ed_rules env'). speaks rx (en_value e)" "\<forall>e \<in> set (tb_rules tickets'). reads rx (en_value e)"
    by (blast dest: everyEntry_member)+
  moreover have "kind = MetaRule" if "kind \<noteq> SimpleRule" for kind using that by (cases kind) simp_all
  ultimately show ?thesis unfolding speaks_def reads_def by auto
qed

section \<open>A batch classifies each name as it would be alone\<close>

text \<open>A subject whose repository, where it has one, can be told from its name in a joined key.\<close>

definition plainSubject :: "ClassifySubject \<Rightarrow> bool" where
  "plainSubject s \<longleftrightarrow> (case cs_repo s of None \<Rightarrow> True | Some r \<Rightarrow> r \<noteq> [] \<and> CHR 0x00 \<notin> set r)"

lemma subjectKey_inject:
  "plainSubject s \<Longrightarrow> plainSubject t \<Longrightarrow> subjectKey s = subjectKey t \<longleftrightarrow> s = t"
proof -
  assume plain: "plainSubject s" "plainSubject t"
  have "CHR 0x00 \<notin> set (required (cs_repo u))" if "plainSubject u" for u
    using that by (simp add: plainSubject_def required_def split: option.splits)
  with plain have "subjectKey s = subjectKey t \<longleftrightarrow> required (cs_repo s) = required (cs_repo t) \<and> cs_name s = cs_name t"
    by (simp add: subjectKey_def separated_inject)
  also have "required (cs_repo s) = required (cs_repo t) \<longleftrightarrow> cs_repo s = cs_repo t"
    using plain by (cases "cs_repo s"; cases "cs_repo t") (auto simp: plainSubject_def required_def)
  finally show ?thesis by auto
qed

text \<open>A map built key by key holds, under a key, the last value set under it.\<close>

lemma map_of_fold_update:
  "map_of (fold (\<lambda>x. AList.update (k x) (v x)) xs m) key =
     (case filter (\<lambda>x. k x = key) xs of [] \<Rightarrow> map_of m key | ys \<Rightarrow> Some (v (List.last ys)))"
proof (induction xs arbitrary: m)
  case (Cons x xs)
  show ?case unfolding fold_simps o_apply Cons.IH by (auto simp: update_conv' split: list.split)
qed simp

lemma map_of_fold_update_inj:
  assumes "x \<in> set xs" and "\<And>y. y \<in> set xs \<Longrightarrow> k y = k x \<Longrightarrow> v y = v x"
  shows "map_of (fold (\<lambda>x. AList.update (k x) (v x)) xs m) (k x) = Some (v x)"
proof -
  let ?ys = "filter (\<lambda>y. k y = k x) xs"
  from assms(1) have "?ys \<noteq> []" by (auto simp: filter_empty_conv)
  with last_in_set [OF this] assms(2) show ?thesis
    by (auto simp: map_of_fold_update split: list.split)
qed

lemma zip_with_map: "zip xs (map f xs) = map (\<lambda>x. (x, f x)) xs"
  by (induction xs) simp_all

lemma update_values: "e \<in> set (AList.update k v m) \<Longrightarrow> e \<in> set m \<or> e = (k, v)"
  by (induction m) (auto split: if_splits)

lemma fold_update_values:
  "e \<in> set (fold (\<lambda>x. AList.update (k x) (v x)) xs m) \<Longrightarrow> e \<in> set m \<or> snd e \<in> v ` set xs"
proof (induction xs arbitrary: m)
  case (Cons x xs)
  from Cons.IH [of "AList.update (k x) (v x) m"] Cons.prems show ?case by (auto dest: update_values)
qed simp

lemma classifyByPair_alone:
  assumes plain: "list_all plainSubject subjects" and s: "s \<in> set subjects"
  shows "map_of (classifyByPair rx db sourceId subjects target) (subjectKey s) =
    Some (classify rx db sourceId s target)"
proof -
  let ?m = "fold (\<lambda>s. AList.update (subjectKey s) s) subjects []"
  let ?f = "\<lambda>s. classifyEnvironment rx (cs_name s) (rulesOf db sourceId target) (cs_repo s)"
  have values': "snd e \<in> set subjects" if "e \<in> set ?m" for e
    using fold_update_values [of e subjectKey "\<lambda>s. s" subjects "[]"] that by auto
  have "map_of ?m (subjectKey s) = Some s"
    by (rule map_of_fold_update_inj [OF s]) (use plain s in \<open>auto simp: list_all_iff subjectKey_inject\<close>)
  then have mem: "s \<in> set (map snd ?m)" by (force dest: map_of_SomeD)
  have zip: "zip (map snd ?m) (classifyMany rx db sourceId (map snd ?m) target) = map (\<lambda>s. (s, ?f s)) (map snd ?m)"
    unfolding classifyMany_def by (rule zip_with_map)
  have "map_of (fold (\<lambda>s. AList.update (subjectKey s) (?f s)) (map snd ?m) []) (subjectKey s) = Some (?f s)"
  proof (rule map_of_fold_update_inj [OF mem])
    fix y assume "y \<in> set (map snd ?m)" and "subjectKey y = subjectKey s"
    then show "?f y = ?f s" using plain s values' by (auto simp: list_all_iff subjectKey_inject)
  qed
  then show ?thesis
    unfolding classifyByPair_def Let_def zip by (simp add: fold_map comp_def classify_def classifyMany_def)
qed

text \<open>A batch classifies each name as it would be alone. However many subjects are asked about
  together, in whatever order and however often the same pair comes back, what is filed under a
  subject's key is what classifying that subject alone answers, and nothing is filed under any other
  key: the rules are read once and each distinct pair is classified once, at no cost to the answer.
  (No repository is the empty name or carries a NUL, the separator of the key.)\<close>

theorem a_batch_classifies_each_name_alone:
  assumes "list_all plainSubject subjects"
  shows "map_of (classifyByPair rx db sourceId subjects target) key =
    map_option (\<lambda>s. classify rx db sourceId s target) (List.find (\<lambda>s. subjectKey s = key) subjects)"
proof (cases "List.find (\<lambda>s. subjectKey s = key) subjects")
  case (Some s)
  then have "s \<in> set subjects" "subjectKey s = key" by (auto dest: find_member)
  with classifyByPair_alone [OF assms, of s rx db sourceId target] Some show ?thesis by simp
next
  case None
  then have none: "\<forall>s \<in> set subjects. subjectKey s \<noteq> key" by (auto simp: find_None_iff)
  let ?m = "fold (\<lambda>s. AList.update (subjectKey s) s) subjects []"
  have "\<forall>s \<in> set (map snd ?m). subjectKey s \<noteq> key"
    using none fold_update_values [of _ subjectKey "\<lambda>s. s" subjects "[]"] by fastforce
  then have "subjectKey (fst e) \<noteq> key" if "e \<in> set (zip (map snd ?m) cs)" for e and cs :: "ClassifiedEnvironment list"
    using set_zip_leftD [of "fst e" "snd e" "map snd ?m" cs] that by auto
  then have "filter (\<lambda>(s, c). subjectKey s = key) (zip (map snd ?m) cs) = []" for cs :: "ClassifiedEnvironment list"
    unfolding filter_empty_conv split_def by blast
  then have "map_of (classifyByPair rx db sourceId subjects target) key = None"
    unfolding classifyByPair_def Let_def split_def map_of_fold_update by simp
  with None show ?thesis by simp
qed

section \<open>A text no rule asks to read can be left out\<close>

definition onlyFrom :: "TicketSource list \<Rightarrow> TicketTexts \<Rightarrow> TicketTexts" where
  "onlyFrom sources texts = (\<lambda>s. if s \<in> set sources then texts s else None)"

lemma extractTickets_only:
  assumes "\<forall>rule \<in> set rules. set (tr_sources rule) \<subseteq> set sources"
  shows "extractTickets rx (onlyFrom sources texts) rules origin = extractTickets rx texts rules origin"
proof -
  have "fold (\<lambda>rule found. fold (\<lambda>source found. if source \<notin> set (tr_sources rule) then found
            else case orNull (onlyFrom sources texts source) of None \<Rightarrow> found
              | Some txt \<Rightarrow> (case rx_all rx (tr_pattern rule) txt of None \<Rightarrow> found
                 | Some hits \<Rightarrow> fold (noteMatch rx origin rule source) hits found)) TICKET_SOURCES found)
          (sort_key tr_priority rules) [] =
        fold (\<lambda>rule found. fold (\<lambda>source found. if source \<notin> set (tr_sources rule) then found
            else case orNull (texts source) of None \<Rightarrow> found
              | Some txt \<Rightarrow> (case rx_all rx (tr_pattern rule) txt of None \<Rightarrow> found
                 | Some hits \<Rightarrow> fold (noteMatch rx origin rule source) hits found)) TICKET_SOURCES found)
          (sort_key tr_priority rules) []"
  proof (rule fold_cong [OF refl refl], rule ext, rule fold_cong [OF refl refl], rule ext)
    fix rule found source f
    assume "rule \<in> set (sort_key tr_priority rules)"
    with assms have "source \<in> set (tr_sources rule) \<Longrightarrow> onlyFrom sources texts source = texts source"
      by (auto simp: onlyFrom_def)
    then show "(if source \<notin> set (tr_sources rule) then f
            else case orNull (onlyFrom sources texts source) of None \<Rightarrow> f
              | Some txt \<Rightarrow> (case rx_all rx (tr_pattern rule) txt of None \<Rightarrow> f
                 | Some hits \<Rightarrow> fold (noteMatch rx origin rule source) hits f)) =
        (if source \<notin> set (tr_sources rule) then f
            else case orNull (texts source) of None \<Rightarrow> f
              | Some txt \<Rightarrow> (case rx_all rx (tr_pattern rule) txt of None \<Rightarrow> f
                 | Some hits \<Rightarrow> fold (noteMatch rx origin rule source) hits f))" by simp
  qed
  then show ?thesis by (simp add: extractTickets_def)
qed

lemma attachedRules_sources:
  "rule \<in> set (attachedRules db sourceId) \<Longrightarrow> set (tr_sources rule) \<subseteq> set (sourcesFor db sourceId)"
  by (force simp: attachedRules_def map_filter_def toRuleLike_def sourcesFor_def)

lemma unread_texts_change_nothing:
  "extractMany rx db sourceId (map (onlyFrom (sourcesFor db sourceId)) texts) origins =
   extractMany rx db sourceId texts origins"
  by (rule nth_equalityI)
    (simp_all add: extractMany_def nth_enumerate_eq split_def attachedRules_sources extractTickets_only)

theorem no_rule_is_saved_silent_witness:
  "let dto = \<lparr>ce_dname = ''stage'', ce_pattern = ''prod'', ce_kind = SimpleRule, ce_target = None, ce_priority = None,
         ce_dattributes = Some [(''stage'', ''live'')], ce_repo = Some []\<rparr>;
       bare = \<lparr>ue_name = None, ue_pattern = None, ue_kind = None, ue_target = None, ue_priority = Some 1,
         ue_attributes = Some [], ue_repo = None\<rparr>;
       env' = fold (envRuleRoute sample_regex) [(CreateEnvRule dto ''r1'', 5), (UpdateEnvRule ''r1'' bare, 6)]
         \<lparr>ed_rules = [], ed_selected = []\<rparr>
   in map (er_attributes \<circ> ew_rule \<circ> en_value) (ed_rules env') = [[(''stage'', ''live'')]] \<and>
      rx_exec sample_regex (er_pattern (ew_rule (en_value (hd (ed_rules env'))))) [] \<noteq> BadPattern"
proof -
  let ?dto = "\<lparr>ce_dname = ''stage'', ce_pattern = ''prod'', ce_kind = SimpleRule, ce_target = None, ce_priority = None,
         ce_dattributes = Some [(''stage'', ''live'')], ce_repo = Some []\<rparr>"
  let ?bare = "\<lparr>ue_name = None, ue_pattern = None, ue_kind = None, ue_target = None, ue_priority = Some 1,
         ue_attributes = Some [], ue_repo = None\<rparr>"
  let ?db = "\<lparr>ed_rules = [], ed_selected = []\<rparr> :: EnvRuleDb"
  let ?reqs = "[(CreateEnvRule ?dto ''r1'', 5), (UpdateEnvRule ''r1'' ?bare, 6)] :: (EnvRuleRequest \<times> instant) list"
  let ?env = "fold (envRuleRoute sample_regex) ?reqs ?db"
  let ?tickets = "\<lparr>tb_rules = [], tb_trackers = [], tb_attached = []\<rparr> :: TicketRuleDb"
  have ng: "\<not> namesGroup ''prod''" by (simp add: namesGroup_def opensNamedGroup_def upt_rec)
  have one: "ed_rules ?env =
      [\<lparr>en_id = ''r1'', en_value = \<lparr>ew_rule = \<lparr>er_name = ''stage'', er_pattern = ''prod'', er_kind = SimpleRule,
          er_priority = 100, er_attributes = [(''stage'', ''live'')], er_repo = None\<rparr>, ew_target = OnEnvironment\<rparr>,
        en_createdAt = 5, en_updatedAt = 5\<rparr>]"
    using ng by (simp add: createEnvRule_def patternsFault_def patternFault_def sample_regex_def orNull_def
        assertContributes_def patched_def storeEntry_def Let_def updateEnvRule_def entryOf_def)
  have "hd (ed_rules ?env) \<in> set (ed_rules ?env)" unfolding one by simp
  moreover have "ed_rules ?db = []" "tb_rules ?tickets = []" by simp_all
  ultimately have "rx_exec sample_regex (er_pattern (ew_rule (en_value (hd (ed_rules ?env))))) [] \<noteq> BadPattern"
    using no_rule_is_saved_silent [of ?db ?tickets ?env sample_regex ?reqs ?tickets "[]", THEN conjunct1] by simp
  with one show ?thesis unfolding Let_def by simp
qed

theorem a_batch_classifies_each_name_alone_witness:
  "map_of (classifyByPair sample_regex \<lparr>ed_rules = [], ed_selected = []\<rparr> ''s''
      [\<lparr>cs_name = ''prod'', cs_repo = Some ''shop''\<rparr>, \<lparr>cs_name = ''prod'', cs_repo = None\<rparr>, \<lparr>cs_name = ''prod'', cs_repo = Some ''shop''\<rparr>]
      OnEnvironment) (''shop'' @ [CHR 0x00] @ ''prod'') =
    Some \<lparr>ce_name = ''prod'', ce_attributes = [], ce_metaEnvironments = []\<rparr>"
proof -
  let ?subjects = "[\<lparr>cs_name = ''prod'', cs_repo = Some ''shop''\<rparr>, \<lparr>cs_name = ''prod'', cs_repo = None\<rparr>,
      \<lparr>cs_name = ''prod'', cs_repo = Some ''shop''\<rparr>] :: ClassifySubject list"
  have "list_all plainSubject ?subjects" by (simp add: plainSubject_def)
  from a_batch_classifies_each_name_alone [OF this, of sample_regex "\<lparr>ed_rules = [], ed_selected = []\<rparr>" "''s''" OnEnvironment
      "''shop'' @ [CHR 0x00] @ ''prod''"]
  show ?thesis by (simp add: subjectKey_def required_def classify_def classifyMany_def classifyEnvironment_def rulesOf_def)
qed

end
