(* ===== verification/Slugs.thy ===== *)
theory Slugs
  imports Prelude "HOL-Library.Sublist"
begin

text \<open>
  Names in addresses: \<open>slugify\<close> and \<open>uniqueSlug\<close> of \<open>back/src/sources/sources.service.ts\<close> and of
  \<open>back/src/trackers/trackers.service.ts\<close>, which differ by the word a name of symbols falls back to.
  Characters are the first 256 of Unicode: \<open>normalize('NFD')\<close> without the marks it splits off leaves
  their base letter.

  The lemmas show that the search for a free counter ends, and what it ends on.
\<close>

definition baseLetter :: "char \<Rightarrow> char" where
  "baseLetter c =
     (let n = (of_char c :: nat);
          lower = (\<lambda>m. if 192 \<le> m \<and> m \<le> 197 then CHR ''A'' else if m = 199 then CHR ''C''
            else if 200 \<le> m \<and> m \<le> 203 then CHR ''E'' else if 204 \<le> m \<and> m \<le> 207 then CHR ''I''
            else if m = 209 then CHR ''N'' else if 210 \<le> m \<and> m \<le> 214 then CHR ''O''
            else if 217 \<le> m \<and> m \<le> 220 then CHR ''U'' else if m = 221 then CHR ''Y'' else char_of m)
      in if n = 255 then CHR ''y''
         else if 224 \<le> n \<and> n \<le> 253 \<and> lower (n - 32) \<noteq> char_of (n - 32)
         then char_of (of_char (lower (n - 32)) + 32 :: nat)
         else lower n)"

definition lowerLetter :: "char \<Rightarrow> char" where
  "lowerLetter c = (let n = (of_char c :: nat) in if 65 \<le> n \<and> n \<le> 90 then char_of (n + 32) else c)"

definition slugChar :: "char \<Rightarrow> bool" where
  "slugChar c \<longleftrightarrow> (let n = (of_char c :: nat) in 97 \<le> n \<and> n \<le> 122 \<or> 48 \<le> n \<and> n \<le> 57)"

text \<open>\<open>.replace(/[^a-z0-9]+/g, '-')\<close>\<close>

fun dashed :: "string \<Rightarrow> string" where
  "dashed [] = []"
| "dashed (c # s) =
     (if slugChar c then c # dashed s
      else case dashed s of d # t \<Rightarrow> if d = CHR ''-'' then d # t else CHR ''-'' # d # t
           | [] \<Rightarrow> [CHR ''-''])"

text \<open>\<open>.replace(/^-+|-+$/g, '')\<close>\<close>

definition trimDashes :: "string \<Rightarrow> string" where
  "trimDashes s = rev (dropWhile (\<lambda>c. c = CHR ''-'') (rev (dropWhile (\<lambda>c. c = CHR ''-'') s)))"

definition slugify :: "string \<Rightarrow> string \<Rightarrow> string" where
  "slugify fallback name =
     (let s = trimDashes (dashed (map (lowerLetter \<circ> baseLetter) name))
      in if s = [] then fallback else s)"

definition numbered :: "string \<Rightarrow> nat \<Rightarrow> string" where
  "numbered base i = base @ ''-'' @ showNat i"

lemma numbered_inject [simp]: "numbered base i = numbered base j \<longleftrightarrow> i = j"
  by (simp add: numbered_def)

lemma finite_taken: "finite {i. numbered base i \<in> set taken}"
  by (rule finite_vimageI [of "set taken" "numbered base", unfolded vimage_def]) (auto intro: injI)

text \<open>\<open>for (let i = 2; ; i += 1)\<close>: what is taken is finite, so some suffix is free.\<close>

function freeFrom :: "string \<Rightarrow> string list \<Rightarrow> nat \<Rightarrow> string" where
  "freeFrom base taken i =
     (if numbered base i \<in> set taken then freeFrom base taken (i + 1) else numbered base i)"
  by pat_completeness auto

termination
proof (relation "measure (\<lambda>(base, taken, i). card {j. i \<le> j \<and> numbered base j \<in> set taken})")
  fix base taken i
  assume "numbered base i \<in> set taken"
  then have "i \<in> {j. i \<le> j \<and> numbered base j \<in> set taken}" "i \<notin> {j. i + 1 \<le> j \<and> numbered base j \<in> set taken}" by simp_all
  moreover have "{j. i + 1 \<le> j \<and> numbered base j \<in> set taken} \<subseteq> {j. i \<le> j \<and> numbered base j \<in> set taken}" by auto
  ultimately have "{j. i + 1 \<le> j \<and> numbered base j \<in> set taken} \<subset> {j. i \<le> j \<and> numbered base j \<in> set taken}" by blast
  moreover have "finite {j. i \<le> j \<and> numbered base j \<in> set taken}"
    by (rule finite_subset [OF _ finite_taken [of base taken]]) auto
  ultimately show "((base, taken, i + 1), base, taken, i)
      \<in> measure (\<lambda>(base, taken, i). card {j. i \<le> j \<and> numbered base j \<in> set taken})"
    by (simp add: psubset_card_mono)
qed simp

declare freeFrom.simps [simp del]

text \<open>The siblings are the rows whose slug starts with the base, the row itself left out.\<close>

definition uniqueSlug :: "string \<Rightarrow> string \<Rightarrow> string list \<Rightarrow> string" where
  "uniqueSlug fallback name others =
     (let base = slugify fallback name;
          taken = filter (prefix base) others
      in if base \<notin> set taken then base else freeFrom base taken 2)"

section \<open>What a slug is\<close>

lemma freeFrom_free: "freeFrom base taken i \<notin> set taken"
  by (induction base taken i rule: freeFrom.induct) (subst freeFrom.simps, auto)

lemma freeFrom_numbered: "\<exists>j \<ge> i. freeFrom base taken i = numbered base j"
proof (induction base taken i rule: freeFrom.induct)
  case (1 base taken i)
  then show ?case by (subst freeFrom.simps) (auto intro: exI [of _ i] dest: Suc_leD)
qed

lemma freeFrom_least:
  "freeFrom base taken i = numbered base j \<Longrightarrow> i \<le> k \<Longrightarrow> k < j \<Longrightarrow> numbered base k \<in> set taken"
proof (induction base taken i rule: freeFrom.induct)
  case (1 base taken i)
  then show ?case
    by (cases "numbered base i \<in> set taken"; cases "k = i") (auto simp: freeFrom.simps [of base taken i])
qed

text \<open>A slug is one no other row has: looking only among those that start with the base is enough.\<close>

lemma uniqueSlug_free: "uniqueSlug fallback name others \<notin> set others"
proof -
  let ?base = "slugify fallback name"
  let ?taken = "filter (prefix ?base) others"
  have p: "prefix ?base (freeFrom ?base ?taken 2)"
  proof -
    obtain j where "freeFrom ?base ?taken 2 = ?base @ ''-'' @ showNat j"
      using freeFrom_numbered [of 2 ?base ?taken] unfolding numbered_def by blast
    then show ?thesis by (rule prefixI)
  qed
  have "freeFrom ?base ?taken 2 \<notin> set others"
  proof
    assume "freeFrom ?base ?taken 2 \<in> set others"
    with p have "freeFrom ?base ?taken 2 \<in> set ?taken" by simp
    with freeFrom_free show False by blast
  qed
  moreover have "?base \<in> set ?taken" if "?base \<in> set others" using that by simp
  ultimately show ?thesis unfolding uniqueSlug_def Let_def by (cases "?base \<in> set ?taken") (simp_all only: if_True if_False not_True_eq_False simp_thms, blast+)
qed

lemma dashed_chars: "c \<in> set (dashed s) \<Longrightarrow> slugChar c \<or> c = CHR ''-''"
  by (induction s) (auto split: if_splits list.splits)

lemma trimDashes_subset: "set (trimDashes s) \<subseteq> set s"
proof
  fix c assume "c \<in> set (trimDashes s)"
  then have "c \<in> set (rev (dropWhile (\<lambda>c. c = CHR ''-'') s))"
    unfolding trimDashes_def set_rev [of "dropWhile _ (rev _)"] by (blast dest: set_dropWhileD)
  then show "c \<in> set s" unfolding set_rev by (blast dest: set_dropWhileD)
qed

lemma slugify_chars:
  assumes "c \<in> set (slugify fallback name)" shows "c \<in> set fallback \<or> slugChar c \<or> c = CHR ''-''"
proof (cases "slugify fallback name = fallback")
  case False
  then have "slugify fallback name = trimDashes (dashed (map (lowerLetter \<circ> baseLetter) name))"
    by (simp add: slugify_def Let_def split: if_splits)
  with assms trimDashes_subset have "c \<in> set (dashed (map (lowerLetter \<circ> baseLetter) name))" by auto
  then show ?thesis by (rule dashed_chars [THEN disjI2])
qed (use assms in simp)

lemma slugify_nonempty: "fallback \<noteq> [] \<Longrightarrow> slugify fallback name \<noteq> []"
  by (simp add: slugify_def Let_def)

end
