(* ===== verification/Sources.thy ===== *)
theory Sources
  imports Slugs Catalogue Connectors Settings
begin

text \<open>
  The sources of an install and the trackers attached to them: \<open>back/src/sources/sources.service.ts\<close>
  with the part of \<open>back/src/crypto/credentials.service.ts\<close> it uses, and
  \<open>back/src/trackers/trackers.service.ts\<close>. The cipher is a parameter, and so are the identifiers and
  secrets that are drawn. A binding to a tracker or a selection of rules is kept in the row of its
  source, as the cascades of the schema keep it; the quotas of a source are the identifiers that have
  some.

  The theorem states what every request keeps: a source can always be authenticated with the scheme
  it claims, at most one is the default, addresses name one source each, and a secret for events
  outlives neither its source nor its being switched off.
\<close>

section \<open>Rows\<close>

datatype AuthKind = TokenAuth | AppAuth

datatype SourceMode = LiveMode | StoredMode

text \<open>What a credential spells: a token, or the JSON of an application's three fields.\<close>

datatype Plaintext = TokenPlain string | AppPlain string string string

datatype SourceAuth = TokenWith string | AppWith string string string

record Source =
  so_name :: string
  so_slug :: string
  so_kind :: SourceKind
  so_baseUrl :: string
  so_authKind :: AuthKind
  so_scope :: "string \<times> ScopeRules"
  so_mode :: SourceMode
  so_webhooksEnabled :: bool
  so_historyDays :: "int option"
  so_isDefault :: bool
  so_trackers :: "(string \<times> bool) list"
  so_envRules :: "string list"
  so_envUrlRules :: "string list"
  so_versionRules :: "string list"

record Tracker =
  ta_name :: string
  ta_slug :: string
  ta_kind :: TrackerKind
  ta_baseUrl :: string
  ta_urlTemplate :: "string option"

record 'c SourcesDb =
  sb_sources :: "Source catalogue"
  sb_trackers :: "Tracker catalogue"
  sb_envRules :: "string list"
  sb_envUrlRules :: "string list"
  sb_versionRules :: "string list"
  sb_credentials :: "(string, 'c) jsmap"
  sb_webhookSecrets :: "(string, 'c) jsmap"
  sb_quotas :: "string list"

record 'c Vault =
  va_encrypt :: "Plaintext \<Rightarrow> 'c"
  va_decrypt :: "'c \<Rightarrow> Plaintext option"

record SourceDto =
  sf_name :: "string option"
  sf_kind :: "SourceKind option"
  sf_baseUrl :: "string option"
  sf_authKind :: "AuthKind option"
  sf_secret :: "string option"
  sf_app :: "(string \<times> string \<times> string) option"
  sf_scope :: "(string \<times> ScopeRules) option"
  sf_mode :: "SourceMode option"
  sf_webhooksEnabled :: "bool option"
  sf_historyDays :: "int option option"
  sf_envRuleIds :: "string list option"
  sf_envUrlRuleIds :: "string list option"
  sf_versionRuleIds :: "string list option"
  sf_trackerIds :: "string list option"
  sf_incidentTrackerId :: "string option"

datatype SourceError = SourceNotFound string | TrackerNotFound string | TrackerNotAttached | TrackerUnsupported TrackerKind
  | AppUnsupported | MissingApp | MissingToken | WebhooksRequireStored | WebhooksDisabled | HistoryRequiresStored
  | NoCredential string | CredentialUnreadable | SourceDbRefused

section \<open>The checks\<close>

definition INCIDENT_TRACKER_KINDS :: "TrackerKind list" where
  "INCIDENT_TRACKER_KINDS = [GithubTracker, GitlabTracker]"

definition assertTrackers :: "string list option \<Rightarrow> string option \<Rightarrow> 'c SourcesDb \<Rightarrow> SourceError option" where
  "assertTrackers trackerIds incidentTrackerId db =
     (case orNull incidentTrackerId of
        None \<Rightarrow> None
      | Some ident \<Rightarrow>
          if (case trackerIds of Some ids \<Rightarrow> ident \<notin> set ids | None \<Rightarrow> False) then Some TrackerNotAttached
          else case entryOf ident (sb_trackers db) of
            None \<Rightarrow> Some (TrackerNotFound ident)
          | Some tracker \<Rightarrow>
              if ta_kind (en_value tracker) \<in> set INCIDENT_TRACKER_KINDS then None
              else Some (TrackerUnsupported (ta_kind (en_value tracker))))"

definition assertWebhooksAllowed :: "SourceMode \<Rightarrow> bool \<Rightarrow> SourceError option" where
  "assertWebhooksAllowed mode enabled = (if enabled \<and> mode \<noteq> StoredMode then Some WebhooksRequireStored else None)"

definition credentialPlaintext :: "AuthKind \<Rightarrow> string option \<Rightarrow> (string \<times> string \<times> string) option \<Rightarrow> SourceError + Plaintext" where
  "credentialPlaintext authKind secret app =
     (case authKind of
        AppAuth \<Rightarrow> (case app of None \<Rightarrow> Inl MissingApp | Some (a, k, i) \<Rightarrow> Inr (AppPlain a k i))
      | TokenAuth \<Rightarrow> (case orNull secret of None \<Rightarrow> Inl MissingToken | Some s \<Rightarrow> Inr (TokenPlain s)))"

definition buildAuth :: "AuthKind \<Rightarrow> Plaintext \<Rightarrow> SourceAuth option" where
  "buildAuth authKind secret =
     (case (authKind, secret) of
        (AppAuth, AppPlain a k i) \<Rightarrow> Some (AppWith a k i)
      | (TokenAuth, TokenPlain s) \<Rightarrow> Some (TokenWith s)
      | _ \<Rightarrow> None)"

definition toBindings :: "string list option \<Rightarrow> string option \<Rightarrow> (string \<times> bool) list" where
  "toBindings trackerIds incidentTrackerId =
     map (\<lambda>trackerId. (trackerId, Some trackerId = incidentTrackerId)) (patched trackerIds [])"

text \<open>The foreign and unique keys of the bindings: every row named is there, and named once.\<close>

definition bindable :: "string list option \<Rightarrow> string list \<Rightarrow> bool" where
  "bindable ids rows \<longleftrightarrow> (case ids of None \<Rightarrow> True | Some xs \<Rightarrow> distinct xs \<and> set xs \<subseteq> set rows)"

definition keysHold :: "SourceDto \<Rightarrow> 'c SourcesDb \<Rightarrow> bool" where
  "keysHold dto db \<longleftrightarrow> bindable (sf_trackerIds dto) (map en_id (sb_trackers db)) \<and>
     bindable (sf_envRuleIds dto) (sb_envRules db) \<and> bindable (sf_envUrlRuleIds dto) (sb_envUrlRules db) \<and>
     bindable (sf_versionRuleIds dto) (sb_versionRules db)"

section \<open>Operations\<close>

definition slugsBut :: "string option \<Rightarrow> 'c SourcesDb \<Rightarrow> string list" where
  "slugsBut excluded db = map (so_slug \<circ> en_value) (filter (\<lambda>e. Some (en_id e) \<noteq> excluded) (sb_sources db))"

text \<open>What a creation checks before it writes, and the row it writes.\<close>

definition planCreate :: "SourceDto \<Rightarrow> 'c SourcesDb \<Rightarrow> SourceError + Plaintext" where
  "planCreate dto db =
     (case assertTrackers (sf_trackerIds dto) (sf_incidentTrackerId dto) db of
        Some e \<Rightarrow> Inl e
      | None \<Rightarrow>
          (case assertWebhooksAllowed (patched (sf_mode dto) LiveMode) (patched (sf_webhooksEnabled dto) False) of
             Some e \<Rightarrow> Inl e
           | None \<Rightarrow> credentialPlaintext (patched (sf_authKind dto) TokenAuth) (sf_secret dto) (sf_app dto)))"

definition newSource :: "SourceDto \<Rightarrow> string \<Rightarrow> Source" where
  "newSource dto slug =
     \<lparr>so_name = patched (sf_name dto) [], so_slug = slug, so_kind = patched (sf_kind dto) GitHub,
      so_baseUrl = patched (sf_baseUrl dto) [], so_authKind = patched (sf_authKind dto) TokenAuth,
      so_scope = patched (sf_scope dto) ([], \<lparr>sc_include = None, sc_exclude = None, sc_trackNewRepos = None\<rparr>),
      so_mode = patched (sf_mode dto) LiveMode, so_webhooksEnabled = patched (sf_webhooksEnabled dto) False,
      so_historyDays = patched (sf_historyDays dto) None, so_isDefault = False,
      so_trackers = toBindings (sf_trackerIds dto) (sf_incidentTrackerId dto),
      so_envRules = patched (sf_envRuleIds dto) [], so_envUrlRules = patched (sf_envUrlRuleIds dto) [],
      so_versionRules = patched (sf_versionRuleIds dto) []\<rparr>"

definition createSource ::
  "'c Vault \<Rightarrow> SourceDto \<Rightarrow> string \<Rightarrow> instant \<Rightarrow> 'c SourcesDb \<Rightarrow> 'c SourcesDb \<times> (SourceError + Source entry)" where
  "createSource vault dto fresh now db =
     (case planCreate dto db of
        Inl e \<Rightarrow> (db, Inl e)
      | Inr plain \<Rightarrow>
          (case (if keysHold dto db
                 then storeEntry fresh now
                   (newSource dto (uniqueSlug ''source'' (patched (sf_name dto) []) (slugsBut None db))) (sb_sources db)
                 else None) of
             None \<Rightarrow> (db, Inl SourceDbRefused)
           | Some (sources, e) \<Rightarrow>
               (db\<lparr>sb_sources := sources,
                   sb_credentials := AList.update fresh (va_encrypt vault plain) (sb_credentials db)\<rparr>, Inr e)))"

definition findSources :: "PageWindow \<Rightarrow> 'c SourcesDb \<Rightarrow> Source entry Page" where
  "findSources window db =
     toPage (take (pw_limit window) (drop (pw_offset window) (sort_key en_createdAt (sb_sources db))))
       (length (sb_sources db)) window"

definition listIds :: "'c SourcesDb \<Rightarrow> string list" where
  "listIds db = map en_id (sort_key en_createdAt (sb_sources db))"

record SourceSpec =
  sp_mode :: SourceMode
  sp_scope :: "string \<times> ScopeRules"
  sp_kind :: SourceKind
  sp_baseUrl :: string
  sp_historyDays :: "int option"

definition readSpec :: "string \<Rightarrow> 'c SourcesDb \<Rightarrow> SourceError + SourceSpec" where
  "readSpec ident db =
     (case entryOf ident (sb_sources db) of
        None \<Rightarrow> Inl (SourceNotFound ident)
      | Some e \<Rightarrow> let s = en_value e in
          Inr \<lparr>sp_mode = so_mode s, sp_scope = so_scope s, sp_kind = so_kind s, sp_baseUrl = so_baseUrl s,
               sp_historyDays = so_historyDays s\<rparr>)"

definition findOne :: "string \<Rightarrow> 'c SourcesDb \<Rightarrow> SourceError + Source entry" where
  "findOne ident db =
     (case entryOf ident (sb_sources db) of None \<Rightarrow> Inl (SourceNotFound ident) | Some e \<Rightarrow> Inr e)"

definition setHistoryDays :: "string \<Rightarrow> int \<Rightarrow> instant \<Rightarrow> 'c SourcesDb \<Rightarrow> 'c SourcesDb \<times> SourceError option" where
  "setHistoryDays ident historyDays now db =
     (case entryOf ident (sb_sources db) of
        None \<Rightarrow> (db, Some (SourceNotFound ident))
      | Some e \<Rightarrow>
          if so_mode (en_value e) \<noteq> StoredMode then (db, Some HistoryRequiresStored)
          else case editEntry ident now (\<lambda>s. s\<lparr>so_historyDays := Some historyDays\<rparr>) (sb_sources db) of
            None \<Rightarrow> (db, Some SourceDbRefused)
          | Some (sources, _) \<Rightarrow> (db\<lparr>sb_sources := sources\<rparr>, None))"

text \<open>Every other default is cleared in the transaction that sets this one.\<close>

definition demoted :: "string \<Rightarrow> instant \<Rightarrow> Source entry \<Rightarrow> Source entry" where
  "demoted ident now x =
     (if en_id x \<noteq> ident \<and> so_isDefault (en_value x) then restamp now (\<lambda>s. s\<lparr>so_isDefault := False\<rparr>) x else x)"

definition makeDefault :: "string \<Rightarrow> instant \<Rightarrow> 'c SourcesDb \<Rightarrow> 'c SourcesDb \<times> (SourceError + Source entry)" where
  "makeDefault ident now db =
     (case editEntry ident now (\<lambda>s. s\<lparr>so_isDefault := True\<rparr>) (sb_sources db) of
        None \<Rightarrow> (db, Inl (SourceNotFound ident))
      | Some (sources, e) \<Rightarrow>
          (db\<lparr>sb_sources := map (demoted ident now) sources\<rparr>, Inr e))"

definition editSource :: "SourceDto \<Rightarrow> string \<Rightarrow> SourceKind \<Rightarrow> AuthKind \<Rightarrow> SourceMode \<Rightarrow> bool \<Rightarrow> Source \<Rightarrow> Source" where
  "editSource dto slug kind authKind mode webhooks s =
     s\<lparr>so_name := patched (sf_name dto) (so_name s), so_slug := slug, so_kind := kind,
       so_baseUrl := patched (sf_baseUrl dto) (so_baseUrl s), so_authKind := authKind,
       so_scope := patched (sf_scope dto) (so_scope s), so_mode := mode, so_webhooksEnabled := webhooks,
       so_historyDays := patched (sf_historyDays dto) (so_historyDays s),
       so_trackers := (if sf_trackerIds dto = None then so_trackers s
                       else toBindings (sf_trackerIds dto) (sf_incidentTrackerId dto)),
       so_envRules := patched (sf_envRuleIds dto) (so_envRules s),
       so_envUrlRules := patched (sf_envUrlRuleIds dto) (so_envUrlRules s),
       so_versionRules := patched (sf_versionRuleIds dto) (so_versionRules s)\<rparr>"

text \<open>
  What an update works out before it writes: the row as it will be, and the credential to write with
  it where one is due.
\<close>

definition slugAfter :: "string \<Rightarrow> SourceDto \<Rightarrow> Source \<Rightarrow> 'c SourcesDb \<Rightarrow> string" where
  "slugAfter ident dto current db =
     (case sf_name dto of
        None \<Rightarrow> so_slug current
      | Some name \<Rightarrow> if name = so_name current then so_slug current
                     else uniqueSlug ''source'' name (slugsBut (Some ident) db))"

definition secretAfter :: "SourceDto \<Rightarrow> AuthKind \<Rightarrow> Source \<Rightarrow> SourceError + Plaintext option" where
  "secretAfter dto authKind current =
     (if sf_secret dto \<noteq> None \<or> sf_app dto \<noteq> None \<or> authKind \<noteq> so_authKind current
      then (case credentialPlaintext authKind (sf_secret dto) (sf_app dto) of Inl e \<Rightarrow> Inl e | Inr plain \<Rightarrow> Inr (Some plain))
      else Inr None)"

definition webhooksAfter :: "SourceDto \<Rightarrow> SourceMode \<Rightarrow> Source \<Rightarrow> bool" where
  "webhooksAfter dto mode current \<longleftrightarrow>
     mode = StoredMode \<and> patched (sf_webhooksEnabled dto) (so_webhooksEnabled current)"

definition planUpdate ::
  "string \<Rightarrow> SourceDto \<Rightarrow> 'c SourcesDb \<Rightarrow> SourceError + (Source \<Rightarrow> Source) \<times> Plaintext option \<times> bool" where
  "planUpdate ident dto db =
     (case entryOf ident (sb_sources db) of
        None \<Rightarrow> Inl (SourceNotFound ident)
      | Some e \<Rightarrow>
          let current = en_value e;
              kind = patched (sf_kind dto) (so_kind current);
              authKind = patched (sf_authKind dto) (so_authKind current);
              mode = patched (sf_mode dto) (so_mode current);
              webhooks = webhooksAfter dto mode current
          in if kind = GitLab \<and> authKind = AppAuth then Inl AppUnsupported
             else
               (case secretAfter dto authKind current of
                  Inl e \<Rightarrow> Inl e
                | Inr newSecret \<Rightarrow>
                    (case assertTrackers (sf_trackerIds dto) (sf_incidentTrackerId dto) db of
                       Some e \<Rightarrow> Inl e
                     | None \<Rightarrow>
                         (case assertWebhooksAllowed mode (patched (sf_webhooksEnabled dto) False) of
                            Some e \<Rightarrow> Inl e
                          | None \<Rightarrow>
                              Inr (editSource dto (slugAfter ident dto current db) kind authKind mode webhooks,
                                   newSecret, webhooks)))))"

definition updateSource ::
  "'c Vault \<Rightarrow> string \<Rightarrow> SourceDto \<Rightarrow> instant \<Rightarrow> 'c SourcesDb \<Rightarrow> 'c SourcesDb \<times> (SourceError + Source entry)" where
  "updateSource vault ident dto now db =
     (case planUpdate ident dto db of
        Inl e \<Rightarrow> (db, Inl e)
      | Inr (edit, newSecret, webhooks) \<Rightarrow>
          (case (if keysHold dto db then editEntry ident now edit (sb_sources db) else None) of
             None \<Rightarrow> (db, Inl SourceDbRefused)
           | Some (sources, e) \<Rightarrow>
               let written = db\<lparr>sb_sources := sources,
                     sb_credentials := (case newSecret of None \<Rightarrow> sb_credentials db
                       | Some plain \<Rightarrow> AList.update ident (va_encrypt vault plain) (sb_credentials db))\<rparr>
               in (if webhooks then written
                   else written\<lparr>sb_webhookSecrets := AList.delete ident (sb_webhookSecrets written)\<rparr>, Inr e)))"

definition issueWebhookSecret ::
  "'c Vault \<Rightarrow> string \<Rightarrow> string \<Rightarrow> 'c SourcesDb \<Rightarrow> 'c SourcesDb \<times> (SourceError + string \<times> string)" where
  "issueWebhookSecret vault drawn ident db =
     (case entryOf ident (sb_sources db) of
        None \<Rightarrow> (db, Inl (SourceNotFound ident))
      | Some e \<Rightarrow>
          if \<not> so_webhooksEnabled (en_value e) then (db, Inl WebhooksDisabled)
          else (db\<lparr>sb_webhookSecrets := AList.update ident (va_encrypt vault (TokenPlain drawn)) (sb_webhookSecrets db)\<rparr>,
                Inr (''/api/webhooks/'' @ ident, drawn)))"

definition removeSource :: "string \<Rightarrow> 'c SourcesDb \<Rightarrow> 'c SourcesDb \<times> SourceError option" where
  "removeSource ident db =
     (case dropEntry ident (sb_sources db) of
        None \<Rightarrow> (db, Some (SourceNotFound ident))
      | Some sources \<Rightarrow>
          (db\<lparr>sb_sources := sources, sb_webhookSecrets := AList.delete ident (sb_webhookSecrets db),
              sb_quotas := removeAll ident (sb_quotas db), sb_credentials := AList.delete ident (sb_credentials db)\<rparr>, None))"

record ResolvedContext =
  xc_kind :: SourceKind
  xc_baseUrl :: string
  xc_auth :: SourceAuth
  xc_scope :: "string \<times> ScopeRules"
  xc_maxPages :: rat

definition resolveContext :: "'c Vault \<Rightarrow> AppSettings \<Rightarrow> string \<Rightarrow> 'c SourcesDb \<Rightarrow> SourceError + ResolvedContext" where
  "resolveContext vault settings ident db =
     (case entryOf ident (sb_sources db) of
        None \<Rightarrow> Inl (SourceNotFound ident)
      | Some e \<Rightarrow>
          (case map_of (sb_credentials db) ident of
             None \<Rightarrow> Inl (NoCredential ident)
           | Some cipher \<Rightarrow>
               (case Option.bind (va_decrypt vault cipher) (buildAuth (so_authKind (en_value e))) of
                  None \<Rightarrow> Inl CredentialUnreadable
                | Some auth \<Rightarrow> Inr \<lparr>xc_kind = so_kind (en_value e), xc_baseUrl = so_baseUrl (en_value e), xc_auth = auth,
                    xc_scope = so_scope (en_value e), xc_maxPages = st_collectionPageCap settings\<rparr>)))"

section \<open>Trackers\<close>

record TrackerDto =
  td_name :: "string option"
  td_kind :: "TrackerKind option"
  td_baseUrl :: "string option"
  td_urlTemplate :: "string option option"

definition trackerSlugsBut :: "string option \<Rightarrow> 'c SourcesDb \<Rightarrow> string list" where
  "trackerSlugsBut excluded db = map (ta_slug \<circ> en_value) (filter (\<lambda>e. Some (en_id e) \<noteq> excluded) (sb_trackers db))"

definition createTracker :: "TrackerDto \<Rightarrow> string \<Rightarrow> instant \<Rightarrow> 'c SourcesDb \<Rightarrow> 'c SourcesDb \<times> (SourceError + Tracker entry)" where
  "createTracker dto fresh now db =
     (let name = patched (td_name dto) [] in
      case storeEntry fresh now \<lparr>ta_name = name, ta_slug = uniqueSlug ''tracker'' name (trackerSlugsBut None db),
          ta_kind = patched (td_kind dto) Jira, ta_baseUrl = patched (td_baseUrl dto) [],
          ta_urlTemplate = patched (td_urlTemplate dto) None\<rparr> (sb_trackers db) of
        None \<Rightarrow> (db, Inl SourceDbRefused)
      | Some (trackers, e) \<Rightarrow> (db\<lparr>sb_trackers := trackers\<rparr>, Inr e))"

definition incidentTrackerFor :: "string \<Rightarrow> 'c SourcesDb \<Rightarrow> Tracker entry option" where
  "incidentTrackerFor sourceId db =
     List.find (\<lambda>t. list_ex (\<lambda>s. en_id s = sourceId \<and> (en_id t, True) \<in> set (so_trackers (en_value s))) (sb_sources db))
       (sb_trackers db)"

definition updateTracker ::
  "string \<Rightarrow> TrackerDto \<Rightarrow> instant \<Rightarrow> 'c SourcesDb \<Rightarrow> 'c SourcesDb \<times> (SourceError + Tracker entry)" where
  "updateTracker ident dto now db =
     (case entryOf ident (sb_trackers db) of
        None \<Rightarrow> (db, Inl (TrackerNotFound ident))
      | Some current \<Rightarrow>
          let slug = (case td_name dto of
                None \<Rightarrow> ta_slug (en_value current)
              | Some name \<Rightarrow> if name = ta_name (en_value current) then ta_slug (en_value current)
                             else uniqueSlug ''tracker'' name (trackerSlugsBut (Some ident) db))
          in case editEntry ident now (\<lambda>t. \<lparr>ta_name = patched (td_name dto) (ta_name t), ta_slug = slug,
                 ta_kind = patched (td_kind dto) (ta_kind t), ta_baseUrl = patched (td_baseUrl dto) (ta_baseUrl t),
                 ta_urlTemplate = patched (td_urlTemplate dto) (ta_urlTemplate t)\<rparr>) (sb_trackers db) of
               None \<Rightarrow> (db, Inl SourceDbRefused)
             | Some (trackers, e) \<Rightarrow> (db\<lparr>sb_trackers := trackers\<rparr>, Inr e))"

definition removeTracker :: "string \<Rightarrow> 'c SourcesDb \<Rightarrow> 'c SourcesDb \<times> SourceError option" where
  "removeTracker ident db =
     (case dropEntry ident (sb_trackers db) of
        None \<Rightarrow> (db, Some (TrackerNotFound ident))
      | Some trackers \<Rightarrow>
          (db\<lparr>sb_trackers := trackers,
              sb_sources := map (\<lambda>e. e\<lparr>en_value := (en_value e)
                \<lparr>so_trackers := filter (\<lambda>(t, _). t \<noteq> ident) (so_trackers (en_value e))\<rparr>\<rparr>) (sb_sources db)\<rparr>, None))"

section \<open>The routes\<close>

datatype SourceRequest =
    CreateSource SourceDto string
  | UpdateSource string SourceDto
  | MakeDefault string
  | SetHistoryDays string int
  | IssueWebhookSecret string string
  | RemoveSource string
  | CreateTracker TrackerDto string
  | UpdateTracker string TrackerDto
  | RemoveTracker string

fun sourceRoute :: "'c Vault \<Rightarrow> SourceRequest \<times> instant \<Rightarrow> 'c SourcesDb \<Rightarrow> 'c SourcesDb" where
  "sourceRoute vault (CreateSource dto fresh, now) db = fst (createSource vault dto fresh now db)"
| "sourceRoute vault (UpdateSource ident dto, now) db = fst (updateSource vault ident dto now db)"
| "sourceRoute vault (MakeDefault ident, now) db = fst (makeDefault ident now db)"
| "sourceRoute vault (SetHistoryDays ident days, now) db = fst (setHistoryDays ident days now db)"
| "sourceRoute vault (IssueWebhookSecret ident drawn, now) db = fst (issueWebhookSecret vault drawn ident db)"
| "sourceRoute vault (RemoveSource ident, now) db = fst (removeSource ident db)"
| "sourceRoute vault (CreateTracker dto fresh, now) db = fst (createTracker dto fresh now db)"
| "sourceRoute vault (UpdateTracker ident dto, now) db = fst (updateTracker ident dto now db)"
| "sourceRoute vault (RemoveTracker ident, now) db = fst (removeTracker ident db)"

section \<open>What every request keeps\<close>

definition coherentRow :: "Source \<Rightarrow> bool" where
  "coherentRow s \<longleftrightarrow> (so_webhooksEnabled s \<longrightarrow> so_mode s = StoredMode) \<and>
     distinct (map fst (so_trackers s)) \<and> length (filter snd (so_trackers s)) \<le> 1"

definition oneEach :: "('r entry \<Rightarrow> 'k) \<Rightarrow> 'r catalogue \<Rightarrow> bool" where
  "oneEach g cat \<longleftrightarrow> (\<forall>x \<in> set cat. \<forall>y \<in> set cat. g x = g y \<longrightarrow> en_id x = en_id y)"

definition oneDefault :: "Source catalogue \<Rightarrow> bool" where
  "oneDefault cat \<longleftrightarrow> (\<forall>x \<in> set cat. \<forall>y \<in> set cat. so_isDefault (en_value x) \<and> so_isDefault (en_value y) \<longrightarrow> en_id x = en_id y)"

definition opens :: "'c Vault \<Rightarrow> (string, 'c) jsmap \<Rightarrow> string \<Rightarrow> AuthKind \<Rightarrow> bool" where
  "opens vault credentials ident authKind \<longleftrightarrow>
     (\<exists>cipher plain. map_of credentials ident = Some cipher \<and> va_decrypt vault cipher = Some plain \<and>
        buildAuth authKind plain \<noteq> None)"

definition credentialsFit :: "'c Vault \<Rightarrow> Source catalogue \<Rightarrow> (string, 'c) jsmap \<Rightarrow> bool" where
  "credentialsFit vault sources credentials \<longleftrightarrow>
     (\<forall>e \<in> set sources. opens vault credentials (en_id e) (so_authKind (en_value e))) \<and>
     fst ` set credentials \<subseteq> en_id ` set sources"

definition secretsListen :: "Source catalogue \<Rightarrow> (string, 'c) jsmap \<Rightarrow> bool" where
  "secretsListen sources secrets \<longleftrightarrow>
     fst ` set secrets \<subseteq> en_id ` {e \<in> set sources. so_webhooksEnabled (en_value e)}"

definition bindingsHold :: "Source catalogue \<Rightarrow> Tracker catalogue \<Rightarrow> bool" where
  "bindingsHold sources trackers \<longleftrightarrow> (\<forall>e \<in> set sources. fst ` set (so_trackers (en_value e)) \<subseteq> en_id ` set trackers)"

definition coherent :: "'c Vault \<Rightarrow> 'c SourcesDb \<Rightarrow> bool" where
  "coherent vault db \<longleftrightarrow>
     everyEntry coherentRow (sb_sources db) \<and> oneEach (so_slug \<circ> en_value) (sb_sources db) \<and>
     oneDefault (sb_sources db) \<and> everyEntry (\<lambda>_. True) (sb_trackers db) \<and>
     oneEach (ta_slug \<circ> en_value) (sb_trackers db) \<and>
     credentialsFit vault (sb_sources db) (sb_credentials db) \<and>
     secretsListen (sb_sources db) (sb_webhookSecrets db) \<and> bindingsHold (sb_sources db) (sb_trackers db)"

lemma editEntry_Some:
  "editEntry ident now f cat = Some (cat', e) \<Longrightarrow>
     cat' = map (\<lambda>x. if en_id x = ident then restamp now f x else x) cat \<and> ident \<in> en_id ` set cat"
  by (auto simp: editEntry_def split: option.splits dest: entryOf_Some)

lemma storeEntry_Some:
  "storeEntry fresh now r cat = Some (cat', e) \<Longrightarrow>
     cat' = cat @ [\<lparr>en_id = fresh, en_value = r, en_createdAt = now, en_updatedAt = now\<rparr>] \<and> fresh \<notin> en_id ` set cat"
  by (auto simp: storeEntry_def Let_def split: if_splits)

lemma dropEntry_Some:
  "dropEntry ident cat = Some cat' \<Longrightarrow> cat' = filter (\<lambda>e. en_id e \<noteq> ident) cat"
  by (auto simp: dropEntry_def split: option.splits)

lemma restamp_simps [simp]:
  "en_id (restamp now f e) = en_id e" "en_value (restamp now f e) = f (en_value e)"
  by (simp_all add: restamp_def)

lemma edited_cases:
  assumes "editEntry ident now f cat = Some (cat', e)" and "x \<in> set cat'"
  obtains y where "y \<in> set cat" "en_id y = ident" "x = restamp now f y" | "x \<in> set cat" "en_id x \<noteq> ident"
proof -
  from assms editEntry_Some [OF assms(1)] obtain y where "y \<in> set cat" "x = (if en_id y = ident then restamp now f y else y)"
    by auto
  then show thesis using that by (cases "en_id y = ident") auto
qed

lemma edited_ids: "editEntry ident now f cat = Some (cat', e) \<Longrightarrow> map en_id cat' = map en_id cat"
  by (drule editEntry_Some) (auto simp: map_en_id_restamp)

lemma edited_ids_set: "editEntry ident now f cat = Some (cat', e) \<Longrightarrow> en_id ` set cat' = en_id ` set cat"
  by (drule edited_ids) (metis list.set_map)

lemma edited_every:
  assumes "editEntry ident now f cat = Some (cat', e)" and "\<And>x. x \<in> set cat \<Longrightarrow> en_id x \<noteq> ident \<Longrightarrow> P x"
    and "\<And>x. x \<in> set cat \<Longrightarrow> en_id x = ident \<Longrightarrow> P (restamp now f x)"
  shows "\<forall>x \<in> set cat'. P x"
proof
  fix x assume "x \<in> set cat'"
  then show "P x"
  proof (rule edited_cases [OF assms(1)])
    fix y assume y: "y \<in> set cat" "en_id y = ident" and x: "x = restamp now f y"
    show "P x" unfolding x using y by (rule assms(3))
  next
    assume "x \<in> set cat" "en_id x \<noteq> ident"
    then show "P x" by (rule assms(2))
  qed
qed

text \<open>What an edit of one row leaves of each part.\<close>

lemma oneEach_edit:
  assumes one: "oneEach (g \<circ> en_value) cat" and edit: "editEntry ident now f cat = Some (cat', e)"
    and free: "\<And>x y. x \<in> set cat \<Longrightarrow> en_id x = ident \<Longrightarrow> y \<in> set cat \<Longrightarrow> en_id y \<noteq> ident \<Longrightarrow> g (f (en_value x)) \<noteq> g (en_value y)"
  shows "oneEach (g \<circ> en_value) cat'"
  unfolding oneEach_def comp_apply
proof (intro ballI impI)
  fix x y assume m: "x \<in> set cat'" "y \<in> set cat'" and eq: "g (en_value x) = g (en_value y)"
  from m(1) show "en_id x = en_id y"
  proof (rule edited_cases [OF edit])
    fix a assume a: "a \<in> set cat" "en_id a = ident" "x = restamp now f a"
    from m(2) show ?thesis
    proof (rule edited_cases [OF edit])
      fix b assume "en_id b = ident" "y = restamp now f b"
      with a show ?thesis by simp
    next
      assume "y \<in> set cat" "en_id y \<noteq> ident"
      from free [OF a(1,2) this] eq show ?thesis unfolding a(3) restamp_simps by (rule notE)
    qed
  next
    assume x: "x \<in> set cat" "en_id x \<noteq> ident"
    from m(2) show ?thesis
    proof (rule edited_cases [OF edit])
      fix b assume b: "b \<in> set cat" "en_id b = ident" "y = restamp now f b"
      from free [OF b(1,2) x] eq [symmetric] show ?thesis unfolding b(3) restamp_simps by (rule notE)
    next
      assume "y \<in> set cat"
      with x(1) one eq show ?thesis unfolding oneEach_def comp_apply by blast
    qed
  qed
qed

lemma oneDefault_edit:
  assumes one: "oneDefault cat" and edit: "editEntry ident now f cat = Some (cat', e)"
    and same: "\<And>s. so_isDefault (f s) = so_isDefault s"
  shows "oneDefault cat'"
proof -
  have "\<exists>y \<in> set cat. en_id y = en_id x \<and> so_isDefault (en_value y) = so_isDefault (en_value x)" if "x \<in> set cat'" for x
    using that by (rule edited_cases [OF edit]) (auto simp: same)
  then show ?thesis using one unfolding oneDefault_def by metis
qed

lemma credentialsFit_edit:
  assumes fit: "credentialsFit vault cat credentials" and edit: "editEntry ident now f cat = Some (cat', e)"
    and new: "\<And>x. x \<in> set cat \<Longrightarrow> en_id x = ident \<Longrightarrow> opens vault credentials' ident (so_authKind (f (en_value x)))"
    and other: "\<And>j. j \<noteq> ident \<Longrightarrow> map_of credentials' j = map_of credentials j"
    and keys: "fst ` set credentials' \<subseteq> insert ident (fst ` set credentials)"
  shows "credentialsFit vault cat' credentials'"
proof -
  have "opens vault credentials' j k" if "j \<noteq> ident" "opens vault credentials j k" for j k
    using that other by (simp add: opens_def)
  then have "\<forall>e \<in> set cat'. opens vault credentials' (en_id e) (so_authKind (en_value e))"
    using fit new by (intro edited_every [OF edit]) (simp_all add: credentialsFit_def)
  moreover have "fst ` set credentials' \<subseteq> en_id ` set cat'"
    unfolding edited_ids_set [OF edit] using fit keys editEntry_Some [OF edit]
    by (meson credentialsFit_def insert_subsetI order_trans)
  ultimately show ?thesis by (simp add: credentialsFit_def)
qed

lemma credentialsFit_edit_same:
  assumes "credentialsFit vault cat credentials" and "editEntry ident now f cat = Some (cat', e)"
    and "\<And>s. so_authKind (f s) = so_authKind s"
  shows "credentialsFit vault cat' credentials"
  by (rule credentialsFit_edit [OF assms(1,2)]) (use assms(1,3) in \<open>auto simp: credentialsFit_def\<close>)

lemma secretsListen_edit:
  assumes listen: "secretsListen cat secrets" and edit: "editEntry ident now f cat = Some (cat', e)"
    and on: "\<And>x. x \<in> set cat \<Longrightarrow> en_id x = ident \<Longrightarrow> so_webhooksEnabled (en_value x) \<Longrightarrow>
      so_webhooksEnabled (f (en_value x)) \<or> ident \<notin> fst ` set secrets'"
    and sub: "set secrets' \<subseteq> set secrets"
  shows "secretsListen cat' secrets'"
  unfolding secretsListen_def
proof
  fix j assume j: "j \<in> fst ` set secrets'"
  with sub have "j \<in> fst ` set secrets" by blast
  with listen obtain x where x: "x \<in> set cat" "j = en_id x" "so_webhooksEnabled (en_value x)"
    unfolding secretsListen_def by blast
  let ?y = "if en_id x = ident then restamp now f x else x"
  have "?y \<in> set cat'" using x(1) editEntry_Some [OF edit] by simp
  moreover have "so_webhooksEnabled (en_value ?y)" using x j on [OF x(1)] by auto
  moreover have "j = en_id ?y" using x by simp
  ultimately show "j \<in> en_id ` {e \<in> set cat'. so_webhooksEnabled (en_value e)}" by blast
qed

lemma bindingsHold_edit:
  assumes "bindingsHold cat trackers" and "editEntry ident now f cat = Some (cat', e)"
    and "\<And>s. fst ` set (so_trackers s) \<subseteq> en_id ` set trackers \<Longrightarrow> fst ` set (so_trackers (f s)) \<subseteq> en_id ` set trackers"
  shows "bindingsHold cat' trackers"
  using assms(1,3) unfolding bindingsHold_def by (intro edited_every [OF assms(2)]) simp_all

text \<open>What an append and a removal leave of each part.\<close>

lemma oneEach_append:
  assumes "oneEach (g \<circ> en_value) cat" and "\<And>x. x \<in> set cat \<Longrightarrow> g (en_value x) \<noteq> g (en_value new)"
  shows "oneEach (g \<circ> en_value) (cat @ [new])"
proof -
  have new: "g (en_value x) = g (en_value y) \<Longrightarrow> x \<in> set cat \<Longrightarrow> y = new \<Longrightarrow> False" for x y using assms(2) by blast
  show ?thesis unfolding oneEach_def comp_apply
  proof (intro ballI impI)
    fix x y assume m: "x \<in> set (cat @ [new])" "y \<in> set (cat @ [new])" and eq: "g (en_value x) = g (en_value y)"
    then consider "x = new" "y = new" | "x \<in> set cat" "y = new" | "x = new" "y \<in> set cat" | "x \<in> set cat" "y \<in> set cat"
      by force
    then show "en_id x = en_id y"
    proof cases
      case 2
      from new [OF eq this] show ?thesis ..
    next
      case 3
      from new [OF eq [symmetric] 3(2,1)] show ?thesis ..
    next
      case 4
      with eq assms(1) show ?thesis unfolding oneEach_def comp_apply by blast
    qed simp
  qed
qed

lemma oneEach_edit_same:
  assumes "oneEach (g \<circ> en_value) cat" and "editEntry ident now f cat = Some (cat', e)" and "\<And>s. g (f s) = g s"
  shows "oneEach (g \<circ> en_value) cat'"
proof (rule oneEach_edit [OF assms(1,2)])
  fix x y assume "x \<in> set cat" "en_id x = ident" "y \<in> set cat" "en_id y \<noteq> ident"
  with assms(1) have "g (en_value x) \<noteq> g (en_value y)" unfolding oneEach_def comp_apply by metis
  then show "g (f (en_value x)) \<noteq> g (en_value y)" unfolding assms(3) .
qed

lemma coherentRow_edit:
  assumes "everyEntry coherentRow cat" and "editEntry ident now f cat = Some (cat', e)" and "\<And>s. coherentRow s \<Longrightarrow> coherentRow (f s)"
  shows "everyEntry coherentRow cat'"
  by (rule everyEntry_editEntry [OF assms(1,2)]) (rule assms(3))

lemma oneDefault_append: "oneDefault cat \<Longrightarrow> \<not> so_isDefault (en_value new) \<Longrightarrow> oneDefault (cat @ [new])"
  unfolding oneDefault_def set_append list.set by blast

lemma secretsListen_mono: "secretsListen cat secrets \<Longrightarrow> set cat \<subseteq> set cat' \<Longrightarrow> secretsListen cat' secrets"
  unfolding secretsListen_def by blast

lemma oneEach_filter: "oneEach g cat \<Longrightarrow> oneEach g (filter P cat)"
  by (simp add: oneEach_def)

lemma opens_update: "opens vault (AList.update k c credentials) j a \<longleftrightarrow>
    (if j = k then \<exists>p. va_decrypt vault c = Some p \<and> buildAuth a p \<noteq> None else opens vault credentials j a)"
  by (simp add: opens_def update_conv')

lemma opens_delete: "j \<noteq> k \<Longrightarrow> opens vault (AList.delete k credentials) j a = opens vault credentials j a"
  by (simp add: opens_def AList.delete_conv')

lemma keys_update: "fst ` set (AList.update k c m) = insert k (fst ` set m)"
  by (simp add: dom_map_of_conv_image_fst [symmetric] update_conv')

lemma keys_delete: "fst ` set (AList.delete k m) = fst ` set m - {k}"
  by (simp add: AList.delete_keys [symmetric] flip: set_map) (auto simp: AList.delete_eq)

lemma credentialPlaintext_builds: "credentialPlaintext a secret app = Inr p \<Longrightarrow> buildAuth a p \<noteq> None"
  by (auto simp: credentialPlaintext_def buildAuth_def split: AuthKind.splits option.splits)

lemma toBindings_fst [simp]: "map fst (toBindings ids incident) = patched ids []"
  by (simp add: toBindings_def comp_def)

lemma filter_one: "distinct xs \<Longrightarrow> length (filter (\<lambda>x. Some x = i) xs) \<le> 1"
proof (cases i)
  case (Some y)
  assume "distinct xs"
  then have "distinct (filter (\<lambda>x. x = y) xs)" by simp
  moreover have "set (filter (\<lambda>x. x = y) xs) \<subseteq> {y}" by auto
  ultimately have "length (filter (\<lambda>x. x = y) xs) \<le> card {y}"
    by (metis card_mono distinct_card finite.emptyI finite.insertI)
  with Some show ?thesis by simp
qed simp

lemma toBindings_one: "distinct (patched ids []) \<Longrightarrow> length (filter snd (toBindings ids incident)) \<le> 1"
  using filter_one [of "patched ids []" incident] by (simp add: toBindings_def filter_map comp_def)

lemma keysHold_bindings:
  assumes "keysHold dto db"
  shows "distinct (patched (sf_trackerIds dto) [])" and "set (patched (sf_trackerIds dto) []) \<subseteq> en_id ` set (sb_trackers db)"
  using assms by (auto simp: keysHold_def bindable_def patched_def split: option.splits)

section \<open>Each operation keeps it\<close>

definition faithful :: "'c Vault \<Rightarrow> bool" where
  "faithful vault \<longleftrightarrow> (\<forall>p. va_decrypt vault (va_encrypt vault p) = Some p)"

lemma createSource_cases:
  assumes "fst (createSource vault dto fresh now db) \<noteq> db"
  obtains plain sources e where "planCreate dto db = Inr plain" and "keysHold dto db"
    and "storeEntry fresh now (newSource dto (uniqueSlug ''source'' (patched (sf_name dto) []) (slugsBut None db)))
      (sb_sources db) = Some (sources, e)"
    and "fst (createSource vault dto fresh now db) = db\<lparr>sb_sources := sources,
        sb_credentials := AList.update fresh (va_encrypt vault plain) (sb_credentials db)\<rparr>"
  using assms by (auto simp: createSource_def split: option.splits sum.splits if_splits)

lemma planCreate_Inr:
  assumes "planCreate dto db = Inr plain"
  shows "buildAuth (patched (sf_authKind dto) TokenAuth) plain \<noteq> None"
    and "patched (sf_webhooksEnabled dto) False \<Longrightarrow> patched (sf_mode dto) LiveMode = StoredMode"
  using assms by (auto simp: planCreate_def assertWebhooksAllowed_def split: option.splits if_splits
      dest: credentialPlaintext_builds)

lemma newSource_coherentRow:
  assumes "planCreate dto db = Inr plain" and "keysHold dto db"
  shows "coherentRow (newSource dto slug)"
  using planCreate_Inr(2) [OF assms(1)] keysHold_bindings(1) [OF assms(2)]
    toBindings_one [of "sf_trackerIds dto" "sf_incidentTrackerId dto"]
  by (simp add: coherentRow_def newSource_def)

lemma credentialsFit_store:
  assumes fit: "credentialsFit vault cat credentials" and v: "faithful vault"
    and store: "storeEntry fresh now row cat = Some (cat', e)" and p: "buildAuth (so_authKind row) plain \<noteq> None"
  shows "credentialsFit vault cat' (AList.update fresh (va_encrypt vault plain) credentials)"
proof -
  note appended = storeEntry_Some [OF store]
  have "opens vault (AList.update fresh (va_encrypt vault plain) credentials) (en_id x) (so_authKind (en_value x))"
    if "x \<in> set cat'" for x
  proof (cases "x \<in> set cat")
    case True
    with appended have "en_id x \<noteq> fresh" by auto
    with True fit show ?thesis by (simp add: opens_update credentialsFit_def)
  next
    case False
    with that appended have "en_id x = fresh" "en_value x = row" by auto
    with p v show ?thesis by (simp add: opens_update faithful_def)
  qed
  moreover have "insert fresh (fst ` set credentials) \<subseteq> en_id ` set cat'"
    using fit appended by (auto simp: credentialsFit_def)
  ultimately show ?thesis by (simp add: credentialsFit_def keys_update)
qed

lemma createSource_coherent:
  assumes v: "faithful vault" and ok: "coherent vault db"
  shows "coherent vault (fst (createSource vault dto fresh now db))"
proof (cases "fst (createSource vault dto fresh now db) = db")
  case False
  let ?row = "newSource dto (uniqueSlug ''source'' (patched (sf_name dto) []) (slugsBut None db))"
  from createSource_cases [OF False] obtain plain sources e where plan: "planCreate dto db = Inr plain"
    and keys: "keysHold dto db" and store: "storeEntry fresh now ?row (sb_sources db) = Some (sources, e)"
    and db': "fst (createSource vault dto fresh now db) = db\<lparr>sb_sources := sources,
        sb_credentials := AList.update fresh (va_encrypt vault plain) (sb_credentials db)\<rparr>" .
  let ?new = "\<lparr>en_id = fresh, en_value = ?row, en_createdAt = now, en_updatedAt = now\<rparr>"
  have sources: "sources = sb_sources db @ [?new]" using storeEntry_Some [OF store] by blast
  have every: "everyEntry coherentRow sources"
    by (rule everyEntry_storeEntry [OF _ _ store])
      (use ok newSource_coherentRow [OF plan keys] in \<open>simp_all add: coherent_def\<close>)
  have "so_slug (en_value ?new) \<notin> set (slugsBut None db)"
    using uniqueSlug_free by (simp add: newSource_def)
  then have "so_slug (en_value x) \<noteq> so_slug (en_value ?new)" if "x \<in> set (sb_sources db)" for x
  proof -
    have "so_slug (en_value x) \<in> set (slugsBut None db)" using that by (simp add: slugsBut_def)
    with \<open>so_slug (en_value ?new) \<notin> set (slugsBut None db)\<close> show ?thesis by metis
  qed
  with ok have slugs: "oneEach (so_slug \<circ> en_value) sources"
    unfolding sources by (intro oneEach_append) (simp_all add: coherent_def)
  have def: "oneDefault sources"
    unfolding sources by (rule oneDefault_append) (use ok in \<open>simp_all add: coherent_def newSource_def\<close>)
  have creds: "credentialsFit vault sources (AList.update fresh (va_encrypt vault plain) (sb_credentials db))"
    by (rule credentialsFit_store [OF _ v store])
      (use ok planCreate_Inr(1) [OF plan] in \<open>simp_all add: coherent_def newSource_def\<close>)
  have secrets: "secretsListen sources (sb_webhookSecrets db)"
    by (rule secretsListen_mono [where cat = "sb_sources db"]) (use ok in \<open>simp_all add: coherent_def sources subset_insertI\<close>)
  have "fst ` set (so_trackers ?row) = set (patched (sf_trackerIds dto) [])"
    by (simp add: newSource_def flip: set_map)
  with keysHold_bindings(2) [OF keys] ok have bindings: "bindingsHold sources (sb_trackers db)"
    unfolding sources by (simp add: coherent_def bindingsHold_def)
  from every slugs def creds secrets bindings ok show ?thesis unfolding db' coherent_def by simp
qed (use ok in simp)

lemma setHistoryDays_coherent:
  assumes ok: "coherent vault db" shows "coherent vault (fst (setHistoryDays ident days now db))"
proof (cases "fst (setHistoryDays ident days now db) = db")
  case False
  let ?f = "\<lambda>s :: Source. s\<lparr>so_historyDays := Some days\<rparr>"
  from False obtain sources e where edit: "editEntry ident now ?f (sb_sources db) = Some (sources, e)"
    and db': "fst (setHistoryDays ident days now db) = db\<lparr>sb_sources := sources\<rparr>"
    by (auto simp: setHistoryDays_def split: option.splits if_splits)
  have "everyEntry coherentRow sources"
    by (rule coherentRow_edit [OF _ edit]) (use ok in \<open>simp_all add: coherent_def coherentRow_def\<close>)
  moreover have "oneEach (so_slug \<circ> en_value) sources"
    by (rule oneEach_edit_same [OF _ edit]) (use ok in \<open>simp_all add: coherent_def\<close>)
  moreover have "oneDefault sources" by (rule oneDefault_edit [OF _ edit]) (use ok in \<open>simp_all add: coherent_def\<close>)
  moreover have "credentialsFit vault sources (sb_credentials db)"
    by (rule credentialsFit_edit_same [OF _ edit]) (use ok in \<open>simp_all add: coherent_def\<close>)
  moreover have "secretsListen sources (sb_webhookSecrets db)"
    by (rule secretsListen_edit [where secrets = "sb_webhookSecrets db", OF _ edit]) (use ok in \<open>simp_all add: coherent_def\<close>)
  moreover have "bindingsHold sources (sb_trackers db)"
    by (rule bindingsHold_edit [OF _ edit]) (use ok in \<open>simp_all add: coherent_def\<close>)
  ultimately show ?thesis using ok unfolding db' coherent_def by simp
qed (use ok in simp)

lemma secretsListen_map:
  assumes listen: "secretsListen cat secrets"
    and same: "\<And>x. en_id (f x) = en_id x" "\<And>x. so_webhooksEnabled (en_value (f x)) = so_webhooksEnabled (en_value x)"
  shows "secretsListen (map f cat) secrets"
  unfolding secretsListen_def
proof
  fix j assume "j \<in> fst ` set secrets"
  with listen obtain x where x: "x \<in> set cat" "j = en_id x" "so_webhooksEnabled (en_value x)"
    unfolding secretsListen_def by blast
  have "f x \<in> {e \<in> set (map f cat). so_webhooksEnabled (en_value e)}" using x(1,3) same(2) by simp
  moreover have "j = en_id (f x)" using x(2) same(1) by simp
  ultimately show "j \<in> en_id ` {e \<in> set (map f cat). so_webhooksEnabled (en_value e)}" by (rule rev_image_eqI)
qed

lemma oneEach_map:
  assumes "oneEach (g \<circ> en_value) cat" and "\<And>x. en_id (f x) = en_id x" and "\<And>x. g (en_value (f x)) = g (en_value x)"
  shows "oneEach (g \<circ> en_value) (map f cat)"
  using assms(1) unfolding oneEach_def set_map ball_simps comp_apply assms(2,3) .

lemma demoted_simps [simp]:
  "en_id (demoted ident now x) = en_id x" "so_slug (en_value (demoted ident now x)) = so_slug (en_value x)"
  "so_authKind (en_value (demoted ident now x)) = so_authKind (en_value x)"
  "so_trackers (en_value (demoted ident now x)) = so_trackers (en_value x)"
  "so_webhooksEnabled (en_value (demoted ident now x)) = so_webhooksEnabled (en_value x)"
  "coherentRow (en_value (demoted ident now x)) = coherentRow (en_value x)"
  "so_isDefault (en_value (demoted ident now x)) \<longleftrightarrow> en_id x = ident \<and> so_isDefault (en_value x)"
  by (simp_all add: demoted_def coherentRow_def)

lemma makeDefault_coherent:
  assumes ok: "coherent vault db" shows "coherent vault (fst (makeDefault ident now db))"
proof (cases "editEntry ident now (\<lambda>s :: Source. s\<lparr>so_isDefault := True\<rparr>) (sb_sources db)")
  case (Some ce)
  let ?f = "\<lambda>s :: Source. s\<lparr>so_isDefault := True\<rparr>"
  obtain cat e where ce: "ce = (cat, e)" by (cases ce)
  note edit = Some [unfolded ce]
  have db': "fst (makeDefault ident now db) = db\<lparr>sb_sources := map (demoted ident now) cat\<rparr>"
    by (simp add: makeDefault_def edit)
  let ?sources = "map (demoted ident now) cat"
  have "everyEntry coherentRow cat"
    by (rule coherentRow_edit [OF _ edit]) (use ok in \<open>simp_all add: coherent_def coherentRow_def\<close>)
  then have every: "everyEntry coherentRow ?sources"
    by (simp add: everyEntry_def list_all_iff comp_def)
  have "oneEach (so_slug \<circ> en_value) cat"
    by (rule oneEach_edit_same [OF _ edit]) (use ok in \<open>simp_all add: coherent_def\<close>)
  then have slugs: "oneEach (so_slug \<circ> en_value) ?sources"
    by (rule oneEach_map) simp_all
  have "so_isDefault (en_value x) \<Longrightarrow> en_id x = ident" if "x \<in> set ?sources" for x
    using that unfolding set_map by (auto simp del: image_iff)
  then have def: "oneDefault ?sources" unfolding oneDefault_def by blast
  have "credentialsFit vault cat (sb_credentials db)"
    by (rule credentialsFit_edit_same [OF _ edit]) (use ok in \<open>simp_all add: coherent_def\<close>)
  then have creds: "credentialsFit vault ?sources (sb_credentials db)"
    by (simp add: credentialsFit_def image_image)
  have "secretsListen cat (sb_webhookSecrets db)"
    by (rule secretsListen_edit [where secrets = "sb_webhookSecrets db", OF _ edit]) (use ok in \<open>simp_all add: coherent_def\<close>)
  then have secrets: "secretsListen ?sources (sb_webhookSecrets db)"
    by (rule secretsListen_map) simp_all
  have "bindingsHold cat (sb_trackers db)"
    by (rule bindingsHold_edit [OF _ edit]) (use ok in \<open>simp_all add: coherent_def\<close>)
  then have bindings: "bindingsHold ?sources (sb_trackers db)"
    by (simp add: bindingsHold_def)
  from every slugs def creds secrets bindings ok show ?thesis unfolding db' coherent_def by simp
qed (use ok in \<open>simp add: makeDefault_def\<close>)

text \<open>What a planned update does to the row, and the credential that goes with it.\<close>

lemma slugAfter_cases:
  "slugAfter ident dto current db = so_slug current \<or>
   slugAfter ident dto current db = uniqueSlug ''source'' (the (sf_name dto)) (slugsBut (Some ident) db)"
  by (simp add: slugAfter_def split: option.split)

lemma secretAfter_fits:
  assumes "secretAfter dto authKind current = Inr newSecret"
  shows "newSecret = None \<Longrightarrow> authKind = so_authKind current"
    and "newSecret = Some plain \<Longrightarrow> buildAuth authKind plain \<noteq> None"
  using assms by (auto simp: secretAfter_def split: if_splits sum.splits dest: credentialPlaintext_builds)

lemma planUpdate_Inr:
  assumes plan: "planUpdate ident dto db = Inr (edit, newSecret, webhooks)"
  obtains e kind authKind mode where "entryOf ident (sb_sources db) = Some e"
    and "edit = editSource dto (slugAfter ident dto (en_value e) db) kind authKind mode webhooks"
    and "webhooks \<longleftrightarrow> webhooksAfter dto mode (en_value e)"
    and "secretAfter dto authKind (en_value e) = Inr newSecret"
proof (cases "entryOf ident (sb_sources db)")
  case (Some e)
  let ?auth = "patched (sf_authKind dto) (so_authKind (en_value e))"
  from plan Some obtain secret where "secretAfter dto ?auth (en_value e) = Inr secret"
    by (simp add: planUpdate_def Let_def split: if_splits sum.splits)
  with plan Some show thesis
    by (intro that [of e "patched (sf_kind dto) (so_kind (en_value e))" ?auth "patched (sf_mode dto) (so_mode (en_value e))"])
      (auto simp: planUpdate_def Let_def split: if_splits option.splits)
qed (use plan in \<open>simp add: planUpdate_def\<close>)

lemma editSource_simps:
  "so_slug (editSource dto slug kind authKind mode webhooks s) = slug"
  "so_authKind (editSource dto slug kind authKind mode webhooks s) = authKind"
  "so_isDefault (editSource dto slug kind authKind mode webhooks s) = so_isDefault s"
  "so_mode (editSource dto slug kind authKind mode webhooks s) = mode"
  "so_webhooksEnabled (editSource dto slug kind authKind mode webhooks s) = webhooks"
  "so_trackers (editSource dto slug kind authKind mode webhooks s) =
    (if sf_trackerIds dto = None then so_trackers s else toBindings (sf_trackerIds dto) (sf_incidentTrackerId dto))"
  by (simp_all add: editSource_def)

lemma updateSource_coherent:
  assumes v: "faithful vault" and ok: "coherent vault db"
  shows "coherent vault (fst (updateSource vault ident dto now db))"
proof (cases "planUpdate ident dto db")
  case (Inr plan)
  obtain edit newSecret webhooks where p: "plan = (edit, newSecret, webhooks)" by (cases plan) auto
  from planUpdate_Inr [OF Inr [unfolded p]] obtain e kind authKind mode where e: "entryOf ident (sb_sources db) = Some e"
    and edit: "edit = editSource dto (slugAfter ident dto (en_value e) db) kind authKind mode webhooks"
    and hooks: "webhooks \<longleftrightarrow> webhooksAfter dto mode (en_value e)" and secret: "secretAfter dto authKind (en_value e) = Inr newSecret" .
  show ?thesis
  proof (cases "if keysHold dto db then editEntry ident now edit (sb_sources db) else None")
    case None
    with Inr p have "fst (updateSource vault ident dto now db) = db" by (simp add: updateSource_def)
    then show ?thesis using ok by simp
  next
    case (Some se)
    obtain sources e' where se: "se = (sources, e')" by (cases se)
    from Some se have keys: "keysHold dto db" and ed: "editEntry ident now edit (sb_sources db) = Some (sources, e')"
      by (simp_all split: if_splits)
    let ?credentials = "case newSecret of None \<Rightarrow> sb_credentials db
        | Some plain \<Rightarrow> AList.update ident (va_encrypt vault plain) (sb_credentials db)"
    let ?secrets = "if webhooks then sb_webhookSecrets db else AList.delete ident (sb_webhookSecrets db)"
    have db': "fst (updateSource vault ident dto now db) =
        db\<lparr>sb_sources := sources, sb_credentials := ?credentials, sb_webhookSecrets := ?secrets\<rparr>"
      by (simp add: updateSource_def Inr p keys ed Let_def)
    have only: "x = e" if "x \<in> set (sb_sources db)" "en_id x = ident" for x
      by (rule entryOf_unique [OF _ e that]) (use ok in \<open>simp add: coherent_def everyEntry_def\<close>)
    have row: "coherentRow (edit s)" if "coherentRow s" for s
      using that hooks toBindings_one keysHold_bindings(1) [OF keys]
      by (simp add: edit coherentRow_def editSource_simps webhooksAfter_def)
    have every: "everyEntry coherentRow sources"
      by (rule coherentRow_edit [OF _ ed row]) (use ok in \<open>simp add: coherent_def\<close>)
    have slugs: "oneEach (so_slug \<circ> en_value) sources"
    proof (rule oneEach_edit [OF _ ed])
      show "oneEach (so_slug \<circ> en_value) (sb_sources db)" using ok by (simp add: coherent_def)
    next
      fix x y assume x: "x \<in> set (sb_sources db)" "en_id x = ident" and y: "y \<in> set (sb_sources db)" "en_id y \<noteq> ident"
      have "so_slug (en_value x) \<noteq> so_slug (en_value y)"
        using ok x y unfolding coherent_def oneEach_def comp_apply by metis
      moreover have "so_slug (en_value y) \<in> set (slugsBut (Some ident) db)" using y by (simp add: slugsBut_def)
      ultimately show "so_slug (edit (en_value x)) \<noteq> so_slug (en_value y)"
        unfolding edit editSource_simps using slugAfter_cases [of ident dto "en_value e" db] only [OF x] uniqueSlug_free by metis
    qed
    have def: "oneDefault sources"
      by (rule oneDefault_edit [OF _ ed]) (use ok in \<open>simp_all add: coherent_def edit editSource_simps\<close>)
    have creds: "credentialsFit vault sources ?credentials"
    proof (rule credentialsFit_edit [OF _ ed])
      show fit: "credentialsFit vault (sb_sources db) (sb_credentials db)" using ok by (simp add: coherent_def)
      fix x assume x: "x \<in> set (sb_sources db)" "en_id x = ident"
      show "opens vault ?credentials ident (so_authKind (edit (en_value x)))"
      proof (cases newSecret)
        case None
        with fit x secretAfter_fits(1) [OF secret] only [OF x] show ?thesis
          by (auto simp: credentialsFit_def edit editSource_simps)
      next
        case (Some plain)
        with v secretAfter_fits(2) [OF secret Some] show ?thesis
          by (simp add: opens_update faithful_def edit editSource_simps)
      qed
    next
      fix j assume "j \<noteq> ident"
      then show "map_of ?credentials j = map_of (sb_credentials db) j" by (simp add: update_conv' split: option.split)
    next
      show "fst ` set ?credentials \<subseteq> insert ident (fst ` set (sb_credentials db))"
        by (auto simp: keys_update split: option.split)
    qed
    have secrets: "secretsListen sources ?secrets"
    proof (rule secretsListen_edit [where secrets = "sb_webhookSecrets db", OF _ ed])
      show "secretsListen (sb_sources db) (sb_webhookSecrets db)" using ok by (simp add: coherent_def)
      show "set ?secrets \<subseteq> set (sb_webhookSecrets db)" by (auto simp: AList.delete_eq)
      show "so_webhooksEnabled (edit (en_value x)) \<or> ident \<notin> fst ` set ?secrets" for x
        by (simp add: edit editSource_simps keys_delete)
    qed
    have bindings: "bindingsHold sources (sb_trackers db)"
    proof (rule bindingsHold_edit [OF _ ed])
      show "bindingsHold (sb_sources db) (sb_trackers db)" using ok by (simp add: coherent_def)
      fix s :: Source assume "fst ` set (so_trackers s) \<subseteq> en_id ` set (sb_trackers db)"
      moreover have "fst ` set (toBindings (sf_trackerIds dto) (sf_incidentTrackerId dto)) \<subseteq> en_id ` set (sb_trackers db)"
        using keysHold_bindings(2) [OF keys] by (simp flip: set_map)
      ultimately show "fst ` set (so_trackers (edit s)) \<subseteq> en_id ` set (sb_trackers db)"
        by (simp add: edit editSource_simps)
    qed
    from every slugs def creds secrets bindings ok show ?thesis unfolding db' coherent_def by simp
  qed
qed (use ok in \<open>simp add: updateSource_def\<close>)

lemma issueWebhookSecret_coherent:
  assumes ok: "coherent vault db" shows "coherent vault (fst (issueWebhookSecret vault drawn ident db))"
proof (cases "\<exists>e. entryOf ident (sb_sources db) = Some e \<and> so_webhooksEnabled (en_value e)")
  case True
  then obtain e where e: "entryOf ident (sb_sources db) = Some e" "so_webhooksEnabled (en_value e)" by blast
  let ?secrets = "AList.update ident (va_encrypt vault (TokenPlain drawn)) (sb_webhookSecrets db)"
  have db': "fst (issueWebhookSecret vault drawn ident db) = db\<lparr>sb_webhookSecrets := ?secrets\<rparr>"
    using e by (simp add: issueWebhookSecret_def)
  have "ident \<in> en_id ` {e \<in> set (sb_sources db). so_webhooksEnabled (en_value e)}"
    using entryOf_Some [OF e(1)] e(2) by (intro rev_image_eqI [of e]) simp_all
  with ok have "secretsListen (sb_sources db) ?secrets" by (simp add: coherent_def secretsListen_def keys_update)
  with ok show ?thesis unfolding db' coherent_def by simp
next
  case False
  then have "fst (issueWebhookSecret vault drawn ident db) = db" by (simp add: issueWebhookSecret_def split: option.split)
  with ok show ?thesis by simp
qed

lemma removeSource_coherent:
  assumes ok: "coherent vault db" shows "coherent vault (fst (removeSource ident db))"
proof (cases "dropEntry ident (sb_sources db)")
  case (Some sources)
  note sources = dropEntry_Some [OF Some]
  have db': "fst (removeSource ident db) = db\<lparr>sb_sources := sources,
      sb_webhookSecrets := AList.delete ident (sb_webhookSecrets db), sb_quotas := removeAll ident (sb_quotas db),
      sb_credentials := AList.delete ident (sb_credentials db)\<rparr>" by (simp add: removeSource_def Some)
  have every: "everyEntry coherentRow sources"
    by (rule everyEntry_dropEntry [OF _ Some]) (use ok in \<open>simp add: coherent_def\<close>)
  have slugs: "oneEach (so_slug \<circ> en_value) sources"
    unfolding sources by (rule oneEach_filter) (use ok in \<open>simp add: coherent_def\<close>)
  have def: "oneDefault sources" using ok unfolding sources coherent_def oneDefault_def by simp
  have fit: "credentialsFit vault (sb_sources db) (sb_credentials db)" using ok by (simp add: coherent_def)
  have "opens vault (AList.delete ident (sb_credentials db)) (en_id x) (so_authKind (en_value x))" if "x \<in> set sources" for x
    using that fit unfolding sources by (simp add: opens_delete credentialsFit_def)
  moreover have "fst ` set (AList.delete ident (sb_credentials db)) \<subseteq> en_id ` set sources"
    using fit unfolding sources credentialsFit_def keys_delete by auto
  ultimately have creds: "credentialsFit vault sources (AList.delete ident (sb_credentials db))"
    by (simp add: credentialsFit_def)
  have listen: "secretsListen (sb_sources db) (sb_webhookSecrets db)" using ok by (simp add: coherent_def)
  have "j \<in> en_id ` {e \<in> set sources. so_webhooksEnabled (en_value e)}"
    if "j \<in> fst ` set (sb_webhookSecrets db) - {ident}" for j
  proof -
    from that listen obtain x where "x \<in> set (sb_sources db)" "j = en_id x" "so_webhooksEnabled (en_value x)"
      unfolding secretsListen_def by blast
    with that show ?thesis unfolding sources by (intro rev_image_eqI [of x]) simp_all
  qed
  then have secrets: "secretsListen sources (AList.delete ident (sb_webhookSecrets db))"
    unfolding secretsListen_def keys_delete by blast
  have bindings: "bindingsHold sources (sb_trackers db)"
    using ok unfolding sources coherent_def bindingsHold_def by simp
  from every slugs def creds secrets bindings ok show ?thesis unfolding db' coherent_def by simp
qed (use ok in \<open>simp add: removeSource_def\<close>)

lemma everyEntry_trackers:
  "everyEntry (\<lambda>_. True) cat \<Longrightarrow> editEntry ident now f cat = Some (cat', e) \<Longrightarrow> everyEntry (\<lambda>_. True) cat'"
  by (rule everyEntry_editEntry) simp_all

lemma bindingsHold_mono: "bindingsHold cat trackers \<Longrightarrow> en_id ` set trackers \<subseteq> en_id ` set trackers' \<Longrightarrow> bindingsHold cat trackers'"
  unfolding bindingsHold_def by blast

lemma createTracker_coherent:
  assumes ok: "coherent vault db" shows "coherent vault (fst (createTracker dto fresh now db))"
proof -
  let ?slug = "uniqueSlug ''tracker'' (patched (td_name dto) []) (trackerSlugsBut None db)"
  let ?row = "\<lparr>ta_name = patched (td_name dto) [], ta_slug = ?slug, ta_kind = patched (td_kind dto) Jira,
      ta_baseUrl = patched (td_baseUrl dto) [], ta_urlTemplate = patched (td_urlTemplate dto) None\<rparr>"
  show ?thesis
  proof (cases "storeEntry fresh now ?row (sb_trackers db)")
    case (Some te)
    obtain trackers e where te: "te = (trackers, e)" by (cases te)
    note store = Some [unfolded te]
    let ?new = "\<lparr>en_id = fresh, en_value = ?row, en_createdAt = now, en_updatedAt = now\<rparr>"
    have trackers: "trackers = sb_trackers db @ [?new]" using storeEntry_Some [OF store] by blast
    have db': "fst (createTracker dto fresh now db) = db\<lparr>sb_trackers := trackers\<rparr>"
      using store by (simp add: createTracker_def)
    have "everyEntry (\<lambda>_. True) trackers"
      by (rule everyEntry_storeEntry [OF _ _ store]) (use ok in \<open>simp_all add: coherent_def\<close>)
    moreover have "ta_slug (en_value x) \<noteq> ta_slug (en_value ?new)" if "x \<in> set (sb_trackers db)" for x
    proof -
      have "ta_slug (en_value x) \<in> set (trackerSlugsBut None db)" using that by (simp add: trackerSlugsBut_def)
      moreover have "ta_slug (en_value ?new) \<notin> set (trackerSlugsBut None db)"
        using uniqueSlug_free [of "''tracker''" "patched (td_name dto) []"] by simp
      ultimately show ?thesis by metis
    qed
    then have "oneEach (ta_slug \<circ> en_value) trackers"
      unfolding trackers by (intro oneEach_append) (use ok in \<open>simp_all add: coherent_def\<close>)
    moreover have "bindingsHold (sb_sources db) trackers"
      by (rule bindingsHold_mono [of _ "sb_trackers db"]) (use ok in \<open>auto simp: coherent_def trackers\<close>)
    ultimately show ?thesis using ok unfolding db' coherent_def by simp
  next
    case None
    then have "fst (createTracker dto fresh now db) = db" by (simp add: createTracker_def)
    with ok show ?thesis by simp
  qed
qed

lemma updateTracker_coherent:
  assumes ok: "coherent vault db" shows "coherent vault (fst (updateTracker ident dto now db))"
proof (cases "fst (updateTracker ident dto now db) = db")
  case False
  then obtain current where c: "entryOf ident (sb_trackers db) = Some current"
    by (auto simp: updateTracker_def split: option.splits)
  let ?slug = "case td_name dto of None \<Rightarrow> ta_slug (en_value current)
      | Some name \<Rightarrow> if name = ta_name (en_value current) then ta_slug (en_value current)
                     else uniqueSlug ''tracker'' name (trackerSlugsBut (Some ident) db)"
  let ?f = "\<lambda>t. \<lparr>ta_name = patched (td_name dto) (ta_name t), ta_slug = ?slug,
      ta_kind = patched (td_kind dto) (ta_kind t), ta_baseUrl = patched (td_baseUrl dto) (ta_baseUrl t),
      ta_urlTemplate = patched (td_urlTemplate dto) (ta_urlTemplate t)\<rparr>"
  from False c obtain trackers e where ed: "editEntry ident now ?f (sb_trackers db) = Some (trackers, e)"
    by (auto simp: updateTracker_def Let_def split: option.splits prod.splits)
  have db': "fst (updateTracker ident dto now db) = db\<lparr>sb_trackers := trackers\<rparr>"
    by (simp add: updateTracker_def c ed Let_def)
  have only: "x = current" if "x \<in> set (sb_trackers db)" "en_id x = ident" for x
    by (rule entryOf_unique [OF _ c that]) (use ok in \<open>simp add: coherent_def everyEntry_def\<close>)
  have slug: "?slug = ta_slug (en_value current) \<or> ?slug = uniqueSlug ''tracker'' (the (td_name dto)) (trackerSlugsBut (Some ident) db)"
    by (simp split: option.split)
  have "everyEntry (\<lambda>_. True) trackers" by (rule everyEntry_trackers [OF _ ed]) (use ok in \<open>simp add: coherent_def\<close>)
  moreover have "oneEach (ta_slug \<circ> en_value) trackers"
  proof (rule oneEach_edit [OF _ ed])
    show "oneEach (ta_slug \<circ> en_value) (sb_trackers db)" using ok by (simp add: coherent_def)
    fix x y assume x: "x \<in> set (sb_trackers db)" "en_id x = ident" and y: "y \<in> set (sb_trackers db)" "en_id y \<noteq> ident"
    have "ta_slug (en_value x) \<noteq> ta_slug (en_value y)"
      using ok x y unfolding coherent_def oneEach_def comp_apply by metis
    moreover have "ta_slug (en_value y) \<in> set (trackerSlugsBut (Some ident) db)" using y by (simp add: trackerSlugsBut_def)
    ultimately have "?slug \<noteq> ta_slug (en_value y)" using slug only [OF x] uniqueSlug_free by metis
    then show "ta_slug (?f (en_value x)) \<noteq> ta_slug (en_value y)" by simp
  qed
  moreover have "bindingsHold (sb_sources db) trackers"
    by (rule bindingsHold_mono [of _ "sb_trackers db"]) (use ok edited_ids_set [OF ed] in \<open>simp_all add: coherent_def\<close>)
  ultimately show ?thesis using ok unfolding db' coherent_def by simp
qed (use ok in simp)

lemma oneEach_distinct: "distinct (map en_id cat) \<Longrightarrow> oneEach (g \<circ> en_value) cat \<Longrightarrow> distinct (map (g \<circ> en_value) cat)"
proof (induction cat)
  case (Cons x cat)
  have "g (en_value y) \<noteq> g (en_value x)" if y: "y \<in> set cat" for y
  proof
    assume "g (en_value y) = g (en_value x)"
    with Cons.prems(2) y have "en_id y = en_id x" unfolding oneEach_def comp_apply by (meson list.set_intros)
    with Cons.prems(1) y show False by (simp add: rev_image_eqI)
  qed
  moreover have "oneEach (g \<circ> en_value) cat"
    using Cons.prems(2) unfolding oneEach_def by (meson list.set_intros(2))
  moreover have "distinct (map en_id cat)" using Cons.prems(1) by simp
  ultimately have "g (en_value x) \<notin> (g \<circ> en_value) ` set cat" and "distinct (map (g \<circ> en_value) cat)"
    using Cons.IH by fastforce+
  then show ?case by (simp add: comp_def)
qed simp

lemma everyEntry_map:
  assumes "everyEntry good cat" and "\<And>x. en_id (f x) = en_id x" and "\<And>x. good (en_value x) \<Longrightarrow> good (en_value (f x))"
  shows "everyEntry good (map f cat)"
  using assms by (simp add: everyEntry_def list_all_iff comp_def)

definition untracked :: "string \<Rightarrow> Source entry \<Rightarrow> Source entry" where
  "untracked ident e = e\<lparr>en_value := (en_value e)\<lparr>so_trackers := filter (\<lambda>(t, _). t \<noteq> ident) (so_trackers (en_value e))\<rparr>\<rparr>"

lemma untracked_simps [simp]:
  "en_id (untracked ident x) = en_id x"
  "so_slug (en_value (untracked ident x)) = so_slug (en_value x)"
  "so_isDefault (en_value (untracked ident x)) = so_isDefault (en_value x)"
  "so_authKind (en_value (untracked ident x)) = so_authKind (en_value x)"
  "so_webhooksEnabled (en_value (untracked ident x)) = so_webhooksEnabled (en_value x)"
  "so_mode (en_value (untracked ident x)) = so_mode (en_value x)"
  "so_trackers (en_value (untracked ident x)) = filter (\<lambda>(t, _). t \<noteq> ident) (so_trackers (en_value x))"
  by (simp_all add: untracked_def)

lemma untracked_coherentRow: "coherentRow (en_value x) \<Longrightarrow> coherentRow (en_value (untracked ident x))"
proof -
  assume ok: "coherentRow (en_value x)"
  have "length (filter snd (filter (\<lambda>(t, _). t \<noteq> ident) bs)) \<le> length (filter snd bs)" for bs :: "(string \<times> bool) list"
    by (induction bs) auto
  with ok show ?thesis
    unfolding coherentRow_def by (simp add: distinct_map_filter) (meson le_trans)
qed

lemma bindingsHold_untracked:
  assumes "bindingsHold sources trackers"
  shows "bindingsHold (map (untracked ident) sources) (filter (\<lambda>e. en_id e \<noteq> ident) trackers)"
  unfolding bindingsHold_def set_map ball_simps untracked_simps
proof (intro ballI subsetI)
  fix e t assume e: "e \<in> set sources" and t: "t \<in> fst ` set (filter (\<lambda>(t, _). t \<noteq> ident) (so_trackers (en_value e)))"
  from t have "t \<in> fst ` set (so_trackers (en_value e))" and "t \<noteq> ident" by auto
  moreover from this(1) e assms obtain x where "x \<in> set trackers" "t = en_id x" unfolding bindingsHold_def by blast
  ultimately show "t \<in> en_id ` set (filter (\<lambda>e. en_id e \<noteq> ident) trackers)" by simp
qed

lemma removeTracker_coherent:
  assumes ok: "coherent vault db" shows "coherent vault (fst (removeTracker ident db))"
proof (cases "dropEntry ident (sb_trackers db)")
  case (Some trackers)
  note trackers = dropEntry_Some [OF Some]
  let ?sources = "map (untracked ident) (sb_sources db)"
  have db': "fst (removeTracker ident db) = db\<lparr>sb_trackers := trackers, sb_sources := ?sources\<rparr>"
    by (simp add: removeTracker_def Some untracked_def [abs_def])
  have "everyEntry coherentRow ?sources"
    by (rule everyEntry_map) (use ok untracked_coherentRow in \<open>simp_all add: coherent_def\<close>)
  moreover have "oneEach (so_slug \<circ> en_value) ?sources"
    by (rule oneEach_map) (use ok in \<open>simp_all add: coherent_def\<close>)
  moreover have "oneDefault ?sources"
  proof -
    have "oneDefault (sb_sources db)" using ok by (simp add: coherent_def)
    then show ?thesis unfolding oneDefault_def set_map ball_simps untracked_simps .
  qed
  moreover have "everyEntry (\<lambda>_. True) trackers"
    by (rule everyEntry_dropEntry [OF _ Some]) (use ok in \<open>simp add: coherent_def\<close>)
  moreover have "oneEach (ta_slug \<circ> en_value) trackers"
    unfolding trackers by (rule oneEach_filter) (use ok in \<open>simp add: coherent_def\<close>)
  moreover have "credentialsFit vault ?sources (sb_credentials db)"
    using ok by (simp add: coherent_def credentialsFit_def image_image)
  moreover have "secretsListen ?sources (sb_webhookSecrets db)"
    by (rule secretsListen_map) (use ok in \<open>simp_all add: coherent_def\<close>)
  moreover have "bindingsHold ?sources trackers"
    unfolding trackers by (rule bindingsHold_untracked) (use ok in \<open>simp add: coherent_def\<close>)
  ultimately show ?thesis unfolding db' coherent_def by simp
qed (use ok in \<open>simp add: removeTracker_def\<close>)

section \<open>Any run of requests\<close>

lemma sourceRoute_coherent: "faithful vault \<Longrightarrow> coherent vault db \<Longrightarrow> coherent vault (sourceRoute vault r db)"
  by (cases "(vault, r, db)" rule: sourceRoute.cases)
    (simp_all add: createSource_coherent updateSource_coherent makeDefault_coherent setHistoryDays_coherent
      issueWebhookSecret_coherent removeSource_coherent createTracker_coherent updateTracker_coherent
      removeTracker_coherent)

interpretation sources: run_invariant "sourceRoute vault" "\<lambda>_. faithful vault" "coherent vault"
  for vault :: "'c Vault"
  by unfold_locales (rule sourceRoute_coherent)

definition noSourceYet :: "'c SourcesDb \<Rightarrow> bool" where
  "noSourceYet db \<longleftrightarrow> sb_sources db = [] \<and> sb_trackers db = [] \<and> sb_credentials db = [] \<and> sb_webhookSecrets db = []"

lemma noSourceYet_coherent: "noSourceYet db \<Longrightarrow> coherent vault db"
  by (simp add: noSourceYet_def coherent_def oneEach_def oneDefault_def credentialsFit_def secretsListen_def bindingsHold_def)

lemma coherent_resolves:
  assumes ok: "coherent vault db"
  shows "(\<exists>ctx. resolveContext vault settings ident db = Inr ctx) \<longleftrightarrow> entryOf ident (sb_sources db) \<noteq> None"
proof (cases "entryOf ident (sb_sources db)")
  case (Some e)
  note e = entryOf_Some [OF Some]
  have "credentialsFit vault (sb_sources db) (sb_credentials db)" using ok by (simp add: coherent_def)
  with e have "opens vault (sb_credentials db) (en_id e) (so_authKind (en_value e))"
    unfolding credentialsFit_def by blast
  then obtain cipher plain auth where "map_of (sb_credentials db) ident = Some cipher"
    "va_decrypt vault cipher = Some plain" "buildAuth (so_authKind (en_value e)) plain = Some auth"
    using e unfolding opens_def by auto
  then show ?thesis using Some by (simp add: resolveContext_def)
qed (simp add: resolveContext_def)

lemma distinct_length_one: "distinct xs \<Longrightarrow> (\<And>i j. i \<in> set xs \<Longrightarrow> j \<in> set xs \<Longrightarrow> i = j) \<Longrightarrow> length xs \<le> 1"
proof -
  assume "distinct xs" and same: "\<And>i j. i \<in> set xs \<Longrightarrow> j \<in> set xs \<Longrightarrow> i = j"
  have "set xs \<subseteq> {hd xs}" using same [of _ "hd xs"] by (cases xs) auto
  then have "card (set xs) \<le> card {hd xs}" by (rule card_mono [rotated]) simp
  with \<open>distinct xs\<close> show ?thesis by (simp add: distinct_card)
qed

lemma coherent_one_default: "coherent vault db \<Longrightarrow> length (filter (so_isDefault \<circ> en_value) (sb_sources db)) \<le> 1"
proof -
  assume ok: "coherent vault db"
  let ?xs = "map en_id (filter (so_isDefault \<circ> en_value) (sb_sources db))"
  have "distinct ?xs" using ok by (simp add: coherent_def everyEntry_def distinct_map_filter)
  have one: "oneDefault (sb_sources db)" using ok by (simp add: coherent_def)
  have "i = j" if "i \<in> set ?xs" "j \<in> set ?xs" for i j
  proof -
    from that obtain x y where "x \<in> set (sb_sources db)" "so_isDefault (en_value x)" "i = en_id x"
      "y \<in> set (sb_sources db)" "so_isDefault (en_value y)" "j = en_id y" by auto
    with one show ?thesis unfolding oneDefault_def by metis
  qed
  with \<open>distinct ?xs\<close> have "length ?xs \<le> 1" by (rule distinct_length_one)
  then show ?thesis by simp
qed

lemma entryOf_member: "e \<in> set cat \<Longrightarrow> entryOf (en_id e) cat \<noteq> None"
  by (auto simp: entryOf_def find_None_iff)

lemma coherent_secret:
  assumes "coherent vault db" and "ident \<in> fst ` set (sb_webhookSecrets db)"
  shows "\<exists>e. entryOf ident (sb_sources db) = Some e \<and> so_webhooksEnabled (en_value e) \<and> so_mode (en_value e) = StoredMode"
proof -
  from assms obtain x where x: "x \<in> set (sb_sources db)" "ident = en_id x" "so_webhooksEnabled (en_value x)"
    unfolding coherent_def secretsListen_def by blast
  from entryOf_member [OF x(1)] x(2) obtain e where e: "entryOf ident (sb_sources db) = Some e" by auto
  have every: "everyEntry coherentRow (sb_sources db)" using assms(1) by (simp add: coherent_def)
  have "x = e"
    by (rule entryOf_unique [OF _ e x(1)]) (use every x(2) in \<open>simp_all add: everyEntry_def\<close>)
  moreover have "coherentRow (en_value x)" using every x(1) by (rule everyEntry_member)
  ultimately show ?thesis using e x(3) by (simp add: coherentRow_def)
qed

lemma coherent_bindings:
  assumes "coherent vault db" and "e \<in> set (sb_sources db)"
  shows "length (filter snd (so_trackers (en_value e))) \<le> 1 \<and>
    (\<forall>b \<in> set (so_trackers (en_value e)). entryOf (fst b) (sb_trackers db) \<noteq> None)"
proof -
  have "everyEntry coherentRow (sb_sources db)" and hold: "bindingsHold (sb_sources db) (sb_trackers db)"
    using assms(1) by (simp_all add: coherent_def)
  then have "coherentRow (en_value e)" using assms(2) by (auto dest: everyEntry_member)
  moreover have "entryOf (fst b) (sb_trackers db) \<noteq> None" if "b \<in> set (so_trackers (en_value e))" for b
  proof -
    from that have "fst b \<in> fst ` set (so_trackers (en_value e))" by (rule imageI)
    with hold assms(2) obtain x where "x \<in> set (sb_trackers db)" "fst b = en_id x" unfolding bindingsHold_def by blast
    then show ?thesis using entryOf_member by simp
  qed
  ultimately show ?thesis by (simp add: coherentRow_def)
qed

text \<open>C24. Whatever requests an administrator sends, in any order and from an install with no source, the
  sources stay usable and their secrets stay where they belong: an address names one source, at most
  one source is the default, the context a connector needs can be resolved for exactly the sources
  that exist (their credential decrypts to the scheme they claim, whether or not the platform has a
  connector for that scheme), a secret for events belongs to a source that exists,
  keeps its own copy and has events switched on, no credential outlives its source, and a source
  attaches trackers that exist with at most one of them for incidents. The cipher must give back what
  it was given.
\<close>

theorem sources_stay_coherent:
  assumes vault: "faithful vault" and start: "noSourceYet db0" and run: "db = fold (sourceRoute vault) rs db0"
  shows "distinct (map (so_slug \<circ> en_value) (sb_sources db)) \<and>
    length (filter (so_isDefault \<circ> en_value) (sb_sources db)) \<le> 1 \<and>
    (\<forall>settings ident. (\<exists>ctx. resolveContext vault settings ident db = Inr ctx) \<longleftrightarrow> entryOf ident (sb_sources db) \<noteq> None) \<and>
    (\<forall>ident. ident \<in> fst ` set (sb_webhookSecrets db) \<longrightarrow> (\<exists>e. entryOf ident (sb_sources db) = Some e \<and>
       so_webhooksEnabled (en_value e) \<and> so_mode (en_value e) = StoredMode)) \<and>
    fst ` set (sb_credentials db) \<subseteq> en_id ` set (sb_sources db) \<and>
    (\<forall>e \<in> set (sb_sources db). length (filter snd (so_trackers (en_value e))) \<le> 1 \<and>
       (\<forall>b \<in> set (so_trackers (en_value e)). entryOf (fst b) (sb_trackers db) \<noteq> None))"
proof -
  have ok: "coherent vault db"
    unfolding run by (rule sources.run_kept) (simp_all add: vault list_all_iff noSourceYet_coherent [OF start])
  then have "distinct (map (so_slug \<circ> en_value) (sb_sources db))"
    by (intro oneEach_distinct) (simp_all add: coherent_def everyEntry_def)
  moreover have "fst ` set (sb_credentials db) \<subseteq> en_id ` set (sb_sources db)"
    using ok by (simp add: coherent_def credentialsFit_def)
  ultimately show ?thesis
    using coherent_one_default [OF ok] coherent_secret [OF ok] coherent_bindings [OF ok]
    by (intro conjI allI ballI impI coherent_resolves [OF ok]) simp_all
qed

definition plainVault :: "Plaintext Vault" where
  "plainVault = \<lparr>va_encrypt = id, va_decrypt = Some\<rparr>"

definition anEmptyInstall :: "Plaintext SourcesDb" where
  "anEmptyInstall = \<lparr>sb_sources = [], sb_trackers = [], sb_envRules = [], sb_envUrlRules = [], sb_versionRules = [],
     sb_credentials = [], sb_webhookSecrets = [], sb_quotas = []\<rparr>"

definition aStoredSource :: SourceDto where
  "aStoredSource = \<lparr>sf_name = Some ''ab'', sf_kind = Some GitHub, sf_baseUrl = None, sf_authKind = Some TokenAuth,
     sf_secret = Some ''t'', sf_app = None, sf_scope = None, sf_mode = Some StoredMode, sf_webhooksEnabled = Some True,
     sf_historyDays = None, sf_envRuleIds = None, sf_envUrlRuleIds = None, sf_versionRuleIds = None,
     sf_trackerIds = None, sf_incidentTrackerId = None\<rparr>"

definition aSourceRun :: "(SourceRequest \<times> instant) list" where
  "aSourceRun = [(CreateSource aStoredSource ''1'', 1), (CreateSource aStoredSource ''2'', 2), (MakeDefault ''1'', 3),
     (MakeDefault ''2'', 4), (IssueWebhookSecret ''1'' ''s'', 5), (RemoveSource ''2'', 6)]"

lemma sources_stay_coherent_witness:
  "faithful plainVault \<and> noSourceYet anEmptyInstall \<and>
   length (filter (so_isDefault \<circ> en_value) (sb_sources (fold (sourceRoute plainVault) aSourceRun anEmptyInstall))) \<le> 1"
proof -
  have "faithful plainVault" and "noSourceYet anEmptyInstall"
    by (simp_all add: faithful_def plainVault_def noSourceYet_def anEmptyInstall_def)
  with sources_stay_coherent [OF this refl, of aSourceRun] show ?thesis by blast
qed

end
