(* ===== verification/Login_Throttle.thy ===== *)
theory Login_Throttle
  imports Version_Template
begin

text \<open>
  The counter of failed sign-ins (\<open>auth/login-throttle.ts\<close>): two kinds of bucket, one per address
  and one per caller, each an entry of one \<open>Map\<close> under \<open>kind:value\<close>. \<open>Object.entries(keys)\<close> walks
  the address first and the caller second.

  The lemmas give a bucket after each operation, as the client of the counter sees it: a failure
  adds one to a live bucket and pushes its end back, a right password empties it, and the sweep
  touches none that is live.
\<close>

datatype bucketKind = EmailBucket | IpBucket

record LoginKeys =
  lk_email :: string
  lk_ip :: string

record Bucket =
  bu_count :: nat
  bu_expiresAt :: instant

type_synonym buckets = "(string, Bucket) jsmap"

definition WINDOW_MS :: int where "WINDOW_MS = 15 * 60 * 1000"

definition LIMITS :: "bucketKind \<Rightarrow> nat" where
  "LIMITS kind = (case kind of EmailBucket \<Rightarrow> 10 | IpBucket \<Rightarrow> 30)"

definition keyOfKind :: "LoginKeys \<Rightarrow> bucketKind \<Rightarrow> string" where
  "keyOfKind keys kind = (case kind of EmailBucket \<Rightarrow> ''email:'' @ lk_email keys | IpBucket \<Rightarrow> ''ip:'' @ lk_ip keys)"

definition KINDS :: "bucketKind list" where
  "KINDS = [EmailBucket, IpBucket]"

definition retryAfter :: "LoginKeys \<Rightarrow> instant \<Rightarrow> buckets \<Rightarrow> int" where
  "retryAfter keys now buckets =
     fold (\<lambda>kind wait.
       case map_of buckets (keyOfKind keys kind) of
         None \<Rightarrow> wait
       | Some bucket \<Rightarrow>
           if bu_expiresAt bucket \<le> now \<or> bu_count bucket < LIMITS kind then wait
           else max wait (bu_expiresAt bucket - now)) KINDS 0"

text \<open>The sweep, once the map is large enough to be worth walking.\<close>

definition pruneBuckets :: "instant \<Rightarrow> buckets \<Rightarrow> buckets" where
  "pruneBuckets now buckets =
     (if length buckets < 5000 then buckets else filter (\<lambda>(key, bucket). \<not> bu_expiresAt bucket \<le> now) buckets)"

definition recordFailure :: "LoginKeys \<Rightarrow> instant \<Rightarrow> buckets \<Rightarrow> buckets" where
  "recordFailure keys now buckets =
     pruneBuckets now (fold (\<lambda>kind m.
       let key = keyOfKind keys kind;
           n = (case map_of m key of
                    Some bucket \<Rightarrow> if bu_expiresAt bucket > now then bu_count bucket + 1 else 1
                  | None \<Rightarrow> 1)
       in AList.update key \<lparr>bu_count = n, bu_expiresAt = now + WINDOW_MS\<rparr> m) KINDS buckets)"

definition clear :: "LoginKeys \<Rightarrow> buckets \<Rightarrow> buckets" where
  "clear keys buckets = fold (\<lambda>kind m. AList.delete (keyOfKind keys kind) m) KINDS buckets"


section \<open>A bucket after each operation\<close>

lemma keyOfKind_inject [simp]:
  "keyOfKind keys kind = keyOfKind keys' kind' \<longleftrightarrow>
     kind = kind' \<and> (case kind of EmailBucket \<Rightarrow> lk_email keys = lk_email keys' | IpBucket \<Rightarrow> lk_ip keys = lk_ip keys')"
  by (cases kind; cases kind') (simp_all add: keyOfKind_def)

text \<open>The failures a bucket remembers at an instant: none once it has run out.\<close>

definition remembered :: "string \<Rightarrow> instant \<Rightarrow> buckets \<Rightarrow> nat" where
  "remembered key now buckets =
     (case map_of buckets key of
        Some bucket \<Rightarrow> if bu_expiresAt bucket > now then bu_count bucket else 0
      | None \<Rightarrow> 0)"

definition endsAt :: "string \<Rightarrow> buckets \<Rightarrow> instant option" where
  "endsAt key buckets = map_option bu_expiresAt (map_of buckets key)"

lemma open_iff:
  "retryAfter keys now buckets = 0 \<longleftrightarrow>
     (\<forall>kind. remembered (keyOfKind keys kind) now buckets < LIMITS kind)"
proof -
  have "(\<forall>kind. P kind) \<longleftrightarrow> P EmailBucket \<and> P IpBucket" for P
    by (metis bucketKind.exhaust)
  then show ?thesis
    by (auto simp: retryAfter_def KINDS_def remembered_def LIMITS_def max_def split: option.splits)
qed

lemma map_of_filter_distinct:
  "distinct (map fst m) \<Longrightarrow>
   map_of (filter P m) k = Option.bind (map_of m k) (\<lambda>v. if P (k, v) then Some v else None)"
  by (induction m) (auto simp: map_of_eq_None_iff bind_eq_None_conv)

lemma remembered_pruneBuckets:
  "distinct (map fst buckets) \<Longrightarrow> now \<le> t \<Longrightarrow> remembered key t (pruneBuckets now buckets) = remembered key t buckets"
  by (cases "map_of buckets key")
     (auto simp: pruneBuckets_def remembered_def map_of_filter_distinct)

lemma distinct_pruneBuckets [gp_inv]:
  "distinct (map fst buckets) \<Longrightarrow> distinct (map fst (pruneBuckets now buckets))"
  by (simp add: pruneBuckets_def distinct_map_filter)

lemma distinct_recordFailure [gp_inv]:
  "distinct (map fst buckets) \<Longrightarrow> distinct (map fst (recordFailure keys now buckets))"
  by (simp add: recordFailure_def Let_def KINDS_def distinct_pruneBuckets distinct_keys_update)

lemma distinct_clear [gp_inv]:
  "distinct (map fst buckets) \<Longrightarrow> distinct (map fst (clear keys buckets))"
  by (simp add: clear_def KINDS_def distinct_delete)

lemma remembered_update:
  "remembered key t (AList.update key' b m) =
     (if key = key' then if bu_expiresAt b > t then bu_count b else 0 else remembered key t m)"
  by (simp add: remembered_def update_conv')

lemma remembered_recordFailure:
  assumes "distinct (map fst buckets)" "now \<le> t"
  shows "remembered (keyOfKind keys kind) t (recordFailure keys now buckets) =
     (if t < now + WINDOW_MS then remembered (keyOfKind keys kind) now buckets + 1 else 0)"
    and "(\<And>k. key \<noteq> keyOfKind keys k) \<Longrightarrow>
     remembered key t (recordFailure keys now buckets) = remembered key t buckets"
proof -
  have n: "(case map_of buckets key of Some bucket \<Rightarrow> if bu_expiresAt bucket > now then bu_count bucket + 1 else 1 | None \<Rightarrow> 1) =
      remembered key now buckets + 1" for key
    by (simp add: remembered_def split: option.split)
  have d: "distinct (map fst (AList.update k b (AList.update k' b' buckets)))" for k b k' b'
    using assms(1) by (simp add: distinct_keys_update)
  show "remembered (keyOfKind keys kind) t (recordFailure keys now buckets) =
     (if t < now + WINDOW_MS then remembered (keyOfKind keys kind) now buckets + 1 else 0)"
    by (cases kind)
       (simp_all add: recordFailure_def Let_def KINDS_def remembered_pruneBuckets [OF d assms(2)] remembered_update n update_conv')
  assume "\<And>k. key \<noteq> keyOfKind keys k"
  then show "remembered key t (recordFailure keys now buckets) = remembered key t buckets"
    by (simp add: recordFailure_def Let_def KINDS_def remembered_pruneBuckets [OF d assms(2)] remembered_update)
qed

lemma remembered_delete:
  "remembered key t (AList.delete key' m) = (if key = key' then 0 else remembered key t m)"
  by (simp add: remembered_def delete_conv')

lemma remembered_clear:
  "remembered key t (clear keys buckets) =
     (if \<exists>kind. key = keyOfKind keys kind then 0 else remembered key t buckets)"
proof -
  have "(\<exists>kind. key = keyOfKind keys kind) \<longleftrightarrow> key = keyOfKind keys EmailBucket \<or> key = keyOfKind keys IpBucket"
    by (metis bucketKind.exhaust)
  then show ?thesis by (simp add: clear_def KINDS_def remembered_delete)
qed

end
