(* ===== verification/Passwords.thy ===== *)
theory Passwords
  imports Private_Address Connectors "HOL-Library.Word"
begin

text \<open>
  Stored passwords (\<open>auth/password.ts\<close>): \<open>salt:derivedKey\<close>, both in hexadecimal. A buffer is a
  list of bytes. The key derivation of \<open>node:crypto\<close> is a parameter, \<open>None\<close> where it throws; the
  random salt is an argument of the operation that draws it.

  The theorem shows that a stored password is accepted exactly by what derives the same key, and
  that nothing is accepted by a column that cannot be read.
\<close>

type_synonym buffer = "8 word list"
type_synonym scrypt = "string \<Rightarrow> buffer \<Rightarrow> buffer option"

definition KEY_LENGTH :: nat where "KEY_LENGTH = 64"
definition SALT_LENGTH :: nat where "SALT_LENGTH = 16"

text \<open>\<open>buffer.toString('hex')\<close>\<close>

definition lowerHex :: "nat \<Rightarrow> char" where
  "lowerHex d = (if d < 10 then char_of (48 + d) else char_of (87 + d))"

definition toHex :: "buffer \<Rightarrow> string" where
  "toHex bytes = concat (map (\<lambda>b. [lowerHex (unat b div 16), lowerHex (unat b mod 16)]) bytes)"

text \<open>\<open>Buffer.from(value, 'hex')\<close> on a value of whole, readable pairs.\<close>

fun bufferFrom :: "string \<Rightarrow> buffer" where
  "bufferFrom (h # l # r) = word_of_nat (16 * the (hexValueOf h) + the (hexValueOf l)) # bufferFrom r"
| "bufferFrom _ = []"

definition fromHex :: "string option \<Rightarrow> nat \<Rightarrow> buffer option" where
  "fromHex value' bytes =
     (case value' of
        None \<Rightarrow> None
      | Some v \<Rightarrow>
          if length v \<noteq> bytes * 2 \<or> \<not> (v \<noteq> [] \<and> list_all (\<lambda>c. hexValueOf c \<noteq> None) v) then None
          else Some (bufferFrom v))"

definition hashPassword :: "scrypt \<Rightarrow> buffer \<Rightarrow> string \<Rightarrow> string option" where
  "hashPassword scrypt salt password =
     (case scrypt password salt of
        None \<Rightarrow> None
      | Some key \<Rightarrow> Some (toHex salt @ '':'' @ toHex key))"

definition verifyPassword :: "scrypt \<Rightarrow> string \<Rightarrow> string \<Rightarrow> bool" where
  "verifyPassword scrypt password stored =
     (case splitOn (CHR '':'') stored of
        saltHex # rest \<Rightarrow>
          if length rest > 1 then False
          else case (fromHex (Some saltHex) SALT_LENGTH,
                     fromHex (case rest of keyHex # _ \<Rightarrow> Some keyHex | [] \<Rightarrow> None) KEY_LENGTH) of
            (Some salt, Some expected) \<Rightarrow> scrypt password salt = Some expected
          | _ \<Rightarrow> False
      | [] \<Rightarrow> False)"


section \<open>What a stored password accepts\<close>

lemma hexValueOf_lowerHex [simp]: "d < 16 \<Longrightarrow> hexValueOf (lowerHex d) = Some d"
  by (simp add: hexValueOf_def lowerHex_def Let_def of_char_of)

lemma nibbles: "unat (b :: 8 word) div 16 < 16" "unat b mod 16 < 16"
proof -
  have "unat b < 256" using unsigned_less [of b, where 'a = nat] by simp
  then show "unat b div 16 < 16" "unat b mod 16 < 16" by auto
qed

lemma bufferFrom_toHex [simp]: "bufferFrom (toHex bytes) = bytes"
proof (induction bytes)
  case (Cons b bytes)
  have "unat b div 16 < 16" "unat b mod 16 < 16" by (rule nibbles)+
  with Cons show ?case by (simp add: toHex_def)
qed (simp add: toHex_def)

lemma length_toHex [simp]: "length (toHex bytes) = 2 * length bytes"
  by (induction bytes) (simp_all add: toHex_def)

lemma toHex_readable: "list_all (\<lambda>c. hexValueOf c \<noteq> None) (toHex bytes)"
proof (induction bytes)
  case (Cons b bytes)
  have "unat b div 16 < 16" "unat b mod 16 < 16" by (rule nibbles)+
  with Cons show ?case by (simp add: toHex_def)
qed (simp add: toHex_def)

lemma toHex_ne [simp]: "toHex bytes = [] \<longleftrightarrow> bytes = []"
  by (cases bytes) (simp_all add: toHex_def)

lemma fromHex_toHex [simp]: "bytes \<noteq> [] \<Longrightarrow> fromHex (Some (toHex bytes)) (length bytes) = Some bytes"
  using toHex_readable [of bytes] by (simp add: fromHex_def)

lemma no_colon_in_hex: "list_all (\<lambda>c. hexValueOf c \<noteq> None) s \<Longrightarrow> CHR '':'' \<notin> set s"
  by (auto simp: list_all_iff hexValueOf_def)

lemma splitOn_two: "splitOn d s = [a, b] \<Longrightarrow> s = a @ d # b \<and> d \<notin> set a \<and> d \<notin> set b"
proof -
  have one: "splitOn d r = [b] \<Longrightarrow> r = b \<and> d \<notin> set b" for r b
    by (induction r arbitrary: b) (auto simp: splitOn_ne split: if_splits list.splits)
  assume "splitOn d s = [a, b]"
  then show ?thesis
    by (induction s arbitrary: a) (auto simp: splitOn_ne split: if_splits list.splits dest: one)
qed

lemma hash_splits: "splitOn (CHR '':'') (toHex salt @ '':'' @ toHex key) = [toHex salt, toHex key]"
  using no_colon_in_hex [OF toHex_readable, of salt] no_colon_in_hex [OF toHex_readable, of key]
  by (simp add: splitOn_append splitOn_none)

lemma verify_hash:
  "length salt = SALT_LENGTH \<Longrightarrow> length key = KEY_LENGTH \<Longrightarrow>
   verifyPassword scrypt password (toHex salt @ '':'' @ toHex key) \<longleftrightarrow> scrypt password salt = Some key"
proof -
  assume l: "length salt = SALT_LENGTH" "length key = KEY_LENGTH"
  then have "salt \<noteq> []" "key \<noteq> []" by (auto simp: SALT_LENGTH_def KEY_LENGTH_def)
  then have "fromHex (Some (toHex salt)) SALT_LENGTH = Some salt" "fromHex (Some (toHex key)) KEY_LENGTH = Some key"
    using fromHex_toHex l by metis+
  then show ?thesis unfolding verifyPassword_def hash_splits by simp
qed

text \<open>C18. A stored password accepts exactly what derives the same key. A password hashed under a salt
  of sixteen bytes, by a derivation of keys of sixty-four, is accepted at the next sign-in, and so
  is precisely every other password deriving the same key under that salt; while a column that is
  not two readable halves of those lengths accepts no password at all.\<close>

theorem a_stored_password_accepts_what_derives_its_key:
  assumes lengths: "length salt = SALT_LENGTH" "\<forall>p s k. scrypt p s = Some k \<longrightarrow> length k = KEY_LENGTH"
    and hashed: "hashPassword scrypt salt password = Some stored"
  shows "(\<forall>other. verifyPassword scrypt other stored = (scrypt other salt = scrypt password salt)) \<and>
    (\<forall>other column. verifyPassword scrypt other column \<longrightarrow>
      (\<exists>s k. column = s @ '':'' @ k \<and> length s = 32 \<and> length k = 128 \<and>
        list_all (\<lambda>c. hexValueOf c \<noteq> None) (s @ k)))"
proof
  obtain key where key: "scrypt password salt = Some key" "stored = toHex salt @ '':'' @ toHex key"
    using hashed by (auto simp: hashPassword_def split: option.splits)
  show "\<forall>other. verifyPassword scrypt other stored = (scrypt other salt = scrypt password salt)"
    using verify_hash [OF lengths(1) lengths(2) [rule_format, OF key(1)]] key by simp
  show "\<forall>other column. verifyPassword scrypt other column \<longrightarrow>
      (\<exists>s k. column = s @ '':'' @ k \<and> length s = 32 \<and> length k = 128 \<and>
        list_all (\<lambda>c. hexValueOf c \<noteq> None) (s @ k))"
  proof (intro allI impI)
    fix other column
    assume v: "verifyPassword scrypt other column"
    then obtain s k where "splitOn (CHR '':'') column = [s, k]"
      "fromHex (Some s) SALT_LENGTH \<noteq> None" "fromHex (Some k) KEY_LENGTH \<noteq> None"
      by (auto simp: verifyPassword_def fromHex_def [of None] length_Suc_conv not_less le_Suc_eq split: list.splits option.splits if_splits)
    then show "\<exists>s k. column = s @ '':'' @ k \<and> length s = 32 \<and> length k = 128 \<and> list_all (\<lambda>c. hexValueOf c \<noteq> None) (s @ k)"
      by (intro exI [of _ s] exI [of _ k])
         (auto simp: fromHex_def SALT_LENGTH_def KEY_LENGTH_def list_all_iff split: if_splits dest!: splitOn_two)
  qed
qed


definition sample_scrypt :: scrypt where
  "sample_scrypt p s = Some (replicate 64 (word_of_nat (length p)))"

theorem a_stored_password_accepts_what_derives_its_key_witness:
  "\<exists>stored. hashPassword sample_scrypt (replicate 16 0) ''longenough'' = Some stored \<and>
     verifyPassword sample_scrypt ''longenough'' stored \<and> \<not> verifyPassword sample_scrypt ''short'' stored"
proof -
  obtain stored where h: "hashPassword sample_scrypt (replicate 16 0) ''longenough'' = Some stored"
    by (simp add: hashPassword_def sample_scrypt_def)
  have ls: "length (replicate 16 0 :: buffer) = SALT_LENGTH" by (simp add: SALT_LENGTH_def)
  have lk: "\<forall>p s k. sample_scrypt p s = Some k \<longrightarrow> length k = KEY_LENGTH"
    by (auto simp: sample_scrypt_def KEY_LENGTH_def)
  from a_stored_password_accepts_what_derives_its_key [OF ls lk h]
  have "verifyPassword sample_scrypt other stored = (sample_scrypt other (replicate 16 0) = sample_scrypt ''longenough'' (replicate 16 0))" for other
    by blast
  with h show ?thesis by (auto simp: sample_scrypt_def)
qed

end
