(* ===== verification/Auth.thy ===== *)
theory Auth
  imports Login_Throttle Passwords Pagination Settings
begin

text \<open>
  Accounts, sessions and reset links (\<open>auth/auth.service.ts\<close>), who may call a route
  (\<open>auth/access.ts\<close>, \<open>auth/auth.guard.ts\<close>) and the routes themselves
  (\<open>auth/auth.controller.ts\<close>, \<open>auth/users.controller.ts\<close>) as one machine: a request is guarded,
  then handled, over the three tables and the counter of failed sign-ins.

  What a request finds outside is part of it: the clock, the cookie, and the random values an
  operation draws (a token, a salt, an identifier). SHA-256 and scrypt are parameters. A row is
  found by its unique key; \<open>session.delete({ where: { id } })\<close> deletes the row under its digest,
  which is as unique. The clock does not advance within a request.

  The properties are proved in \<open>Auth_Safety\<close>.
\<close>

section \<open>The tables\<close>

datatype UserRole = AdminRole | UserRole

record User =
  us_id :: string
  us_email :: string
  us_name :: string
  us_passwordHash :: string
  us_role :: UserRole
  us_createdAt :: instant
  us_updatedAt :: instant
  us_displayDirection :: "string option"
  us_displayMode :: "string option"
  us_language :: "string option"

text \<open>A session and a reset link have the same columns.\<close>

record Ticket =
  ti_tokenHash :: string
  ti_userId :: string
  ti_expiresAt :: instant

record AuthDb =
  ad_users :: "User list"
  ad_sessions :: "Ticket list"
  ad_resets :: "Ticket list"

record Crypto =
  cr_sha256 :: "string \<Rightarrow> string"
  cr_scrypt :: scrypt

datatype AuthError =
    TooManyAttempts int | InvalidCredentials | SetupDone | EmailTaken string | WrongPassword
  | ResetInvalid | ResetExpired | UserNotFound | LastAdmin | LoginRequired | Forbidden
  | UniqueViolation | CryptoFailed

record UserPublic =
  up_id :: string
  up_email :: string
  up_name :: string
  up_role :: UserRole
  up_createdAt :: instant
  up_updatedAt :: instant
  up_direction :: "string option"
  up_mode :: "string option"
  up_language :: "string option"

definition SUPPORTED_LANGUAGES :: "string list" where
  "SUPPORTED_LANGUAGES = [''en'', ''fr'']"

text \<open>\<open>allowed.find((d) => d === value) ?? null\<close>\<close>

definition narrowed :: "string list \<Rightarrow> string option \<Rightarrow> string option" where
  "narrowed allowed v = Option.bind v (\<lambda>s. List.find (\<lambda>d. d = s) allowed)"

definition toPublic :: "User \<Rightarrow> UserPublic" where
  "toPublic u = \<lparr>up_id = us_id u, up_email = us_email u, up_name = us_name u, up_role = us_role u,
     up_createdAt = us_createdAt u, up_updatedAt = us_updatedAt u,
     up_direction = narrowed OVERVIEW_DIRECTIONS (us_displayDirection u),
     up_mode = narrowed DISPLAY_MODES (us_displayMode u),
     up_language = narrowed SUPPORTED_LANGUAGES (us_language u)\<rparr>"

text \<open>\<open>toLowerCase\<close> on the characters of this model, the first 256 of Unicode.\<close>

definition lowerChar :: "char \<Rightarrow> char" where
  "lowerChar c =
     (let n = (of_char c :: nat) in
      if (65 \<le> n \<and> n \<le> 90) \<or> (192 \<le> n \<and> n \<le> 222 \<and> n \<noteq> 215) then char_of (n + 32) else c)"

definition normalizeEmail :: "string \<Rightarrow> string" where
  "normalizeEmail email = map lowerChar (jsTrim email)"

definition userWith :: "(User \<Rightarrow> bool) \<Rightarrow> AuthDb \<Rightarrow> User option" where
  "userWith P db = List.find P (ad_users db)"

definition ticketWith :: "string \<Rightarrow> Ticket list \<Rightarrow> Ticket option" where
  "ticketWith digest tickets = List.find (\<lambda>t. ti_tokenHash t = digest) tickets"

section \<open>Sessions\<close>

definition SESSION_TTL_MS :: int where "SESSION_TTL_MS = 12 * 60 * 60 * 1000"
definition RESET_TTL_MS :: int where "RESET_TTL_MS = 60 * 60 * 1000"

definition dropTickets :: "(Ticket \<Rightarrow> bool) \<Rightarrow> Ticket list \<Rightarrow> Ticket list" where
  "dropTickets P = filter (\<lambda>t. \<not> P t)"

definition resolve :: "Crypto \<Rightarrow> string option \<Rightarrow> instant \<Rightarrow> AuthDb \<Rightarrow> AuthDb \<times> User option \<times> bool" where
  "resolve cr token now db =
     (case orNull token of
        None \<Rightarrow> (db, None, False)
      | Some tok \<Rightarrow>
          (case ticketWith (cr_sha256 cr tok) (ad_sessions db) of
             None \<Rightarrow> (db, None, False)
           | Some session \<Rightarrow>
               if ti_expiresAt session \<le> now
               then (db\<lparr>ad_sessions := dropTickets (\<lambda>t. ti_tokenHash t = ti_tokenHash session) (ad_sessions db)\<rparr>, None, False)
               else
                 let refreshed = (2 * (ti_expiresAt session - now) < SESSION_TTL_MS);
                     db' = (if refreshed
                            then db\<lparr>ad_sessions := map (\<lambda>t. if ti_tokenHash t = ti_tokenHash session
                                   then t\<lparr>ti_expiresAt := now + SESSION_TTL_MS\<rparr> else t) (ad_sessions db)\<rparr>
                            else db)
                 in (db', userWith (\<lambda>u. us_id u = ti_userId session) db, refreshed)))"

definition openSession :: "Crypto \<Rightarrow> string \<Rightarrow> string \<Rightarrow> instant \<Rightarrow> AuthDb \<Rightarrow> AuthDb \<times> (AuthError + string)" where
  "openSession cr token userId now db =
     (if ticketWith (cr_sha256 cr token) (ad_sessions db) \<noteq> None then (db, Inl UniqueViolation)
      else (db\<lparr>ad_sessions := ad_sessions db @
              [\<lparr>ti_tokenHash = cr_sha256 cr token, ti_userId = userId, ti_expiresAt = now + SESSION_TTL_MS\<rparr>]\<rparr>,
            Inr token))"

text \<open>
  Sixteen and sixty-four zero bytes: the hash a sign-in for an unknown address is verified against.
\<close>

definition DECOY_HASH :: string where
  "DECOY_HASH = replicate 32 (CHR ''0'') @ '':'' @ replicate 128 (CHR ''0'')"

definition login ::
  "Crypto \<Rightarrow> string \<Rightarrow> string \<Rightarrow> string \<Rightarrow> string \<Rightarrow> instant \<Rightarrow> AuthDb \<times> buckets \<Rightarrow>
   (AuthDb \<times> buckets) \<times> (AuthError + User \<times> string)" where
  "login cr fresh email password ip now st =
     (case st of (db, buckets) \<Rightarrow>
       let keys = \<lparr>lk_email = normalizeEmail email, lk_ip = ip\<rparr>;
           wait = retryAfter keys now buckets
       in if wait > 0 then (st, Inl (TooManyAttempts \<lceil>rat_of_int wait / 60000\<rceil>))
          else
            let user = userWith (\<lambda>u. us_email u = lk_email keys) db;
                ok = verifyPassword (cr_scrypt cr) password
                  (case user of Some u \<Rightarrow> us_passwordHash u | None \<Rightarrow> DECOY_HASH)
            in case user of
                 None \<Rightarrow> ((db, recordFailure keys now buckets), Inl InvalidCredentials)
               | Some u \<Rightarrow>
                   if \<not> ok then ((db, recordFailure keys now buckets), Inl InvalidCredentials)
                   else
                     let swept = db\<lparr>ad_sessions := dropTickets (\<lambda>t. ti_expiresAt t < now) (ad_sessions db)\<rparr>
                     in case openSession cr fresh (us_id u) now swept of
                          (db', Inl e) \<Rightarrow> ((db', clear keys buckets), Inl e)
                        | (db', Inr token) \<Rightarrow> ((db', clear keys buckets), Inr (u, token)))"

definition logout :: "Crypto \<Rightarrow> string option \<Rightarrow> AuthDb \<Rightarrow> AuthDb" where
  "logout cr token db =
     (case orNull token of
        None \<Rightarrow> db
      | Some tok \<Rightarrow> db\<lparr>ad_sessions := dropTickets (\<lambda>t. ti_tokenHash t = cr_sha256 cr tok) (ad_sessions db)\<rparr>)"

section \<open>Accounts\<close>

record CreateUserDto =
  cu_email :: string
  cu_name :: string
  cu_password :: string
  cu_role :: "UserRole option"

record UpdateUserDto =
  uu_email :: "string option"
  uu_name :: "string option"
  uu_password :: "string option"
  uu_role :: "UserRole option"

text \<open>A field of type \<open>X | null\<close> that may be absent: the outer option is the absence.\<close>

record UpdateMeDto =
  um_name :: "string option"
  um_password :: "string option"
  um_currentPassword :: "string option"
  um_displayDirection :: "string option option"
  um_displayMode :: "string option option"
  um_language :: "string option option"

definition createUser ::
  "Crypto \<Rightarrow> string \<Rightarrow> buffer \<Rightarrow> CreateUserDto \<Rightarrow> instant \<Rightarrow> AuthDb \<Rightarrow> AuthDb \<times> (AuthError + User)" where
  "createUser cr fresh salt dto now db =
     (let email = normalizeEmail (cu_email dto) in
      if userWith (\<lambda>u. us_email u = email) db \<noteq> None then (db, Inl (EmailTaken email))
      else case hashPassword (cr_scrypt cr) salt (cu_password dto) of
        None \<Rightarrow> (db, Inl CryptoFailed)
      | Some hash \<Rightarrow>
          if userWith (\<lambda>u. us_id u = fresh) db \<noteq> None then (db, Inl UniqueViolation)
          else
            let user = \<lparr>us_id = fresh, us_email = email, us_name = cu_name dto, us_passwordHash = hash,
                  us_role = (case cu_role dto of Some r \<Rightarrow> r | None \<Rightarrow> UserRole),
                  us_createdAt = now, us_updatedAt = now,
                  us_displayDirection = None, us_displayMode = None, us_language = None\<rparr>
            in (db\<lparr>ad_users := ad_users db @ [user]\<rparr>, Inr user))"

definition setupFirst ::
  "Crypto \<Rightarrow> string \<Rightarrow> string \<Rightarrow> buffer \<Rightarrow> CreateUserDto \<Rightarrow> instant \<Rightarrow> AuthDb \<Rightarrow> AuthDb \<times> (AuthError + User \<times> string)" where
  "setupFirst cr token fresh salt dto now db =
     (if ad_users db \<noteq> [] then (db, Inl SetupDone)
      else case createUser cr fresh salt (dto\<lparr>cu_role := Some AdminRole\<rparr>) now db of
        (db', Inl e) \<Rightarrow> (db', Inl e)
      | (db', Inr user) \<Rightarrow>
          (case openSession cr token (us_id user) now db' of
             (db'', Inl e) \<Rightarrow> (db'', Inl e)
           | (db'', Inr tok) \<Rightarrow> (db'', Inr (user, tok))))"

definition byId :: "string \<Rightarrow> AuthDb \<Rightarrow> AuthError + User" where
  "byId ident db = (case userWith (\<lambda>u. us_id u = ident) db of None \<Rightarrow> Inl UserNotFound | Some u \<Rightarrow> Inr u)"

definition assertNotLastAdmin :: "User \<Rightarrow> AuthDb \<Rightarrow> AuthError option" where
  "assertNotLastAdmin user db =
     (if us_role user \<noteq> AdminRole then None
      else if length (filter (\<lambda>u. us_role u = AdminRole) (ad_users db)) > 1 then None
      else Some LastAdmin)"

text \<open>\<open>prisma.user.update({ where: { id }, data })\<close>\<close>

definition writeUser :: "string \<Rightarrow> (User \<Rightarrow> User) \<Rightarrow> AuthDb \<Rightarrow> AuthDb" where
  "writeUser ident f db = db\<lparr>ad_users := map (\<lambda>u. if us_id u = ident then f u else u) (ad_users db)\<rparr>"

definition given :: "'a option \<Rightarrow> ('a \<Rightarrow> User \<Rightarrow> User) \<Rightarrow> User \<Rightarrow> User" where
  "given v f u = (case v of Some x \<Rightarrow> f x u | None \<Rightarrow> u)"

definition editUser :: "UpdateUserDto \<Rightarrow> string option \<Rightarrow> string option \<Rightarrow> instant \<Rightarrow> User \<Rightarrow> User" where
  "editUser dto email hash now u =
     given hash (\<lambda>h u. u\<lparr>us_passwordHash := h\<rparr>)
       (given (uu_role dto) (\<lambda>r u. u\<lparr>us_role := r\<rparr>)
         (given (uu_name dto) (\<lambda>n u. u\<lparr>us_name := n\<rparr>)
           (given email (\<lambda>e u. u\<lparr>us_email := e\<rparr>) (u\<lparr>us_updatedAt := now\<rparr>))))"

text \<open>The sessions of an account that a change of access closes: all but the caller's own.\<close>

definition closeSessions :: "Crypto \<Rightarrow> string \<Rightarrow> string option \<Rightarrow> AuthDb \<Rightarrow> AuthDb" where
  "closeSessions cr ident keepToken db =
     db\<lparr>ad_sessions := dropTickets (\<lambda>t. ti_userId t = ident \<and>
        (case orNull keepToken of Some tok \<Rightarrow> ti_tokenHash t \<noteq> cr_sha256 cr tok | None \<Rightarrow> True)) (ad_sessions db)\<rparr>"

text \<open>
  What \<open>updateUser\<close> checks before it writes: the account as it is, the address and the hash to write.
\<close>

definition updateChecks ::
  "Crypto \<Rightarrow> buffer \<Rightarrow> string \<Rightarrow> UpdateUserDto \<Rightarrow> AuthDb \<Rightarrow> AuthError + User \<times> string option \<times> string option" where
  "updateChecks cr salt ident dto db =
     (case byId ident db of
        Inl e \<Rightarrow> Inl e
      | Inr current \<Rightarrow>
          (case (if uu_role dto \<noteq> None \<and> uu_role dto \<noteq> Some AdminRole then assertNotLastAdmin current db else None) of
             Some e \<Rightarrow> Inl e
           | None \<Rightarrow>
               let email = map_option normalizeEmail (uu_email dto) in
               if email \<noteq> None \<and> email \<noteq> Some (us_email current) \<and> userWith (\<lambda>u. Some (us_email u) = email) db \<noteq> None
               then Inl (EmailTaken (the email))
               else
                 let hash = Option.bind (uu_password dto) (hashPassword (cr_scrypt cr) salt) in
                 if uu_password dto \<noteq> None \<and> hash = None then Inl CryptoFailed
                 else Inr (current, email, hash)))"

definition updateUser ::
  "Crypto \<Rightarrow> buffer \<Rightarrow> string \<Rightarrow> UpdateUserDto \<Rightarrow> string option \<Rightarrow> instant \<Rightarrow> AuthDb \<Rightarrow> AuthDb \<times> (AuthError + User)" where
  "updateUser cr salt ident dto keepToken now db =
     (case updateChecks cr salt ident dto db of
        Inl e \<Rightarrow> (db, Inl e)
      | Inr (current, email, hash) \<Rightarrow>
          let written = writeUser ident (editUser dto email hash now) db;
              db' = (if uu_password dto \<noteq> None \<or> (uu_role dto \<noteq> None \<and> uu_role dto \<noteq> Some (us_role current))
                     then closeSessions cr ident keepToken written else written)
          in (db', Inr (editUser dto email hash now current)))"

definition updateSelf ::
  "Crypto \<Rightarrow> buffer \<Rightarrow> string \<Rightarrow> UpdateMeDto \<Rightarrow> string option \<Rightarrow> instant \<Rightarrow> AuthDb \<Rightarrow> AuthDb \<times> (AuthError + User)" where
  "updateSelf cr salt ident dto keepToken now db =
     (case byId ident db of
        Inl e \<Rightarrow> (db, Inl e)
      | Inr current \<Rightarrow>
          if um_password dto \<noteq> None \<and>
             \<not> verifyPassword (cr_scrypt cr) (case um_currentPassword dto of Some p \<Rightarrow> p | None \<Rightarrow> []) (us_passwordHash current)
          then (db, Inl WrongPassword)
          else
            let shown = (if um_displayDirection dto \<noteq> None \<or> um_displayMode dto \<noteq> None \<or> um_language dto \<noteq> None
                  then writeUser ident (\<lambda>u.
                    given (um_language dto) (\<lambda>v u. u\<lparr>us_language := v\<rparr>)
                      (given (um_displayMode dto) (\<lambda>v u. u\<lparr>us_displayMode := v\<rparr>)
                        (given (um_displayDirection dto) (\<lambda>v u. u\<lparr>us_displayDirection := v\<rparr>) (u\<lparr>us_updatedAt := now\<rparr>)))) db
                  else db)
            in updateUser cr salt ident
                 \<lparr>uu_email = None, uu_name = um_name dto, uu_password = um_password dto, uu_role = None\<rparr> keepToken now shown)"

definition findAll :: "PageWindow \<Rightarrow> AuthDb \<Rightarrow> UserPublic Page" where
  "findAll window db =
     toPage (map toPublic (take (pw_limit window) (drop (pw_offset window) (sort_key us_createdAt (ad_users db)))))
       (length (ad_users db)) window"

section \<open>Reset links\<close>

definition issueResetLink ::
  "Crypto \<Rightarrow> string \<Rightarrow> string \<Rightarrow> instant \<Rightarrow> AuthDb \<Rightarrow> AuthDb \<times> (AuthError + string \<times> instant)" where
  "issueResetLink cr token userId now db =
     (case byId userId db of
        Inl e \<Rightarrow> (db, Inl e)
      | Inr u \<Rightarrow>
          let kept = dropTickets (\<lambda>t. ti_userId t = userId) (ad_resets db) in
          if ticketWith (cr_sha256 cr token) kept \<noteq> None then (db, Inl UniqueViolation)
          else (db\<lparr>ad_resets := kept @ [\<lparr>ti_tokenHash = cr_sha256 cr token, ti_userId = userId,
                  ti_expiresAt = now + RESET_TTL_MS\<rparr>]\<rparr>, Inr (token, now + RESET_TTL_MS)))"

definition findReset :: "Crypto \<Rightarrow> string \<Rightarrow> instant \<Rightarrow> AuthDb \<Rightarrow> AuthDb \<times> (AuthError + Ticket)" where
  "findReset cr token now db =
     (case ticketWith (cr_sha256 cr token) (ad_resets db) of
        None \<Rightarrow> (db, Inl ResetInvalid)
      | Some reset \<Rightarrow>
          if ti_expiresAt reset \<le> now
          then (db\<lparr>ad_resets := dropTickets (\<lambda>t. ti_tokenHash t = ti_tokenHash reset) (ad_resets db)\<rparr>, Inl ResetExpired)
          else (db, Inr reset))"

definition resetTarget :: "Crypto \<Rightarrow> string \<Rightarrow> instant \<Rightarrow> AuthDb \<Rightarrow> AuthDb \<times> (AuthError + string \<times> string)" where
  "resetTarget cr token now db =
     (case findReset cr token now db of
        (db', Inl e) \<Rightarrow> (db', Inl e)
      | (db', Inr reset) \<Rightarrow>
          (case byId (ti_userId reset) db' of
             Inl e \<Rightarrow> (db', Inl e)
           | Inr u \<Rightarrow> (db', Inr (us_email u, us_name u))))"

text \<open>The transaction that spends a link.\<close>

definition spendReset :: "string \<Rightarrow> string \<Rightarrow> instant \<Rightarrow> AuthDb \<Rightarrow> AuthDb" where
  "spendReset userId hash now db =
     (let written = writeUser userId (\<lambda>u. u\<lparr>us_passwordHash := hash, us_updatedAt := now\<rparr>) db
      in written\<lparr>ad_sessions := dropTickets (\<lambda>t. ti_userId t = userId) (ad_sessions written),
                 ad_resets := dropTickets (\<lambda>t. ti_userId t = userId) (ad_resets written)\<rparr>)"

definition consumeResetLink ::
  "Crypto \<Rightarrow> buffer \<Rightarrow> string \<Rightarrow> string \<Rightarrow> instant \<Rightarrow> AuthDb \<Rightarrow> AuthDb \<times> (AuthError + unit)" where
  "consumeResetLink cr salt token password now db =
     (case findReset cr token now db of
        (db', Inl e) \<Rightarrow> (db', Inl e)
      | (db', Inr reset) \<Rightarrow>
          (case hashPassword (cr_scrypt cr) salt password of
             None \<Rightarrow> (db', Inl CryptoFailed)
           | Some hash \<Rightarrow> (spendReset (ti_userId reset) hash now db', Inr ())))"

text \<open>The cascade of the schema takes the sessions and the links with the row.\<close>

definition removeUser :: "string \<Rightarrow> AuthDb \<Rightarrow> AuthDb \<times> (AuthError + unit)" where
  "removeUser ident db =
     (case byId ident db of
        Inl e \<Rightarrow> (db, Inl e)
      | Inr u \<Rightarrow>
          (case assertNotLastAdmin u db of
             Some e \<Rightarrow> (db, Inl e)
           | None \<Rightarrow>
               (\<lparr>ad_users = filter (\<lambda>v. us_id v \<noteq> ident) (ad_users db),
                 ad_sessions = dropTickets (\<lambda>t. ti_userId t = ident) (ad_sessions db),
                 ad_resets = dropTickets (\<lambda>t. ti_userId t = ident) (ad_resets db)\<rparr>, Inr ())))"

section \<open>The guard\<close>

datatype AccessLevel = Anonymous | Viewer | Account | AdminOnly

definition grants :: "AccessLevel \<Rightarrow> UserRole option \<Rightarrow> bool \<Rightarrow> bool" where
  "grants required role publicDashboard =
     (if required = Anonymous then True
      else if role = Some AdminRole then True
      else if required = AdminOnly then False
      else if required = Account then role \<noteq> None
      else role \<noteq> None \<or> publicDashboard)"

definition canActivate ::
  "Crypto \<Rightarrow> bool \<Rightarrow> AccessLevel \<Rightarrow> string option \<Rightarrow> instant \<Rightarrow> AuthDb \<Rightarrow> AuthDb \<times> (AuthError + User option)" where
  "canActivate cr publicDashboard required token now db =
     (case resolve cr token now db of
        (db', user, refreshed) \<Rightarrow>
          if required = Anonymous then (db', Inr user)
          else if grants required (map_option us_role user) publicDashboard then (db', Inr user)
          else (db', Inl (if user \<noteq> None then Forbidden else LoginRequired)))"

section \<open>The routes\<close>

datatype AuthRequest =
    Me | UpdateMe UpdateMeDto | Login string string | Logout | ResetTarget string
  | ConsumeReset string string | Setup CreateUserDto
  | ListUsers PageWindow | CreateUser CreateUserDto | EditUser string UpdateUserDto
  | IssueReset string | RemoveUser string

record Incoming =
  in_request :: AuthRequest
  in_now :: instant
  in_cookie :: "string option"
  in_ip :: string
  in_token :: string
  in_userId :: string
  in_salt :: buffer

datatype Answer =
    State "UserPublic option" bool bool "string option"
  | Target string string | Accounts "UserPublic Page" | AccountOf UserPublic | Link string instant | NoContent

definition accessOf :: "AuthRequest \<Rightarrow> AccessLevel" where
  "accessOf req =
     (case req of
        UpdateMe _ \<Rightarrow> Account
      | ListUsers _ \<Rightarrow> AdminOnly | CreateUser _ \<Rightarrow> AdminOnly | EditUser _ _ \<Rightarrow> AdminOnly
      | IssueReset _ \<Rightarrow> AdminOnly | RemoveUser _ \<Rightarrow> AdminOnly
      | _ \<Rightarrow> Anonymous)"

text \<open>\<open>state\<close>: who the caller is, and the token a cookie is set to.\<close>

definition stateOf :: "bool \<Rightarrow> AuthDb \<Rightarrow> User option \<Rightarrow> string option \<Rightarrow> Answer" where
  "stateOf publicDashboard db user token =
     State (map_option toPublic user) publicDashboard (ad_users db = []) token"

definition answered :: "('a \<Rightarrow> Answer) \<Rightarrow> AuthDb \<times> (AuthError + 'a) \<Rightarrow> AuthDb \<times> (AuthError + Answer)" where
  "answered f r = (case r of (db, Inl e) \<Rightarrow> (db, Inl e) | (db, Inr a) \<Rightarrow> (db, Inr (f a)))"

definition withBuckets :: "buckets \<Rightarrow> AuthDb \<times> 'a \<Rightarrow> (AuthDb \<times> buckets) \<times> 'a" where
  "withBuckets buckets r = ((fst r, buckets), snd r)"

definition route ::
  "Crypto \<Rightarrow> bool \<Rightarrow> Incoming \<Rightarrow> User option \<Rightarrow> AuthDb \<times> buckets \<Rightarrow> (AuthDb \<times> buckets) \<times> (AuthError + Answer)" where
  "route cr publicDashboard i user st =
     (case st of (db, buckets) \<Rightarrow>
       (case in_request i of
          Me \<Rightarrow> (st, Inr (stateOf publicDashboard db user None))
        | Login email password \<Rightarrow>
            (case login cr (in_token i) email password (in_ip i) (in_now i) st of
               (st', Inl e) \<Rightarrow> (st', Inl e)
             | (st', Inr (u, token)) \<Rightarrow> (st', Inr (stateOf publicDashboard (fst st') (Some u) (Some token))))
        | UpdateMe dto \<Rightarrow>
            withBuckets buckets
              (case updateSelf cr (in_salt i) (us_id (the user)) dto (in_cookie i) (in_now i) db of
                 (db', Inl e) \<Rightarrow> (db', Inl e)
               | (db', Inr u) \<Rightarrow> (db', Inr (stateOf publicDashboard db' (Some u) None)))
        | Logout \<Rightarrow> ((logout cr (in_cookie i) db, buckets), Inr NoContent)
        | ResetTarget token \<Rightarrow>
            withBuckets buckets (answered (\<lambda>(e, n). Target e n) (resetTarget cr token (in_now i) db))
        | ConsumeReset token password \<Rightarrow>
            withBuckets buckets (answered (\<lambda>_. NoContent) (consumeResetLink cr (in_salt i) token password (in_now i) db))
        | Setup dto \<Rightarrow>
            withBuckets buckets
              (case setupFirst cr (in_token i) (in_userId i) (in_salt i) dto (in_now i) db of
                 (db', Inl e) \<Rightarrow> (db', Inl e)
               | (db', Inr (u, token)) \<Rightarrow> (db', Inr (stateOf publicDashboard db' (Some u) (Some token))))
        | ListUsers window \<Rightarrow> (st, Inr (Accounts (findAll window db)))
        | CreateUser dto \<Rightarrow>
            withBuckets buckets (answered (AccountOf \<circ> toPublic) (createUser cr (in_userId i) (in_salt i) dto (in_now i) db))
        | EditUser ident dto \<Rightarrow>
            withBuckets buckets (answered (AccountOf \<circ> toPublic)
              (updateUser cr (in_salt i) ident dto (in_cookie i) (in_now i) db))
        | IssueReset ident \<Rightarrow>
            withBuckets buckets (answered (\<lambda>(t, e). Link t e) (issueResetLink cr (in_token i) ident (in_now i) db))
        | RemoveUser ident \<Rightarrow> withBuckets buckets (answered (\<lambda>_. NoContent) (removeUser ident db))))"

definition handle ::
  "Crypto \<Rightarrow> bool \<Rightarrow> Incoming \<Rightarrow> AuthDb \<times> buckets \<Rightarrow> (AuthDb \<times> buckets) \<times> (AuthError + Answer)" where
  "handle cr publicDashboard i st =
     (case canActivate cr publicDashboard (accessOf (in_request i)) (in_cookie i) (in_now i) (fst st) of
        (db', Inl e) \<Rightarrow> ((db', snd st), Inl e)
      | (db', Inr user) \<Rightarrow> route cr publicDashboard i user (db', snd st))"

end
