(* ===== verification/Auth_Safety.thy ===== *)
theory Auth_Safety
  imports Auth
begin

text \<open>
  What the accounts, the sessions and the guard of \<open>Auth\<close> promise, over every run of requests:
  an install keeps an administrator, accounts change only for whom may change them, a change of
  access closes the sessions, a link is spent once, and guesses are bounded. Two findings about
  requests served at the same time close the theory.
\<close>

section \<open>The tables stay well formed\<close>

definition wfAuth :: "AuthDb \<Rightarrow> bool" where
  "wfAuth db \<longleftrightarrow>
     distinct (map us_id (ad_users db)) \<and> distinct (map us_email (ad_users db)) \<and>
     distinct (map ti_tokenHash (ad_sessions db)) \<and> distinct (map ti_tokenHash (ad_resets db)) \<and>
     distinct (map ti_userId (ad_resets db)) \<and>
     ti_userId ` set (ad_sessions db) \<subseteq> us_id ` set (ad_users db) \<and>
     ti_userId ` set (ad_resets db) \<subseteq> us_id ` set (ad_users db) \<and>
     (ad_users db \<noteq> [] \<longrightarrow> (\<exists>u \<in> set (ad_users db). us_role u = AdminRole))"

lemma userWith_Some: "userWith P db = Some u \<Longrightarrow> u \<in> set (ad_users db) \<and> P u"
  by (auto simp: userWith_def find_Some_iff)

lemma userWith_None: "userWith P db = None \<longleftrightarrow> (\<forall>u \<in> set (ad_users db). \<not> P u)"
  by (auto simp: userWith_def find_None_iff)

lemma userWith_id:
  "distinct (map us_id (ad_users db)) \<Longrightarrow> u \<in> set (ad_users db) \<Longrightarrow> userWith (\<lambda>v. us_id v = us_id u) db = Some u"
  by (cases "userWith (\<lambda>v. us_id v = us_id u) db")
     (auto simp: userWith_None dest!: userWith_Some dest: map_of_eq_Some_iff distinct_map [THEN iffD1] inj_onD)

lemma ticketWith_Some: "ticketWith d ts = Some t \<Longrightarrow> t \<in> set ts \<and> ti_tokenHash t = d"
  by (auto simp: ticketWith_def find_Some_iff)

lemma ticketWith_None: "ticketWith d ts = None \<longleftrightarrow> d \<notin> ti_tokenHash ` set ts"
  by (auto simp: ticketWith_def find_None_iff)

lemma byId_Inr: "byId ident db = Inr u \<longleftrightarrow> userWith (\<lambda>v. us_id v = ident) db = Some u"
  by (simp add: byId_def split: option.splits)

lemma set_dropTickets [simp]: "set (dropTickets P ts) = {t \<in> set ts. \<not> P t}"
  by (auto simp: dropTickets_def)

lemma distinct_dropTickets [simp]: "distinct (map f ts) \<Longrightarrow> distinct (map f (dropTickets P ts))"
  by (simp add: dropTickets_def distinct_map_filter)

lemma map_if_same: "(\<And>t. f (g t) = f t) \<Longrightarrow> map f (map (\<lambda>t. if P t then g t else t) ts) = map f ts"
  by simp

lemma image_if_same: "(\<And>t. f (g t) = f t) \<Longrightarrow> f ` set (map (\<lambda>t. if P t then g t else t) ts) = f ` set ts"
  using map_if_same [of f g P ts] by (metis list.set_map)

text \<open>Writes that leave the accounts as they are and only drop or prolong tickets.\<close>

lemma wfAuth_tickets:
  assumes "wfAuth db" "ad_users db' = ad_users db"
    and "distinct (map ti_tokenHash (ad_sessions db'))" "distinct (map ti_tokenHash (ad_resets db'))"
      "distinct (map ti_userId (ad_resets db'))"
    and "ti_userId ` set (ad_sessions db') \<subseteq> us_id ` set (ad_users db)"
      "ti_userId ` set (ad_resets db') \<subseteq> us_id ` set (ad_users db)"
  shows "wfAuth db'"
  using assms unfolding wfAuth_def by simp

lemma wfAuth_dropSessions [gp_inv]: "wfAuth db \<Longrightarrow> wfAuth (db\<lparr>ad_sessions := dropTickets P (ad_sessions db)\<rparr>)"
  by (rule wfAuth_tickets) (auto simp: wfAuth_def)

lemma wfAuth_dropResets [gp_inv]: "wfAuth db \<Longrightarrow> wfAuth (db\<lparr>ad_resets := dropTickets P (ad_resets db)\<rparr>)"
  by (rule wfAuth_tickets) (auto simp: wfAuth_def)

lemma wfAuth_resolve [gp_inv]: "wfAuth db \<Longrightarrow> wfAuth (fst (resolve cr token now db))"
proof -
  assume wf: "wfAuth db"
  have "wfAuth (db\<lparr>ad_sessions := map (\<lambda>t. if P t then t\<lparr>ti_expiresAt := x\<rparr> else t) (ad_sessions db)\<rparr>)" for P x
    by (rule wfAuth_tickets [OF wf]) (use wf in \<open>auto simp: wfAuth_def comp_def if_distrib [of ti_tokenHash] cong: if_cong\<close>)
  with wf show ?thesis
    by (simp add: resolve_def Let_def wfAuth_dropSessions split: option.splits)
qed

lemma wfAuth_openSession [gp_inv]:
  "wfAuth db \<Longrightarrow> userId \<in> us_id ` set (ad_users db) \<Longrightarrow> wfAuth (fst (openSession cr token userId now db))"
  by (auto simp: openSession_def ticketWith_None wfAuth_def)

lemma openSession_users [simp]: "ad_users (fst (openSession cr token userId now db)) = ad_users db"
  by (simp add: openSession_def)

lemma wfAuth_login [gp_inv]: "wfAuth (fst st) \<Longrightarrow> wfAuth (fst (fst (login cr fresh email password ip now st)))"
proof (cases st)
  case (Pair db buckets)
  assume "wfAuth (fst st)"
  then have wf: "wfAuth db" using Pair by simp
  have "wfAuth (fst (openSession cr fresh (us_id u) now (db\<lparr>ad_sessions := dropTickets P (ad_sessions db)\<rparr>)))"
    if "userWith Q db = Some u" for u P Q
    using wfAuth_openSession [OF wfAuth_dropSessions [OF wf]] userWith_Some [OF that] by simp
  with wf show ?thesis
    by (simp add: Pair login_def Let_def split: option.splits prod.splits sum.splits) (metis fst_conv)
qed

lemma wfAuth_logout [gp_inv]: "wfAuth db \<Longrightarrow> wfAuth (logout cr token db)"
  by (simp add: logout_def wfAuth_dropSessions split: option.splits)

lemma wfAuth_createUser [gp_inv]:
  "wfAuth db \<Longrightarrow> ad_users db \<noteq> [] \<or> cu_role dto = Some AdminRole \<Longrightarrow> wfAuth (fst (createUser cr fresh salt dto now db))"
  by (auto simp: createUser_def Let_def userWith_None wfAuth_def split: option.splits)

lemma wfAuth_setup [gp_inv]: "wfAuth db \<Longrightarrow> wfAuth (fst (setupFirst cr token fresh salt dto now db))"
proof -
  assume wf: "wfAuth db"
  have new: "snd (createUser cr fresh salt dto' now db) = Inr u \<Longrightarrow> us_id u \<in> us_id ` set (ad_users (fst (createUser cr fresh salt dto' now db)))"
    for dto' u by (auto simp: createUser_def Let_def split: option.splits if_splits)
  show ?thesis
  proof (cases "createUser cr fresh salt (dto\<lparr>cu_role := Some AdminRole\<rparr>) now db")
    case (Pair db' r)
    have w: "wfAuth db'" using wfAuth_createUser [OF wf, of "dto\<lparr>cu_role := Some AdminRole\<rparr>" cr fresh salt now] Pair by simp
    show ?thesis
    proof (cases r)
      case (Inr u)
      with new [of "dto\<lparr>cu_role := Some AdminRole\<rparr>" u] Pair have "us_id u \<in> us_id ` set (ad_users db')" by simp
      from wfAuth_openSession [OF w this] wf Pair Inr show ?thesis
        by (simp add: setupFirst_def split: prod.splits sum.splits) (metis fst_conv)
    qed (use wf w Pair in \<open>simp add: setupFirst_def\<close>)
  qed
qed

lemma users_writeUser [simp]:
  "ad_users (writeUser ident f db) = map (\<lambda>u. if us_id u = ident then f u else u) (ad_users db)"
  "ad_sessions (writeUser ident f db) = ad_sessions db" "ad_resets (writeUser ident f db) = ad_resets db"
  by (simp_all add: writeUser_def)

lemma writeUser_id: "writeUser ident (\<lambda>u. u) db = db"
  by (simp add: writeUser_def)

text \<open>A write of one row that keeps its identifier, its address unique and the roles enough.\<close>

lemma wfAuth_writeUser:
  assumes wf: "wfAuth db" and keep: "\<And>u. us_id (f u) = us_id u"
    and email: "\<And>u. u \<in> set (ad_users db) \<Longrightarrow> us_id u = ident \<Longrightarrow>
      us_email (f u) = us_email u \<or> us_email (f u) \<notin> us_email ` set (ad_users db)"
    and role: "ad_users db = [] \<or> (\<exists>u \<in> set (ad_users (writeUser ident f db)). us_role u = AdminRole)"
  shows "wfAuth (writeUser ident f db)"
proof -
  let ?us = "ad_users db" and ?g = "\<lambda>u. if us_id u = ident then f u else u"
  have ids: "map us_id (map ?g ?us) = map us_id ?us" using keep by simp
  have idset: "us_id ` set (map ?g ?us) = us_id ` set ?us" using ids by (metis list.set_map)
  have d: "distinct (map us_id ?us)" "distinct (map us_email ?us)" using wf by (simp_all add: wfAuth_def)
  have apart: "us_email (?g u) \<noteq> us_email (?g v)" if "u \<in> set ?us" "v \<in> set ?us" "u \<noteq> v" for u v
  proof -
    have "us_id u \<noteq> us_id v" "us_email u \<noteq> us_email v"
      using d that by (auto simp: distinct_map inj_on_def)
    then show ?thesis
      using email [of u] email [of v] that by (auto simp: image_iff) metis+
  qed
  have "distinct ?us" using d by (simp add: distinct_map)
  moreover have "inj_on (us_email \<circ> ?g) (set ?us)"
  proof (rule inj_onI, rule ccontr)
    fix u v
    assume "u \<in> set ?us" "v \<in> set ?us" "(us_email \<circ> ?g) u = (us_email \<circ> ?g) v" "u \<noteq> v"
    with apart [of u v] show False unfolding comp_def by blast
  qed
  ultimately have "distinct (map us_email (map ?g ?us))"
    unfolding map_map distinct_map by blast
  moreover have "map ?g ?us \<noteq> [] \<longrightarrow> (\<exists>u \<in> set (map ?g ?us). us_role u = AdminRole)"
  proof
    assume "map ?g ?us \<noteq> []"
    then have "?us \<noteq> []" by simp
    with role show "\<exists>u \<in> set (map ?g ?us). us_role u = AdminRole" unfolding users_writeUser by blast
  qed
  ultimately show ?thesis
    using wf unfolding wfAuth_def users_writeUser ids idset by (elim conjE, intro conjI) assumption+
qed

text \<open>Somebody else is an administrator, where more than one account is.\<close>

lemma another_admin:
  assumes "distinct (map us_id (ad_users db))" "length (filter (\<lambda>u. us_role u = AdminRole) (ad_users db)) > 1"
  shows "\<exists>v \<in> set (ad_users db). us_role v = AdminRole \<and> us_id v \<noteq> ident"
proof -
  let ?as = "filter (\<lambda>u. us_role u = AdminRole) (ad_users db)"
  from assms(2) obtain a b r where as: "?as = a # b # r" by (cases ?as; cases "List.tl ?as") auto
  have "distinct (map us_id ?as)" using assms(1) by (rule distinct_map_filter)
  with as have "us_id a \<noteq> us_id b" by simp
  moreover have "set ?as = set (a # b # r)" using as by simp
  then have "{a, b} \<subseteq> {u \<in> set (ad_users db). us_role u = AdminRole}" by auto
  ultimately show ?thesis by (cases "us_id a = ident") auto
qed

lemma assertNotLastAdmin_None:
  assumes "wfAuth db" "assertNotLastAdmin u db = None" "u \<in> set (ad_users db)"
  shows "\<exists>v \<in> set (ad_users db). us_role v = AdminRole \<and> us_id v \<noteq> us_id u"
proof (cases "us_role u = AdminRole")
  case True
  with assms another_admin [of db "us_id u"] show ?thesis
    by (auto simp: assertNotLastAdmin_def wfAuth_def split: if_splits)
next
  case False
  from assms(1,3) obtain v where "v \<in> set (ad_users db)" "us_role v = AdminRole" by (auto simp: wfAuth_def)
  with False assms(1,3) show ?thesis by (auto simp: wfAuth_def distinct_map inj_on_def intro!: bexI [of _ v])
qed

lemma editUser_fields [simp]:
  "us_id (editUser dto email hash now u) = us_id u"
  "us_email (editUser dto email hash now u) = (case email of Some e \<Rightarrow> e | None \<Rightarrow> us_email u)"
  "us_role (editUser dto email hash now u) = (case uu_role dto of Some r \<Rightarrow> r | None \<Rightarrow> us_role u)"
  "us_passwordHash (editUser dto email hash now u) = (case hash of Some h \<Rightarrow> h | None \<Rightarrow> us_passwordHash u)"
  by (simp_all add: editUser_def given_def split: option.splits)

lemma closeSessions_fields [simp]:
  "ad_users (closeSessions cr ident keep db) = ad_users db" "ad_resets (closeSessions cr ident keep db) = ad_resets db"
  by (simp_all add: closeSessions_def)

lemma wfAuth_closeSessions [gp_inv]: "wfAuth db \<Longrightarrow> wfAuth (closeSessions cr ident keep db)"
  by (simp add: closeSessions_def wfAuth_dropSessions)

lemma same_id: "wfAuth db \<Longrightarrow> u \<in> set (ad_users db) \<Longrightarrow> v \<in> set (ad_users db) \<Longrightarrow> us_id u = us_id v \<Longrightarrow> u = v"
  by (auto simp: wfAuth_def distinct_map inj_on_def)

text \<open>What an update that passed its checks is told.\<close>

lemma updateChecks_Inr:
  assumes "updateChecks cr salt ident dto db = Inr (current, email, hash)"
  shows "userWith (\<lambda>u. us_id u = ident) db = Some current"
    and "uu_role dto = Some UserRole \<Longrightarrow> assertNotLastAdmin current db = None"
    and "email = None \<or> email = Some (us_email current) \<or> (\<forall>u \<in> set (ad_users db). Some (us_email u) \<noteq> email)"
    and "hash = Option.bind (uu_password dto) (hashPassword (cr_scrypt cr) salt)"
    and "uu_password dto = None \<or> hash \<noteq> None"
  using assms
  by (auto simp: updateChecks_def Let_def byId_def userWith_None split: option.splits if_splits)

lemma updateUser_result:
  "updateUser cr salt ident dto keep now db = (db', r) \<Longrightarrow>
   (\<exists>e. r = Inl e \<and> db' = db) \<or>
   (\<exists>current email hash. updateChecks cr salt ident dto db = Inr (current, email, hash) \<and>
      r = Inr (editUser dto email hash now current) \<and>
      db' = (if uu_password dto \<noteq> None \<or> (uu_role dto \<noteq> None \<and> uu_role dto \<noteq> Some (us_role current))
             then closeSessions cr ident keep (writeUser ident (editUser dto email hash now) db)
             else writeUser ident (editUser dto email hash now) db))"
proof -
  assume up: "updateUser cr salt ident dto keep now db = (db', r)"
  show ?thesis
  proof (cases "updateChecks cr salt ident dto db")
    case (Inr x)
    obtain current email hash where x: "x = (current, email, hash)" by (cases x)
    from up Inr x show ?thesis by (intro disjI2 exI [of _ current] exI [of _ email] exI [of _ hash]) (simp add: updateUser_def Let_def)
  qed (use up in \<open>auto simp: updateUser_def\<close>)
qed

text \<open>The row an update writes keeps its identifier, a free address, and an administrator.\<close>

lemma wfAuth_edit:
  assumes wf: "wfAuth db" and checks: "updateChecks cr salt ident dto db = Inr (current, email, hash)"
  shows "wfAuth (writeUser ident (editUser dto email hash now) db)"
proof (rule wfAuth_writeUser [OF wf])
  note c = updateChecks_Inr [OF checks]
  from userWith_Some [OF c(1)] have cin: "current \<in> set (ad_users db)" "us_id current = ident" by auto
  show "us_email (editUser dto email hash now u) = us_email u \<or> us_email (editUser dto email hash now u) \<notin> us_email ` set (ad_users db)"
    if "u \<in> set (ad_users db)" "us_id u = ident" for u
    using c(3) same_id [OF wf cin(1) that(1)] cin(2) that(2) by (auto split: option.splits)
  let ?g = "\<lambda>u. if us_id u = ident then editUser dto email hash now u else u"
  have mem: "v \<in> set (ad_users db) \<Longrightarrow> ?g v \<in> set (ad_users (writeUser ident (editUser dto email hash now) db))" for v
    unfolding users_writeUser set_map by (rule imageI)
  have "\<exists>v \<in> set (ad_users db). us_role (?g v) = AdminRole"
  proof (cases "uu_role dto = Some UserRole")
    case True
    with assertNotLastAdmin_None [OF wf c(2) cin(1)] cin(2) show ?thesis by auto
  next
    case False
    then have "us_role v = AdminRole \<Longrightarrow> us_role (?g v) = AdminRole" for v
      by (auto split: option.split) (metis UserRole.exhaust)
    moreover from wf cin(1) obtain v where "v \<in> set (ad_users db)" "us_role v = AdminRole" by (auto simp: wfAuth_def)
    ultimately show ?thesis by blast
  qed
  with mem show "ad_users db = [] \<or> (\<exists>u \<in> set (ad_users (writeUser ident (editUser dto email hash now) db)). us_role u = AdminRole)"
    by blast
qed simp

lemma wfAuth_updateUser [gp_inv]: "wfAuth db \<Longrightarrow> wfAuth (fst (updateUser cr salt ident dto keep now db))"
  by (cases "updateChecks cr salt ident dto db")
     (auto simp: updateUser_def Let_def wfAuth_edit wfAuth_closeSessions split: prod.splits)

text \<open>A write that touches neither identifiers, addresses nor roles.\<close>

lemma wfAuth_writeSame:
  assumes "wfAuth db" "\<And>u. us_id (f u) = us_id u \<and> us_email (f u) = us_email u \<and> us_role (f u) = us_role u"
  shows "wfAuth (writeUser ident f db)"
proof (rule wfAuth_writeUser [OF assms(1)])
  show "ad_users db = [] \<or> (\<exists>u \<in> set (ad_users (writeUser ident f db)). us_role u = AdminRole)"
  proof (cases "ad_users db = []")
    case False
    with assms(1) obtain v where v: "v \<in> set (ad_users db)" "us_role v = AdminRole" by (auto simp: wfAuth_def)
    have "(if us_id v = ident then f v else v) \<in> set (ad_users (writeUser ident f db))"
      unfolding users_writeUser set_map by (rule imageI) (rule v(1))
    with v(2) assms(2) show ?thesis by (metis (mono_tags))
  qed simp
qed (use assms(2) in auto)

lemma wfAuth_updateSelf [gp_inv]: "wfAuth db \<Longrightarrow> wfAuth (fst (updateSelf cr salt ident dto keep now db))"
proof -
  assume wf: "wfAuth db"
  have "wfAuth (writeUser ident (\<lambda>u. given a (\<lambda>v u. u\<lparr>us_language := v\<rparr>)
      (given b (\<lambda>v u. u\<lparr>us_displayMode := v\<rparr>) (given c (\<lambda>v u. u\<lparr>us_displayDirection := v\<rparr>) (u\<lparr>us_updatedAt := now\<rparr>)))) db)"
    for a b c by (rule wfAuth_writeSame [OF wf]) (simp add: given_def split: option.split)
  with wf show ?thesis
    by (simp add: updateSelf_def Let_def wfAuth_updateUser split: sum.split)
qed

lemma wfAuth_issueResetLink [gp_inv]: "wfAuth db \<Longrightarrow> wfAuth (fst (issueResetLink cr token userId now db))"
proof -
  assume wf: "wfAuth db"
  let ?kept = "dropTickets (\<lambda>t. ti_userId t = userId) (ad_resets db)"
  have "wfAuth (db\<lparr>ad_resets := ?kept @ [\<lparr>ti_tokenHash = d, ti_userId = userId, ti_expiresAt = x\<rparr>]\<rparr>)"
    if "ticketWith d ?kept = None" "userWith (\<lambda>u. us_id u = userId) db = Some u" for d x u
    using wf that userWith_Some [OF that(2)]
    by (intro wfAuth_tickets [OF wf]) (auto simp: wfAuth_def ticketWith_None)
  with wf show ?thesis
    by (auto simp: issueResetLink_def Let_def byId_def split: option.splits)
qed

lemma wfAuth_findReset [gp_inv]: "wfAuth db \<Longrightarrow> wfAuth (fst (findReset cr token now db))"
  by (simp add: findReset_def wfAuth_dropResets split: option.split)

lemma findReset_Inr:
  "findReset cr token now db = (db', Inr reset) \<longleftrightarrow>
     db' = db \<and> ticketWith (cr_sha256 cr token) (ad_resets db) = Some reset \<and> now < ti_expiresAt reset"
  by (auto simp: findReset_def split: option.splits)

lemma findReset_users [simp]:
  "ad_users (fst (findReset cr token now db)) = ad_users db" "ad_sessions (fst (findReset cr token now db)) = ad_sessions db"
  by (simp_all add: findReset_def split: option.split)

lemma resetTarget_fst: "fst (resetTarget cr token now db) = fst (findReset cr token now db)"
  by (simp add: resetTarget_def split: prod.split sum.split)

lemma wfAuth_spendReset [gp_inv]: "wfAuth db \<Longrightarrow> wfAuth (spendReset userId hash now db)"
proof -
  assume "wfAuth db"
  then have w: "wfAuth (writeUser userId (\<lambda>u. u\<lparr>us_passwordHash := hash, us_updatedAt := now\<rparr>) db)"
    by (rule wfAuth_writeSame) simp
  from wfAuth_dropResets [OF wfAuth_dropSessions [OF w]] show ?thesis
    unfolding spendReset_def Let_def by simp
qed

lemma consumeResetLink_fst:
  "fst (consumeResetLink cr salt token password now db) = fst (findReset cr token now db) \<or>
   (\<exists>reset hash. findReset cr token now db = (db, Inr reset) \<and> hashPassword (cr_scrypt cr) salt password = Some hash \<and>
     consumeResetLink cr salt token password now db = (spendReset (ti_userId reset) hash now db, Inr ()))"
proof -
  obtain db' r where f: "findReset cr token now db = (db', r)" by fastforce
  show ?thesis
  proof (cases r)
    case (Inl e)
    with f show ?thesis by (simp add: consumeResetLink_def)
  next
    case (Inr reset)
    with f have "db' = db" by (simp add: findReset_Inr)
    with f Inr show ?thesis
      by (cases "hashPassword (cr_scrypt cr) salt password") (simp_all add: consumeResetLink_def)
  qed
qed

lemma wfAuth_consumeResetLink [gp_inv]: "wfAuth db \<Longrightarrow> wfAuth (fst (consumeResetLink cr salt token password now db))"
  using consumeResetLink_fst [of cr salt token password now db] wfAuth_findReset [of db cr token now]
  by (auto intro: wfAuth_spendReset)

text \<open>Taking an account away, with its tickets, where another one administers.\<close>

lemma wfAuth_without:
  assumes wf: "wfAuth db" and other: "\<exists>v \<in> set (ad_users db). us_role v = AdminRole \<and> us_id v \<noteq> ident"
  shows "wfAuth \<lparr>ad_users = filter (\<lambda>v. us_id v \<noteq> ident) (ad_users db),
     ad_sessions = dropTickets (\<lambda>t. ti_userId t = ident) (ad_sessions db),
     ad_resets = dropTickets (\<lambda>t. ti_userId t = ident) (ad_resets db)\<rparr>"
proof -
  have sub: "ti_userId ` set (dropTickets (\<lambda>t. ti_userId t = ident) ts) \<subseteq> us_id ` set (filter (\<lambda>v. us_id v \<noteq> ident) (ad_users db))"
    if "ti_userId ` set ts \<subseteq> us_id ` set (ad_users db)" for ts
  proof
    fix x
    assume "x \<in> ti_userId ` set (dropTickets (\<lambda>t. ti_userId t = ident) ts)"
    then have "x \<in> ti_userId ` set ts" "x \<noteq> ident" by auto
    from this(1) that have "x \<in> us_id ` set (ad_users db)" by (rule rev_subsetD)
    then obtain v where v: "v \<in> set (ad_users db)" "x = us_id v" by (rule imageE)
    with \<open>x \<noteq> ident\<close> show "x \<in> us_id ` set (filter (\<lambda>v. us_id v \<noteq> ident) (ad_users db))"
      by (intro image_eqI [of _ _ v]) simp_all
  qed
  have "ti_userId ` set (ad_sessions db) \<subseteq> us_id ` set (ad_users db)" "ti_userId ` set (ad_resets db) \<subseteq> us_id ` set (ad_users db)"
    using wf unfolding wfAuth_def by simp_all
  note subs = this [THEN sub]
  have d: "distinct (map us_id (ad_users db))" "distinct (map us_email (ad_users db))"
    "distinct (map ti_tokenHash (ad_sessions db))" "distinct (map ti_tokenHash (ad_resets db))" "distinct (map ti_userId (ad_resets db))"
    using wf unfolding wfAuth_def by simp_all
  from other have admin: "\<exists>v \<in> set (filter (\<lambda>v. us_id v \<noteq> ident) (ad_users db)). us_role v = AdminRole" by auto
  show ?thesis
    unfolding wfAuth_def AuthDb.select_convs
    by (intro conjI impI subs admin distinct_map_filter distinct_dropTickets d)
qed

lemma wfAuth_removeUser [gp_inv]: "wfAuth db \<Longrightarrow> wfAuth (fst (removeUser ident db))"
proof (cases "byId ident db")
  case (Inr u)
  assume wf: "wfAuth db"
  from Inr have u: "u \<in> set (ad_users db)" "us_id u = ident" by (auto simp: byId_Inr dest: userWith_Some)
  show ?thesis
  proof (cases "assertNotLastAdmin u db")
    case None
    from assertNotLastAdmin_None [OF wf None u(1)] u(2) have "wfAuth \<lparr>ad_users = filter (\<lambda>v. us_id v \<noteq> ident) (ad_users db),
     ad_sessions = dropTickets (\<lambda>t. ti_userId t = ident) (ad_sessions db),
     ad_resets = dropTickets (\<lambda>t. ti_userId t = ident) (ad_resets db)\<rparr>"
      by (intro wfAuth_without [OF wf]) simp
    then show ?thesis by (simp add: removeUser_def Inr None)
  qed (use wf Inr in \<open>simp add: removeUser_def\<close>)
qed (simp add: removeUser_def)

lemma fst_answered [simp]: "fst (answered f r) = fst r"
  by (simp add: answered_def split: prod.split sum.split)

lemma fst_canActivate: "fst (canActivate cr public required token now db) = fst (resolve cr token now db)"
  by (simp add: canActivate_def split: prod.split)

lemma fst_withBuckets [simp]: "fst (withBuckets b r) = (fst r, b)"
  by (simp add: withBuckets_def)

lemma fst_route:
  "fst (route cr public i user (db, b)) =
     (case in_request i of
        Login email password \<Rightarrow> fst (login cr (in_token i) email password (in_ip i) (in_now i) (db, b))
      | UpdateMe dto \<Rightarrow> (fst (updateSelf cr (in_salt i) (us_id (the user)) dto (in_cookie i) (in_now i) db), b)
      | Logout \<Rightarrow> (logout cr (in_cookie i) db, b)
      | ResetTarget token \<Rightarrow> (fst (findReset cr token (in_now i) db), b)
      | ConsumeReset token password \<Rightarrow> (fst (consumeResetLink cr (in_salt i) token password (in_now i) db), b)
      | Setup dto \<Rightarrow> (fst (setupFirst cr (in_token i) (in_userId i) (in_salt i) dto (in_now i) db), b)
      | CreateUser dto \<Rightarrow> (fst (createUser cr (in_userId i) (in_salt i) dto (in_now i) db), b)
      | EditUser ident dto \<Rightarrow> (fst (updateUser cr (in_salt i) ident dto (in_cookie i) (in_now i) db), b)
      | IssueReset ident \<Rightarrow> (fst (issueResetLink cr (in_token i) ident (in_now i) db), b)
      | RemoveUser ident \<Rightarrow> (fst (removeUser ident db), b)
      | _ \<Rightarrow> (db, b))"
  by (simp add: route_def resetTarget_fst split: AuthRequest.split prod.split sum.split)

section \<open>Who a request comes from\<close>

definition liveAccount :: "Crypto \<Rightarrow> string option \<Rightarrow> instant \<Rightarrow> AuthDb \<Rightarrow> User option" where
  "liveAccount cr cookie now db =
     Option.bind (orNull cookie) (\<lambda>token.
       Option.bind (ticketWith (cr_sha256 cr token) (ad_sessions db)) (\<lambda>session.
         if now < ti_expiresAt session then userWith (\<lambda>u. us_id u = ti_userId session) db else None))"

lemma resolve_account: "fst (snd (resolve cr token now db)) = liveAccount cr token now db"
  by (simp add: resolve_def liveAccount_def Let_def split: option.split)

lemma resolve_keeps [simp]:
  "ad_users (fst (resolve cr token now db)) = ad_users db" "ad_resets (fst (resolve cr token now db)) = ad_resets db"
  by (simp_all add: resolve_def Let_def split: option.split)

lemma canActivate_Inr:
  assumes "canActivate cr public required token now db = (db', Inr user)"
  shows "user = liveAccount cr token now db" and "db' = fst (resolve cr token now db)"
    and "required = AdminOnly \<Longrightarrow> \<exists>u. user = Some u \<and> us_role u = AdminRole"
    and "required = Account \<Longrightarrow> user \<noteq> None"
  using assms by (auto simp: canActivate_def grants_def resolve_account [symmetric] split: prod.splits if_splits)

lemma liveAccount_mem: "liveAccount cr cookie now db = Some u \<Longrightarrow> u \<in> set (ad_users db)"
  by (auto simp: liveAccount_def bind_eq_Some_conv split: if_splits dest: userWith_Some)

lemma admin_only_has_users:
  "canActivate cr public AdminOnly token now db = (db', Inr user) \<Longrightarrow> ad_users db \<noteq> []"
  using canActivate_Inr liveAccount_mem by (metis list.set(1) empty_iff)

lemma wfAuth_handle: "wfAuth (fst st) \<Longrightarrow> wfAuth (fst (fst (handle cr public i st)))"
proof -
  assume wf: "wfAuth (fst st)"
  obtain db' r where g: "canActivate cr public (accessOf (in_request i)) (in_cookie i) (in_now i) (fst st) = (db', r)" by fastforce
  have w: "wfAuth db'" using wfAuth_resolve [OF wf, of cr "in_cookie i" "in_now i"] fst_canActivate g by (metis fst_conv)
  show ?thesis
  proof (cases r)
    case (Inl e)
    with g w show ?thesis by (simp add: handle_def)
  next
    case (Inr user)
    have ne: "ad_users db' \<noteq> []" if "accessOf (in_request i) = AdminOnly"
      using g [unfolded Inr that] admin_only_has_users canActivate_Inr(2) resolve_keeps(1) by metis
    have "wfAuth (fst (fst (route cr public i user (db', snd st))))"
      using w ne wfAuth_login [of "(db', snd st)"] unfolding fst_route
      by (cases "in_request i")
         (simp_all add: accessOf_def wfAuth_updateSelf wfAuth_logout wfAuth_findReset wfAuth_consumeResetLink wfAuth_setup
            wfAuth_createUser wfAuth_updateUser wfAuth_issueResetLink wfAuth_removeUser)
    with g Inr show ?thesis by (simp add: handle_def)
  qed
qed

interpretation wf: run_invariant "\<lambda>i st. fst (handle cr (public i) i st)" "\<lambda>_. True" "\<lambda>st. wfAuth (fst st)" for cr public
  by unfold_locales (rule wfAuth_handle)

text \<open>An install as it is deployed: no account, no session, no link, no failure remembered.\<close>

definition freshInstall :: "AuthDb \<times> buckets" where
  "freshInstall = (\<lparr>ad_users = [], ad_sessions = [], ad_resets = []\<rparr>, [])"

text \<open>C19. An install keeps an administrator. Whatever requests a fresh install serves, in whatever
  order and whoever sends them, its tables stay well formed: identifiers, addresses and digests are
  unique, every session and every reset link belongs to an account that exists, no account has two
  links, and from the first account on there is always one that may administer.\<close>

theorem an_install_keeps_an_administrator:
  "wfAuth (fst (fold (\<lambda>i st. fst (handle cr (public i) i st)) requests freshInstall))"
proof (rule wf.run_kept)
  show "list_all (\<lambda>_. True) requests" by (simp add: list_all_iff)
  show "wfAuth (fst freshInstall)" by (simp add: freshInstall_def wfAuth_def)
qed

section \<open>Whom the accounts change for\<close>

text \<open>One row edited, its identifier, address and role left as they are.\<close>

definition editsOwnRow :: "string \<Rightarrow> (User \<Rightarrow> User) \<Rightarrow> AuthDb \<Rightarrow> AuthDb \<Rightarrow> bool" where
  "editsOwnRow ident f db db' \<longleftrightarrow>
     ad_users db' = map (\<lambda>u. if us_id u = ident then f u else u) (ad_users db) \<and>
     (\<forall>u \<in> set (ad_users db). us_id (f u) = us_id u \<and> us_email (f u) = us_email u \<and> us_role (f u) = us_role u)"

lemma login_users [simp]: "ad_users (fst (fst (login cr fresh email password ip now (db, b)))) = ad_users db"
proof -
  have "ad_users db' = ad_users db" if "openSession cr fresh x now (db\<lparr>ad_sessions := ts\<rparr>) = (db', r)" for db' r x ts
    using openSession_users [of cr fresh x now "db\<lparr>ad_sessions := ts\<rparr>"] that by simp
  then show ?thesis
    by (simp add: login_def Let_def split: option.split prod.split sum.split)
qed

lemma logout_users [simp]: "ad_users (logout cr token db) = ad_users db"
  by (simp add: logout_def split: option.split)

lemma issueResetLink_users [simp]: "ad_users (fst (issueResetLink cr token ident now db)) = ad_users db"
  by (simp add: issueResetLink_def Let_def split: sum.split)

lemma map_if_twice:
  "(\<And>u. us_id (g u) = us_id u) \<Longrightarrow>
   map (\<lambda>u. if us_id u = ident then f u else u) (map (\<lambda>u. if us_id u = ident then g u else u) us) =
   map (\<lambda>u. if us_id u = ident then f (g u) else u) us"
  by (induction us) simp_all

text \<open>What an account may do to itself.\<close>

lemma updateSelf_users:
  assumes "ad_users (fst (updateSelf cr salt ident dto keep now db)) \<noteq> ad_users db" "wfAuth db" "userWith (\<lambda>u. us_id u = ident) db = Some me"
  shows "\<exists>f. editsOwnRow ident f db (fst (updateSelf cr salt ident dto keep now db)) \<and>
    (us_passwordHash (f me) \<noteq> us_passwordHash me \<longrightarrow>
      verifyPassword (cr_scrypt cr) (case um_currentPassword dto of Some p \<Rightarrow> p | None \<Rightarrow> []) (us_passwordHash me))"
proof -
  define shown where "shown = (if um_displayDirection dto \<noteq> None \<or> um_displayMode dto \<noteq> None \<or> um_language dto \<noteq> None
    then (\<lambda>u. given (um_language dto) (\<lambda>v u. u\<lparr>us_language := v\<rparr>)
      (given (um_displayMode dto) (\<lambda>v u. u\<lparr>us_displayMode := v\<rparr>)
        (given (um_displayDirection dto) (\<lambda>v u. u\<lparr>us_displayDirection := v\<rparr>) (u\<lparr>us_updatedAt := now\<rparr>)))) else (\<lambda>u. u))"
  have shown: "us_id (shown u) = us_id u" "us_email (shown u) = us_email u" "us_role (shown u) = us_role u"
    "us_passwordHash (shown u) = us_passwordHash u" for u
    by (simp_all add: shown_def given_def split: option.split)
  let ?dto = "\<lparr>uu_email = None, uu_name = um_name dto, uu_password = um_password dto, uu_role = None\<rparr>"
  let ?ok = "verifyPassword (cr_scrypt cr) (case um_currentPassword dto of Some p \<Rightarrow> p | None \<Rightarrow> []) (us_passwordHash me)"
  have ok: "um_password dto = None \<or> ?ok"
    using assms(1,3) by (auto simp: updateSelf_def byId_def split: if_splits)
  have self: "fst (updateSelf cr salt ident dto keep now db) = fst (updateUser cr salt ident ?dto keep now (writeUser ident shown db))"
  proof -
    from ok assms(3) show ?thesis
      by (elim disjE) (simp_all add: updateSelf_def Let_def byId_def shown_def writeUser_id)
  qed
  obtain db' r where up: "updateUser cr salt ident ?dto keep now (writeUser ident shown db) = (db', r)" by fastforce
  show ?thesis
  proof (cases r)
    case (Inl e)
    with updateUser_result [OF up] have "db' = writeUser ident shown db" by auto
    with self up shown show ?thesis
      by (intro exI [of _ shown]) (simp add: editsOwnRow_def)
  next
    case (Inr u)
    with updateUser_result [OF up] obtain current hash where c: "updateChecks cr salt ident ?dto (writeUser ident shown db) = Inr (current, None, hash)"
      and u: "ad_users db' = map (\<lambda>u. if us_id u = ident then editUser ?dto None hash now u else u) (ad_users (writeUser ident shown db))"
      using updateChecks_Inr(3) by (auto simp: updateChecks_def Let_def split: sum.splits if_splits option.splits)
    have "hash = None" if "um_password dto = None" using updateChecks_Inr(4) [OF c] that by simp
    with ok have "us_passwordHash (editUser ?dto None hash now (shown me)) \<noteq> us_passwordHash me \<longrightarrow> ?ok"
      by (auto simp: shown)
    moreover have "ad_users db' = map (\<lambda>u. if us_id u = ident then editUser ?dto None hash now (shown u) else u) (ad_users db)"
      unfolding u users_writeUser by (rule map_if_twice) (rule shown)
    ultimately show ?thesis
      using self up shown by (intro exI [of _ "\<lambda>u. editUser ?dto None hash now (shown u)"]) (simp add: editsOwnRow_def)
  qed
qed

text \<open>C20. Accounts change only for whom may change them. When a request leaves the accounts different,
  either it set up an install that had none; or it is a route of the administrators and was sent with
  the live session of one; or it is an account editing its own row, over a live session, its address
  and role untouched and its password only with the current one; or it spends a live reset link on
  the account of that link, and changes nothing but that row's password.\<close>

theorem accounts_change_only_for_the_entitled:
  assumes run: "handle cr public i (db, b) = ((db', b'), r)" and wf: "wfAuth db" and changed: "ad_users db' \<noteq> ad_users db"
  shows "(ad_users db = [] \<and> (\<exists>dto. in_request i = Setup dto)) \<or>
    (\<exists>admin. liveAccount cr (in_cookie i) (in_now i) db = Some admin \<and> us_role admin = AdminRole \<and>
      accessOf (in_request i) = AdminOnly) \<or>
    (\<exists>me dto f. liveAccount cr (in_cookie i) (in_now i) db = Some me \<and> in_request i = UpdateMe dto \<and>
      editsOwnRow (us_id me) f db db' \<and>
      (us_passwordHash (f me) \<noteq> us_passwordHash me \<longrightarrow>
        verifyPassword (cr_scrypt cr) (case um_currentPassword dto of Some p \<Rightarrow> p | None \<Rightarrow> []) (us_passwordHash me))) \<or>
    (\<exists>token password link hash. in_request i = ConsumeReset token password \<and> link \<in> set (ad_resets db) \<and>
      ti_tokenHash link = cr_sha256 cr token \<and> in_now i < ti_expiresAt link \<and>
      hashPassword (cr_scrypt cr) (in_salt i) password = Some hash \<and>
      editsOwnRow (ti_userId link) (\<lambda>u. u\<lparr>us_passwordHash := hash, us_updatedAt := in_now i\<rparr>) db db')"
proof -
  obtain db1 g where guard: "canActivate cr public (accessOf (in_request i)) (in_cookie i) (in_now i) db = (db1, g)" by fastforce
  have db1: "db1 = fst (resolve cr (in_cookie i) (in_now i) db)" using fst_canActivate guard by (metis fst_conv)
  show ?thesis
  proof (cases g)
    case (Inl e)
    with run guard have "db' = db1" by (simp add: handle_def)
    with db1 changed show ?thesis by simp
  next
    case (Inr user)
    note live = canActivate_Inr [OF guard [unfolded Inr]]
    have db': "db' = fst (fst (route cr public i user (db1, b)))" using run guard Inr by (simp add: handle_def)
    have users: "ad_users db1 = ad_users db" "ad_resets db1 = ad_resets db" using db1 by simp_all
    have own: "editsOwnRow ident f db1 = editsOwnRow ident f db" for ident f
      by (simp add: fun_eq_iff editsOwnRow_def users)
    show ?thesis
    proof (cases "in_request i")
      case (UpdateMe dto)
      with live obtain me where me: "liveAccount cr (in_cookie i) (in_now i) db = Some me" "user = Some me"
        by (auto simp: accessOf_def)
      have w1: "wfAuth db1" unfolding db1 by (rule wfAuth_resolve [OF wf])
      have "me \<in> set (ad_users db1)" using liveAccount_mem [OF me(1)] users by simp
      then have at: "userWith (\<lambda>u. us_id u = us_id me) db1 = Some me"
        using w1 by (intro userWith_id) (simp_all add: wfAuth_def)
      have d: "db' = fst (updateSelf cr (in_salt i) (us_id me) dto (in_cookie i) (in_now i) db1)"
        using db' UpdateMe me by (simp add: fst_route)
      from updateSelf_users [OF changed [unfolded d users(1) [symmetric]] w1 at] UpdateMe me d own show ?thesis by auto
    next
      case (ConsumeReset token password)
      then have d: "db' = fst (consumeResetLink cr (in_salt i) token password (in_now i) db1)" using db' by (simp add: fst_route)
      with changed users consumeResetLink_fst [of cr "in_salt i" token password "in_now i" db1]
      obtain link hash where l: "findReset cr token (in_now i) db1 = (db1, Inr link)"
        "hashPassword (cr_scrypt cr) (in_salt i) password = Some hash" "db' = spendReset (ti_userId link) hash (in_now i) db1"
        by auto
      from l(1) have "link \<in> set (ad_resets db)" "ti_tokenHash link = cr_sha256 cr token" "in_now i < ti_expiresAt link"
        using users by (auto simp: findReset_Inr dest: ticketWith_Some)
      with l ConsumeReset users show ?thesis by (auto simp: editsOwnRow_def spendReset_def Let_def)
    next
      case (Setup dto)
      with db' users changed show ?thesis by (simp add: fst_route setupFirst_def split: if_splits)
    qed (use db' users changed live in \<open>auto simp: fst_route accessOf_def\<close>)
  qed
qed

definition sample_crypto :: Crypto where
  "sample_crypto = \<lparr>cr_sha256 = (\<lambda>s. s), cr_scrypt = sample_scrypt\<rparr>"

definition sample_account :: User where
  "sample_account = \<lparr>us_id = ''a'', us_email = ''ada'', us_name = ''Ada'', us_passwordHash = [], us_role = AdminRole,
     us_createdAt = 0, us_updatedAt = 0, us_displayDirection = None, us_displayMode = None, us_language = None\<rparr>"

definition sample_install :: AuthDb where
  "sample_install = \<lparr>ad_users = [sample_account],
     ad_sessions = [\<lparr>ti_tokenHash = ''t'', ti_userId = ''a'', ti_expiresAt = 50000000\<rparr>],
     ad_resets = [\<lparr>ti_tokenHash = ''l'', ti_userId = ''a'', ti_expiresAt = 10\<rparr>]\<rparr>"

definition sample_request :: "AuthRequest \<Rightarrow> Incoming" where
  "sample_request req = \<lparr>in_request = req, in_now = 1, in_cookie = Some ''t'', in_ip = ''ip'', in_token = ''n'',
     in_userId = ''b'', in_salt = replicate 16 0\<rparr>"

lemma sample_wf: "wfAuth sample_install"
  by (simp add: wfAuth_def sample_install_def sample_account_def)

theorem accounts_change_only_for_the_entitled_witness:
  "\<exists>db' b' r. handle sample_crypto False (sample_request (EditUser ''a''
       \<lparr>uu_email = None, uu_name = Some ''Bea'', uu_password = None, uu_role = None\<rparr>)) (sample_install, []) = ((db', b'), r) \<and>
     (\<exists>u \<in> set (ad_users db'). us_name u = ''Bea'') \<and>
     (\<exists>admin. liveAccount sample_crypto (Some ''t'') 1 sample_install = Some admin \<and> us_role admin = AdminRole)"
proof -
  let ?i = "sample_request (EditUser ''a'' \<lparr>uu_email = None, uu_name = Some ''Bea'', uu_password = None, uu_role = None\<rparr>)"
  let ?edited = "sample_account\<lparr>us_updatedAt := 1, us_name := ''Bea''\<rparr>"
  obtain db' b' r where h: "handle sample_crypto False ?i (sample_install, []) = ((db', b'), r)" by (metis surj_pair)
  have u: "ad_users db' = [?edited]"
    using h by (simp add: handle_def canActivate_def resolve_def orNull_def ticketWith_def userWith_def grants_def accessOf_def
        sample_request_def sample_install_def sample_account_def sample_crypto_def SESSION_TTL_MS_def
        route_def answered_def withBuckets_def updateUser_def updateChecks_def byId_def writeUser_def editUser_def given_def Let_def)
      (auto simp: Let_def)
  then have "ad_users db' \<noteq> ad_users sample_install" by (simp add: sample_install_def sample_account_def)
  from accounts_change_only_for_the_entitled [OF h sample_wf this]
  have "\<exists>admin. liveAccount sample_crypto (in_cookie ?i) (in_now ?i) sample_install = Some admin \<and> us_role admin = AdminRole"
    by (auto simp: sample_request_def sample_install_def)
  then have "\<exists>admin. liveAccount sample_crypto (Some ''t'') 1 sample_install = Some admin \<and> us_role admin = AdminRole"
    by (simp add: sample_request_def)
  with h u show ?thesis by (intro exI [of _ db'] exI [of _ b'] exI [of _ r]) simp
qed

section \<open>What ends with a change of access\<close>

text \<open>C21. A change of access closes the sessions of an account at once. After an update that sets a
  password or changes the role, whatever cookie still opens that account is the one the caller asked
  to spare, at any later instant; the sessions of the other accounts are all still there.\<close>

theorem a_change_of_access_closes_the_sessions:
  assumes edit: "updateUser cr salt ident dto keep now db = (db', Inr after)"
    and current: "userWith (\<lambda>u. us_id u = ident) db = Some current"
    and access: "uu_password dto \<noteq> None \<or> us_role after \<noteq> us_role current"
  shows "(\<forall>token later account. liveAccount cr (Some token) later db' = Some account \<longrightarrow> us_id account = ident \<longrightarrow>
      (\<exists>spared. orNull keep = Some spared \<and> cr_sha256 cr token = cr_sha256 cr spared)) \<and>
    filter (\<lambda>t. ti_userId t \<noteq> ident) (ad_sessions db') = filter (\<lambda>t. ti_userId t \<noteq> ident) (ad_sessions db)"
proof -
  from updateUser_result [OF edit] obtain c email hash where
    c: "updateChecks cr salt ident dto db = Inr (c, email, hash)" "after = editUser dto email hash now c"
    and d: "db' = (if uu_password dto \<noteq> None \<or> (uu_role dto \<noteq> None \<and> uu_role dto \<noteq> Some (us_role c))
       then closeSessions cr ident keep (writeUser ident (editUser dto email hash now) db)
       else writeUser ident (editUser dto email hash now) db)" by auto
  have "c = current" using updateChecks_Inr(1) [OF c(1)] current by simp
  with access c(2) d have d': "ad_sessions db' = dropTickets (\<lambda>t. ti_userId t = ident \<and>
      (case orNull keep of Some tok \<Rightarrow> ti_tokenHash t \<noteq> cr_sha256 cr tok | None \<Rightarrow> True)) (ad_sessions db)"
    by (auto simp: closeSessions_def split: option.splits)
  have "\<exists>spared. orNull keep = Some spared \<and> cr_sha256 cr token = cr_sha256 cr spared"
    if live: "liveAccount cr (Some token) later db' = Some account" and who: "us_id account = ident" for token later account
  proof -
    from live obtain t where t: "ticketWith (cr_sha256 cr token) (ad_sessions db') = Some t"
      "userWith (\<lambda>u. us_id u = ti_userId t) db' = Some account"
      by (auto simp: liveAccount_def bind_eq_Some_conv orNull_def split: if_splits)
    with ticketWith_Some [OF t(1)] userWith_Some [OF t(2)] who d' show ?thesis
      by (auto split: option.splits)
  qed
  moreover have "filter (\<lambda>t. ti_userId t \<noteq> ident) (ad_sessions db') = filter (\<lambda>t. ti_userId t \<noteq> ident) (ad_sessions db)"
    unfolding d' dropTickets_def filter_filter by (rule filter_cong) auto
  ultimately show ?thesis by blast
qed

theorem a_change_of_access_closes_the_sessions_witness:
  "\<exists>db' after. updateUser sample_crypto (replicate 16 0) ''a''
       \<lparr>uu_email = None, uu_name = None, uu_password = Some ''longenough'', uu_role = None\<rparr> (Some ''k'') 1 sample_install = (db', Inr after) \<and>
     liveAccount sample_crypto (Some ''t'') 1 sample_install = Some sample_account \<and>
     liveAccount sample_crypto (Some ''t'') 1 db' = None"
proof -
  let ?dto = "\<lparr>uu_email = None, uu_name = None, uu_password = Some ''longenough'', uu_role = None\<rparr>"
  have at: "userWith (\<lambda>u. us_id u = ''a'') sample_install = Some sample_account"
    by (simp add: userWith_def sample_install_def sample_account_def)
  obtain db' after where e: "updateUser sample_crypto (replicate 16 0) ''a'' ?dto (Some ''k'') 1 sample_install = (db', Inr after)"
    by (simp add: updateUser_def updateChecks_def byId_def at hashPassword_def sample_crypto_def sample_scrypt_def Let_def)
  have users: "us_id ` set (ad_users db') = {''a''}"
    using updateUser_result [OF e] by (auto simp: sample_install_def sample_account_def)
  have no: "\<not> (\<exists>spared. orNull (Some ''k'') = Some spared \<and> cr_sha256 sample_crypto ''t'' = cr_sha256 sample_crypto spared)"
    by (simp add: orNull_def sample_crypto_def)
  have "liveAccount sample_crypto (Some ''t'') 1 db' \<noteq> Some account" for account
  proof
    assume l: "liveAccount sample_crypto (Some ''t'') 1 db' = Some account"
    with users have "us_id account = ''a''" using liveAccount_mem [OF l] by auto
    with a_change_of_access_closes_the_sessions [OF e at] l no show False by (metis UpdateUserDto.select_convs(3) option.simps(3))
  qed
  then have "liveAccount sample_crypto (Some ''t'') 1 db' = None" by (metis not_None_eq)
  moreover have "liveAccount sample_crypto (Some ''t'') 1 sample_install = Some sample_account"
    by (simp add: liveAccount_def orNull_def ticketWith_def userWith_def sample_install_def sample_account_def sample_crypto_def)
  ultimately show ?thesis using e by blast
qed

section \<open>A link is spent once\<close>

lemma resets_handle:
  "ti_tokenHash ` set (ad_resets (fst (fst (handle cr public i st)))) \<subseteq>
     insert (cr_sha256 cr (in_token i)) (ti_tokenHash ` set (ad_resets (fst st)))"
proof -
  obtain db b where st: "st = (db, b)" by fastforce
  obtain db1 g where guard: "canActivate cr public (accessOf (in_request i)) (in_cookie i) (in_now i) db = (db1, g)" by fastforce
  have r1: "ad_resets db1 = ad_resets db" using fst_canActivate resolve_keeps(2) guard by (metis fst_conv)
  have login: "ad_resets (fst (fst (login cr fresh email password ip now (db, b)))) = ad_resets db" for fresh email password ip now db b
  proof -
    have "ad_resets db' = ad_resets d" if "openSession cr fresh x now (d\<lparr>ad_sessions := ts\<rparr>) = (db', r)" for d db' r x ts
      using that by (auto simp: openSession_def split: if_splits)
    then show ?thesis by (simp add: login_def Let_def split: option.split prod.split sum.split)
  qed
  have update: "ad_resets (fst (updateUser cr salt ident dto keep now db)) = ad_resets db" for salt ident dto keep now db
    by (simp add: updateUser_def Let_def split: sum.split prod.split)
  have self: "ad_resets (fst (updateSelf cr salt ident dto keep now db)) = ad_resets db" for salt ident dto keep now db
    by (simp add: updateSelf_def Let_def update split: sum.split)
  have create: "ad_resets (fst (createUser cr fresh salt dto now db)) = ad_resets db" for fresh salt dto now db
    by (simp add: createUser_def Let_def split: option.split)
  have open': "ad_resets (fst (openSession cr token ident now db)) = ad_resets db" for token ident now db
    by (simp add: openSession_def)
  have first: "ad_resets (fst (setupFirst cr token fresh salt dto now db)) = ad_resets db" for token fresh salt dto now db
    using create [of fresh salt "dto\<lparr>cu_role := Some AdminRole\<rparr>" now db] open'
    by (auto simp: setupFirst_def split: prod.split sum.split) (metis fst_conv)+
  have find: "set (ad_resets (fst (findReset cr token now db))) \<subseteq> set (ad_resets db)" for token now db
    by (auto simp: findReset_def split: option.split)
  have consume: "set (ad_resets (fst (consumeResetLink cr salt token password now db))) \<subseteq> set (ad_resets db)" for salt token password now db
    using consumeResetLink_fst [of cr salt token password now db] find [of token now db] by (auto simp: spendReset_def Let_def)
  have logout: "ad_resets (logout cr token db) = ad_resets db" for token db by (simp add: logout_def split: option.split)
  have issue: "ti_tokenHash ` set (ad_resets (fst (issueResetLink cr token ident now db))) \<subseteq> insert (cr_sha256 cr token) (ti_tokenHash ` set (ad_resets db))"
    for token ident now db by (auto simp: issueResetLink_def Let_def split: sum.splits)
  have remove: "set (ad_resets (fst (removeUser ident db))) \<subseteq> set (ad_resets db)" for ident db
    by (auto simp: removeUser_def split: sum.split option.split)
  have "ti_tokenHash ` set (ad_resets (fst (fst (route cr public i user (db1, b))))) \<subseteq>
      insert (cr_sha256 cr (in_token i)) (ti_tokenHash ` set (ad_resets db1))" for user
    using issue unfolding fst_route
    by (cases "in_request i")
       (simp_all add: login update self create first logout subset_insertI subset_insertI2 [OF image_mono [OF consume]]
          subset_insertI2 [OF image_mono [OF find]] subset_insertI2 [OF image_mono [OF remove]])
  then show ?thesis using guard r1 by (cases g) (simp_all add: handle_def st subset_insertI)
qed

interpretation spent: run_invariant "\<lambda>i st. fst (handle cr (public i) i st)" "\<lambda>i. cr_sha256 cr (in_token i) \<noteq> digest"
    "\<lambda>st. digest \<notin> ti_tokenHash ` set (ad_resets (fst st))" for cr public digest
proof unfold_locales
  fix i :: Incoming and st :: "AuthDb \<times> buckets"
  assume "cr_sha256 cr (in_token i) \<noteq> digest" "digest \<notin> ti_tokenHash ` set (ad_resets (fst st))"
  then have "digest \<notin> insert (cr_sha256 cr (in_token i)) (ti_tokenHash ` set (ad_resets (fst st)))" by simp
  then show "digest \<notin> ti_tokenHash ` set (ad_resets (fst (fst (handle cr (public i) i st))))"
    using resets_handle by (rule contra_subsetD [rotated])
qed

lemma link_account:
  assumes "wfAuth db" "link \<in> set (ad_resets db)"
  shows "\<exists>u \<in> set (ad_users db). us_id u = ti_userId link"
proof -
  have "ti_userId ` set (ad_resets db) \<subseteq> us_id ` set (ad_users db)" using assms(1) by (simp add: wfAuth_def)
  with imageI [OF assms(2)] have "ti_userId link \<in> us_id ` set (ad_users db)" by (rule rev_subsetD)
  then show ?thesis by auto
qed

lemma link_unique:
  "wfAuth db \<Longrightarrow> t \<in> set (ad_resets db) \<Longrightarrow> link \<in> set (ad_resets db) \<Longrightarrow> ti_tokenHash t = ti_tokenHash link \<Longrightarrow> t = link"
  unfolding wfAuth_def distinct_map by (elim conjE) (rule inj_onD)

text \<open>C22. A reset link works once. Spending one leaves its account with the new password accepted, no
  session open and no link outstanding; and whatever is requested afterwards, by anybody, as long
  as no digest of a token drawn meets that of this one, the link is answered as unknown.\<close>

theorem a_reset_link_works_once:
  assumes spend: "consumeResetLink cr salt token password now db = (db', Inr ())" and wf: "wfAuth db"
    and lengths: "length salt = SALT_LENGTH" "\<forall>p s k. cr_scrypt cr p s = Some k \<longrightarrow> length k = KEY_LENGTH"
    and drawn: "list_all (\<lambda>i. cr_sha256 cr (in_token i) \<noteq> cr_sha256 cr token) requests"
  shows "(\<exists>u \<in> set (ad_users db'). verifyPassword (cr_scrypt cr) password (us_passwordHash u) \<and>
      (\<exists>link \<in> set (ad_resets db). ti_tokenHash link = cr_sha256 cr token \<and> ti_userId link = us_id u) \<and>
      us_id u \<notin> ti_userId ` set (ad_sessions db') \<and> us_id u \<notin> ti_userId ` set (ad_resets db')) \<and>
    snd (consumeResetLink cr salt' token password' later
      (fst (fold (\<lambda>i st. fst (handle cr (public i) i st)) requests (db', b)))) = Inl ResetInvalid"
proof
  have "snd (findReset cr token now db) = Inr link \<Longrightarrow> fst (findReset cr token now db) = db" for link
    by (simp add: findReset_def split: option.splits if_splits)
  with spend obtain link hash where l: "findReset cr token now db = (db, Inr link)"
    "hashPassword (cr_scrypt cr) salt password = Some hash" "db' = spendReset (ti_userId link) hash now db"
    by (auto simp: consumeResetLink_def split: prod.splits sum.splits option.splits)
  from l(1) have link: "link \<in> set (ad_resets db)" "ti_tokenHash link = cr_sha256 cr token"
    by (auto simp: findReset_Inr dest: ticketWith_Some)
  from link_account [OF wf link(1)] obtain u where u: "u \<in> set (ad_users db)" "us_id u = ti_userId link" by blast
  have ok: "verifyPassword (cr_scrypt cr) password hash"
    using l(2) verify_hash [OF lengths(1) lengths(2) [rule_format]] by (auto simp: hashPassword_def split: option.splits)
  let ?u = "u\<lparr>us_passwordHash := hash, us_updatedAt := now\<rparr>"
  have "?u \<in> set (ad_users db')"
    unfolding l(3) spendReset_def Let_def using u(1) u(2) by (simp add: rev_image_eqI)
  moreover have "ti_userId link \<notin> ti_userId ` set (ad_sessions db')" "ti_userId link \<notin> ti_userId ` set (ad_resets db')"
    unfolding l(3) spendReset_def Let_def by auto
  ultimately show "\<exists>u \<in> set (ad_users db'). verifyPassword (cr_scrypt cr) password (us_passwordHash u) \<and>
      (\<exists>link \<in> set (ad_resets db). ti_tokenHash link = cr_sha256 cr token \<and> ti_userId link = us_id u) \<and>
      us_id u \<notin> ti_userId ` set (ad_sessions db') \<and> us_id u \<notin> ti_userId ` set (ad_resets db')"
    using ok link u(2) by (intro bexI [of _ ?u]) auto
  have "cr_sha256 cr token \<notin> ti_tokenHash ` set (ad_resets db')"
  proof
    assume "cr_sha256 cr token \<in> ti_tokenHash ` set (ad_resets db')"
    then obtain t where t: "t \<in> set (ad_resets db)" "ti_tokenHash t = ti_tokenHash link" "ti_userId t \<noteq> ti_userId link"
      unfolding l(3) spendReset_def Let_def using link(2) by auto
    with link_unique [OF wf t(1) link(1)] show False by simp
  qed
  then have "cr_sha256 cr token \<notin> ti_tokenHash ` set (ad_resets (fst (fold (\<lambda>i st. fst (handle cr (public i) i st)) requests (db', b))))"
    using spent.run_kept [OF drawn, of "(db', b)" public] by simp
  then show "snd (consumeResetLink cr salt' token password' later
      (fst (fold (\<lambda>i st. fst (handle cr (public i) i st)) requests (db', b)))) = Inl ResetInvalid"
    by (simp add: consumeResetLink_def findReset_def ticketWith_None [THEN iffD2])
qed

theorem a_reset_link_works_once_witness:
  "\<exists>db'. consumeResetLink sample_crypto (replicate 16 0) ''l'' ''longenough'' 1 sample_install = (db', Inr ()) \<and>
     snd (consumeResetLink sample_crypto [] ''l'' ''another'' 9
       (fst (fold (\<lambda>i st. fst (handle sample_crypto True i st)) [sample_request Me, sample_request (IssueReset ''a'')] (db', [])))) =
     Inl ResetInvalid"
proof -
  obtain db' where c: "consumeResetLink sample_crypto (replicate 16 0) ''l'' ''longenough'' 1 sample_install = (db', Inr ())"
    by (simp add: consumeResetLink_def findReset_def ticketWith_def sample_install_def hashPassword_def sample_crypto_def sample_scrypt_def)
  have ls: "length (replicate 16 0 :: buffer) = SALT_LENGTH" by (simp add: SALT_LENGTH_def)
  have lk: "\<forall>p s k. cr_scrypt sample_crypto p s = Some k \<longrightarrow> length k = KEY_LENGTH"
    by (auto simp: sample_crypto_def sample_scrypt_def KEY_LENGTH_def)
  have dr: "list_all (\<lambda>i. cr_sha256 sample_crypto (in_token i) \<noteq> cr_sha256 sample_crypto ''l'') [sample_request Me, sample_request (IssueReset ''a'')]"
    by (simp add: sample_request_def sample_crypto_def)
  from a_reset_link_works_once [OF c sample_wf ls lk dr, where public = "\<lambda>_. True" and b = "[]"] c show ?thesis by blast
qed

section \<open>Guesses are bounded\<close>

definition keysOf :: "Incoming \<Rightarrow> string \<Rightarrow> LoginKeys" where
  "keysOf i email = \<lparr>lk_email = normalizeEmail email, lk_ip = in_ip i\<rparr>"

text \<open>
  The wrong passwords a key has had verified since the last right one: a refusal for too many
  attempts verifies nothing.
\<close>

definition guess :: "bucketKind \<Rightarrow> string \<Rightarrow> Incoming \<Rightarrow> AuthError + Answer \<Rightarrow> instant list \<Rightarrow> instant list" where
  "guess kind key i r guesses =
     (case in_request i of
        Login email password \<Rightarrow>
          if keyOfKind (keysOf i email) kind \<noteq> key then guesses
          else (case r of
            Inl (TooManyAttempts _) \<Rightarrow> guesses
          | Inl InvalidCredentials \<Rightarrow> in_now i # guesses
          | _ \<Rightarrow> [])
      | _ \<Rightarrow> guesses)"

definition watch ::
  "Crypto \<Rightarrow> (Incoming \<Rightarrow> bool) \<Rightarrow> bucketKind \<Rightarrow> string \<Rightarrow> Incoming \<Rightarrow> (AuthDb \<times> buckets) \<times> instant list \<Rightarrow>
   (AuthDb \<times> buckets) \<times> instant list" where
  "watch cr public kind key i st =
     (case handle cr (public i) i (fst st) of (st', r) \<Rightarrow> (st', guess kind key i r (snd st)))"

definition recent :: "instant \<Rightarrow> instant list \<Rightarrow> nat" where
  "recent now guesses = length (filter (\<lambda>t. now - WINDOW_MS < t) guesses)"

text \<open>What the counter knows of the guesses, at an instant and from then on.\<close>

definition counted :: "bucketKind \<Rightarrow> string \<Rightarrow> instant \<Rightarrow> buckets \<Rightarrow> instant list \<Rightarrow> bool" where
  "counted kind key now b guesses \<longleftrightarrow>
     distinct (map fst b) \<and> list_all (\<lambda>t. t \<le> now) guesses \<and> recent now guesses \<le> LIMITS kind \<and>
     (\<forall>t \<ge> now. recent t guesses \<le> remembered key t b)"

lemma recent_antimono: "s \<le> t \<Longrightarrow> recent t guesses \<le> recent s guesses"
  unfolding recent_def by (induction guesses) auto

lemma counted_later: "counted kind key now b guesses \<Longrightarrow> now \<le> later \<Longrightarrow> counted kind key later b guesses"
  using recent_antimono [of now later guesses]
  by (auto simp: counted_def list_all_iff intro: le_trans order_trans)

lemma counted_clear: "counted kind key now b guesses \<Longrightarrow> counted kind key now (clear keys b) (if keyOfKind keys kind = key then [] else guesses)
   \<or> (\<exists>k. k \<noteq> kind \<and> key = keyOfKind keys k)"
  by (auto simp: counted_def recent_def remembered_clear distinct_clear)

lemma counted_failure:
  assumes c: "counted kind key now b guesses" and ok: "retryAfter keys now b = 0"
  shows "counted kind key now (recordFailure keys now b) (if keyOfKind keys kind = key then now # guesses else guesses)
    \<or> (\<exists>k. k \<noteq> kind \<and> key = keyOfKind keys k)"
proof (cases "\<exists>k. key = keyOfKind keys k")
  case False
  then have "remembered key t (recordFailure keys now b) = remembered key t b" if "now \<le> t" for t
    using remembered_recordFailure(2) [OF _ that, of b key keys] c by (auto simp: counted_def)
  with c False show ?thesis by (auto simp: counted_def distinct_recordFailure)
next
  case True
  then obtain k where k: "key = keyOfKind keys k" by blast
  show ?thesis
  proof (cases "k = kind")
    case True
    have d: "distinct (map fst b)" and le: "list_all (\<lambda>t. t \<le> now) guesses" and held: "recent now guesses \<le> remembered key now b"
      using c by (simp_all add: counted_def)
    have below: "remembered key now b < LIMITS kind" using ok k True by (auto simp: open_iff)
    have "recent t (now # guesses) \<le> remembered key t (recordFailure keys now b)" if t: "now \<le> t" for t
    proof (cases "t < now + WINDOW_MS")
      case True
      with remembered_recordFailure(1) [OF d t, of keys kind] k \<open>k = kind\<close> held recent_antimono [OF t, of guesses]
      show ?thesis by (simp add: recent_def)
    next
      case False
      with le t have "recent t (now # guesses) = 0" by (auto simp: recent_def list_all_iff filter_empty_conv)
      then show ?thesis by simp
    qed
    moreover have "recent now (now # guesses) \<le> LIMITS kind"
      using held below by (simp add: recent_def)
    ultimately show ?thesis using k \<open>k = kind\<close> d le by (simp add: counted_def distinct_recordFailure)
  qed (use k in blast)
qed

lemma retryAfter_nonneg: "0 \<le> retryAfter keys now b"
  by (auto simp: retryAfter_def KINDS_def max_def split: option.split)

lemma login_buckets:
  assumes "login cr fresh email password ip now (db, b) = ((db', b'), r)"
  defines "keys \<equiv> \<lparr>lk_email = normalizeEmail email, lk_ip = ip\<rparr>"
  shows "(\<exists>m. r = Inl (TooManyAttempts m)) \<and> b' = b \<or>
    retryAfter keys now b = 0 \<and> r = Inl InvalidCredentials \<and> b' = recordFailure keys now b \<or>
    (r = Inl UniqueViolation \<or> (\<exists>x. r = Inr x)) \<and> b' = clear keys b"
proof (cases "retryAfter keys now b > 0")
  case True
  with assms(1) show ?thesis by (auto simp: login_def keys_def Let_def)
next
  case False
  with retryAfter_nonneg [of keys now b] have z: "retryAfter keys now b = 0" by linarith
  have e: "openSession cr fresh x now d = (d', Inl e) \<Longrightarrow> e = UniqueViolation" for x d d' e
    by (auto simp: openSession_def split: if_splits)
  from assms(1) z False show ?thesis
    unfolding login_def keys_def [symmetric] Let_def
    by (auto split: option.splits if_splits prod.splits sum.splits simp: keys_def [symmetric] dest: e)
qed

lemma handle_buckets:
  assumes "handle cr public i (db, b) = ((db', b'), r)"
  shows "(case in_request i of
      Login email password \<Rightarrow> (\<exists>db1 db2 q. login cr (in_token i) email password (in_ip i) (in_now i) (db1, b) = ((db2, b'), q) \<and>
        (case q of Inl e \<Rightarrow> r = Inl e | Inr _ \<Rightarrow> (\<exists>a. r = Inr a)))
    | _ \<Rightarrow> b' = b)"
proof -
  obtain db1 g where guard: "canActivate cr public (accessOf (in_request i)) (in_cookie i) (in_now i) db = (db1, g)" by fastforce
  show ?thesis
  proof (cases g)
    case (Inl e)
    with assms guard show ?thesis
      by (auto simp: handle_def accessOf_def canActivate_def split: AuthRequest.splits prod.splits if_splits)
  next
    case (Inr user)
    with assms guard have rt: "route cr public i user (db1, b) = ((db', b'), r)" by (simp add: handle_def)
    then have fr: "fst (route cr public i user (db1, b)) = (db', b')" by simp
    show ?thesis
    proof (cases "in_request i")
      case (Login email password)
      obtain st q where "login cr (in_token i) email password (in_ip i) (in_now i) (db1, b) = (st, q)" by fastforce
      moreover from this rt Login have "st = (db', b')" and "case q of Inl e \<Rightarrow> r = Inl e | Inr _ \<Rightarrow> (\<exists>a. r = Inr a)"
        by (cases q; auto simp: route_def split: prod.splits)+
      ultimately show ?thesis using Login by auto
    qed (use fr in \<open>simp_all add: fst_route\<close>)
  qed
qed

text \<open>One request served under watch.\<close>

lemma counted_watch:
  assumes c: "counted kind key now b guesses" and key: "key = keyOfKind keys0 kind" and later: "now \<le> in_now i"
    and w: "watch cr public kind key i ((db, b), guesses) = ((db', b'), guesses')"
  shows "counted kind key (in_now i) b' guesses'"
proof -
  obtain r where h: "handle cr (public i) i (db, b) = ((db', b'), r)" "guesses' = guess kind key i r guesses"
    using w by (auto simp: watch_def split: prod.splits)
  note c' = counted_later [OF c later]
  have other: "\<not> (\<exists>k. k \<noteq> kind \<and> key = keyOfKind keys k)" for keys using key by auto
  show ?thesis
  proof (cases "in_request i")
    case (Login email password)
    with handle_buckets [OF h(1)] obtain db1 db2 q where
      q: "login cr (in_token i) email password (in_ip i) (in_now i) (db1, b) = ((db2, b'), q)"
        "case q of Inl e \<Rightarrow> r = Inl e | Inr _ \<Rightarrow> (\<exists>a. r = Inr a)" by auto
    from login_buckets [OF q(1)] show ?thesis
    proof (elim disjE conjE exE)
      fix m assume "q = Inl (TooManyAttempts m)" "b' = b"
      with q(2) h(2) Login c' show ?thesis by (simp add: guess_def)
    next
      assume "retryAfter \<lparr>lk_email = normalizeEmail email, lk_ip = in_ip i\<rparr> (in_now i) b = 0" "q = Inl InvalidCredentials"
        "b' = recordFailure \<lparr>lk_email = normalizeEmail email, lk_ip = in_ip i\<rparr> (in_now i) b"
      with q(2) h(2) Login counted_failure [OF c', of "keysOf i email"] other show ?thesis
        by (auto simp: guess_def keysOf_def split: if_splits)
    next
      assume "q = Inl UniqueViolation" "b' = clear \<lparr>lk_email = normalizeEmail email, lk_ip = in_ip i\<rparr> b"
      with q(2) h(2) Login counted_clear [OF c', of "keysOf i email"] other show ?thesis
        by (auto simp: guess_def keysOf_def split: if_splits)
    next
      fix x assume "q = Inr x" "b' = clear \<lparr>lk_email = normalizeEmail email, lk_ip = in_ip i\<rparr> b"
      with q(2) h(2) Login counted_clear [OF c', of "keysOf i email"] other show ?thesis
        by (auto simp: guess_def keysOf_def split: if_splits)
    qed
  qed (use handle_buckets [OF h(1)] h(2) c' in \<open>simp_all add: guess_def\<close>)
qed

lemma counted_run:
  "counted kind key now b guesses \<Longrightarrow> key = keyOfKind keys0 kind \<Longrightarrow> sorted (now # map in_now requests) \<Longrightarrow>
   fold (watch cr public kind key) requests ((db, b), guesses) = ((db', b'), guesses') \<Longrightarrow>
   \<exists>end'. counted kind key end' b' guesses' \<and> end' \<in> set (now # map in_now requests)"
proof (induction requests arbitrary: now db b guesses)
  case (Cons i requests)
  obtain db1 b1 g1 where w: "watch cr public kind key i ((db, b), guesses) = ((db1, b1), g1)" by (metis surj_pair)
  with Cons.prems have "now \<le> in_now i" "sorted (in_now i # map in_now requests)"
    "fold (watch cr public kind key) requests ((db1, b1), g1) = ((db', b'), guesses')" by auto
  from Cons.IH [OF counted_watch [OF Cons.prems(1,2) this(1) w] Cons.prems(2) this(2,3)] show ?case by auto
qed auto

text \<open>C23. Guesses are bounded. However the requests of an install are mixed, no address has more than
  ten wrong passwords verified, and no caller more than thirty, in any quarter of an hour since
  the last right one: what comes beyond is refused before a password is looked at.\<close>

theorem guesses_are_bounded:
  assumes "sorted (map in_now requests)" "\<forall>i \<in> set requests. in_now i \<le> now"
    and "fold (watch cr public kind (keyOfKind keys kind)) requests ((db, []), []) = (st, guesses)"
  shows "recent now guesses \<le> (case kind of EmailBucket \<Rightarrow> 10 | IpBucket \<Rightarrow> 30)"
proof -
  define first where "first = (case requests of [] \<Rightarrow> now | i # _ \<Rightarrow> in_now i)"
  have s: "sorted (first # map in_now requests)" using assms(1) by (auto simp: first_def split: list.split)
  have "counted kind (keyOfKind keys kind) first [] []"
    by (simp add: counted_def recent_def)
  moreover obtain db' b where st: "st = (db', b)" by fastforce
  ultimately obtain end' where
    e: "counted kind (keyOfKind keys kind) end' b guesses" "end' \<in> set (first # map in_now requests)"
    using counted_run [OF _ refl s assms(3) [unfolded st]] by blast
  from e(2) assms(2) have "end' \<le> now" by (cases requests) (auto simp: first_def)
  from counted_later [OF e(1) this] show ?thesis by (simp add: counted_def LIMITS_def)
qed

theorem guesses_are_bounded_witness:
  "\<exists>st guesses. fold (watch sample_crypto (\<lambda>_. True) EmailBucket (keyOfKind (keysOf (sample_request Me) ''Bob'') EmailBucket))
       (replicate 40 (sample_request (Login ''Bob'' ''guess''))) ((sample_install, []), []) = (st, guesses) \<and> recent 1 guesses \<le> 10"
proof -
  let ?rs = "replicate 40 (sample_request (Login ''Bob'' ''guess''))"
  obtain st guesses where f: "fold (watch sample_crypto (\<lambda>_. True) EmailBucket (keyOfKind (keysOf (sample_request Me) ''Bob'') EmailBucket))
       ?rs ((sample_install, []), []) = (st, guesses)" by fastforce
  have s: "sorted (map in_now ?rs)" by (simp add: sorted_replicate)
  have l: "\<forall>i \<in> set ?rs. in_now i \<le> 1" by (simp add: sample_request_def)
  from guesses_are_bounded [OF s l f] f show ?thesis by auto
qed

section \<open>Requests served at the same time\<close>

text \<open>
  The test for the last administrator and the write it allows are two statements. Two
  administrators demoting each other both pass the test before either writes, and no one is left.
\<close>

theorem two_demotions_leave_no_administrator:
  assumes "ad_users db = [u, v]" "us_role u = AdminRole" "us_role v = AdminRole" "us_id u \<noteq> us_id v"
    and checks: "updateChecks cr salt (us_id u) dto db = Inr (u, email, hash)"
      "updateChecks cr salt' (us_id v) dto' db = Inr (v, email', hash')"
    and "uu_role dto = Some UserRole" "uu_role dto' = Some UserRole"
  shows "\<not> (\<exists>w \<in> set (ad_users (writeUser (us_id v) (editUser dto' email' hash' now) (writeUser (us_id u) (editUser dto email hash now) db))).
    us_role w = AdminRole)"
  using assms by simp

end
