(* ===== verification/Periods.thy ===== *)
theory Periods
  imports Dora_Fold
begin

text \<open>
  The period a report is over: \<open>back/src/common/period.ts\<close>. A bound is a day or a moment; its text
  is parsed by the route, which refuses what is neither. The clock is an argument.
\<close>

datatype BoundText = DayOnly int | Moment instant

record PeriodQuery =
  pq_from :: "BoundText option"
  pq_to :: "BoundText option"
  pq_windowDays :: "int option"

definition startOf :: "BoundText \<Rightarrow> instant" where
  "startOf b = (case b of DayOnly d \<Rightarrow> d * DAY_LENGTH | Moment t \<Rightarrow> t)"

definition endOfDayIfDateOnly :: "BoundText \<Rightarrow> instant" where
  "endOfDayIfDateOnly b = (case b of DayOnly d \<Rightarrow> d * DAY_LENGTH + (DAY_LENGTH - 1) | Moment t \<Rightarrow> t)"

definition resolvePeriod :: "PeriodQuery \<Rightarrow> int \<Rightarrow> instant \<Rightarrow> (instant \<times> instant) + DoraPeriod" where
  "resolvePeriod query fallbackWindowDays now =
     (let to' = (case pq_to query of Some b \<Rightarrow> endOfDayIfDateOnly b | None \<Rightarrow> now);
          windowDays = (case pq_from query of
              Some _ \<Rightarrow> None
            | None \<Rightarrow> Some (case pq_windowDays query of Some n \<Rightarrow> n | None \<Rightarrow> fallbackWindowDays));
          from' = (case pq_from query of
              Some b \<Rightarrow> startOf b
            | None \<Rightarrow> to' - the windowDays * DAY_LENGTH)
      in if to' < from' then Inl (from', to')
         else Inr \<lparr>dpd_from = from', dpd_to = to', dpd_windowDays = windowDays\<rparr>)"

definition within_period :: "instant \<Rightarrow> DoraPeriod \<Rightarrow> bool" where
  "within_period t period \<longleftrightarrow> dpd_from period \<le> t \<and> t \<le> dpd_to period"

lemma within_inPeriod: "within_period t p = inPeriod t p"
  by (simp add: within_period_def inPeriod_def)

text \<open>A period never ends before it starts, and a day given as both bounds is the whole of it.\<close>

lemma resolvePeriod_ordered: "resolvePeriod query fallback now = Inr p \<Longrightarrow> dpd_from p \<le> dpd_to p"
  by (auto simp: resolvePeriod_def Let_def split: if_splits)

lemma resolvePeriod_day:
  "resolvePeriod \<lparr>pq_from = Some (DayOnly d), pq_to = Some (DayOnly d), pq_windowDays = w\<rparr> fallback now =
   Inr \<lparr>dpd_from = d * DAY_LENGTH, dpd_to = d * DAY_LENGTH + (DAY_LENGTH - 1), dpd_windowDays = None\<rparr>"
  by (simp add: resolvePeriod_def startOf_def endOfDayIfDateOnly_def DAY_LENGTH_def Let_def)

lemma within_day:
  "within_period t \<lparr>dpd_from = d * DAY_LENGTH, dpd_to = d * DAY_LENGTH + (DAY_LENGTH - 1), dpd_windowDays = w\<rparr> \<longleftrightarrow>
   dayOf t = d"
proof -
  have L: "0 < DAY_LENGTH" by (simp add: DAY_LENGTH_def)
  have "dayOf t = d \<longleftrightarrow> d * DAY_LENGTH \<le> t \<and> t \<le> d * DAY_LENGTH + (DAY_LENGTH - 1)"
  proof
    assume "dayOf t = d"
    then have "t = d * DAY_LENGTH + t mod DAY_LENGTH" unfolding dayOf_def by (metis div_mult_mod_eq)
    with pos_mod_sign [OF L, of t] pos_mod_bound [OF L, of t]
    show "d * DAY_LENGTH \<le> t \<and> t \<le> d * DAY_LENGTH + (DAY_LENGTH - 1)" by linarith
  next
    assume "d * DAY_LENGTH \<le> t \<and> t \<le> d * DAY_LENGTH + (DAY_LENGTH - 1)"
    then show "dayOf t = d"
      unfolding dayOf_def by (intro int_div_pos_eq [of _ _ _ "t - d * DAY_LENGTH"]) (simp_all add: mult.commute)
  qed
  then show ?thesis by (simp add: within_period_def)
qed

text \<open>A window asked for is honoured when no start is, and the installation's otherwise.\<close>

lemma resolvePeriod_window:
  assumes "pq_from query = None" and "0 \<le> n" and "n = (case pq_windowDays query of Some m \<Rightarrow> m | None \<Rightarrow> fallback)"
  shows "\<exists>p. resolvePeriod query fallback now = Inr p \<and> dpd_to p - dpd_from p = n * DAY_LENGTH \<and> dpd_windowDays p = Some n"
proof -
  have "0 \<le> n * DAY_LENGTH" using assms(2) by (simp add: DAY_LENGTH_def)
  with assms show ?thesis by (simp add: resolvePeriod_def Let_def)
qed

end
