(* ===== verification/Incidents.thy ===== *)
theory Incidents
  imports Sources
begin

text \<open>
  Incidents: the issues of a tracker that carry one of the installation's labels. The two providers
  (\<open>back/src/incidents/github.incident-provider.ts\<close>, \<open>gitlab.incident-provider.ts\<close>), the choice of one
  (\<open>incident-provider.factory.ts\<close>) and the journal (\<open>incidents.service.ts\<close>). One call lists the issues
  of a repository under a label; it is a parameter and may fail. The signal of a request is the
  number of repositories after which it is aborted.
\<close>

record Incident =
  in_id :: string
  in_key :: string
  in_title :: string
  in_url :: string
  in_openedAt :: instant
  in_resolvedAt :: "instant option"
  in_labels :: "string list"
  in_repo :: "string option"
  in_tickets :: "TicketRef list"

datatype IncidentFault = IncidentsAborted | IncidentsRefused string

section \<open>The providers\<close>

text \<open>GitHub types a label as either a bare string or an object.\<close>

datatype IssueLabel = BareLabel string | NamedLabel "string option"

record GitHubIssue =
  gi_number :: int
  gi_title :: string
  gi_html_url :: string
  gi_created_at :: instant
  gi_closed_at :: "instant option"
  gi_labels :: "IssueLabel list"
  gi_pull_request :: bool

record GitLabIssue =
  li_iid :: int
  li_title :: string
  li_web_url :: string
  li_created_at :: instant
  li_closed_at :: "instant option"
  li_labels :: "string list option"

definition labelName :: "IssueLabel \<Rightarrow> string" where
  "labelName l = (case l of BareLabel s \<Rightarrow> s | NamedLabel n \<Rightarrow> (case n of Some s \<Rightarrow> s | None \<Rightarrow> []))"

text \<open>The issues endpoint also returns pull requests.\<close>

definition gitHubIncident :: "string \<Rightarrow> GitHubIssue \<Rightarrow> Incident option" where
  "gitHubIncident repo issue =
     (if gi_pull_request issue then None
      else Some \<lparr>in_id = ''gh:'' @ repo @ '':'' @ showInt (gi_number issue), in_key = CHR ''#'' # showInt (gi_number issue),
        in_title = gi_title issue, in_url = gi_html_url issue, in_openedAt = gi_created_at issue,
        in_resolvedAt = gi_closed_at issue, in_labels = filter (\<lambda>s. s \<noteq> []) (map labelName (gi_labels issue)),
        in_repo = Some repo, in_tickets = []\<rparr>)"

definition gitLabIncident :: "string \<Rightarrow> GitLabIssue \<Rightarrow> Incident option" where
  "gitLabIncident repo issue =
     Some \<lparr>in_id = ''gl:'' @ repo @ '':'' @ showInt (li_iid issue), in_key = CHR ''#'' # showInt (li_iid issue),
       in_title = li_title issue, in_url = li_web_url issue, in_openedAt = li_created_at issue,
       in_resolvedAt = li_closed_at issue, in_labels = (case li_labels issue of Some ls \<Rightarrow> ls | None \<Rightarrow> []),
       in_repo = Some repo, in_tickets = []\<rparr>"

text \<open>One call per label and repository, gathered in a map under the identifier.\<close>

definition keepIncidents :: "('i \<Rightarrow> Incident option) \<Rightarrow> 'i list \<Rightarrow> (string, Incident) jsmap \<Rightarrow> (string, Incident) jsmap" where
  "keepIncidents toIncident issues byId =
     fold (\<lambda>i. AList.update (in_id i) i) (List.map_filter toIncident issues) byId"

fun overLabels :: "(string \<Rightarrow> string + 'i list) \<Rightarrow> ('i \<Rightarrow> Incident option) \<Rightarrow> string list \<Rightarrow>
    (string, Incident) jsmap \<Rightarrow> IncidentFault + (string, Incident) jsmap" where
  "overLabels call toIncident [] byId = Inr byId"
| "overLabels call toIncident (label # labels) byId =
     (case call label of
        Inl e \<Rightarrow> Inl (IncidentsRefused e)
      | Inr issues \<Rightarrow> overLabels call toIncident labels (keepIncidents toIncident issues byId))"

fun overRepos :: "(string \<Rightarrow> string \<Rightarrow> string + 'i list) \<Rightarrow> (string \<Rightarrow> 'i \<Rightarrow> Incident option) \<Rightarrow> nat option \<Rightarrow> string list \<Rightarrow>
    string list \<Rightarrow> (string, Incident) jsmap \<Rightarrow> IncidentFault + (string, Incident) jsmap" where
  "overRepos call toIncident signal labels [] byId = Inr byId"
| "overRepos call toIncident signal labels (repo # repos') byId =
     (if signal = Some 0 then Inl IncidentsAborted
      else case overLabels (call repo) (toIncident repo) labels byId of
        Inl e \<Rightarrow> Inl e
      | Inr byId' \<Rightarrow> overRepos call toIncident (map_option (\<lambda>n. n - 1) signal) labels repos' byId')"

definition providerListing :: "(string \<Rightarrow> string \<Rightarrow> string + 'i list) \<Rightarrow> (string \<Rightarrow> 'i \<Rightarrow> Incident option) \<Rightarrow> nat option \<Rightarrow>
    string list \<Rightarrow> string list \<Rightarrow> IncidentFault + Incident list" where
  "providerListing call toIncident signal repos' labels =
     map_sum id (map snd) (overRepos call toIncident signal labels repos' [])"

text \<open>The API of the two platforms: the access, the repository, the label and the lower bound.\<close>

record IncidentApi =
  ia_github :: "ResolvedContext \<Rightarrow> string \<Rightarrow> string \<Rightarrow> instant \<Rightarrow> string + GitHubIssue list"
  ia_gitlab :: "ResolvedContext \<Rightarrow> string \<Rightarrow> string \<Rightarrow> instant \<Rightarrow> string + GitLabIssue list"

definition gitHubIncidents ::
  "IncidentApi \<Rightarrow> ResolvedContext \<Rightarrow> nat option \<Rightarrow> string list \<Rightarrow> string list \<Rightarrow> instant \<Rightarrow> IncidentFault + Incident list" where
  "gitHubIncidents api ctx signal repos' labels since =
     providerListing (\<lambda>repo label. ia_github api ctx repo label since) gitHubIncident signal repos' labels"

definition gitLabIncidents ::
  "IncidentApi \<Rightarrow> ResolvedContext \<Rightarrow> nat option \<Rightarrow> string list \<Rightarrow> string list \<Rightarrow> instant \<Rightarrow> IncidentFault + Incident list" where
  "gitLabIncidents api ctx signal repos' labels since =
     providerListing (\<lambda>repo label. ia_gitlab api ctx repo label since) gitLabIncident signal repos' labels"

definition incidentProvider :: "IncidentApi \<Rightarrow> TrackerKind \<Rightarrow>
    (ResolvedContext \<Rightarrow> nat option \<Rightarrow> string list \<Rightarrow> string list \<Rightarrow> instant \<Rightarrow> IncidentFault + Incident list) option" where
  "incidentProvider api kind =
     (case kind of
        GithubTracker \<Rightarrow> Some (gitHubIncidents api)
      | GitlabTracker \<Rightarrow> Some (gitLabIncidents api)
      | _ \<Rightarrow> None)"

section \<open>The journal\<close>

text \<open>
  \<open>late\<close> says whether the request was aborted by the time a failure is looked at: an aborted one
  throws, any other failure is an empty journal.
\<close>

datatype JournalError = JournalAborted | JournalSource SourceError

definition listIncidents :: "'c Vault \<Rightarrow> IncidentApi \<Rightarrow> AppSettings \<Rightarrow> nat option \<Rightarrow> bool \<Rightarrow> string \<Rightarrow> instant \<Rightarrow> string list \<Rightarrow>
    'c SourcesDb \<Rightarrow> JournalError + Incident list" where
  "listIncidents vault api settings signal late sourceId since repos' db =
     (if st_incidentLabels settings = [] then Inr []
      else case incidentTrackerFor sourceId db of
        None \<Rightarrow> Inr []
      | Some tracker \<Rightarrow>
          (case resolveContext vault settings sourceId db of
             Inl e \<Rightarrow> Inl (JournalSource e)
           | Inr ctx \<Rightarrow>
               (case incidentProvider api (ta_kind (en_value tracker)) of
                  None \<Rightarrow> if late then Inl JournalAborted else Inr []
                | Some provider \<Rightarrow>
                    (case provider ctx signal repos' (st_incidentLabels settings) since of
                       Inl _ \<Rightarrow> if late then Inl JournalAborted else Inr []
                     | Inr incidents \<Rightarrow> Inr (sort_key (\<lambda>i. - in_openedAt i) incidents)))))"

section \<open>What a listing holds\<close>

lemma map_of_keepIncidents:
  "map_of (keepIncidents toIncident issues byId) k =
     (case filter (\<lambda>i. in_id i = k) (List.map_filter toIncident issues) of
        [] \<Rightarrow> map_of byId k | ys \<Rightarrow> Some (List.last ys))"
proof -
  have "map_of (fold (\<lambda>i. AList.update (in_id i) i) xs m) k =
      (case filter (\<lambda>i. in_id i = k) xs of [] \<Rightarrow> map_of m k | ys \<Rightarrow> Some (List.last ys))" for xs :: "Incident list" and m
  proof (induction xs arbitrary: m)
    case (Cons x xs)
    show ?case unfolding fold_simps o_apply Cons.IH by (auto simp: update_conv' split: list.split)
  qed simp
  then show ?thesis by (simp add: keepIncidents_def)
qed

definition wellKeyed :: "(string, Incident) jsmap \<Rightarrow> bool" where
  "wellKeyed byId \<longleftrightarrow> distinct (map fst byId) \<and> (\<forall>(k, i) \<in> set byId. in_id i = k)"

lemma updated_entry: "e \<in> set (AList.update k v m) \<Longrightarrow> e \<in> set m \<or> e = (k, v)"
  by (induction m) (auto split: if_splits)

lemma wellKeyed_update: "wellKeyed byId \<Longrightarrow> wellKeyed (AList.update (in_id i) i byId)"
proof -
  assume ok: "wellKeyed byId"
  have "e \<in> set byId \<or> e = (in_id i, i)" if "e \<in> set (AList.update (in_id i) i byId)" for e
    using that by (rule updated_entry)
  with ok show ?thesis unfolding wellKeyed_def by (fastforce simp: distinct_update)
qed

lemma wellKeyed_keep: "wellKeyed byId \<Longrightarrow> wellKeyed (keepIncidents toIncident issues byId)"
proof -
  assume "wellKeyed byId"
  then have "wellKeyed (fold (\<lambda>i. AList.update (in_id i) i) xs byId)" for xs :: "Incident list"
    by (induction xs arbitrary: byId) (simp_all add: wellKeyed_update)
  then show ?thesis by (simp add: keepIncidents_def)
qed

lemma keys_keep:
  "fst ` set (keepIncidents toIncident issues byId) = fst ` set byId \<union> in_id ` set (List.map_filter toIncident issues)"
proof -
  have "fst ` set (fold (\<lambda>i. AList.update (in_id i) i) xs m) = fst ` set m \<union> in_id ` set xs" for xs :: "Incident list" and m
    by (induction xs arbitrary: m) (auto simp: keys_update)
  then show ?thesis by (simp add: keepIncidents_def)
qed

text \<open>What a call answers, as the incidents it stands for.\<close>

definition answered :: "(string \<Rightarrow> string \<Rightarrow> string + 'i list) \<Rightarrow> (string \<Rightarrow> 'i \<Rightarrow> Incident option) \<Rightarrow> string \<Rightarrow> string \<Rightarrow> Incident list" where
  "answered call toIncident repo label =
     (case call repo label of Inl _ \<Rightarrow> [] | Inr issues \<Rightarrow> List.map_filter (toIncident repo) issues)"

lemma overLabels_keys:
  "overLabels (call repo) (toIncident repo) labels byId = Inr byId' \<Longrightarrow> wellKeyed byId \<Longrightarrow>
   wellKeyed byId' \<and> fst ` set byId' = fst ` set byId \<union> (\<Union>label \<in> set labels. in_id ` set (answered call toIncident repo label))"
proof (induction labels arbitrary: byId)
  case (Cons label labels)
  from Cons.prems(1) obtain issues where c: "call repo label = Inr issues"
    and rest: "overLabels (call repo) (toIncident repo) labels (keepIncidents (toIncident repo) issues byId) = Inr byId'"
    by (auto split: sum.splits)
  from Cons.IH [OF rest wellKeyed_keep [OF Cons.prems(2)]] show ?case
    by (simp add: c answered_def keys_keep Un_assoc)
qed simp

lemma overRepos_keys:
  "overRepos call toIncident signal labels rs byId = Inr byId' \<Longrightarrow> wellKeyed byId \<Longrightarrow>
   wellKeyed byId' \<and> fst ` set byId' =
     fst ` set byId \<union> (\<Union>repo \<in> set rs. \<Union>label \<in> set labels. in_id ` set (answered call toIncident repo label))"
proof (induction rs arbitrary: byId signal)
  case (Cons repo rs)
  from Cons.prems(1) obtain mid where l: "overLabels (call repo) (toIncident repo) labels byId = Inr mid"
    and rest: "overRepos call toIncident (map_option (\<lambda>n. n - 1) signal) labels rs mid = Inr byId'"
    by (auto split: sum.splits if_splits)
  note mid = overLabels_keys [where call = call and toIncident = toIncident and repo = repo, OF l Cons.prems(2)]
  from Cons.IH [OF rest mid [THEN conjunct1]] mid show ?case by (simp add: Un_assoc)
qed simp

text \<open>A listing holds every incident of every call once, however many of its labels were asked for.\<close>

lemma providerListing_once:
  assumes "providerListing call toIncident signal rs labels = Inr incidents"
  shows "distinct (map in_id incidents) \<and>
    in_id ` set incidents = (\<Union>repo \<in> set rs. \<Union>label \<in> set labels. in_id ` set (answered call toIncident repo label))"
proof -
  from assms obtain byId where b: "overRepos call toIncident signal labels rs [] = Inr byId" "incidents = map snd byId"
    by (auto simp: providerListing_def map_sum_def split: sum.splits)
  have keyed: "wellKeyed byId" and keys: "fst ` set byId =
      (\<Union>repo \<in> set rs. \<Union>label \<in> set labels. in_id ` set (answered call toIncident repo label))"
    using overRepos_keys [OF b(1)] by (simp_all add: wellKeyed_def)
  have ids: "map in_id incidents = map fst byId"
    using keyed unfolding b(2) wellKeyed_def by (induction byId) auto
  then have "in_id ` set incidents = fst ` set byId" by (metis set_map)
  with keyed ids keys show ?thesis by (simp add: wellKeyed_def)
qed

end
