(* ===== verification/Readers.thy ===== *)
theory Readers
  imports Sync Sources
begin

text \<open>
  Where a source's data comes from on the read side: \<open>back/src/ingest/reader.factory.ts\<close> with the
  interface of \<open>source-reader.interface.ts\<close>. A live source is read through its connector, which is
  reached with the context its credentials resolve to; a stored one from the store. \<open>dial\<close> stands for
  \<open>ConnectorFactory.for\<close> with the HTTP client behind it: the listings of a connector bound to a
  context. A bounded listing calls the sink \<open>onTruncated\<close> while it runs, so what it told the sink
  comes with how it ended, answered or refused.

  The lemmas show that a stored source is read without its secret, within the scope it has now and
  with nothing older than the date asked for.
\<close>

type_synonym TruncatedRead = "string \<times> TruncatedResource"

text \<open>What a listing told the sink before it ended, and how it ended.\<close>

type_synonym 'a bounded_listing = "TruncatedRead list \<times> (string + 'a list)"

record LiveConnector =
  lv_repositories :: "string + string list"
  lv_pullRequests :: "string list \<Rightarrow> string + SourcePullRequest list"
  lv_pipelines :: "string list \<Rightarrow> string + Pipeline list"
  lv_deployments :: "string list \<Rightarrow> instant option \<Rightarrow> Deployment bounded_listing"
  lv_merged :: "string list \<Rightarrow> instant \<Rightarrow> SourceMergedPullRequest bounded_listing"

record Reader =
  rd_mode :: SourceMode
  rd_owner :: string
  rd_scope :: ScopeRules
  rd_repositories :: "string + string list"
  rd_pullRequests :: "string list \<Rightarrow> string + SourcePullRequest list"
  rd_pipelines :: "string list \<Rightarrow> string + Pipeline list"
  rd_deployments :: "string list \<Rightarrow> instant option \<Rightarrow> Deployment bounded_listing"
  rd_merged :: "string list \<Rightarrow> instant \<Rightarrow> SourceMergedPullRequest bounded_listing"
  rd_freshness :: "instant option"

definition connectorReader :: "ResolvedContext \<Rightarrow> LiveConnector \<Rightarrow> Reader" where
  "connectorReader ctx c =
     \<lparr>rd_mode = LiveMode, rd_owner = fst (xc_scope ctx), rd_scope = snd (xc_scope ctx),
      rd_repositories = lv_repositories c,
      rd_pullRequests = lv_pullRequests c,
      rd_pipelines = lv_pipelines c,
      rd_deployments = lv_deployments c,
      rd_merged = lv_merged c,
      rd_freshness = None\<rparr>"

definition storeReader :: "string \<Rightarrow> string \<times> ScopeRules \<Rightarrow> instant \<Rightarrow> SyncDb \<Rightarrow> Reader" where
  "storeReader sourceId scope now db =
     \<lparr>rd_mode = StoredMode, rd_owner = fst scope, rd_scope = snd scope,
      rd_repositories = Inr (applyScope (readRepos sourceId (repos (db_store db))) (snd scope)),
      rd_pullRequests = (\<lambda>rs. Inr (readPullRequests now sourceId rs (pulls (db_store db)))),
      rd_pipelines = (\<lambda>rs. Inr (readPipelines sourceId rs (pipelines (db_store db)))),
      rd_deployments = (\<lambda>rs since. ([], Inr (readDeployments sourceId rs since (deployments (db_store db))))),
      rd_merged = (\<lambda>rs since. ([], Inr (readMergedPullRequests sourceId rs since (pulls (db_store db))))),
      rd_freshness = freshness (map (sy_lastSyncAt \<circ> snd) (filter (\<lambda>e. fst (fst e) = sourceId) (db_states db)))\<rparr>"

definition readerFor ::
  "'c Vault \<Rightarrow> (ResolvedContext \<Rightarrow> LiveConnector) \<Rightarrow> AppSettings \<Rightarrow> instant \<Rightarrow> SyncDb \<Rightarrow> string \<Rightarrow> 'c SourcesDb \<Rightarrow>
   SourceError + Reader" where
  "readerFor vault dial settings now held sourceId db =
     (case readSpec sourceId db of
        Inl e \<Rightarrow> Inl e
      | Inr spec \<Rightarrow>
          if Sources.SourceSpec.sp_mode spec = StoredMode
          then Inr (storeReader sourceId (Sources.SourceSpec.sp_scope spec) now held)
          else (case resolveContext vault settings sourceId db of
                  Inl e \<Rightarrow> Inl e
                | Inr ctx \<Rightarrow> Inr (connectorReader ctx (dial ctx))))"

lemma storeReader_since:
  assumes "rd_deployments (storeReader sourceId scope now db) rs (Some since) = ([], Inr ds)"
  shows "\<forall>d \<in> set ds. since \<le> dp_createdAt d \<and> dp_repo d \<in> set rs"
  using assms by (auto simp: storeReader_def readDeployments_def findMany_def toDeployment_def split: if_splits)

lemma storeReader_merged_since:
  assumes "rd_merged (storeReader sourceId scope now db) rs since = ([], Inr ps)"
  shows "\<forall>p \<in> set ps. since \<le> smr_mergedAt p \<and> smr_repo p \<in> set rs"
  using assms
  by (auto simp: storeReader_def readMergedPullRequests_def findMany_def toMergedPullRequest_def split: if_splits option.splits)

text \<open>
  A stored source answers without its secret: neither the cipher nor the credential it holds, nor a
  connector, changes what is read, and nothing is listed that its scope does not track now.
\<close>

lemma a_stored_source_is_read_without_its_secret:
  assumes "readSpec sourceId db = Inr spec" and "Sources.SourceSpec.sp_mode spec = StoredMode"
  shows "readerFor vault dial settings now held sourceId db =
      readerFor vault' dial' settings' now held sourceId (db\<lparr>sb_credentials := [], sb_webhookSecrets := []\<rparr>) \<and>
    (\<forall>reader rs. readerFor vault dial settings now held sourceId db = Inr reader \<longrightarrow> rd_repositories reader = Inr rs \<longrightarrow>
       (\<forall>r \<in> set rs. scopeTracks (snd (Sources.SourceSpec.sp_scope spec)) r))"
proof -
  have "readSpec sourceId (db\<lparr>sb_credentials := [], sb_webhookSecrets := []\<rparr>) = readSpec sourceId db"
    by (simp add: readSpec_def)
  with assms show ?thesis by (auto simp: readerFor_def storeReader_def applyScope_def)
qed

end
