(* ===== verification/Dora_Service.thy ===== *)
theory Dora_Service
  imports Readers Incidents Periods Rule_Services
begin

text \<open>
  \<open>back/src/dora/dora.service.ts\<close>: what is gathered from a source and its tracker, how each event is
  classified, the readings over a period, the report with its trend, the events behind a metric, and
  the snapshots with the replay that rewrites them. Log lines are left out; the settings are whole
  numbers of days, as every update writes them, and \<open>localeCompare\<close> orders names by a sort key that
  is a parameter.

  An event's \<open>ref\<close> is its place in the listing it comes from: two events are one object only when
  they are one row.
\<close>

section \<open>What the service is wired to\<close>

record 'c DoraInstall =
  di_vault :: "'c Vault"
  di_rx :: RegexEngine
  di_collate :: "string \<Rightarrow> string"
  di_dial :: "ResolvedContext \<Rightarrow> LiveConnector"
  di_incidents :: IncidentApi
  di_settings :: AppSettings
  di_sources :: "'c SourcesDb"
  di_envRules :: EnvRuleDb
  di_ticketRules :: TicketRuleDb
  di_sync :: SyncDb

definition windowDays :: "'c DoraInstall \<Rightarrow> int" where
  "windowDays inst = \<lfloor>st_doraWindowDays (di_settings inst)\<rfloor>"

datatype DoraFault = DoraInvalidRange instant instant | DoraSourceFault SourceError | DoraReaderFault string
  | DoraAborted | DoraTrackerUnsupported TrackerKind

record DoraQuery = PeriodQuery +
  dq_repos :: "string list option"
  dq_dimensions :: "dims option"

record GatheredEvents =
  ge_deployments :: "DeploymentEvent list"
  ge_prs :: "MergedPrEvent list"
  ge_incidents :: "IncidentEvent list"
  ge_allRepos :: "string list"
  ge_failureSource :: FailureSource
  ge_componentAttribute :: "string option"
  ge_truncated :: "TruncatedRead list"

section \<open>Classifying what was gathered\<close>

definition toEventStatus :: "PipelineStatus \<Rightarrow> DeployOutcome" where
  "toEventStatus status = (case status of Success \<Rightarrow> DSuccess | Failed \<Rightarrow> DFailed | _ \<Rightarrow> DOther)"

definition dimensionsFor ::
  "RegexEngine \<Rightarrow> EnvRuleDb \<Rightarrow> string \<Rightarrow> ClassifySubject list \<Rightarrow> RuleTarget \<Rightarrow> (string, dims) jsmap" where
  "dimensionsFor rx rules sourceId subjects target =
     map (\<lambda>(key, env). (key, ce_attributes env)) (classifyByPair rx rules sourceId subjects target)"

definition subject :: "string \<Rightarrow> string option \<Rightarrow> ClassifySubject" where
  "subject name repo = \<lparr>cs_name = name, cs_repo = repo\<rparr>"

definition toDeploymentEvents :: "RegexEngine \<Rightarrow> EnvRuleDb \<Rightarrow> string \<Rightarrow> Deployment list \<Rightarrow> DeploymentEvent list" where
  "toDeploymentEvents rx rules sourceId ds =
     (let dimensionsByEnv = dimensionsFor rx rules sourceId
            (map (\<lambda>d. subject (dp_environment d) (Some (dp_repo d))) ds) OnEnvironment
      in map (\<lambda>(i, d). \<lparr>de_ref = i, de_environment = dp_environment d, de_repo = dp_repo d,
             de_status = toEventStatus (dp_status d), de_createdAt = dp_createdAt d,
             de_dimensions = (case map_of dimensionsByEnv (subjectKey (subject (dp_environment d) (Some (dp_repo d)))) of
                Some a \<Rightarrow> a | None \<Rightarrow> [])\<rparr>) (enumerate 0 ds))"

text \<open>\<open>take\<close>: the first to state a key keeps it.\<close>

definition takeAttributes :: "dims option \<Rightarrow> dims \<Rightarrow> dims" where
  "takeAttributes attributes dimensions =
     fold (\<lambda>(key, v) held. if map_of held key = None then held @ [(key, v)] else held)
       (case attributes of Some a \<Rightarrow> a | None \<Rightarrow> []) dimensions"

definition labelDimensions :: "(string, dims) jsmap \<Rightarrow> string option \<Rightarrow> string list \<Rightarrow> dims" where
  "labelDimensions byLabel repo labels =
     fold (\<lambda>label. takeAttributes (map_of byLabel (subjectKey (subject label repo)))) (sort labels) []"

definition prTexts :: "SourceMergedPullRequest \<Rightarrow> TicketTexts" where
  "prTexts p src = (case src of Branch \<Rightarrow> Some (smr_headRef p) | Title \<Rightarrow> Some (smr_title p)
     | Body \<Rightarrow> Some (smr_body p) | Commit \<Rightarrow> None)"

definition toMergedPrEvents :: "RegexEngine \<Rightarrow> EnvRuleDb \<Rightarrow> TicketRuleDb \<Rightarrow> string \<Rightarrow> string \<Rightarrow>
    SourceMergedPullRequest list \<Rightarrow> MergedPrEvent list" where
  "toMergedPrEvents rx rules ticketRules sourceId owner prs =
     (let byLabel = dimensionsFor rx rules sourceId
            (concat (map (\<lambda>p. map (\<lambda>name. subject name (Some (smr_repo p))) (smr_labels p)) prs)) OnPullRequest;
          byTitle = dimensionsFor rx rules sourceId
            (map (\<lambda>p. subject (smr_title p) (Some (smr_repo p))) prs) OnPullRequestTitle;
          byRepo = dimensionsFor rx rules sourceId
            (map (\<lambda>p. subject (smr_repo p) (Some (smr_repo p))) prs) OnRepository;
          tickets = extractMany rx ticketRules sourceId (map prTexts prs)
            (map (\<lambda>p. \<lparr>to_owner = owner, to_repo = smr_repo p\<rparr>) prs)
      in map (\<lambda>(i, p). \<lparr>me_ref = i, me_repo = smr_repo p, me_number = smr_number p, me_url = smr_url p,
             me_firstCommitAt = smr_firstCommitAt p, me_openedAt = smr_openedAt p,
             me_firstReviewAt = smr_firstReviewAt p, me_mergedAt = smr_mergedAt p, me_tickets = tickets ! i,
             me_dimensions =
               takeAttributes (map_of byRepo (subjectKey (subject (smr_repo p) (Some (smr_repo p)))))
                 (takeAttributes (map_of byTitle (subjectKey (subject (smr_title p) (Some (smr_repo p)))))
                   (labelDimensions byLabel (Some (smr_repo p)) (smr_labels p)))\<rparr>) (enumerate 0 prs))"

definition incidentTexts :: "Incident \<Rightarrow> TicketTexts" where
  "incidentTexts i src = (case src of Branch \<Rightarrow> Some (join '' '' (in_labels i)) | Title \<Rightarrow> Some (in_title i) | _ \<Rightarrow> None)"

definition toIncidentEvents :: "RegexEngine \<Rightarrow> EnvRuleDb \<Rightarrow> TicketRuleDb \<Rightarrow> string \<Rightarrow> string \<Rightarrow> Incident list \<Rightarrow> IncidentEvent list" where
  "toIncidentEvents rx rules ticketRules sourceId owner incidents =
     (let byLabel = dimensionsFor rx rules sourceId
            (concat (map (\<lambda>i. map (\<lambda>name. subject name None) (in_labels i)) incidents)) OnIncident;
          tickets = extractMany rx ticketRules sourceId (map incidentTexts incidents)
            (map (\<lambda>i. \<lparr>to_owner = owner, to_repo = required (in_repo i)\<rparr>) incidents)
      in map (\<lambda>(n, i). \<lparr>ie_ref = n, ie_key = in_key i, ie_title = in_title i, ie_url = in_url i,
             ie_openedAt = in_openedAt i, ie_resolvedAt = in_resolvedAt i, ie_repo = in_repo i,
             ie_tickets = tickets ! n, ie_dimensions = labelDimensions byLabel None (in_labels i)\<rparr>) (enumerate 0 incidents))"

section \<open>Gathering\<close>

definition filterRepos :: "string list \<Rightarrow> string list option \<Rightarrow> string list" where
  "filterRepos all wanted =
     (case wanted of None \<Rightarrow> all | Some ws \<Rightarrow> if ws = [] then all else filter (\<lambda>repo. repo \<in> set ws) all)"

text \<open>Best effort: a listing that failed is empty, unless the request was aborted meanwhile.\<close>

definition degraded :: "bool \<Rightarrow> 'e + 'a list \<Rightarrow> DoraFault + 'a list" where
  "degraded late r = (case r of Inr xs \<Rightarrow> Inr xs | Inl _ \<Rightarrow> if late then Inl DoraAborted else Inr [])"

definition seenOnce :: "TruncatedRead list \<Rightarrow> TruncatedRead list" where
  "seenOnce cuts = fold (\<lambda>r kept. if r \<in> set kept then kept else kept @ [r]) cuts []"

definition gatherIncidents :: "'c DoraInstall \<Rightarrow> nat option \<Rightarrow> bool \<Rightarrow> string \<Rightarrow> instant \<Rightarrow> string list \<Rightarrow>
    DoraFault + Incident list" where
  "gatherIncidents inst signal late sourceId since rs =
     (case (if st_failureSource (di_settings inst) = FromPipelines then None else incidentTrackerFor sourceId (di_sources inst)) of
        None \<Rightarrow> Inr []
      | Some tracker \<Rightarrow>
          (case resolveContext (di_vault inst) (di_settings inst) sourceId (di_sources inst) of
             Inl e \<Rightarrow> Inl (DoraSourceFault e)
           | Inr ctx \<Rightarrow>
               (case incidentProvider (di_incidents inst) (ta_kind (en_value tracker)) of
                  None \<Rightarrow> Inl (DoraTrackerUnsupported (ta_kind (en_value tracker)))
                | Some provider \<Rightarrow> degraded late (provider ctx signal rs (st_incidentLabels (di_settings inst)) since))))"

definition gather :: "'c DoraInstall \<Rightarrow> nat option \<Rightarrow> bool \<Rightarrow> instant \<Rightarrow> string \<Rightarrow> instant \<Rightarrow> string list option \<Rightarrow>
    DoraFault + GatheredEvents" where
  "gather inst signal late now sourceId since repoFilter =
     (case readerFor (di_vault inst) (di_dial inst) (di_settings inst) now (di_sync inst) sourceId (di_sources inst) of
        Inl e \<Rightarrow> Inl (DoraSourceFault e)
      | Inr reader \<Rightarrow>
          (case rd_repositories reader of
             Inl e \<Rightarrow> Inl (DoraReaderFault e)
           | Inr allRepos \<Rightarrow>
               let rs = filterRepos allRepos repoFilter in
               (case (gatherIncidents inst signal late sourceId since rs,
                      degraded late (snd (rd_deployments reader rs (Some since))),
                      degraded late (snd (rd_merged reader rs since))) of
                  (Inr incidents, Inr ds, Inr prs) \<Rightarrow>
                    Inr \<lparr>ge_deployments = toDeploymentEvents (di_rx inst) (di_envRules inst) sourceId ds,
                      ge_prs = toMergedPrEvents (di_rx inst) (di_envRules inst) (di_ticketRules inst) sourceId (rd_owner reader) prs,
                      ge_incidents = toIncidentEvents (di_rx inst) (di_envRules inst) (di_ticketRules inst) sourceId (rd_owner reader) incidents,
                      ge_allRepos = allRepos, ge_failureSource = st_failureSource (di_settings inst),
                      ge_componentAttribute = st_componentAttribute (di_settings inst),
                      ge_truncated = seenOnce (fst (rd_deployments reader rs (Some since)) @ fst (rd_merged reader rs since))\<rparr>
                | (Inl e, _, _) \<Rightarrow> Inl e
                | (_, Inl e, _) \<Rightarrow> Inl e
                | (_, _, Inl e) \<Rightarrow> Inl e)))"

section \<open>The readings over a period\<close>

definition daysBetween :: "DoraPeriod \<Rightarrow> rat" where
  "daysBetween period = of_int (dpd_to period - dpd_from period) / 86400000"

definition computeOver :: "GatheredEvents \<Rightarrow> DoraPeriod \<Rightarrow> DoraResult list" where
  "computeOver events period =
     (let ds = filter (\<lambda>d. within_period (de_createdAt d) period) (ge_deployments events);
          prs = filter (\<lambda>p. within_period (me_mergedAt p) period) (ge_prs events);
          incidents = filter (\<lambda>i. within_period (ie_openedAt i) period) (ge_incidents events);
          carriers = carriedBy prs ds (ge_componentAttribute events);
          linked = incidentsByDeployment incidents prs carriers
      in deploymentFrequency ds (daysBetween period) @
         changeFailureRate ds incidents (ge_failureSource events) linked @
         mttr ds incidents (ge_failureSource events) linked @
         leadTimeBreakdown prs @
         deployTime prs carriers)"

definition matchesDimensions :: "dims \<Rightarrow> dims option \<Rightarrow> bool" where
  "matchesDimensions dimensions filter' =
     (case filter' of None \<Rightarrow> True | Some f \<Rightarrow> list_all (\<lambda>(key, v). map_of dimensions key = Some v) f)"

definition collectDimensions :: "(string \<Rightarrow> string) \<Rightarrow> DoraResult list \<Rightarrow> (string, string list) jsmap" where
  "collectDimensions collate results =
     map (\<lambda>(key, vs). (key, sort (remdups vs)))
       (sort_key (collate \<circ> fst)
         (fold (\<lambda>(key, v) values'. AList.update key ((case map_of values' key of Some vs \<Rightarrow> vs | None \<Rightarrow> []) @ [v]) values')
           (concat (map dr_dimensions results)) []))"

definition collectDimensionsByMetric :: "(string \<Rightarrow> string) \<Rightarrow> DoraResult list \<Rightarrow> (DoraMetric, (string, string list) jsmap) jsmap" where
  "collectDimensionsByMetric collate results =
     map (\<lambda>(metric, rs). (metric, collectDimensions collate rs)) (groupBy dr_metric results)"

record Built =
  bu_results :: "DoraResult list"
  bu_repos :: "string list"
  bu_period :: DoraPeriod
  bu_slices :: "DoraResult list list"
  bu_truncated :: "TruncatedRead list"

definition build :: "'c DoraInstall \<Rightarrow> nat option \<Rightarrow> bool \<Rightarrow> instant \<Rightarrow> string \<Rightarrow> DoraQuery \<Rightarrow> int \<Rightarrow> DoraFault + Built" where
  "build inst signal late now sourceId query maxPoints =
     (case resolvePeriod (PeriodQuery.truncate query) (windowDays inst) now of
        Inl (from', to') \<Rightarrow> Inl (DoraInvalidRange from' to')
      | Inr period \<Rightarrow>
          (case gather inst signal late now sourceId (dpd_from period) (dq_repos query) of
             Inl e \<Rightarrow> Inl e
           | Inr gathered \<Rightarrow>
               Inr \<lparr>bu_results = computeOver gathered period, bu_repos = ge_allRepos gathered, bu_period = period,
                 bu_slices = map (computeOver gathered) (sliceRange period maxPoints),
                 bu_truncated = ge_truncated gathered\<rparr>))"

record DoraReport =
  do_results :: "DoraResult list"
  do_repos :: "string list"
  do_dimensions :: "(string, string list) jsmap"
  do_dimensionsByMetric :: "(DoraMetric, (string, string list) jsmap) jsmap"
  do_period :: DoraPeriod
  do_truncated :: "TruncatedRead list"
  do_trend :: "DoraResult list list"

definition sliced :: "DoraQuery \<Rightarrow> DoraResult list \<Rightarrow> DoraResult list" where
  "sliced query results = filter (\<lambda>r. matchesDimensions (dr_dimensions r) (dq_dimensions query)) results"

definition reportOf :: "'c DoraInstall \<Rightarrow> DoraQuery \<Rightarrow> Built \<Rightarrow> DoraReport" where
  "reportOf inst query b =
     \<lparr>do_results = foldByMetric (sliced query (bu_results b)), do_repos = bu_repos b,
      do_dimensions = collectDimensions (di_collate inst) (bu_results b),
      do_dimensionsByMetric = collectDimensionsByMetric (di_collate inst) (bu_results b),
      do_period = bu_period b, do_truncated = bu_truncated b,
      do_trend = map (\<lambda>s. foldByMetric (sliced query s)) (bu_slices b)\<rparr>"

text \<open>The report is the one over time with no point asked for, which has no trend.\<close>

definition reportOverTime :: "'c DoraInstall \<Rightarrow> nat option \<Rightarrow> bool \<Rightarrow> instant \<Rightarrow> string \<Rightarrow> DoraQuery \<Rightarrow> int \<Rightarrow> DoraFault + DoraReport" where
  "reportOverTime inst signal late now sourceId query maxPoints =
     map_sum id (reportOf inst query) (build inst signal late now sourceId query maxPoints)"

definition report :: "'c DoraInstall \<Rightarrow> nat option \<Rightarrow> bool \<Rightarrow> instant \<Rightarrow> string \<Rightarrow> DoraQuery \<Rightarrow> DoraFault + DoraReport" where
  "report inst signal late now sourceId query =
     map_sum id (reportOf inst query) (build inst signal late now sourceId query 0)"

definition samples :: "'c DoraInstall \<Rightarrow> nat option \<Rightarrow> bool \<Rightarrow> instant \<Rightarrow> string \<Rightarrow> DoraQuery \<Rightarrow> DoraMetric \<Rightarrow> PageWindow \<Rightarrow>
    DoraFault + DoraSample Page" where
  "samples inst signal late now sourceId query metric window =
     map_sum id (\<lambda>b.
       let events = concat (map (\<lambda>r. case dr_population r of Some p \<Rightarrow> p | None \<Rightarrow> dr_samples r)
             (filter (\<lambda>r. dr_metric r = metric \<and> matchesDimensions (dr_dimensions r) (dq_dimensions query)) (bu_results b)))
       in paginate (sort_key (\<lambda>s. - ds_at s) events) window)
       (build inst signal late now sourceId query 0)"

section \<open>Snapshots\<close>

text \<open>The table is shared with the summary series, whose metrics have names of their own.\<close>

datatype SnapshotMetric = DoraSeries DoraMetric | SummarySeries string

record MetricSnapshot =
  ms_sourceId :: string
  ms_metric :: SnapshotMetric
  ms_value :: rat
  ms_dimensions :: dims
  ms_capturedAt :: instant

definition snapshotOf :: "string \<Rightarrow> instant \<Rightarrow> DoraResult \<Rightarrow> MetricSnapshot" where
  "snapshotOf sourceId capturedAt r =
     \<lparr>ms_sourceId = sourceId, ms_metric = DoraSeries (dr_metric r), ms_value = dr_value r,
      ms_dimensions = dr_dimensions r, ms_capturedAt = capturedAt\<rparr>"

definition compute :: "'c DoraInstall \<Rightarrow> instant \<Rightarrow> string \<Rightarrow> DoraFault + DoraResult list" where
  "compute inst now sourceId =
     map_sum id bu_results (build inst None False now sourceId
       \<lparr>pq_from = None, pq_to = None, pq_windowDays = None, dq_repos = None, dq_dimensions = None\<rparr> 0)"

definition snapshot :: "'c DoraInstall \<Rightarrow> instant \<Rightarrow> instant \<Rightarrow> string \<Rightarrow> MetricSnapshot list \<Rightarrow>
    MetricSnapshot list \<times> (DoraFault + nat)" where
  "snapshot inst now capturedAt sourceId table =
     (case compute inst now sourceId of
        Inl e \<Rightarrow> (table, Inl e)
      | Inr results \<Rightarrow> (table @ map (snapshotOf sourceId capturedAt) results, Inr (length results)))"

definition addDays :: "instant \<Rightarrow> int \<Rightarrow> instant" where
  "addDays t days = t + days * 86400000"

definition startOfDay :: "instant \<Rightarrow> instant" where
  "startOfDay t = dayOf t * DAY_LENGTH"

definition endOfDay :: "instant \<Rightarrow> instant" where
  "endOfDay t = dayOf t * DAY_LENGTH + (DAY_LENGTH - 1)"

text \<open>\<open>for (let day = firstDay; day <= endOfYesterday; day = addDays(day, 1))\<close>\<close>

function replayDays :: "instant \<Rightarrow> instant \<Rightarrow> instant list" where
  "replayDays day endOfYesterday =
     (if day \<le> endOfYesterday then day # replayDays (addDays day 1) endOfYesterday else [])"
  by pat_completeness auto
termination by (relation "measure (\<lambda>(day, final). nat (final + 1 - day))") (auto simp: addDays_def)

declare replayDays.simps [simp del]

record MetricRebuild =
  rb_from :: instant
  rb_to :: instant
  rb_days :: nat
  rb_written :: nat
  rb_replaced :: nat
  rb_keptBefore :: nat

definition rollingWindow :: "int \<Rightarrow> instant \<Rightarrow> DoraPeriod" where
  "rollingWindow window capturedAt =
     \<lparr>dpd_from = addDays capturedAt (- window), dpd_to = capturedAt, dpd_windowDays = Some window\<rparr>"

definition replayedDay :: "GatheredEvents \<Rightarrow> int \<Rightarrow> instant \<Rightarrow> DoraResult list" where
  "replayedDay gathered window day = computeOver gathered (rollingWindow window (endOfDay day))"

definition replayedRows :: "GatheredEvents \<Rightarrow> string \<Rightarrow> int \<Rightarrow> instant list \<Rightarrow> MetricSnapshot list" where
  "replayedRows gathered sourceId window days =
     concat (map (\<lambda>day. map (snapshotOf sourceId (endOfDay day)) (replayedDay gathered window day)) days)"

definition doraRow :: "string \<Rightarrow> MetricSnapshot \<Rightarrow> bool" where
  "doraRow sourceId row \<longleftrightarrow> ms_sourceId row = sourceId \<and> (case ms_metric row of DoraSeries _ \<Rightarrow> True | SummarySeries _ \<Rightarrow> False)"

definition swept :: "string \<Rightarrow> instant \<Rightarrow> instant \<Rightarrow> MetricSnapshot \<Rightarrow> bool" where
  "swept sourceId firstDay endOfYesterday row \<longleftrightarrow>
     doraRow sourceId row \<and> firstDay \<le> ms_capturedAt row \<and> ms_capturedAt row \<le> endOfYesterday"

text \<open>\<open>stopsBefore\<close> is the day the replay finds its request aborted before, if it does.\<close>

definition rebuild :: "'c DoraInstall \<Rightarrow> nat option \<Rightarrow> bool \<Rightarrow> instant option \<Rightarrow> instant \<Rightarrow> string \<Rightarrow> int option \<Rightarrow>
    MetricSnapshot list \<Rightarrow> MetricSnapshot list \<times> (DoraFault + MetricRebuild)" where
  "rebuild inst signal late stopsBefore now sourceId days table =
     (let window = windowDays inst;
          depth = (case days of Some n \<Rightarrow> n | None \<Rightarrow> window);
          endOfYesterday = endOfDay (addDays now (- 1));
          firstDay = startOfDay (addDays endOfYesterday (- (depth - 1)))
      in case gather inst signal late now sourceId (addDays firstDay (- window)) None of
           Inl e \<Rightarrow> (table, Inl e)
         | Inr gathered \<Rightarrow>
             let replayed = replayDays firstDay endOfYesterday in
             if stopsBefore \<in> Some ` set replayed then (table, Inl DoraAborted)
             else
               let rows = replayedRows gathered sourceId window replayed;
                   kept = filter (\<lambda>row. \<not> swept sourceId firstDay endOfYesterday row) table
               in (kept @ rows,
                   Inr \<lparr>rb_from = firstDay, rb_to = endOfYesterday,
                     rb_days = length (filter (\<lambda>day. replayedDay gathered window day \<noteq> []) replayed),
                     rb_written = length rows, rb_replaced = length table - length kept,
                     rb_keptBefore = length (filter (\<lambda>row. doraRow sourceId row \<and> ms_capturedAt row < firstDay) (kept @ rows))\<rparr>))"

end
