(* ===== verification/Dora_History.thy ===== *)
theory Dora_History
  imports Dora_Service
begin

text \<open>
  What the reports and the snapshots of \<open>Dora_Service\<close> promise: a replay of the history restates its
  own days and nothing else, however often it runs; a trend counts what its report counts, each event
  in one point; a listing that fails spoils only the readings that need it; and the order in which a
  platform lists labels classifies nothing.
\<close>

section \<open>The days of a replay\<close>

lemma DAY_pos: "0 < DAY_LENGTH"
  by (simp add: DAY_LENGTH_def)

lemma dayOf_within: "0 \<le> r \<Longrightarrow> r < DAY_LENGTH \<Longrightarrow> dayOf (d * DAY_LENGTH + r) = d"
  unfolding dayOf_def by (intro int_div_pos_eq [of _ _ _ r]) (simp_all add: mult.commute)

lemma addDays_alt: "addDays t n = t + n * DAY_LENGTH"
  by (simp add: addDays_def DAY_LENGTH_def)

lemma dayOf_addDays: "dayOf (addDays t n) = dayOf t + n"
proof -
  have "t + n * DAY_LENGTH = (dayOf t + n) * DAY_LENGTH + t mod DAY_LENGTH"
    unfolding dayOf_def distrib_right by (metis add.assoc add.commute div_mult_mod_eq)
  then show ?thesis
    unfolding addDays_alt using dayOf_within [of "t mod DAY_LENGTH" "dayOf t + n"] DAY_pos
    by (simp add: pos_mod_sign pos_mod_bound)
qed

lemma endOfDay_day: "endOfDay (d * DAY_LENGTH) = d * DAY_LENGTH + (DAY_LENGTH - 1)"
  using dayOf_within [of 0 d] DAY_pos by (simp add: endOfDay_def)

lemma dayOf_endOfDay: "dayOf (endOfDay t) = dayOf t"
  unfolding endOfDay_def using DAY_pos by (intro dayOf_within) simp_all

lemma replayDays_upto:
  "replayDays (a * DAY_LENGTH) (b * DAY_LENGTH + (DAY_LENGTH - 1)) = map (\<lambda>d. d * DAY_LENGTH) [a..b]"
proof (induction "nat (b + 1 - a)" arbitrary: a)
  case 0
  then have "b * DAY_LENGTH + (DAY_LENGTH - 1) < a * DAY_LENGTH"
    using DAY_pos mult_right_mono [of "b + 1" a DAY_LENGTH] by (simp add: distrib_right)
  with 0 show ?case by (simp add: replayDays.simps)
next
  case (Suc n)
  then have "a \<le> b" by simp
  then have "a * DAY_LENGTH \<le> b * DAY_LENGTH" using DAY_pos by (simp add: mult_right_mono)
  then have "a * DAY_LENGTH \<le> b * DAY_LENGTH + (DAY_LENGTH - 1)" using DAY_pos by linarith
  moreover have "addDays (a * DAY_LENGTH) 1 = (a + 1) * DAY_LENGTH" by (simp add: addDays_alt distrib_right)
  moreover have "replayDays ((a + 1) * DAY_LENGTH) (b * DAY_LENGTH + (DAY_LENGTH - 1)) = map (\<lambda>d. d * DAY_LENGTH) [a + 1..b]"
    by (rule Suc.hyps) (use Suc in simp)
  ultimately show ?case using \<open>a \<le> b\<close> by (simp add: replayDays.simps [of "a * DAY_LENGTH"] upto_rec1 [of a b])
qed

definition replayedFrom :: "instant \<Rightarrow> int \<Rightarrow> int list" where
  "replayedFrom now depth = [dayOf now - depth..dayOf now - 1]"

lemma rebuild_days:
  assumes "endOfYesterday = endOfDay (addDays now (- 1))" and "firstDay = startOfDay (addDays endOfYesterday (- (depth - 1)))"
  shows "endOfYesterday = (dayOf now - 1) * DAY_LENGTH + (DAY_LENGTH - 1)" and "firstDay = (dayOf now - depth) * DAY_LENGTH"
    and "replayDays firstDay endOfYesterday = map (\<lambda>d. d * DAY_LENGTH) (replayedFrom now depth)"
proof -
  show e: "endOfYesterday = (dayOf now - 1) * DAY_LENGTH + (DAY_LENGTH - 1)"
    unfolding assms(1) endOfDay_def dayOf_addDays by simp
  have "dayOf endOfYesterday = dayOf now - 1" unfolding e using DAY_pos by (intro dayOf_within) simp_all
  then show f: "firstDay = (dayOf now - depth) * DAY_LENGTH"
    unfolding assms(2) startOfDay_def dayOf_addDays by simp
  show "replayDays firstDay endOfYesterday = map (\<lambda>d. d * DAY_LENGTH) (replayedFrom now depth)"
    unfolding e f replayDays_upto replayedFrom_def ..
qed

lemma replayed_rows_swept:
  assumes "row \<in> set (replayedRows gathered sourceId window (map (\<lambda>d. d * DAY_LENGTH) (replayedFrom now depth)))"
  shows "swept sourceId ((dayOf now - depth) * DAY_LENGTH) ((dayOf now - 1) * DAY_LENGTH + (DAY_LENGTH - 1)) row"
proof -
  from assms obtain d r where d: "d \<in> set (replayedFrom now depth)" and row: "row = snapshotOf sourceId (endOfDay (d * DAY_LENGTH)) r"
    by (auto simp: replayedRows_def)
  from d have bounds: "dayOf now - depth \<le> d" "d \<le> dayOf now - 1" by (simp_all add: replayedFrom_def)
  have "(dayOf now - depth) * DAY_LENGTH \<le> d * DAY_LENGTH" "d * DAY_LENGTH \<le> (dayOf now - 1) * DAY_LENGTH"
    using bounds DAY_pos by (simp_all add: mult_right_mono)
  then have "(dayOf now - depth) * DAY_LENGTH \<le> endOfDay (d * DAY_LENGTH)"
    "endOfDay (d * DAY_LENGTH) \<le> (dayOf now - 1) * DAY_LENGTH + (DAY_LENGTH - 1)"
    unfolding endOfDay_day using DAY_pos by linarith+
  then show ?thesis by (simp add: row swept_def doraRow_def snapshotOf_def)
qed

section \<open>A replay restates its own days\<close>

text \<open>The snapshots a replay of a span of days may touch: of its source, of a metric, of those days.\<close>

definition restated :: "string \<Rightarrow> int \<Rightarrow> int \<Rightarrow> MetricSnapshot \<Rightarrow> bool" where
  "restated sourceId firstDay lastDay row \<longleftrightarrow> ms_sourceId row = sourceId \<and> (\<exists>m. ms_metric row = DoraSeries m) \<and>
     firstDay \<le> dayOf (ms_capturedAt row) \<and> dayOf (ms_capturedAt row) \<le> lastDay"

lemma swept_restated:
  "swept sourceId (firstDay * DAY_LENGTH) (lastDay * DAY_LENGTH + (DAY_LENGTH - 1)) = restated sourceId firstDay lastDay"
proof -
  have within: "firstDay * DAY_LENGTH \<le> t \<and> t \<le> lastDay * DAY_LENGTH + (DAY_LENGTH - 1) \<longleftrightarrow>
      firstDay \<le> dayOf t \<and> dayOf t \<le> lastDay" for t
  proof -
    have "t = dayOf t * DAY_LENGTH + t mod DAY_LENGTH" "0 \<le> t mod DAY_LENGTH" "t mod DAY_LENGTH < DAY_LENGTH"
      using DAY_pos by (simp_all add: dayOf_def)
    then show ?thesis unfolding DAY_LENGTH_def by linarith
  qed
  show ?thesis
    unfolding fun_eq_iff swept_def doraRow_def restated_def within by (auto split: SnapshotMetric.splits)
qed

text \<open>A replay as one equation over the days it covers.\<close>

lemma rebuild_alt:
  fixes inst :: "'c DoraInstall"
  assumes depth: "depth = (case days of Some n \<Rightarrow> n | None \<Rightarrow> windowDays inst)"
  shows "rebuild inst signal late stopsBefore now sourceId days table =
    (let replayed = map (\<lambda>d. d * DAY_LENGTH) (replayedFrom now depth);
         firstDay = (dayOf now - depth) * DAY_LENGTH;
         mine = swept sourceId firstDay ((dayOf now - 1) * DAY_LENGTH + (DAY_LENGTH - 1));
         kept = filter (\<lambda>row. \<not> mine row) table
     in case gather inst signal late now sourceId (addDays firstDay (- windowDays inst)) None of
          Inl e \<Rightarrow> (table, Inl e)
        | Inr gathered \<Rightarrow>
            let rows = replayedRows gathered sourceId (windowDays inst) replayed in
            if stopsBefore \<in> Some ` set replayed then (table, Inl DoraAborted)
            else (kept @ rows,
                  Inr \<lparr>rb_from = firstDay, rb_to = (dayOf now - 1) * DAY_LENGTH + (DAY_LENGTH - 1),
                    rb_days = length (filter (\<lambda>day. replayedDay gathered (windowDays inst) day \<noteq> []) replayed),
                    rb_written = length rows, rb_replaced = length table - length kept,
                    rb_keptBefore = length (filter (\<lambda>row. doraRow sourceId row \<and> ms_capturedAt row < firstDay) (kept @ rows))\<rparr>))"
proof -
  define endOfYesterday where "endOfYesterday = endOfDay (addDays now (- 1))"
  define firstDay where "firstDay = startOfDay (addDays endOfYesterday (- (depth - 1)))"
  note days = rebuild_days [OF endOfYesterday_def firstDay_def]
  have "rebuild inst signal late stopsBefore now sourceId days table =
    (case gather inst signal late now sourceId (addDays firstDay (- windowDays inst)) None of
          Inl e \<Rightarrow> (table, Inl e)
        | Inr gathered \<Rightarrow>
            if stopsBefore \<in> Some ` set (replayDays firstDay endOfYesterday) then (table, Inl DoraAborted)
            else (filter (\<lambda>row. \<not> swept sourceId firstDay endOfYesterday row) table @
                    replayedRows gathered sourceId (windowDays inst) (replayDays firstDay endOfYesterday),
                  Inr \<lparr>rb_from = firstDay, rb_to = endOfYesterday,
                    rb_days = length (filter (\<lambda>day. replayedDay gathered (windowDays inst) day \<noteq> []) (replayDays firstDay endOfYesterday)),
                    rb_written = length (replayedRows gathered sourceId (windowDays inst) (replayDays firstDay endOfYesterday)),
                    rb_replaced = length table - length (filter (\<lambda>row. \<not> swept sourceId firstDay endOfYesterday row) table),
                    rb_keptBefore = length (filter (\<lambda>row. doraRow sourceId row \<and> ms_capturedAt row < firstDay)
                      (filter (\<lambda>row. \<not> swept sourceId firstDay endOfYesterday row) table @
                       replayedRows gathered sourceId (windowDays inst) (replayDays firstDay endOfYesterday)))\<rparr>))"
    unfolding rebuild_def Let_def depth firstDay_def endOfYesterday_def ..
  then show ?thesis unfolding Let_def days(3) unfolding days(1,2) .
qed

text \<open>C30. A replay of the metric history restates its own days and nothing else. It covers the days asked
  for, up to yesterday; the snapshots of other sources, of other series, of earlier days and of today are
  the ones that were there, in the order they were in; each day replayed holds what the readings are over
  the window that ends with it, computed from one gathering; and a second replay right after replaces
  exactly the rows the first one wrote and leaves the table as it found it.\<close>

theorem a_replay_restates_its_days_alone:
  fixes inst :: "'c DoraInstall"
  assumes run: "rebuild inst signal late stopsBefore now sourceId days table = (table1, Inr out)"
    and depth: "depth = (case days of Some n \<Rightarrow> n | None \<Rightarrow> windowDays inst)"
    and restates: "mine = restated sourceId (dayOf now - depth) (dayOf now - 1)"
  shows "filter (\<lambda>row. \<not> mine row) table1 = filter (\<lambda>row. \<not> mine row) table \<and>
    (\<exists>gathered. gather inst signal late now sourceId (addDays ((dayOf now - depth) * DAY_LENGTH) (- windowDays inst)) None = Inr gathered \<and>
       filter mine table1 = concat (map (\<lambda>d. map (snapshotOf sourceId (endOfDay (d * DAY_LENGTH)))
         (computeOver gathered (rollingWindow (windowDays inst) (endOfDay (d * DAY_LENGTH))))) [dayOf now - depth..dayOf now - 1])) \<and>
    (\<exists>out'. rebuild inst signal late stopsBefore now sourceId days table1 = (table1, Inr out') \<and>
       rb_replaced out' = rb_written out \<and> rb_written out' = rb_written out \<and> rb_days out' = rb_days out)"
proof -
  have mine: "mine = swept sourceId ((dayOf now - depth) * DAY_LENGTH) ((dayOf now - 1) * DAY_LENGTH + (DAY_LENGTH - 1))"
    unfolding restates swept_restated ..
  note alt = rebuild_alt [OF depth, where signal = signal and late = late and stopsBefore = stopsBefore and now = now
      and sourceId = sourceId, unfolded Let_def, folded mine]
  from run obtain gathered where g: "gather inst signal late now sourceId (addDays ((dayOf now - depth) * DAY_LENGTH) (- windowDays inst)) None = Inr gathered"
    unfolding alt by (auto split: sum.splits)
  with run have runs: "stopsBefore \<notin> Some ` set (map (\<lambda>d. d * DAY_LENGTH) (replayedFrom now depth))"
    unfolding alt by (auto split: if_splits)
  note alt' = alt [unfolded g sum.case if_not_P [OF runs]]
  from run have t1: "table1 = filter (\<lambda>row. \<not> mine row) table @
      replayedRows gathered sourceId (windowDays inst) (map (\<lambda>d. d * DAY_LENGTH) (replayedFrom now depth))"
    and out: "rb_written out = length (replayedRows gathered sourceId (windowDays inst) (map (\<lambda>d. d * DAY_LENGTH) (replayedFrom now depth)))"
      "rb_days out = length (filter (\<lambda>day. replayedDay gathered (windowDays inst) day \<noteq> []) (map (\<lambda>d. d * DAY_LENGTH) (replayedFrom now depth)))"
    unfolding alt' by auto
  let ?rows = "replayedRows gathered sourceId (windowDays inst) (map (\<lambda>d. d * DAY_LENGTH) (replayedFrom now depth))"
  have all: "mine row" if "row \<in> set ?rows" for row unfolding mine by (rule replayed_rows_swept [OF that])
  then have rows: "filter (\<lambda>row. \<not> mine row) ?rows = []" "filter mine ?rows = ?rows"
    by (simp_all add: filter_empty_conv filter_id_conv)
  have kept: "filter (\<lambda>row. \<not> mine row) table1 = filter (\<lambda>row. \<not> mine row) table" by (simp add: t1 rows(1))
  have "filter mine table1 = ?rows" by (simp add: t1 rows(2) comp_def)
  also have "\<dots> = concat (map (\<lambda>d. map (snapshotOf sourceId (endOfDay (d * DAY_LENGTH)))
         (computeOver gathered (rollingWindow (windowDays inst) (endOfDay (d * DAY_LENGTH))))) [dayOf now - depth..dayOf now - 1])"
    by (simp add: replayedRows_def replayedDay_def replayedFrom_def comp_def)
  finally have days: "filter mine table1 = \<dots>" .
  have table: "filter (\<lambda>row. \<not> mine row) table1 @ ?rows = table1" using t1 kept by simp
  have "length table1 - length (filter (\<lambda>row. \<not> mine row) table1) = rb_written out" unfolding kept out(1) by (simp add: t1)
  then have "\<exists>out'. rebuild inst signal late stopsBefore now sourceId days table1 = (table1, Inr out') \<and>
       rb_replaced out' = rb_written out \<and> rb_written out' = rb_written out \<and> rb_days out' = rb_days out"
    unfolding alt' table out by simp
  with kept g days show ?thesis by blast
qed

text \<open>A stored source that counts its pipelines is always gathered: no call can fail.\<close>

lemma stored_source_gathers:
  assumes "readSpec sourceId (di_sources inst) = Inr spec" and "Sources.SourceSpec.sp_mode spec = StoredMode"
    and "st_failureSource (di_settings inst) = FromPipelines"
  shows "\<exists>g. gather inst signal late now sourceId since repoFilter = Inr g"
  using assms by (simp add: gather_def readerFor_def storeReader_def gatherIncidents_def degraded_def Let_def)

definition dora_source :: Source where
  "dora_source = \<lparr>so_name = ''s'', so_slug = ''s'', so_kind = GitHub, so_baseUrl = [], so_authKind = TokenAuth,
     so_scope = (''acme'', \<lparr>sc_include = None, sc_exclude = None, sc_trackNewRepos = None\<rparr>), so_mode = StoredMode,
     so_webhooksEnabled = False, so_historyDays = None, so_isDefault = False, so_trackers = [], so_envRules = [],
     so_envUrlRules = [], so_versionRules = []\<rparr>"

definition dora_install :: "Plaintext DoraInstall" where
  "dora_install = \<lparr>di_vault = plainVault, di_rx = sample_regex, di_collate = id,
     di_dial = (\<lambda>_. \<lparr>lv_repositories = Inl [], lv_pullRequests = (\<lambda>_. Inl []), lv_pipelines = (\<lambda>_. Inl []),
        lv_deployments = (\<lambda>_ _. ([], Inl [])), lv_merged = (\<lambda>_ _. ([], Inl []))\<rparr>),
     di_incidents = \<lparr>ia_github = (\<lambda>_ _ _ _. Inl []), ia_gitlab = (\<lambda>_ _ _ _. Inl [])\<rparr>,
     di_settings = FALLBACKS\<lparr>st_failureSource := FromPipelines, st_doraWindowDays := 30\<rparr>,
     di_sources = anEmptyInstall\<lparr>sb_sources := [\<lparr>en_id = ''1'', en_value = dora_source, en_createdAt = 0, en_updatedAt = 0\<rparr>]\<rparr>,
     di_envRules = \<lparr>ed_rules = [], ed_selected = []\<rparr>, di_ticketRules = \<lparr>tb_rules = [], tb_trackers = [], tb_attached = []\<rparr>,
     di_sync = \<lparr>db_store = \<lparr>repos = [], pulls = [], pipelines = [], deployments = []\<rparr>, db_states = [], db_deliveries = []\<rparr>\<rparr>"

lemma dora_install_gathers: "\<exists>g. gather dora_install signal late now ''1'' since repoFilter = Inr g"
  by (rule stored_source_gathers [where spec = "\<lparr>sp_mode = StoredMode, sp_scope = so_scope dora_source, sp_kind = GitHub,
       sp_baseUrl = [], sp_historyDays = None\<rparr>"])
    (simp_all add: dora_install_def anEmptyInstall_def readSpec_def entryOf_def dora_source_def Let_def)

definition sample_snapshot :: "instant \<Rightarrow> MetricSnapshot" where
  "sample_snapshot t = \<lparr>ms_sourceId = ''1'', ms_metric = DoraSeries Lead_time, ms_value = 1, ms_dimensions = [], ms_capturedAt = t\<rparr>"

theorem a_replay_restates_its_days_alone_witness:
  "\<exists>table1 out. rebuild dora_install None False None 864000000 ''1'' (Some 3) [sample_snapshot 5, sample_snapshot 700000000] =
      (table1, Inr out) \<and> filter (\<lambda>row. ms_capturedAt row < 604800000) table1 = [sample_snapshot 5]"
proof -
  obtain g where "gather dora_install None False 864000000 ''1''
      (addDays ((dayOf 864000000 - 3) * DAY_LENGTH) (- windowDays dora_install)) None = Inr g"
    using dora_install_gathers by blast
  then obtain table1 out where run:
    "rebuild dora_install None False None 864000000 ''1'' (Some 3) [sample_snapshot 5, sample_snapshot 700000000] = (table1, Inr out)"
    unfolding rebuild_alt [OF refl] Let_def by simp
  let ?mine = "restated ''1'' (dayOf 864000000 - 3) (dayOf 864000000 - 1)"
  have mine: "?mine = restated ''1'' 7 9" by (simp add: dayOf_def DAY_LENGTH_def)
  have "filter (\<lambda>row. \<not> ?mine row) table1 = filter (\<lambda>row. \<not> ?mine row) [sample_snapshot 5, sample_snapshot 700000000]"
    using a_replay_restates_its_days_alone [OF run refl refl] by simp
  then have "filter (\<lambda>row. ms_capturedAt row < 604800000) (filter (\<lambda>row. \<not> ?mine row) table1) = [sample_snapshot 5]"
    unfolding mine by (simp add: restated_def dayOf_def DAY_LENGTH_def sample_snapshot_def)
  moreover have "filter (\<lambda>row. ms_capturedAt row < 604800000) (filter (\<lambda>row. \<not> ?mine row) table1) =
      filter (\<lambda>row. ms_capturedAt row < 604800000) table1"
    unfolding mine filter_filter by (rule filter_cong) (auto simp: restated_def dayOf_def DAY_LENGTH_def)
  ultimately show ?thesis using run by metis
qed

section \<open>A trend counts what its report counts\<close>

lemma filter_update_keys:
  "filter (\<lambda>e. Q (fst e)) (AList.update k v m) =
     (if Q k then AList.update k v (filter (\<lambda>e. Q (fst e)) m) else filter (\<lambda>e. Q (fst e)) m)"
  by (induction m) auto

lemma map_of_filter_keys: "Q k \<Longrightarrow> map_of (filter (\<lambda>e. Q (fst e)) m) k = map_of m k"
  by (induction m) auto

lemma groupBy_filter_keys: "filter (\<lambda>e. Q (fst e)) (groupBy key xs) = groupBy key (filter (\<lambda>x. Q (key x)) xs)"
proof -
  have "filter (\<lambda>e. Q (fst e)) (push_bucket key x m) =
      (if Q (key x) then push_bucket key x (filter (\<lambda>e. Q (fst e)) m) else filter (\<lambda>e. Q (fst e)) m)" for x m
    by (simp add: push_bucket_def Let_def filter_update_keys map_of_filter_keys split: option.split)
  then have "filter (\<lambda>e. Q (fst e)) (fold (push_bucket key) xs m) =
      fold (push_bucket key) (filter (\<lambda>x. Q (key x)) xs) (filter (\<lambda>e. Q (fst e)) m)" for m
    by (induction xs arbitrary: m) simp_all
  from this [of "[]"] show ?thesis by (simp add: groupBy_def)
qed

lemma map_of_head: "map_of m k = (case filter (\<lambda>e. fst e = k) m of [] \<Rightarrow> None | e # _ \<Rightarrow> Some (snd e))"
  by (induction m) auto

lemma map_of_dimensionKey: "map_of (dimensionKey d) k = map_of d k"
proof -
  have "filter (\<lambda>e. fst e = k) (sort_key fst d) = sort_key fst (filter (\<lambda>e. fst e = k) d)"
    by (rule filter_sort)
  also have "\<dots> = filter (\<lambda>e. fst e = k) d" by (rule sort_key_id_if_sorted) (induction d, auto)
  finally show ?thesis unfolding dimensionKey_def by (subst (1 2) map_of_head) simp
qed

lemma matches_key: "matchesDimensions (dimensionKey d) f = matchesDimensions d f"
  by (simp add: matchesDimensions_def map_of_dimensionKey split: option.split)

text \<open>Slicing the readings by dimension is reading the events that have it.\<close>

lemma group_matches:
  assumes "(k, items) \<in> set (groupBy (dimensionKey \<circ> dims) xs)"
  shows "matchesDimensions (dims (hd items)) f = matchesDimensions k f"
proof -
  have "hd items \<in> set items" using groupBy_entry(2) [OF assms] by simp
  then have "dimensionKey (dims (hd items)) = k" using groupBy_entry(1) [OF assms] by auto
  then show ?thesis using matches_key by metis
qed

lemma sliced_frequency:
  "sliced query (deploymentFrequency ds days) =
   deploymentFrequency (filter (\<lambda>d. matchesDimensions (de_dimensions d) (dq_dimensions query)) ds) days"
proof (cases "days \<le> 0")
  case False
  let ?Q = "\<lambda>k. matchesDimensions k (dq_dimensions query)"
  let ?xs = "filter (\<lambda>d. de_status d = DSuccess) ds"
  have "filter (\<lambda>e. ?Q (de_dimensions (hd (snd e)))) (groupBy (dimensionKey \<circ> de_dimensions) ?xs) =
      filter (\<lambda>e. ?Q (fst e)) (groupBy (dimensionKey \<circ> de_dimensions) ?xs)"
    by (rule filter_cong) (auto simp: group_matches)
  also have "\<dots> = groupBy (dimensionKey \<circ> de_dimensions) (filter (\<lambda>d. ?Q ((dimensionKey \<circ> de_dimensions) d)) ?xs)"
    by (rule groupBy_filter_keys)
  also have "filter (\<lambda>d. ?Q ((dimensionKey \<circ> de_dimensions) d)) ?xs =
      filter (\<lambda>d. de_status d = DSuccess) (filter (\<lambda>d. ?Q (de_dimensions d)) ds)"
    by (simp add: comp_def matches_key conj_commute)
  finally show ?thesis using False by (simp add: sliced_def deploymentFrequency_def filter_map split_def comp_def)
qed (simp add: sliced_def deploymentFrequency_def)

lemma filter_concat_entries:
  assumes "\<And>e r. e \<in> set es \<Longrightarrow> r \<in> set (g e) \<Longrightarrow> P r = Q (fst e)"
  shows "filter P (concat (map g es)) = concat (map g (filter (\<lambda>e. Q (fst e)) es))"
  using assms
proof (induction es)
  case (Cons e es)
  have "filter P (g e) = (if Q (fst e) then g e else [])"
    using Cons.prems [of e] by (auto simp: filter_id_conv filter_empty_conv)
  with Cons show ?case by simp
qed simp

lemma measured_dimensions: "r \<in> set (measured m d s) \<Longrightarrow> dr_dimensions r = d"
  by (simp add: measured_mem)

lemma sliced_leadTime:
  "sliced query (leadTimeBreakdown prs) =
   leadTimeBreakdown (filter (\<lambda>p. matchesDimensions (me_dimensions p) (dq_dimensions query)) prs)"
proof -
  let ?Q = "\<lambda>k. matchesDimensions k (dq_dimensions query)"
  have entries: "filter (\<lambda>e. ?Q (fst e)) (groupBy (dimensionKey \<circ> me_dimensions) prs) =
      groupBy (dimensionKey \<circ> me_dimensions) (filter (\<lambda>p. ?Q (me_dimensions p)) prs)"
    using groupBy_filter_keys [of ?Q "dimensionKey \<circ> me_dimensions" prs] by (simp add: comp_def matches_key)
  show ?thesis unfolding sliced_def leadTimeBreakdown_def Let_def entries [symmetric]
    by (rule filter_concat_entries) (auto simp: group_matches dest!: measured_dimensions)
qed

text \<open>The parts of a computation, told apart by their metric.\<close>

lemma frequency_metric: "r \<in> set (deploymentFrequency ds days) \<Longrightarrow> dr_metric r = Deployment_frequency"
  by (auto simp: deploymentFrequency_def split: if_splits)

lemma rate_metric: "r \<in> set (changeFailureRate ds incs src linked) \<Longrightarrow> dr_metric r = Change_failure_rate"
  by (auto simp: changeFailureRate_def Let_def)

lemma measured_metric: "r \<in> set (measured m d s) \<Longrightarrow> dr_metric r = m"
  by (simp add: measured_mem)

lemma mttr_metric: "r \<in> set (mttr ds incs src linked) \<Longrightarrow> dr_metric r = Mttr"
  unfolding mttr_def Let_def set_concat set_map by (blast dest: measured_metric)

lemma lead_metric: "r \<in> set (leadTimeBreakdown prs) \<Longrightarrow> dr_metric r \<in> {Coding_time, Pickup_time, Review_time, Lead_time}"
  by (auto simp: leadTimeBreakdown_def Let_def dest!: measured_metric)

lemma deploy_metric: "r \<in> set (deployTime prs carriers) \<Longrightarrow> dr_metric r = Deploy_time"
  by (auto simp: deployTime_def dest!: measured_metric)

lemma sizeOf_none: "(\<And>r. r \<in> set rs \<Longrightarrow> dr_metric r \<noteq> m) \<Longrightarrow> sizeOf m rs = 0"
  by (auto simp: sizeOf_def filter_empty_conv)

lemma sizeOf_sum: "sizeOf m rs = sum_list (map (\<lambda>r. if dr_metric r = m then dr_sampleSize r else 0) rs)"
  by (induction rs) (simp_all add: sizeOf_def)

lemma map_filter_concat: "List.map_filter f xs = concat (map (\<lambda>x. case f x of None \<Rightarrow> [] | Some y \<Rightarrow> [y]) xs)"
  by (induction xs) (simp_all add: List.map_filter_simps split: option.split)

lemma sizeOf_foldByMetric: "sizeOf m (foldByMetric rs) = sizeOf m rs"
proof -
  let ?h = "\<lambda>r. if dr_metric r = m then dr_sampleSize r else 0"
  have entry: "sizeOf m (case foldMetric (snd e) of None \<Rightarrow> [] | Some r \<Rightarrow> [r]) = sum_list (map ?h (snd e))"
    if "e \<in> set (groupBy dr_metric rs)" for e
  proof -
    obtain k items where e: "e = (k, items)" by (cases e)
    note g = groupBy_entry [OF that [unfolded e]]
    obtain x xs where items: "items = x # xs" using g(2) by (cases items) simp_all
    have all: "\<forall>r \<in> set items. dr_metric r = k" using g(1) by auto
    have "sum_list (map ?h items) = (if k = m then sum_list (map dr_sampleSize items) else 0)"
      using all by (induction items) auto
    with all show ?thesis by (simp add: e items foldMetric_def Let_def foldl_sizes sizeOf_def)
  qed
  have "foldByMetric rs = concat (map (\<lambda>e. case foldMetric (snd e) of None \<Rightarrow> [] | Some r \<Rightarrow> [r]) (groupBy dr_metric rs))"
    unfolding foldByMetric_def map_filter_concat comp_apply ..
  then have "sizeOf m (foldByMetric rs) = sum_list (map (\<lambda>e. sum_list (map ?h (snd e))) (groupBy dr_metric rs))"
    using entry by (simp add: sizeOf_concat comp_def cong: map_cong)
  also have "\<dots> = sizeOf m rs" unfolding groupBy_sum sizeOf_sum ..
  finally show ?thesis .
qed

lemma sizeOf_frequency:
  "0 < days \<Longrightarrow> sizeOf Deployment_frequency (deploymentFrequency ds days) = length (filter (\<lambda>d. de_status d = DSuccess) ds)"
  using groupBy_sum_lengths [of "dimensionKey \<circ> de_dimensions" "filter (\<lambda>d. de_status d = DSuccess) ds"]
  by (simp add: sizeOf_sum deploymentFrequency_def comp_def split_def)

text \<open>Whether an event counts under a metric, and what the sliced readings of a period count.\<close>

definition countsPr :: "DoraMetric \<Rightarrow> MergedPrEvent \<Rightarrow> bool" where
  "countsPr m p \<longleftrightarrow> (if m \<in> {Coding_time, Lead_time} then me_firstCommitAt p \<noteq> None else me_firstReviewAt p \<noteq> None)"

lemma sizeOf_leadTime:
  assumes "m \<in> {Coding_time, Pickup_time, Review_time, Lead_time}"
  shows "sizeOf m (leadTimeBreakdown prs) = length (filter (countsPr m) prs)"
  using assms
  by (intro sizeOf_leadTimeBreakdown)
    (auto simp: sizeOf_measured length_map_filter codingSamples_def leadSamples_def pickupSamples_def reviewSamples_def countsPr_def [abs_def])

lemma sizeOf_sliced_append: "sizeOf m (sliced query (xs @ ys)) = sizeOf m (sliced query xs) + sizeOf m (sliced query ys)"
  by (simp add: sliced_def)

lemma sizeOf_sliced_none: "(\<And>r. r \<in> set rs \<Longrightarrow> dr_metric r \<noteq> m) \<Longrightarrow> sizeOf m (sliced query rs) = 0"
  by (rule sizeOf_none) (auto simp: sliced_def)

lemma sizeOf_computed_frequency:
  assumes "0 < daysBetween period"
  shows "sizeOf Deployment_frequency (sliced query (computeOver events period)) =
    length (filter (\<lambda>d. inPeriod (de_createdAt d) period \<and> matchesDimensions (de_dimensions d) (dq_dimensions query) \<and>
      de_status d = DSuccess) (ge_deployments events))"
proof -
  have "sizeOf Deployment_frequency (sliced query (changeFailureRate ds incs src linked)) = 0" for ds incs src linked
    by (rule sizeOf_sliced_none) (auto dest: rate_metric)
  moreover have "sizeOf Deployment_frequency (sliced query (mttr ds incs src linked)) = 0" for ds incs src linked
    by (rule sizeOf_sliced_none) (auto dest: mttr_metric)
  moreover have "sizeOf Deployment_frequency (sliced query (leadTimeBreakdown prs)) = 0" for prs
    by (rule sizeOf_sliced_none) (auto dest: lead_metric)
  moreover have "sizeOf Deployment_frequency (sliced query (deployTime prs carriers)) = 0" for prs carriers
    by (rule sizeOf_sliced_none) (auto dest: deploy_metric)
  ultimately show ?thesis
    unfolding computeOver_def Let_def sizeOf_sliced_append sliced_frequency sizeOf_frequency [OF assms] within_inPeriod
    by (simp add: conj_ac)
qed

lemma sizeOf_computed_lead:
  assumes "m \<in> {Coding_time, Pickup_time, Review_time, Lead_time}"
  shows "sizeOf m (sliced query (computeOver events period)) =
    length (filter (\<lambda>p. inPeriod (me_mergedAt p) period \<and> matchesDimensions (me_dimensions p) (dq_dimensions query) \<and>
      countsPr m p) (ge_prs events))"
proof -
  have "sizeOf m (sliced query (changeFailureRate ds incs src linked)) = 0" for ds incs src linked
    by (rule sizeOf_sliced_none) (use assms in \<open>auto dest: rate_metric\<close>)
  moreover have "sizeOf m (sliced query (mttr ds incs src linked)) = 0" for ds incs src linked
    by (rule sizeOf_sliced_none) (use assms in \<open>auto dest: mttr_metric\<close>)
  moreover have "sizeOf m (sliced query (deploymentFrequency ds days)) = 0" for ds days
    by (rule sizeOf_sliced_none) (use assms in \<open>auto dest: frequency_metric\<close>)
  moreover have "sizeOf m (sliced query (deployTime prs carriers)) = 0" for prs carriers
    by (rule sizeOf_sliced_none) (use assms in \<open>auto dest: deploy_metric\<close>)
  ultimately show ?thesis
    unfolding computeOver_def Let_def sizeOf_sliced_append sliced_leadTime sizeOf_leadTime [OF assms] within_inPeriod
    by (simp add: conj_ac)
qed

lemma length_filter_one:
  assumes "\<And>i j. i < length xs \<Longrightarrow> j < length xs \<Longrightarrow> Q (xs ! i) \<Longrightarrow> Q (xs ! j) \<Longrightarrow> i = j"
  shows "length (filter Q xs) = (if \<exists>x \<in> set xs. Q x then 1 else 0)"
proof (cases "\<exists>x \<in> set xs. Q x")
  case True
  then obtain i where i: "i < length xs" "Q (xs ! i)" by (metis in_set_conv_nth)
  with assms have "{j. j < length xs \<and> Q (xs ! j)} = {i}" by blast
  with True show ?thesis by (simp add: length_filter_conv_card)
qed (simp add: filter_empty_conv)

lemma slices_count:
  assumes p: "dpd_from p < dpd_to p" and m: "1 \<le> maxSlices"
  shows "sum_list (map (\<lambda>s. length (filter (\<lambda>x. inPeriod (f x) s \<and> P x) xs)) (sliceRange p maxSlices)) =
    length (filter (\<lambda>x. inPeriod (f x) p \<and> P x) xs)"
proof (induction xs)
  case (Cons x xs)
  let ?S = "sliceRange p maxSlices"
  have "length (filter (inPeriod (f x)) ?S) = (if \<exists>s \<in> set ?S. inPeriod (f x) s then 1 else 0)"
    by (rule length_filter_one) (use slices_partition_the_period [OF p m] in blast)
  also have "(\<exists>s \<in> set ?S. inPeriod (f x) s) \<longleftrightarrow> inPeriod (f x) p"
    using slices_partition_the_period [OF p m] by blast
  finally have one: "sum_list (map (\<lambda>s. if inPeriod (f x) s then 1 else 0) ?S) = (if inPeriod (f x) p then 1 else (0 :: nat))"
    by (simp add: length_filter_sum)
  have "sum_list (map (\<lambda>s. length (filter (\<lambda>x. inPeriod (f x) s \<and> P x) (x # xs))) ?S) =
      sum_list (map (\<lambda>s. if inPeriod (f x) s \<and> P x then 1 else 0) ?S) +
      sum_list (map (\<lambda>s. length (filter (\<lambda>x. inPeriod (f x) s \<and> P x) xs)) ?S)"
    by (subst sum_list_addf [symmetric]) (rule arg_cong [where f = sum_list], simp)
  also have "sum_list (map (\<lambda>s. if inPeriod (f x) s \<and> P x then 1 else 0) ?S) = (if inPeriod (f x) p \<and> P x then 1 else (0 :: nat))"
    using one by (cases "P x") simp_all
  finally show ?case using Cons.IH by simp
qed simp

lemma slices_positive:
  assumes p: "dpd_from p < dpd_to p" and m: "1 \<le> maxSlices" and s: "s \<in> set (sliceRange p maxSlices)"
  shows "0 < daysBetween s"
proof -
  define span where "span = dpd_to p - dpd_from p"
  define n where "n = nat (max 1 (min maxSlices (span div DAY_LENGTH)))"
  define b where "b = (\<lambda>i. js_round (of_int (dpd_from p) + of_nat i * (of_int span / of_nat n)))"
  have n: "0 < n" by (simp add: n_def)
  have span: "0 < span" using p by (simp add: span_def)
  have sl: "sliceRange p maxSlices = map (\<lambda>i. \<lparr>dpd_from = b i,
      dpd_to = (if i = n - 1 then dpd_to p else b (i + 1) - 1), dpd_windowDays = None\<rparr>) [0..<n]"
    unfolding sliceRange_def Let_def span_def [symmetric] n_def [symmetric] b_def using m span by simp
  have bn: "b n = dpd_to p" using n by (simp add: b_def span_def flip: of_int_add)
  have step: "b i + 1 < b (i + 1)" if "1 < n" for i
  proof -
    have "int n \<le> span div DAY_LENGTH" using that by (auto simp: n_def)
    then have "int n * 86400000 \<le> span" by (simp add: DAY_LENGTH_def)
    then have "(of_int (int n * 86400000) :: rat) \<le> of_int span" by (simp only: of_int_le_iff)
    then have "of_nat n * (86400000 :: rat) \<le> of_int span" by simp
    then have big: "86400000 \<le> (of_int span / of_nat n :: rat)" using n by (simp add: pos_le_divide_eq mult.commute)
    define x where "x = (of_int (dpd_from p) + of_nat i * (of_int span / of_nat n) :: rat)"
    have next': "(of_nat (i + 1) :: rat) * y = of_nat i * y + y" for y by (simp add: algebra_simps)
    have "b i = js_round x" by (simp add: b_def x_def)
    moreover have "b (i + 1) = js_round (x + of_int span / of_nat n)" by (simp only: b_def x_def next' add.assoc)
    moreover have "js_round (x + 86400000) \<le> js_round (x + of_int span / of_nat n)" by (rule js_round_mono) (simp add: big)
    moreover have "js_round (x + 86400000) = js_round x + 86400000" unfolding js_round_def by linarith
    ultimately show ?thesis by linarith
  qed
  from s obtain i where i: "i < n" "s = \<lparr>dpd_from = b i, dpd_to = (if i = n - 1 then dpd_to p else b (i + 1) - 1), dpd_windowDays = None\<rparr>"
    unfolding sl by auto
  have "dpd_from s < dpd_to s"
  proof (cases "n = 1")
    case True
    with i have "s = \<lparr>dpd_from = b 0, dpd_to = dpd_to p, dpd_windowDays = None\<rparr>" by simp
    with p show ?thesis by (simp add: b_def)
  next
    case False
    with n have "1 < n" by simp
    from step [OF this, of i] i bn show ?thesis by (cases "i = n - 1") auto
  qed
  then show ?thesis by (simp add: daysBetween_def)
qed

text \<open>C31. A trend counts what its report counts. Asked for a trend over a period that ends after it
  starts, the report is the one that is asked for without it, the trend has between one point and
  as many as were asked for, and for five of the metrics (the deployment frequency, the lead time
  and its coding, pickup and review parts) the samples of the points add up to the samples of the
  reading, under the filter of the report: every deployment and every merged request they count is
  counted in exactly one point. Nothing is said of the failure rate, the restore time and the deploy
  time, which pair events that can fall in different slices: a request merged in one slice and
  deployed in the next is in no point of the deploy time.\<close>

theorem a_trend_counts_what_its_report_counts:
  assumes run: "reportOverTime inst signal late now sourceId query maxPoints = Inr r" and points: "1 \<le> maxPoints"
    and period: "dpd_from (do_period r) < dpd_to (do_period r)"
  shows "report inst signal late now sourceId query = Inr (r\<lparr>do_trend := []\<rparr>) \<and>
    1 \<le> length (do_trend r) \<and> int (length (do_trend r)) \<le> maxPoints \<and>
    (\<forall>m \<in> {Deployment_frequency, Coding_time, Pickup_time, Review_time, Lead_time}.
       sum_list (map (sizeOf m) (do_trend r)) = sizeOf m (do_results r))"
proof -
  from run obtain b where b: "build inst signal late now sourceId query maxPoints = Inr b" and r: "r = reportOf inst query b"
    by (auto simp: reportOverTime_def map_sum_def split: sum.splits)
  from b obtain p gathered where
    p: "resolvePeriod (PeriodQuery.truncate query) (windowDays inst) now = Inr p" and
    g: "gather inst signal late now sourceId (dpd_from p) (dq_repos query) = Inr gathered" and
    bu: "b = \<lparr>bu_results = computeOver gathered p, bu_repos = ge_allRepos gathered, bu_period = p,
      bu_slices = map (computeOver gathered) (sliceRange p maxPoints), bu_truncated = ge_truncated gathered\<rparr>"
    by (auto simp: build_def split: sum.splits)
  have fromto: "dpd_from p < dpd_to p" using period by (simp add: r bu reportOf_def)
  then have days: "0 < daysBetween p" by (simp add: daysBetween_def)
  note slices = slices_partition_the_period [OF fromto points]
  have "report inst signal late now sourceId query = Inr (r\<lparr>do_trend := []\<rparr>)"
    using p g by (simp add: report_def build_def r bu reportOf_def sliceRange_def Let_def)
  moreover have "length (do_trend r) = length (sliceRange p maxPoints)" by (simp add: r bu reportOf_def)
  moreover have "sum_list (map (sizeOf m) (do_trend r)) = sizeOf m (do_results r)"
    if m: "m \<in> {Deployment_frequency, Coding_time, Pickup_time, Review_time, Lead_time}" for m
  proof -
    have "sum_list (map (sizeOf m) (do_trend r)) =
        sum_list (map (\<lambda>s. sizeOf m (sliced query (computeOver gathered s))) (sliceRange p maxPoints))"
      by (simp add: r bu reportOf_def sizeOf_foldByMetric comp_def)
    also have "\<dots> = sizeOf m (sliced query (computeOver gathered p))"
    proof (cases "m = Deployment_frequency")
      case True
      have "map (\<lambda>s. sizeOf m (sliced query (computeOver gathered s))) (sliceRange p maxPoints) =
          map (\<lambda>s. length (filter (\<lambda>d. inPeriod (de_createdAt d) s \<and> matchesDimensions (de_dimensions d) (dq_dimensions query) \<and>
            de_status d = DSuccess) (ge_deployments gathered))) (sliceRange p maxPoints)"
        unfolding True by (intro map_cong refl sizeOf_computed_frequency slices_positive [OF fromto points])
      from arg_cong [where f = sum_list, OF this] show ?thesis
        unfolding True sizeOf_computed_frequency [OF days] slices_count [OF fromto points, symmetric] .
    next
      case False
      with m have "m \<in> {Coding_time, Pickup_time, Review_time, Lead_time}" by blast
      then show ?thesis by (simp only: sizeOf_computed_lead slices_count [OF fromto points])
    qed
    also have "\<dots> = sizeOf m (do_results r)" by (simp add: r bu reportOf_def sizeOf_foldByMetric)
    finally show ?thesis .
  qed
  ultimately show ?thesis using slices by (intro conjI ballI) simp_all
qed

definition sample_query :: DoraQuery where
  "sample_query = \<lparr>pq_from = None, pq_to = None, pq_windowDays = None, dq_repos = None, dq_dimensions = None\<rparr>"

theorem a_trend_counts_what_its_report_counts_witness:
  "\<exists>r. reportOverTime dora_install None False 8640000000 ''1'' sample_query 12 = Inr r \<and>
     1 \<le> length (do_trend r) \<and>
     sum_list (map (sizeOf Lead_time) (do_trend r)) = sizeOf Lead_time (do_results r)"
proof -
  have window: "windowDays dora_install = 30" by (simp add: windowDays_def dora_install_def)
  have "resolvePeriod (PeriodQuery.truncate sample_query) 30 8640000000 =
      Inr \<lparr>dpd_from = 6048000000, dpd_to = 8640000000, dpd_windowDays = Some 30\<rparr>"
    by (simp add: resolvePeriod_def sample_query_def PeriodQuery.truncate_def DAY_LENGTH_def Let_def)
  moreover obtain g where "gather dora_install None False 8640000000 ''1'' 6048000000 None = Inr g"
    using dora_install_gathers by blast
  ultimately obtain r where r: "reportOverTime dora_install None False 8640000000 ''1'' sample_query 12 = Inr r"
    and "do_period r = \<lparr>dpd_from = 6048000000, dpd_to = 8640000000, dpd_windowDays = Some 30\<rparr>"
    by (simp add: reportOverTime_def build_def window reportOf_def sample_query_def)
  with a_trend_counts_what_its_report_counts [OF r] show ?thesis by auto
qed

section \<open>A listing that fails\<close>

lemma filter_foldByMetric: "filter (\<lambda>r. dr_metric r = m) (foldByMetric rs) = foldByMetric (filter (\<lambda>r. dr_metric r = m) rs)"
proof -
  have entry: "filter (\<lambda>r. dr_metric r = m) (case foldMetric (snd e) of None \<Rightarrow> [] | Some r \<Rightarrow> [r]) =
      (if fst e = m then (case foldMetric (snd e) of None \<Rightarrow> [] | Some r \<Rightarrow> [r]) else [])"
    if "e \<in> set (groupBy dr_metric rs)" for e
  proof -
    obtain k items where e: "e = (k, items)" by (cases e)
    note g = groupBy_entry [OF that [unfolded e]]
    obtain x xs where items: "items = x # xs" using g(2) by (cases items) simp_all
    have "x \<in> set (filter (\<lambda>x. dr_metric x = k) rs)" using g(1) items by (metis list.set_intros(1))
    then show ?thesis by (simp add: e items foldMetric_def Let_def)
  qed
  have drop: "concat (map (\<lambda>e. if Q e then g e else []) es) = concat (map g (filter Q es))"
    for Q and g :: "'x \<Rightarrow> 'y list" and es by (induction es) simp_all
  have "filter (\<lambda>r. dr_metric r = m) (foldByMetric rs) =
      concat (map (\<lambda>e. filter (\<lambda>r. dr_metric r = m) (case foldMetric (snd e) of None \<Rightarrow> [] | Some r \<Rightarrow> [r])) (groupBy dr_metric rs))"
    unfolding foldByMetric_def map_filter_concat comp_apply filter_concat map_map comp_def ..
  also have "\<dots> = concat (map (\<lambda>e. if fst e = m then (case foldMetric (snd e) of None \<Rightarrow> [] | Some r \<Rightarrow> [r]) else []) (groupBy dr_metric rs))"
    using entry by (intro arg_cong [where f = concat] map_cong refl)
  also have "\<dots> = concat (map (\<lambda>e. case foldMetric (snd e) of None \<Rightarrow> [] | Some r \<Rightarrow> [r]) (filter (\<lambda>e. fst e = m) (groupBy dr_metric rs)))"
    by (rule drop)
  also have "filter (\<lambda>e. fst e = m) (groupBy dr_metric rs) = groupBy dr_metric (filter (\<lambda>r. dr_metric r = m) rs)"
    by (rule groupBy_filter_keys)
  finally show ?thesis unfolding foldByMetric_def map_filter_concat comp_apply .
qed

lemma filter_sliced: "filter (\<lambda>r. dr_metric r = m) (sliced query rs) = sliced query (filter (\<lambda>r. dr_metric r = m) rs)"
  by (simp add: sliced_def conj_commute)

lemma computeOver_lead:
  assumes "m \<in> {Coding_time, Pickup_time, Review_time, Lead_time}"
  shows "filter (\<lambda>r. dr_metric r = m) (computeOver events period) =
    filter (\<lambda>r. dr_metric r = m) (leadTimeBreakdown (filter (\<lambda>p. within_period (me_mergedAt p) period) (ge_prs events)))"
proof -
  have none: "filter (\<lambda>r. dr_metric r = m) rs = []" if "\<And>r. r \<in> set rs \<Longrightarrow> dr_metric r \<notin> {Coding_time, Pickup_time, Review_time, Lead_time}" for rs
    using that assms by (auto simp: filter_empty_conv)
  have "filter (\<lambda>r. dr_metric r = m) (deploymentFrequency ds days) = []" for ds days
    by (rule none) (auto dest: frequency_metric)
  moreover have "filter (\<lambda>r. dr_metric r = m) (changeFailureRate ds incs src linked) = []" for ds incs src linked
    by (rule none) (auto dest: rate_metric)
  moreover have "filter (\<lambda>r. dr_metric r = m) (mttr ds incs src linked) = []" for ds incs src linked
    by (rule none) (auto dest: mttr_metric)
  moreover have "filter (\<lambda>r. dr_metric r = m) (deployTime prs carriers) = []" for prs carriers
    by (rule none) (auto dest: deploy_metric)
  ultimately show ?thesis by (simp add: computeOver_def Let_def)
qed

lemma carriersOf_no_deployments: "carriersOf (carriedBy prs [] component) pr = []"
proof -
  have "fold (carryStep [] component) prs m = m" for m
    by (induction prs arbitrary: m) (simp_all add: carryStep_def)
  then show ?thesis by (simp add: carriedBy_def carriersOf_def successTimeline_def)
qed

lemma computeOver_no_deployments:
  assumes "ge_deployments events = []" and "r \<in> set (computeOver events period)"
  shows "dr_metric r \<notin> {Deployment_frequency, Change_failure_rate, Deploy_time}"
proof -
  have "fold (\<lambda>pr. fold (landingStep pr) (carriersOf (carriedBy prs [] component) pr)) xs [] = []" for prs xs component
    by (induction xs) (simp_all add: carriersOf_no_deployments)
  then have "deployTime prs (carriedBy prs [] component) = []" for prs component by (simp add: deployTime_def)
  with assms show ?thesis
    by (auto simp: computeOver_def Let_def deploymentFrequency_def changeFailureRate_def knownDeployments_def
        dest: mttr_metric lead_metric split: if_splits)
qed

text \<open>The installation whose platform refuses to list deployments, having told the sink \<open>told\<close>.\<close>

definition muted :: "TruncatedRead list \<Rightarrow> string \<Rightarrow> 'c DoraInstall \<Rightarrow> 'c DoraInstall" where
  "muted told e inst = inst\<lparr>di_dial := (\<lambda>ctx. (di_dial inst ctx)\<lparr>lv_deployments := (\<lambda>_ _. (told, Inl e))\<rparr>)\<rparr>"

lemma muted_simps [simp]:
  "di_vault (muted b e inst) = di_vault inst" "di_rx (muted b e inst) = di_rx inst" "di_collate (muted b e inst) = di_collate inst"
  "di_settings (muted b e inst) = di_settings inst" "di_sources (muted b e inst) = di_sources inst"
  "di_envRules (muted b e inst) = di_envRules inst" "di_ticketRules (muted b e inst) = di_ticketRules inst"
  "di_sync (muted b e inst) = di_sync inst" "di_incidents (muted b e inst) = di_incidents inst" "windowDays (muted b e inst) = windowDays inst"
  "di_dial (muted b e inst) ctx = (di_dial inst ctx)\<lparr>lv_deployments := (\<lambda>_ _. (b, Inl e))\<rparr>"
  by (simp_all add: muted_def windowDays_def)

lemma gatherIncidents_muted [simp]: "gatherIncidents (muted b e inst) = gatherIncidents inst"
  by (intro ext) (simp only: gatherIncidents_def muted_simps)

lemma gatherIncidents_late:
  "gatherIncidents inst signal False sourceId since rs = Inr is \<Longrightarrow>
   gatherIncidents inst signal True sourceId since rs \<in> {Inr is, Inl DoraAborted}"
  by (auto simp: gatherIncidents_def degraded_def split: option.splits sum.splits if_splits)

text \<open>What the listing of the merged requests tells the sink when a source is gathered.\<close>

definition mergedCuts :: "'c DoraInstall \<Rightarrow> string \<Rightarrow> instant \<Rightarrow> string list option \<Rightarrow> TruncatedRead list" where
  "mergedCuts inst sourceId since repoFilter =
     (case resolveContext (di_vault inst) (di_settings inst) sourceId (di_sources inst) of
        Inl _ \<Rightarrow> []
      | Inr ctx \<Rightarrow>
          (case lv_repositories (di_dial inst ctx) of
             Inl _ \<Rightarrow> []
           | Inr all \<Rightarrow> fst (lv_merged (di_dial inst ctx) (filterRepos all repoFilter) since)))"

lemma gather_muted:
  assumes spec: "readSpec sourceId (di_sources inst) = Inr spec" and live: "Sources.SourceSpec.sp_mode spec = LiveMode"
    and ok: "gather inst signal False now sourceId since repoFilter = Inr g"
  shows "gather (muted told e inst) signal False now sourceId since repoFilter =
      Inr (g\<lparr>ge_deployments := [], ge_truncated := seenOnce (told @ mergedCuts inst sourceId since repoFilter)\<rparr>)"
    and "gather (muted told e inst) signal True now sourceId since repoFilter = Inl DoraAborted"
proof -
  from ok spec live obtain ctx where ctx: "resolveContext (di_vault inst) (di_settings inst) sourceId (di_sources inst) = Inr ctx"
    by (auto simp: gather_def readerFor_def split: sum.splits)
  let ?c = "di_dial inst ctx"
  from ok spec live ctx obtain all where all: "lv_repositories ?c = Inr all"
    by (auto simp: gather_def readerFor_def connectorReader_def split: sum.splits)
  let ?rs = "filterRepos all repoFilter"
  from ok spec live ctx all obtain incidents where incidents: "gatherIncidents inst signal False sourceId since ?rs = Inr incidents"
    by (auto simp: gather_def readerFor_def connectorReader_def Let_def split: sum.splits)
  note facts = spec live ctx all incidents
  from ok facts show "gather (muted told e inst) signal False now sourceId since repoFilter =
      Inr (g\<lparr>ge_deployments := [], ge_truncated := seenOnce (told @ mergedCuts inst sourceId since repoFilter)\<rparr>)"
    by (auto simp: gather_def readerFor_def connectorReader_def Let_def degraded_def toDeploymentEvents_def mergedCuts_def
        split: sum.splits)
  from gatherIncidents_late [OF incidents] facts
  show "gather (muted told e inst) signal True now sourceId since repoFilter = Inl DoraAborted"
    by (auto simp: gather_def readerFor_def connectorReader_def Let_def degraded_def split: sum.splits)
qed

text \<open>C32. A listing that fails spoils only the readings that need it. When the platform of a live source
  refuses to list deployments, a report that would have been made is still made: the lead time and its three parts read as they
  would have, no reading is made of deployments (none of zero either), and the period and the
  repositories are the same. What the report says was cut short is what the refused listing had
  told before it failed, if anything, and all the listing of merged requests tells, each once. Only
  a request its client has left is given up.\<close>

theorem a_failed_listing_spoils_only_its_own:
  assumes spec: "readSpec sourceId (di_sources inst) = Inr spec" and live: "Sources.SourceSpec.sp_mode spec = LiveMode"
    and ok: "report inst signal False now sourceId query = Inr r"
  shows "(\<exists>r'. report (muted told e inst) signal False now sourceId query = Inr r' \<and>
      (\<forall>m \<in> {Coding_time, Pickup_time, Review_time, Lead_time}.
         filter (\<lambda>x. dr_metric x = m) (do_results r') = filter (\<lambda>x. dr_metric x = m) (do_results r)) \<and>
      (\<forall>x \<in> set (do_results r'). dr_metric x \<notin> {Deployment_frequency, Change_failure_rate, Deploy_time}) \<and>
      do_period r' = do_period r \<and> do_repos r' = do_repos r \<and>
      do_truncated r' = seenOnce (told @ mergedCuts inst sourceId (dpd_from (do_period r)) (dq_repos query))) \<and>
    report (muted told e inst) signal True now sourceId query = Inl DoraAborted"
proof -
  from ok obtain p g where p: "resolvePeriod (PeriodQuery.truncate query) (windowDays inst) now = Inr p"
    and g: "gather inst signal False now sourceId (dpd_from p) (dq_repos query) = Inr g"
    by (auto simp: report_def build_def map_sum_def split: sum.splits)
  let ?b = "\<lambda>g. \<lparr>bu_results = computeOver g p, bu_repos = ge_allRepos g, bu_period = p,
      bu_slices = map (computeOver g) (sliceRange p 0), bu_truncated = ge_truncated g\<rparr>"
  let ?cuts = "seenOnce (told @ mergedCuts inst sourceId (dpd_from p) (dq_repos query))"
  let ?g' = "g\<lparr>ge_deployments := [], ge_truncated := ?cuts\<rparr>"
  let ?r' = "reportOf (muted told e inst) query (?b ?g')"
  have r: "r = reportOf inst query (?b g)" using ok p g by (simp add: report_def build_def)
  have r': "report (muted told e inst) signal False now sourceId query = Inr ?r'"
    using p gather_muted(1) [OF spec live g] by (simp add: report_def build_def)
  have late: "report (muted told e inst) signal True now sourceId query = Inl DoraAborted"
    using p gather_muted(2) [OF spec live g] by (simp add: report_def build_def)
  have "filter (\<lambda>x. dr_metric x = m) (do_results ?r') = filter (\<lambda>x. dr_metric x = m) (do_results r)"
    if "m \<in> {Coding_time, Pickup_time, Review_time, Lead_time}" for m
    unfolding r reportOf_def DoraReport.simps Built.simps filter_foldByMetric filter_sliced computeOver_lead [OF that] by simp
  moreover have "dr_metric x \<notin> {Deployment_frequency, Change_failure_rate, Deploy_time}" if x: "x \<in> set (do_results ?r')" for x
  proof
    assume "dr_metric x \<in> {Deployment_frequency, Change_failure_rate, Deploy_time}"
    then have none: "filter (\<lambda>y. dr_metric y = dr_metric x) (computeOver ?g' p) = []"
      using computeOver_no_deployments [of ?g' _ p] by (auto simp: filter_empty_conv)
    have "filter (\<lambda>y. dr_metric y = dr_metric x) (do_results ?r') = []"
      unfolding reportOf_def DoraReport.simps Built.simps filter_foldByMetric filter_sliced none
      by (simp add: foldByMetric_def sliced_def List.map_filter_simps)
    with x show False unfolding filter_empty_conv by blast
  qed
  moreover have "do_period ?r' = do_period r" "do_repos ?r' = do_repos r" "do_truncated ?r' = ?cuts" "do_period r = p"
    by (simp_all add: r reportOf_def)
  ultimately show ?thesis using r' late by metis
qed

text \<open>A live source on a platform that answers nothing but its repositories.\<close>

definition live_install :: "Plaintext DoraInstall" where
  "live_install = dora_install\<lparr>di_dial := (\<lambda>_. \<lparr>lv_repositories = Inr [''shop''], lv_pullRequests = (\<lambda>_. Inr []), lv_pipelines = (\<lambda>_. Inr []),
        lv_deployments = (\<lambda>_ _. ([(''shop'', TruncDeployments)], Inr [])),
        lv_merged = (\<lambda>_ _. ([(''shop'', TruncMerged)], Inr []))\<rparr>),
     di_sources := anEmptyInstall\<lparr>sb_sources := [\<lparr>en_id = ''1'', en_value = dora_source\<lparr>so_mode := LiveMode\<rparr>, en_createdAt = 0, en_updatedAt = 0\<rparr>],
       sb_credentials := [(''1'', TokenPlain ''t'')]\<rparr>\<rparr>"

theorem a_failed_listing_spoils_only_its_own_witness:
  "(\<exists>r'. report (muted [] ''403'' live_install) None False 8640000000 ''1'' sample_query = Inr r' \<and>
     do_repos r' = [''shop''] \<and> do_truncated r' = [(''shop'', TruncMerged)]) \<and>
   report (muted [] ''403'' live_install) None True 8640000000 ''1'' sample_query = Inl DoraAborted"
proof -
  have spec: "readSpec ''1'' (di_sources live_install) = Inr \<lparr>sp_mode = LiveMode, sp_scope = so_scope dora_source, sp_kind = GitHub,
       sp_baseUrl = [], sp_historyDays = None\<rparr>"
    by (simp add: live_install_def readSpec_def entryOf_def dora_source_def Let_def)
  have window: "windowDays live_install = 30" by (simp add: windowDays_def live_install_def dora_install_def)
  have period: "resolvePeriod (PeriodQuery.truncate sample_query) 30 8640000000 =
      Inr \<lparr>dpd_from = 6048000000, dpd_to = 8640000000, dpd_windowDays = Some 30\<rparr>"
    by (simp add: resolvePeriod_def sample_query_def PeriodQuery.truncate_def DAY_LENGTH_def Let_def)
  have "\<exists>g. gather live_install None False 8640000000 ''1'' 6048000000 None = Inr g \<and> ge_allRepos g = [''shop'']"
    using spec by (simp add: gather_def readerFor_def connectorReader_def gatherIncidents_def resolveContext_def
        live_install_def dora_install_def degraded_def anEmptyInstall_def entryOf_def plainVault_def dora_source_def
        buildAuth_def Let_def)
  moreover have repos: "dq_repos sample_query = None" by (simp add: sample_query_def)
  ultimately obtain r where r: "report live_install None False 8640000000 ''1'' sample_query = Inr r" "do_repos r = [''shop'']"
    by (auto simp: report_def build_def window period reportOf_def repos)
  have cuts: "seenOnce ([] @ mergedCuts live_install ''1'' since None) = [(''shop'', TruncMerged)]" for since
    by (simp add: mergedCuts_def live_install_def dora_install_def anEmptyInstall_def entryOf_def plainVault_def
        dora_source_def buildAuth_def resolveContext_def seenOnce_def filterRepos_def Let_def)
  from a_failed_listing_spoils_only_its_own [OF spec _ r(1), of "[]" "''403''", unfolded repos cuts] r(2) show ?thesis by auto
qed

end
