(* ===== verification/Retention.thy ===== *)
theory Retention
  imports Readers Dora_Service
begin

text \<open>
  How far back the store goes: the sweep of \<open>back/src/ingest/retention.service.ts\<close> and the figures of
  \<open>back/src/ingest/coverage.service.ts\<close>. A source keeps the depth it is ingested to and a margin; the
  settings are whole numbers of days. The sweep is one transaction.

  The theorem shows that no report a source is deep enough for sees a sweep.
\<close>

section \<open>The sweep\<close>

definition DELIVERY_RETENTION_DAYS :: int where "DELIVERY_RETENTION_DAYS = 7"

record PruneOutcome =
  po_pipelines :: nat
  po_deployments :: nat
  po_pullRequests :: nat
  po_deliveries :: nat

definition cutoffOf :: "AppSettings \<Rightarrow> instant \<Rightarrow> Source entry \<Rightarrow> instant" where
  "cutoffOf settings now e =
     now - (depthDays (so_historyDays (en_value e)) \<lfloor>st_doraWindowDays settings\<rfloor> + \<lfloor>st_retentionMarginDays settings\<rfloor>) * DAY_MS"

definition sweptPipeline :: "string \<times> instant \<Rightarrow> key \<Rightarrow> PipelineRow \<Rightarrow> bool" where
  "sweptPipeline sweep k r \<longleftrightarrow> fst k = fst sweep \<and> plr_createdAt r < snd sweep"

definition sweptDeployment :: "string \<times> instant \<Rightarrow> key \<Rightarrow> DeploymentRow \<Rightarrow> bool" where
  "sweptDeployment sweep k r \<longleftrightarrow> fst k = fst sweep \<and> dpr_createdAt r < snd sweep"

definition sweptPull :: "string \<times> instant \<Rightarrow> key \<Rightarrow> PullRequestRow \<Rightarrow> bool" where
  "sweptPull sweep k r \<longleftrightarrow> fst k = fst sweep \<and> pr_state r \<notin> set ON_BOARD \<and> pr_updatedAt r < snd sweep"

text \<open>The deletions of one source, in the order they are queued, with their counts.\<close>

definition sweepSource :: "string \<times> instant \<Rightarrow> Store \<times> PruneOutcome \<Rightarrow> Store \<times> PruneOutcome" where
  "sweepSource sweep acc =
     (let (st, out) = acc;
          (ps, n1) = deleteMany (sweptPipeline sweep) (pipelines st);
          (ds, n2) = deleteMany (sweptDeployment sweep) (deployments st);
          (prs, n3) = deleteMany (sweptPull sweep) (pulls st)
      in (st\<lparr>pipelines := ps, deployments := ds, pulls := prs\<rparr>,
          out\<lparr>po_pipelines := po_pipelines out + n1, po_deployments := po_deployments out + n2,
              po_pullRequests := po_pullRequests out + n3\<rparr>))"

definition pruneStore :: "AppSettings \<Rightarrow> Source catalogue \<Rightarrow> instant \<Rightarrow> SyncDb \<Rightarrow> SyncDb \<times> PruneOutcome" where
  "pruneStore settings sources now db =
     (let sweeps = map (\<lambda>e. (en_id e, cutoffOf settings now e)) sources;
          (st, out) = fold sweepSource sweeps (db_store db, \<lparr>po_pipelines = 0, po_deployments = 0, po_pullRequests = 0, po_deliveries = 0\<rparr>);
          (ws, n) = deleteMany (\<lambda>_ w. wd_receivedAt w < now - DELIVERY_RETENTION_DAYS * DAY_MS) (db_deliveries db)
      in (db\<lparr>db_store := st, db_deliveries := ws\<rparr>, out\<lparr>po_deliveries := n\<rparr>))"

section \<open>Coverage\<close>

record CoverageSpan =
  cv_from :: "instant option"
  cv_to :: "instant option"
  cv_days :: "int option"
  cv_count :: nat

definition EMPTY_SPAN :: CoverageSpan where
  "EMPTY_SPAN = \<lparr>cv_from = None, cv_to = None, cv_days = None, cv_count = 0\<rparr>"

definition daysSince :: "instant \<Rightarrow> instant \<Rightarrow> int" where
  "daysSince from' now = max 1 ((now - from') div DAY_MS)"

text \<open>One group of a \<open>groupBy\<close>, or the empty span of a source the table has no row of.\<close>

definition spanOf :: "instant \<Rightarrow> instant list \<Rightarrow> CoverageSpan" where
  "spanOf now ts =
     (if ts = [] then EMPTY_SPAN
      else \<lparr>cv_from = Some (Min (set ts)), cv_to = Some (Max (set ts)),
            cv_days = Some (daysSince (Min (set ts)) now), cv_count = length ts\<rparr>)"

record SourceCoverage =
  sv_sourceId :: string
  sv_mode :: SourceMode
  sv_depthDays :: "int option"
  sv_retainedDays :: "int option"
  sv_deployments :: CoverageSpan
  sv_pullRequests :: CoverageSpan
  sv_pipelines :: CoverageSpan
  sv_metrics :: CoverageSpan

definition ofSource :: "string \<Rightarrow> 'r table \<Rightarrow> 'r list" where
  "ofSource sourceId t = map snd (filter (\<lambda>e. fst (fst e) = sourceId) t)"

definition coverageOf :: "AppSettings \<Rightarrow> instant \<Rightarrow> Store \<Rightarrow> MetricSnapshot list \<Rightarrow> Source entry \<Rightarrow> SourceCoverage" where
  "coverageOf settings now st snapshots e =
     (let depth = (if so_mode (en_value e) = StoredMode
            then Some (depthDays (so_historyDays (en_value e)) \<lfloor>st_doraWindowDays settings\<rfloor>) else None)
      in \<lparr>sv_sourceId = en_id e, sv_mode = so_mode (en_value e), sv_depthDays = depth,
          sv_retainedDays = map_option (\<lambda>d. d + \<lfloor>st_retentionMarginDays settings\<rfloor>) depth,
          sv_deployments = spanOf now (map dpr_createdAt (ofSource (en_id e) (deployments st))),
          sv_pullRequests = spanOf now (map pr_openedAt (ofSource (en_id e) (pulls st))),
          sv_pipelines = spanOf now (map plr_createdAt (ofSource (en_id e) (pipelines st))),
          sv_metrics = spanOf now (map ms_capturedAt (filter (\<lambda>m. ms_sourceId m = en_id e) snapshots))\<rparr>)"

definition coverage :: "AppSettings \<Rightarrow> Source catalogue \<Rightarrow> instant \<Rightarrow> Store \<Rightarrow> MetricSnapshot list \<Rightarrow> SourceCoverage list" where
  "coverage settings sources now st snapshots =
     map (coverageOf settings now st snapshots) (sort_key en_createdAt sources)"

section \<open>What a sweep leaves\<close>

definition keptBy :: "('s \<Rightarrow> key \<Rightarrow> 'r \<Rightarrow> bool) \<Rightarrow> 's list \<Rightarrow> 'r table \<Rightarrow> 'r table" where
  "keptBy Q sweeps t = filter (\<lambda>(k, r). \<forall>s \<in> set sweeps. \<not> Q s k r) t"

lemma keptBy_Cons: "keptBy Q (s # sweeps) t = keptBy Q sweeps (fst (deleteMany (Q s) t))"
  by (simp add: keptBy_def deleteMany_def split_def conj_commute)

lemma sweepSource_eq:
  "fst (sweepSource s acc) = (fst acc)\<lparr>pipelines := fst (deleteMany (sweptPipeline s) (pipelines (fst acc))),
      deployments := fst (deleteMany (sweptDeployment s) (deployments (fst acc))),
      pulls := fst (deleteMany (sweptPull s) (pulls (fst acc)))\<rparr>"
  by (simp add: sweepSource_def Let_def split_def)

lemma fold_sweepSource:
  "pipelines (fst (fold sweepSource sweeps acc)) = keptBy sweptPipeline sweeps (pipelines (fst acc)) \<and>
   deployments (fst (fold sweepSource sweeps acc)) = keptBy sweptDeployment sweeps (deployments (fst acc)) \<and>
   pulls (fst (fold sweepSource sweeps acc)) = keptBy sweptPull sweeps (pulls (fst acc)) \<and>
   repos (fst (fold sweepSource sweeps acc)) = repos (fst acc)"
proof (induction sweeps arbitrary: acc)
  case (Cons s sweeps)
  show ?case unfolding fold_simps using Cons.IH [of "sweepSource s acc"] by (simp add: sweepSource_eq keptBy_Cons)
qed (simp add: keptBy_def)

lemma findMany_kept:
  assumes "\<And>k r s. (k, r) \<in> set t \<Longrightarrow> P k r \<Longrightarrow> s \<in> set sweeps \<Longrightarrow> \<not> Q s k r"
  shows "findMany P (keptBy Q sweeps t) = findMany P t"
  using assms unfolding findMany_def keptBy_def filter_filter by (intro filter_cong) auto

definition sweepsOf :: "AppSettings \<Rightarrow> Source catalogue \<Rightarrow> instant \<Rightarrow> (string \<times> instant) list" where
  "sweepsOf settings sources now = map (\<lambda>e. (en_id e, cutoffOf settings now e)) sources"

lemma pruneStore_eq:
  "deployments (db_store (fst (pruneStore settings sources now db))) =
     keptBy sweptDeployment (sweepsOf settings sources now) (deployments (db_store db))"
  "pulls (db_store (fst (pruneStore settings sources now db))) =
     keptBy sweptPull (sweepsOf settings sources now) (pulls (db_store db))"
  "pipelines (db_store (fst (pruneStore settings sources now db))) =
     keptBy sweptPipeline (sweepsOf settings sources now) (pipelines (db_store db))"
  "repos (db_store (fst (pruneStore settings sources now db))) = repos (db_store db)"
  "db_deliveries (fst (pruneStore settings sources now db)) =
     filter (\<lambda>(k, w). now - DELIVERY_RETENTION_DAYS * DAY_MS \<le> wd_receivedAt w) (db_deliveries db)"
  using fold_sweepSource [of "sweepsOf settings sources now" "(db_store db, \<lparr>po_pipelines = 0, po_deployments = 0, po_pullRequests = 0, po_deliveries = 0\<rparr>)"]
  by (simp_all add: pruneStore_def Let_def split_def sweepsOf_def deleteMany_def not_less)

text \<open>A source is swept at its own cutoff.\<close>

lemma sweep_of_source:
  assumes "distinct (map en_id sources)" and "e \<in> set sources" and "s \<in> set (sweepsOf settings sources now)" and "fst s = en_id e"
  shows "snd s = cutoffOf settings now e"
  using assms by (auto simp: sweepsOf_def distinct_map dest: inj_onD)

text \<open>C33. A sweep is invisible to the reports. Whatever a source is asked for no further back than the
  depth it is kept to, its deployments, its merged requests and its board of open requests read the same
  before and after a sweep, of the same length and in the same order, its list of repositories too; a
  delivery of the last week is still recognised when it is repeated; and of the rows of the source older
  than depth and margin, no deployment is left. (A platform does not date a merge after the last update.)\<close>

theorem a_sweep_is_invisible_to_reports:
  assumes ids: "distinct (map en_id sources)" and e: "e \<in> set sources" and margin: "0 \<le> st_retentionMarginDays settings"
    and merged: "\<forall>(k, r) \<in> set (pulls (db_store db)). case pr_mergedAt r of Some m \<Rightarrow> m \<le> pr_updatedAt r | None \<Rightarrow> True"
    and since: "now - depthDays (so_historyDays (en_value e)) \<lfloor>st_doraWindowDays settings\<rfloor> * DAY_MS \<le> since"
  shows "(let before = storeReader (en_id e) scope now db;
              after = storeReader (en_id e) scope now (fst (pruneStore settings sources now db))
          in rd_deployments after rs (Some since) = rd_deployments before rs (Some since) \<and>
             rd_merged after rs since = rd_merged before rs since \<and>
             rd_pullRequests after rs = rd_pullRequests before rs \<and> rd_repositories after = rd_repositories before) \<and>
    (\<forall>k w. map_of (db_deliveries db) k = Some w \<and> now - wd_receivedAt w \<le> DELIVERY_RETENTION_DAYS * DAY_MS \<longrightarrow>
       k \<in> fst ` set (db_deliveries (fst (pruneStore settings sources now db)))) \<and>
    (\<forall>(k, r) \<in> set (deployments (db_store (fst (pruneStore settings sources now db)))).
       fst k = en_id e \<longrightarrow> cutoffOf settings now e \<le> dpr_createdAt r)"
proof -
  have "cutoffOf settings now e \<le> now - depthDays (so_historyDays (en_value e)) \<lfloor>st_doraWindowDays settings\<rfloor> * DAY_MS"
    using margin by (simp add: cutoffOf_def DAY_MS_def)
  with since have cut: "cutoffOf settings now e \<le> since" by linarith
  note own = sweep_of_source [OF ids e]
  have ds: "findMany (\<lambda>(s, _) r. s = en_id e \<and> dpr_repo r \<in> set rs \<and> since \<le> dpr_createdAt r)
      (keptBy sweptDeployment (sweepsOf settings sources now) t) =
      findMany (\<lambda>(s, _) r. s = en_id e \<and> dpr_repo r \<in> set rs \<and> since \<le> dpr_createdAt r) t" for t
    by (rule findMany_kept) (use cut in \<open>auto simp: sweptDeployment_def dest: own\<close>)
  have prs: "findMany (\<lambda>(s, _) r. s = en_id e \<and> pr_repo r \<in> set rs \<and> (case pr_mergedAt r of Some m \<Rightarrow> m \<ge> since | None \<Rightarrow> False))
      (keptBy sweptPull (sweepsOf settings sources now) (pulls (db_store db))) =
      findMany (\<lambda>(s, _) r. s = en_id e \<and> pr_repo r \<in> set rs \<and> (case pr_mergedAt r of Some m \<Rightarrow> m \<ge> since | None \<Rightarrow> False)) (pulls (db_store db))"
    by (rule findMany_kept) (use cut merged in \<open>fastforce simp: sweptPull_def split: option.splits dest: own\<close>)
  have board: "findMany (\<lambda>(s, _) r. s = en_id e \<and> pr_repo r \<in> set rs \<and> pr_state r \<in> set ON_BOARD)
      (keptBy sweptPull (sweepsOf settings sources now) t) =
      findMany (\<lambda>(s, _) r. s = en_id e \<and> pr_repo r \<in> set rs \<and> pr_state r \<in> set ON_BOARD) t" for t
    by (rule findMany_kept) (auto simp: sweptPull_def)
  have "k \<in> fst ` set (db_deliveries (fst (pruneStore settings sources now db)))"
    if "map_of (db_deliveries db) k = Some w" "now - wd_receivedAt w \<le> DELIVERY_RETENTION_DAYS * DAY_MS" for k w
    using map_of_SomeD [OF that(1)] that(2) by (intro image_eqI [of _ _ "(k, w)"]) (simp_all add: pruneStore_eq)
  moreover have "cutoffOf settings now e \<le> dpr_createdAt r"
    if "(k, r) \<in> set (deployments (db_store (fst (pruneStore settings sources now db))))" "fst k = en_id e" for k r
  proof -
    have "(en_id e, cutoffOf settings now e) \<in> set (sweepsOf settings sources now)" using e by (simp add: sweepsOf_def)
    with that show ?thesis by (force simp: pruneStore_eq keptBy_def sweptDeployment_def)
  qed
  ultimately show ?thesis
    unfolding Let_def storeReader_def Reader.simps readDeployments_def readMergedPullRequests_def readPullRequests_def pruneStore_eq
      option.case ds prs board by auto
qed

definition kept_entry :: "Source entry" where
  "kept_entry = \<lparr>en_id = ''1'', en_value = \<lparr>so_name = ''s'', so_slug = ''s'', so_kind = GitHub, so_baseUrl = [], so_authKind = TokenAuth,
     so_scope = (''acme'', \<lparr>sc_include = None, sc_exclude = None, sc_trackNewRepos = None\<rparr>), so_mode = StoredMode,
     so_webhooksEnabled = False, so_historyDays = Some 10, so_isDefault = False, so_trackers = [], so_envRules = [],
     so_envUrlRules = [], so_versionRules = []\<rparr>, en_createdAt = 0, en_updatedAt = 0\<rparr>"

definition kept_row :: "string \<Rightarrow> instant \<Rightarrow> DeploymentRow" where
  "kept_row ident t = \<lparr>dpr_repo = ''shop'', dpr_externalId = ident, dpr_environment = ''prod'', dpr_ref = ''main'',
     dpr_status = Success, dpr_environmentUrl = None, dpr_url = None, dpr_createdAt = t, dpr_seenAt = t\<rparr>"

definition kept_db :: SyncDb where
  "kept_db = \<lparr>db_store = \<lparr>repos = [], pulls = [], pipelines = [],
       deployments = [((''1'', ''a''), kept_row ''a'' 5), ((''1'', ''b''), kept_row ''b'' 8639000000)]\<rparr>,
     db_states = [], db_deliveries = []\<rparr>"

definition kept_scope :: "string \<times> ScopeRules" where
  "kept_scope = (''acme'', \<lparr>sc_include = None, sc_exclude = None, sc_trackNewRepos = None\<rparr>)"

theorem a_sweep_is_invisible_to_reports_witness:
  "map fst (deployments (db_store (fst (pruneStore FALLBACKS [kept_entry] 8640000000 kept_db)))) = [(''1'', ''b'')] \<and>
   rd_deployments (storeReader ''1'' kept_scope 8640000000 (fst (pruneStore FALLBACKS [kept_entry] 8640000000 kept_db))) [''shop''] (Some 8000000000) =
   rd_deployments (storeReader ''1'' kept_scope 8640000000 kept_db) [''shop''] (Some 8000000000)"
proof -
  have "distinct (map en_id [kept_entry])" "kept_entry \<in> set [kept_entry]" "0 \<le> st_retentionMarginDays FALLBACKS"
    "\<forall>(k, r) \<in> set (pulls (db_store kept_db)). case pr_mergedAt r of Some m \<Rightarrow> m \<le> pr_updatedAt r | None \<Rightarrow> True"
    "8640000000 - depthDays (so_historyDays (en_value kept_entry)) \<lfloor>st_doraWindowDays FALLBACKS\<rfloor> * DAY_MS \<le> 8000000000"
    by (simp_all add: FALLBACKS_def kept_db_def kept_entry_def depthDays_def DAY_MS_def)
  from a_sweep_is_invisible_to_reports [OF this, of kept_scope "[''shop'']"] show ?thesis
    by (simp add: Let_def kept_entry_def) (simp add: pruneStore_eq kept_db_def keptBy_def sweepsOf_def sweptDeployment_def
        cutoffOf_def kept_row_def depthDays_def FALLBACKS_def DAY_MS_def)
qed

text \<open>What a page shows as covered after a sweep is no more than what is retained.\<close>

lemma coverage_within_retention:
  assumes "distinct (map en_id sources)" and e: "e \<in> set sources" and stored: "so_mode (en_value e) = StoredMode"
    and "db' = fst (pruneStore settings sources now db)"
    and c: "c = coverageOf settings now (db_store db') snapshots e" and days: "cv_days (sv_deployments c) = Some d"
  shows "d \<le> max 1 (the (sv_retainedDays c))"
proof -
  let ?ts = "map dpr_createdAt (ofSource (en_id e) (deployments (db_store db')))"
  from days c have ts: "?ts \<noteq> []" and d: "d = max 1 ((now - Min (set ?ts)) div DAY_MS)"
    by (auto simp: coverageOf_def spanOf_def EMPTY_SPAN_def daysSince_def Let_def split: if_splits)
  have "Min (set ?ts) \<in> set ?ts" using ts by (intro Min_in) auto
  then obtain k r where kr: "(k, r) \<in> set (deployments (db_store db'))" "fst k = en_id e" "Min (set ?ts) = dpr_createdAt r"
    by (auto simp: ofSource_def)
  have "(en_id e, cutoffOf settings now e) \<in> set (sweepsOf settings sources now)" using e by (simp add: sweepsOf_def)
  with kr assms(4) have "cutoffOf settings now e \<le> Min (set ?ts)" by (force simp: pruneStore_eq keptBy_def sweptDeployment_def)
  then have "now - Min (set ?ts) \<le> the (sv_retainedDays c) * DAY_MS"
    by (simp add: c coverageOf_def stored cutoffOf_def Let_def)
  then have "(now - Min (set ?ts)) div DAY_MS \<le> the (sv_retainedDays c)"
    using zdiv_mono1 [of "now - Min (set ?ts)" "the (sv_retainedDays c) * DAY_MS" DAY_MS] by (simp add: DAY_MS_def)
  with d show ?thesis by linarith
qed

end
