(* ===== verification/Commit_Messages.thy ===== *)
theory Commit_Messages
  imports Rule_Services Private_Address
begin

text \<open>
  What a release note reads out of commit messages, and what it writes around them:
  \<open>conventional-commit.ts\<close>, \<open>merge-commit.ts\<close>, \<open>link-tickets.ts\<close>, \<open>range.ts\<close> and
  \<open>rewrite.ts\<close> of \<open>back/src/release-notes\<close>. The fixed regular expressions are spelled out as
  functions on strings; a pattern the user wrote (\<open>tagPattern\<close>) goes through the engine. Strings are
  sequences of bytes: the dashes the notes are set with are their UTF-8 bytes, white space is that of
  the first 256 characters, and the line terminators are the line feed and the carriage return. A
  request number is a natural number, without the precision a double loses above \<open>2 ^ 53\<close>.
\<close>

abbreviation newline :: char where "newline \<equiv> CHR 0x0A"

definition lineEnd :: "char \<Rightarrow> bool" where
  "lineEnd c \<longleftrightarrow> c = newline \<or> c = CHR 0x0D"

definition asciiLetter :: "char \<Rightarrow> bool" where
  "asciiLetter c \<longleftrightarrow> (let n = (of_char c :: nat) in (65 \<le> n \<and> n \<le> 90) \<or> (97 \<le> n \<and> n \<le> 122))"

definition lowerChar :: "char \<Rightarrow> char" where
  "lowerChar c = (let n = (of_char c :: nat) in if 65 \<le> n \<and> n \<le> 90 then char_of (n + 32) else c)"

text \<open>What follows a fixed text, when the string begins with it.\<close>

definition afterText :: "string \<Rightarrow> string \<Rightarrow> string option" where
  "afterText p s = (if prefix p s then Some (drop (length p) s) else None)"

text \<open>Where \<open>^\<close> matches under the \<open>m\<close> flag: the beginning, and after each line terminator.\<close>

primrec afterBreaks :: "string \<Rightarrow> string list" where
  "afterBreaks [] = []"
| "afterBreaks (c # s) = (if lineEnd c then s # afterBreaks s else afterBreaks s)"

definition lineStarts :: "string \<Rightarrow> string list" where
  "lineStarts s = s # afterBreaks s"

definition subjectLine :: "string \<Rightarrow> string" where
  "subjectLine message = jsTrim (hd (splitOn newline message))"

section \<open>Conventional commits\<close>

record ParsedCommit =
  pm_type :: string
  pm_scope :: "string option"
  pm_breaking :: bool
  pm_summary :: string

text \<open>\<open>(?:\((?<scope>[^)]*)\))?\<close>: an opened parenthesis has to close.\<close>

definition readScope :: "string \<Rightarrow> (string option \<times> string) option" where
  "readScope s =
     (if prefix ''('' s
      then (if CHR '')'' \<in> set (List.tl s) then Some (Some (before (CHR '')'') (List.tl s)), past (CHR '')'') (List.tl s)) else None)
      else Some (None, s))"

text \<open>\<open>:\s+(?<summary>.+)$\<close> on a line that does not end in white space.\<close>

definition readSummary :: "string \<Rightarrow> string option" where
  "readSummary s =
     (case afterText '':'' s of
        None \<Rightarrow> None
      | Some r \<Rightarrow>
          let summary = dropWhile isSpace r
          in if summary \<noteq> r \<and> summary \<noteq> [] \<and> \<not> list_ex lineEnd summary then Some summary else None)"

definition matchSubject :: "string \<Rightarrow> (string \<times> string option \<times> bool \<times> string) option" where
  "matchSubject s =
     (let kind = takeWhile asciiLetter s
      in if kind = [] then None
         else case readScope (dropWhile asciiLetter s) of
           None \<Rightarrow> None
         | Some (scope, r) \<Rightarrow>
             let bang = prefix ''!'' r
             in map_option (\<lambda>summary. (kind, scope, bang, summary)) (readSummary (if bang then List.tl r else r)))"

text \<open>
  \<open>/^BREAKING[ -]CHANGE:\s*(?<detail>.+)$/m\<close>, the detail trimmed: any text at all after the colon
  makes the footer, on the same line or below, and one of white space alone has no detail.
\<close>

definition opensFooter :: "string \<Rightarrow> bool" where
  "opensFooter s \<longleftrightarrow> prefix ''BREAKING CHANGE:'' s \<or> prefix ''BREAKING-CHANGE:'' s"

definition breakingFooter :: "string \<Rightarrow> string option" where
  "breakingFooter s =
     (case filter opensFooter (lineStarts s) of
        [] \<Rightarrow> None
      | t # _ \<Rightarrow>
          let r = drop 16 t
          in if list_ex (\<lambda>c. \<not> lineEnd c) r
             then Some (jsTrim (takeWhile (\<lambda>c. \<not> lineEnd c) (dropWhile isSpace r))) else None)"

definition parseConventionalCommit :: "string \<Rightarrow> ParsedCommit option" where
  "parseConventionalCommit message =
     (case matchSubject (subjectLine message) of
        None \<Rightarrow> None
      | Some (kind, scope, bang, summary) \<Rightarrow>
          let footer = breakingFooter (joinWith [newline] (List.tl (splitOn newline message)))
          in Some \<lparr>pm_type = map lowerChar kind,
                   pm_scope = orNull (map_option jsTrim scope),
                   pm_breaking = (bang \<or> footer \<noteq> None),
                   pm_summary = (case Option.bind footer (\<lambda>d. orNull (Some d)) of Some d \<Rightarrow> d | None \<Rightarrow> jsTrim summary)\<rparr>)"

definition SECTION_ORDER :: "string list" where
  "SECTION_ORDER = [''feat'', ''fix'', ''perf'', ''refactor'', ''docs'', ''test'', ''build'', ''ci'', ''chore'']"

definition sectionRank :: "string \<Rightarrow> nat" where
  "sectionRank kind =
     (if kind = ''other'' then length SECTION_ORDER + 1
      else length (takeWhile (\<lambda>k. k \<noteq> kind) SECTION_ORDER))"

section \<open>Merge commits\<close>

record MergeCommitRef =
  mr'_number :: "nat option"
  mr'_branch :: "string option"

definition NOTHING :: MergeCommitRef where
  "NOTHING = \<lparr>mr'_number = None, mr'_branch = None\<rparr>"

definition gitHubMerge :: "string \<Rightarrow> (nat \<times> string) option" where
  "gitHubMerge subject =
     (case afterText ''Merge pull request #'' subject of
        None \<Rightarrow> None
      | Some r \<Rightarrow>
          (case afterText '' from '' (dropWhile isDigit r) of
             None \<Rightarrow> None
           | Some h \<Rightarrow>
               let digits = takeWhile isDigit r; head = takeWhile (\<lambda>c. \<not> isSpace c) h
               in if digits = [] \<or> head = [] then None else Some (readNat digits, head)))"

definition gitHubSquash :: "string \<Rightarrow> nat option" where
  "gitHubSquash subject =
     (case afterText '')'' (rev subject) of
        None \<Rightarrow> None
      | Some r \<Rightarrow>
          if takeWhile isDigit r \<noteq> [] \<and> prefix ''#('' (dropWhile isDigit r)
          then Some (readNat (rev (takeWhile isDigit r))) else None)"

definition gitLabMerge :: "string \<Rightarrow> string option" where
  "gitLabMerge subject =
     (case afterText (''Merge branch '' @ [CHR 0x27]) subject of
        None \<Rightarrow> None
      | Some r \<Rightarrow>
          let branch = before (CHR 0x27) r
          in if branch \<noteq> [] \<and> prefix (CHR 0x27 # '' into '') (dropWhile (\<lambda>c. c \<noteq> CHR 0x27) r) then Some branch else None)"

text \<open>\<open>/^See merge request \S+!(?<number>\d+)$/m\<close>, on one line.\<close>

definition footerNumber :: "string \<Rightarrow> nat option" where
  "footerNumber line =
     (case afterText ''See merge request '' line of
        None \<Rightarrow> None
      | Some r \<Rightarrow>
          let digits = rev (takeWhile isDigit (rev r))
          in (case afterText ''!'' (dropWhile isDigit (rev r)) of
                None \<Rightarrow> None
              | Some q \<Rightarrow> if digits \<noteq> [] \<and> q \<noteq> [] \<and> \<not> list_ex isSpace q then Some (readNat digits) else None))"

definition gitLabFooter :: "string \<Rightarrow> nat option" where
  "gitLabFooter message =
     (case List.map_filter (\<lambda>t. footerNumber (takeWhile (\<lambda>c. \<not> lineEnd c) t)) (lineStarts message) of
        [] \<Rightarrow> None | n # _ \<Rightarrow> Some n)"

definition readMergeCommit :: "string \<Rightarrow> SourceKind \<Rightarrow> MergeCommitRef" where
  "readMergeCommit message kind =
     (let subject = subjectLine message
      in case gitHubMerge subject of
           Some (n, head) \<Rightarrow>
             (let branch = List.tl (splitOn (CHR ''/'') head)
              in \<lparr>mr'_number = Some n, mr'_branch = if branch \<noteq> [] then Some (joinWith ''/'' branch) else None\<rparr>)
         | None \<Rightarrow>
             (case gitLabFooter message of
                Some n \<Rightarrow> \<lparr>mr'_number = Some n, mr'_branch = gitLabMerge subject\<rparr>
              | None \<Rightarrow>
                  if kind \<noteq> GitHub then NOTHING
                  else (case gitHubSquash subject of
                          Some n \<Rightarrow> \<lparr>mr'_number = Some n, mr'_branch = None\<rparr>
                        | None \<Rightarrow> NOTHING)))"

section \<open>Ranges\<close>

record RangeQuery =
  rg_from :: "string option"
  rg_to :: "string option"

definition tagsMatching :: "RegexEngine \<Rightarrow> Tag list \<Rightarrow> string option \<Rightarrow> Tag list" where
  "tagsMatching rx tags pattern =
     (case orNull pattern of
        None \<Rightarrow> tags
      | Some p \<Rightarrow> if rx_exec rx p [] = BadPattern then tags else filter (\<lambda>t. rxTest rx p (tag_name t)) tags)"

definition previousTag :: "Tag list \<Rightarrow> string \<Rightarrow> string option" where
  "previousTag tags to =
     (case dropWhile (\<lambda>t. tag_name t \<noteq> to) tags of
        [] \<Rightarrow> (case tags of [] \<Rightarrow> None | t # _ \<Rightarrow> Some (tag_name t))
      | _ # [] \<Rightarrow> None
      | _ # t # _ \<Rightarrow> Some (tag_name t))"

definition resolveRange :: "RangeQuery \<Rightarrow> Tag list \<Rightarrow> ('w, string) call \<Rightarrow> ('w, string option \<times> string) call" where
  "resolveRange query tags defaultBranch =
     andThen (case rg_to query of
         Some to \<Rightarrow> returns to
       | None \<Rightarrow> (case tags of t # _ \<Rightarrow> returns (tag_name t) | [] \<Rightarrow> defaultBranch)) (\<lambda>to.
     returns (case orNull (rg_from query) of
         Some from' \<Rightarrow> (Some from', to)
       | None \<Rightarrow> (previousTag tags to, to)))"

section \<open>Links to tickets\<close>

record DefaultLinks =
  dl_prefix :: string
  dl_keep :: "(string, string) jsmap"

definition keyUrls :: "TicketRef list \<Rightarrow> (string, string) jsmap" where
  "keyUrls tickets =
     foldl (\<lambda>urls t. case orNull (tk_url t) of
         Some u \<Rightarrow> if map_of urls (tk_key t) = None then AList.update (tk_key t) u urls else urls
       | None \<Rightarrow> urls) [] tickets"

text \<open>\<open>(?<![\w-])key(?![\w-])\<close> at a place, given the character before it.\<close>

definition wordOrDash :: "char \<Rightarrow> bool" where
  "wordOrDash c \<longleftrightarrow> wordChar c \<or> c = CHR ''-''"

definition standsAlone :: "char option \<Rightarrow> string \<Rightarrow> string \<Rightarrow> bool" where
  "standsAlone prev s key \<longleftrightarrow>
     (case afterText key s of
        None \<Rightarrow> False
      | Some r \<Rightarrow> (case prev of None \<Rightarrow> True | Some c \<Rightarrow> \<not> wordOrDash c) \<and> (r = [] \<or> \<not> wordOrDash (hd r)))"

text \<open>\<open>`[^`]*`\<close> and \<open>\[([^\]]*)\]\(([^)]*)\)\<close>, read at a place.\<close>

definition codeSpan :: "string \<Rightarrow> string option" where
  "codeSpan s =
     (case afterText [CHR 0x60] s of
        None \<Rightarrow> None
      | Some r \<Rightarrow> if CHR 0x60 \<in> set r then Some (CHR 0x60 # before (CHR 0x60) r @ [CHR 0x60]) else None)"

definition linkSpan :: "string \<Rightarrow> (string \<times> string) option" where
  "linkSpan s =
     (case afterText ''['' s of
        None \<Rightarrow> None
      | Some r \<Rightarrow>
          if rbrack \<notin> set r then None
          else (case afterText ''('' (past rbrack r) of
                  None \<Rightarrow> None
                | Some q \<Rightarrow> if CHR '')'' \<in> set q then Some (before rbrack r, before (CHR '')'') q) else None))"

definition asLink :: "string \<Rightarrow> string \<Rightarrow> string" where
  "asLink label url = ''['' @ label @ ''](''@ url @ '')''"

text \<open>What a whole link becomes.\<close>

definition relinked :: "(string, string) jsmap \<Rightarrow> DefaultLinks option \<Rightarrow> string \<Rightarrow> string \<Rightarrow> string" where
  "relinked urls defaults label url =
     (case map_of urls label of
        Some claimed \<Rightarrow> asLink label claimed
      | None \<Rightarrow>
          (case defaults of
             None \<Rightarrow> asLink label url
           | Some d \<Rightarrow>
               if \<not> prefix (dl_prefix d) url then asLink label url
               else (case orNull (map_of (dl_keep d) label) of Some kept \<Rightarrow> asLink label kept | None \<Rightarrow> label)))"

text \<open>
  The token at a place and what it becomes: code first, then a whole link, then a key standing alone,
  the longest first. An empty key, which the extraction never makes, is no token.
\<close>

definition tokenAt :: "(string, string) jsmap \<Rightarrow> DefaultLinks option \<Rightarrow> char option \<Rightarrow> string \<Rightarrow> (string \<times> string) option" where
  "tokenAt urls defaults prev s =
     (case codeSpan s of
        Some code \<Rightarrow> Some (code, code)
      | None \<Rightarrow>
          (case linkSpan s of
             Some (label, url) \<Rightarrow> Some (asLink label url, relinked urls defaults label url)
           | None \<Rightarrow>
               map_option (\<lambda>e. (fst e, asLink (fst e) (snd e)))
                 (List.find (\<lambda>e. fst e \<noteq> [] \<and> standsAlone prev s (fst e)) (sort_key (\<lambda>e. - int (length (fst e))) urls))))"

function relink :: "(string, string) jsmap \<Rightarrow> DefaultLinks option \<Rightarrow> char option \<Rightarrow> string \<Rightarrow> string" where
  "relink urls defaults prev [] = []"
| "relink urls defaults prev (c # s) =
     (case tokenAt urls defaults prev (c # s) of
        None \<Rightarrow> c # relink urls defaults (Some c) s
      | Some (token, out) \<Rightarrow> out @ relink urls defaults (Some (List.last token)) (drop (length token - 1) s))"
  by pat_completeness auto
termination
  by (relation "measure (\<lambda>(urls, defaults, prev, s). length s)") simp_all

declare relink.simps(2) [simp del]

definition linkTickets :: "string \<Rightarrow> TicketRef list \<Rightarrow> DefaultLinks option \<Rightarrow> string" where
  "linkTickets markdown tickets defaults =
     (let urls = keyUrls tickets
      in if urls = [] \<and> defaults = None then markdown else relink urls defaults None markdown)"

definition mentionsKey :: "string \<Rightarrow> string \<Rightarrow> bool" where
  "mentionsKey s key \<longleftrightarrow>
     list_ex (\<lambda>i. standsAlone (if i = 0 then None else Some (s ! (i - 1))) (drop i s) key) [0..<Suc (length s)]"

section \<open>Rewriting\<close>

definition EM_DASH :: string where "EM_DASH = [CHR 0xE2, CHR 0x80, CHR 0x94]"

definition languageInstruction :: "string option \<Rightarrow> string" where
  "languageInstruction language =
     (case orNull language of
        Some l \<Rightarrow> ''Write the notes in '' @ l @
          '', translating the entries as needed. Leave identifiers, link targets and code alone.''
      | None \<Rightarrow> joinWith '' ''
          [''Write the notes in the language the entries below are already written in '' @ EM_DASH,
           ''the language of the commit messages themselves. If they are in English, the'',
           ''notes are in English; if they are in French, the notes are in French. Do not'',
           ''translate, and do not follow the language of these instructions.''])"

definition buildRewritePrompt :: "string \<Rightarrow> string option \<Rightarrow> string" where
  "buildRewritePrompt markdown language =
     languageInstruction language @ [newline, newline] @ ''Release notes to rewrite:'' @ [newline, newline] @ markdown"

definition FENCE :: string where "FENCE = [CHR 0x60, CHR 0x60, CHR 0x60]"

text \<open>\<open>/^```[^\n]*\n([\s\S]*)\n```$/\<close>\<close>

definition fenced :: "string \<Rightarrow> string option" where
  "fenced s =
     (case afterText FENCE s of
        None \<Rightarrow> None
      | Some r \<Rightarrow>
          if newline \<notin> set r then None
          else map_option rev (afterText (FENCE @ [newline]) (rev (past newline r))))"

definition readRewritten :: "string \<Rightarrow> string" where
  "readRewritten answer =
     (let trimmed = jsTrim answer
      in case fenced trimmed of
           None \<Rightarrow> trimmed
         | Some inner \<Rightarrow> if sublist FENCE inner then trimmed else jsTrim inner)"

section \<open>A subject written by the convention reads back\<close>

lemma joinWith_splitOn [simp]: "joinWith [d] (splitOn d s) = s"
proof (induction d s rule: splitOn.induct)
  case (2 d c s)
  obtain w ws where w: "splitOn d s = w # ws" using splitOn_ne [of d s] by (cases "splitOn d s") auto
  with 2 show ?case by (cases ws) auto
qed simp

lemma takeWhile_app: "list_all P xs \<Longrightarrow> ys = [] \<or> \<not> P (hd ys) \<Longrightarrow> takeWhile P (xs @ ys) = xs"
  by (induction xs) (cases ys; simp)+

lemma dropWhile_app: "list_all P xs \<Longrightarrow> ys = [] \<or> \<not> P (hd ys) \<Longrightarrow> dropWhile P (xs @ ys) = ys"
  by (induction xs) (cases ys; simp)+

lemma jsTrim_ends:
  assumes "s \<noteq> []" and "\<not> isSpace (hd s)" and "\<not> isSpace (List.last s)"
  shows "jsTrim s = s"
proof -
  have "dropWhile isSpace s = s" using assms by (cases s) auto
  moreover have "dropWhile isSpace (rev s) = rev s" using assms by (cases s rule: rev_cases) auto
  ultimately show ?thesis by (simp add: jsTrim_def)
qed

lemma dropWhile_Cons_hd: "dropWhile P xs = x # ys \<Longrightarrow> \<not> P x"
  by (induction xs) (auto split: if_splits)

lemma jsTrim_hd: "jsTrim s = s \<Longrightarrow> s \<noteq> [] \<Longrightarrow> \<not> isSpace (hd s) \<and> \<not> isSpace (List.last s)"
proof -
  assume t: "jsTrim s = s" and ne: "s \<noteq> []"
  have len: "length (dropWhile isSpace s) = length s"
    using t length_dropWhile_le [of isSpace s] length_dropWhile_le [of isSpace "rev (dropWhile isSpace s)"]
    by (metis jsTrim_def le_antisym length_rev)
  then have d: "dropWhile isSpace s = s" using ne by (metis append_Nil length_append add_eq_self_zero takeWhile_dropWhile_id
      add.commute length_0_conv)
  with t have "dropWhile isSpace (rev s) = rev s" by (metis jsTrim_def rev_rev_ident)
  with d ne show ?thesis
    by (metis dropWhile_Cons_hd hd_rev list.exhaust_sel rev_is_Nil_conv)
qed

lemma afterText_app [simp]: "afterText p (p @ s) = Some s"
  by (simp add: afterText_def)

definition conventional :: "string \<Rightarrow> string option \<Rightarrow> bool \<Rightarrow> string \<Rightarrow> string" where
  "conventional kind scope bang summary =
     kind @ (case scope of Some sc \<Rightarrow> ''('' @ sc @ '')'' | None \<Rightarrow> []) @ (if bang then ''!'' else []) @ '': '' @ summary"

lemma asciiLetter_nospace: "asciiLetter c \<Longrightarrow> \<not> isSpace c \<and> c \<noteq> newline"
  by (auto simp: asciiLetter_def isSpace_def Let_def)

lemma matchSubject_conventional:
  assumes kind: "kind \<noteq> []" "list_all asciiLetter kind"
    and scope: "\<And>sc. scope = Some sc \<Longrightarrow> CHR '')'' \<notin> set sc"
    and summary: "summary \<noteq> []" "jsTrim summary = summary" "\<not> list_ex lineEnd summary"
  shows "matchSubject (conventional kind scope bang summary) = Some (kind, scope, bang, summary)"
proof -
  let ?r2 = "(if bang then ''!'' else []) @ '': '' @ summary"
  let ?r1 = "(case scope of Some sc \<Rightarrow> ''('' @ sc @ '')'' | None \<Rightarrow> []) @ ?r2"
  have h: "\<not> asciiLetter (hd ?r1)" by (auto simp: asciiLetter_def split: option.split)
  have "readScope ?r1 = Some (scope, ?r2)"
    using scope by (cases scope) (auto simp: readScope_def before_append past_append)
  moreover have "readSummary ('': '' @ summary) = Some summary"
  proof -
    have "dropWhile isSpace ('' '' @ summary) = summary"
      using jsTrim_hd [OF summary(2,1)] by (intro dropWhile_app) (auto simp: isSpace_def)
    then show ?thesis using summary(1,3) by (simp add: readSummary_def afterText_def Let_def)
  qed
  moreover have "takeWhile asciiLetter (kind @ ?r1) = kind" "dropWhile asciiLetter (kind @ ?r1) = ?r1"
    using kind(2) h by (intro takeWhile_app dropWhile_app; simp)+
  ultimately show ?thesis using kind(1)
    by (cases bang) (simp_all add: matchSubject_def conventional_def Let_def)
qed

text \<open>C34. What the convention writes reads back. A commit whose subject is a type (a run of letters,
  whichever they are), a scope, the mark of a breaking change and a summary set as the convention has
  it, with no blanks around the scope or the summary, is read as exactly these: the type in lower
  case, the scope and the summary as written; it is breaking when it is marked so or its body has the
  footer, and the footer's words, when it has any, stand for the summary. That any letters make a
  type is what the pattern says and not what the comment over it does: it holds up 'Revert: fix login'
  as a subject that is not conventional, and the code reads a type out of it.\<close>

theorem a_conventional_commit_reads_back:
  assumes "kind \<noteq> []" "list_all asciiLetter kind"
    and "\<And>sc. scope = Some sc \<Longrightarrow> sc \<noteq> [] \<and> jsTrim sc = sc \<and> CHR '')'' \<notin> set sc \<and> newline \<notin> set sc"
    and "summary \<noteq> []" "jsTrim summary = summary" "\<not> list_ex lineEnd summary"
  shows "parseConventionalCommit (conventional kind scope bang summary @ newline # body) =
    Some \<lparr>pm_type = map lowerChar kind, pm_scope = scope, pm_breaking = (bang \<or> breakingFooter body \<noteq> None),
      pm_summary = (case breakingFooter body of Some (c # d) \<Rightarrow> c # d | _ \<Rightarrow> summary)\<rparr>"
proof -
  let ?s = "conventional kind scope bang summary"
  have "newline \<notin> set kind" using assms(2) asciiLetter_nospace by (auto simp: list_all_iff)
  moreover have "newline \<notin> set summary" using assms(6) by (auto simp: list_ex_iff lineEnd_def)
  ultimately have nl: "newline \<notin> set ?s"
    using assms(3) by (auto simp: conventional_def split: option.splits)
  have "hd ?s \<in> set kind" "?s \<noteq> []" "List.last ?s = List.last summary" using assms(1,4) by (auto simp: conventional_def)
  then have "jsTrim ?s = ?s"
    using assms(2) asciiLetter_nospace jsTrim_hd [OF assms(5,4)] by (intro jsTrim_ends) (auto simp: list_all_iff)
  with nl have "subjectLine (?s @ newline # body) = ?s" by (simp add: subjectLine_def splitOn_append)
  moreover have "matchSubject ?s = Some (kind, scope, bang, summary)"
    using assms by (intro matchSubject_conventional) blast+
  ultimately show ?thesis
    using assms(3,4,5) nl
    by (cases scope) (auto simp: parseConventionalCommit_def splitOn_append Let_def orNull_def split: option.splits list.splits)
qed

theorem a_conventional_commit_reads_back_witness:
  "parseConventionalCommit (conventional ''Feat'' (Some ''api'') False ''add it'' @ newline # ''BREAKING CHANGE: drop v1'') =
    Some \<lparr>pm_type = ''feat'', pm_scope = Some ''api'', pm_breaking = True, pm_summary = ''drop v1''\<rparr>"
proof -
  have footer: "breakingFooter ''BREAKING CHANGE: drop v1'' = Some ''drop v1''"
    by (simp add: breakingFooter_def lineStarts_def opensFooter_def lineEnd_def isSpace_def jsTrim_def)
  have "lowerChar (CHR ''F'') = CHR ''f''" by code_simp
  then show ?thesis
    using a_conventional_commit_reads_back [of "''Feat''" "Some ''api''" "''add it''" False "''BREAKING CHANGE: drop v1''"]
    by (simp add: footer asciiLetter_def lineEnd_def isSpace_def jsTrim_def) (simp add: lowerChar_def)
qed

text \<open>
  The comment over the pattern: \<open>Revert: fix login\<close> is not a conventional commit, and treating it as
  one would invent a type. The pattern matches it. The test that names it checks another subject.
\<close>

lemma revert_reads_as_a_type:
  "parseConventionalCommit ''Revert: fix login'' =
     Some \<lparr>pm_type = ''revert'', pm_scope = None, pm_breaking = False, pm_summary = ''fix login''\<rparr> \<and>
   parseConventionalCommit ''Reverting this: fix login'' = None"
  by code_simp

section \<open>A merge commit names its request back\<close>

lemma digits_showNat: "list_all isDigit (showNat n)"
  by (auto simp: list_all_iff showNat_isDigit)

text \<open>The messages the platforms generate.\<close>

definition mergeSubject :: "nat \<Rightarrow> string \<Rightarrow> string" where
  "mergeSubject n head = ''Merge pull request #'' @ showNat n @ '' from '' @ head"

definition branchSubject :: "string \<Rightarrow> string \<Rightarrow> string" where
  "branchSubject branch into = ''Merge branch '' @ [CHR 0x27] @ branch @ [CHR 0x27] @ '' into '' @ into"

definition requestFooter :: "string \<Rightarrow> nat \<Rightarrow> string" where
  "requestFooter path n = ''See merge request '' @ path @ ''!'' @ showNat n"

lemma gitHubMerge_written:
  assumes "head \<noteq> []" "\<not> list_ex isSpace head"
  shows "gitHubMerge (mergeSubject n head) = Some (n, head)"
proof -
  have "takeWhile isDigit (showNat n @ '' from '' @ head) = showNat n"
    "dropWhile isDigit (showNat n @ '' from '' @ head) = '' from '' @ head"
    using digits_showNat by (intro takeWhile_app dropWhile_app; simp add: isDigit_def)+
  moreover have "takeWhile (\<lambda>c. \<not> isSpace c) head = head" using assms(2) by (auto simp: list_ex_iff takeWhile_eq_all_conv)
  ultimately show ?thesis using assms(1)
    unfolding gitHubMerge_def mergeSubject_def afterText_app option.case Let_def by (cases head) (auto simp: afterText_def)
qed

lemma footerNumber_written:
  assumes "path \<noteq> []" "\<not> list_ex isSpace path"
  shows "footerNumber (requestFooter path n) = Some n"
proof -
  have "list_all isDigit (rev (showNat n))" using digits_showNat by (simp add: list_all_iff)
  then have "takeWhile isDigit (rev (showNat n) @ ''!'' @ rev path) = rev (showNat n)"
    "dropWhile isDigit (rev (showNat n) @ ''!'' @ rev path) = ''!'' @ rev path"
    by (intro takeWhile_app dropWhile_app; simp add: isDigit_def)+
  then show ?thesis using assms
    unfolding footerNumber_def requestFooter_def afterText_app option.case Let_def by (simp add: afterText_def list_ex_iff)
qed

lemma noLineEnd: "\<not> list_ex isSpace s \<Longrightarrow> \<not> list_ex lineEnd s"
  by (auto simp: list_ex_iff lineEnd_def isSpace_def)

lemma noLineEnd_showNat: "\<not> list_ex lineEnd (showNat n)"
  using showNat_isDigit [of newline n] showNat_isDigit [of "CHR 0x0D" n] by (auto simp: list_ex_iff lineEnd_def isDigit_def)

lemma mergeSubject_line:
  assumes "head \<noteq> []" "\<not> list_ex isSpace head"
  shows "newline \<notin> set (mergeSubject n head)" and "jsTrim (mergeSubject n head) = mergeSubject n head"
proof -
  show "newline \<notin> set (mergeSubject n head)"
    using noLineEnd_showNat [of n] noLineEnd [OF assms(2)] by (auto simp: mergeSubject_def list_ex_iff lineEnd_def)
  show "jsTrim (mergeSubject n head) = mergeSubject n head"
    using assms by (intro jsTrim_ends) (auto simp: mergeSubject_def isSpace_def list_ex_iff)
qed

lemma branchSubject_line:
  assumes "\<not> list_ex isSpace branch" "\<not> list_ex lineEnd into" "into \<noteq> []" "\<not> isSpace (List.last into)"
  shows "\<not> list_ex lineEnd (branchSubject branch into)" and "jsTrim (branchSubject branch into) = branchSubject branch into"
proof -
  show "\<not> list_ex lineEnd (branchSubject branch into)"
    using noLineEnd [OF assms(1)] assms(2) by (simp add: branchSubject_def lineEnd_def)
  show "jsTrim (branchSubject branch into) = branchSubject branch into"
    using assms by (intro jsTrim_ends) (simp_all add: branchSubject_def isSpace_def)
qed

lemma requestFooter_line: "\<not> list_ex isSpace path \<Longrightarrow> \<not> list_ex lineEnd (requestFooter path n)"
  using noLineEnd_showNat [of n] noLineEnd [of path] by (simp add: requestFooter_def lineEnd_def)

lemma gitHubMerge_branchSubject: "gitHubMerge (branchSubject branch into) = None"
  by (simp add: gitHubMerge_def branchSubject_def afterText_def)

lemma gitLabMerge_written:
  assumes "branch \<noteq> []" "CHR 0x27 \<notin> set branch"
  shows "gitLabMerge (branchSubject branch into) = Some branch"
proof -
  let ?r = "CHR 0x27 # '' into '' @ into"
  have "list_all (\<lambda>c. c \<noteq> CHR 0x27) branch" using assms(2) by (auto simp: list_all_iff)
  then have "takeWhile (\<lambda>c. c \<noteq> CHR 0x27) (branch @ ?r) = branch" "dropWhile (\<lambda>c. c \<noteq> CHR 0x27) (branch @ ?r) = ?r"
    by (intro takeWhile_app dropWhile_app; simp)+
  then show ?thesis using assms(1) by (simp add: gitLabMerge_def branchSubject_def afterText_def Let_def before_def)
qed

lemma subjectLine_app: "newline \<notin> set s \<Longrightarrow> jsTrim s = s \<Longrightarrow> subjectLine (s @ newline # body) = s"
  by (simp add: subjectLine_def splitOn_append)

lemma afterBreaks_app: "\<not> list_ex lineEnd s \<Longrightarrow> afterBreaks (s @ newline # t) = t # afterBreaks t"
  by (induction s) (simp_all add: lineEnd_def)

lemma afterBreaks_none: "\<not> list_ex lineEnd s \<Longrightarrow> afterBreaks s = []"
  by (induction s) simp_all

lemma firstLine_whole:
  assumes "\<not> list_ex lineEnd s"
  shows "takeWhile (\<lambda>c. \<not> lineEnd c) (s @ newline # t) = s" and "takeWhile (\<lambda>c. \<not> lineEnd c) s = s"
proof -
  have all: "list_all (\<lambda>c. \<not> lineEnd c) s" using assms by (simp add: list_all_iff list_ex_iff)
  have "\<not> \<not> lineEnd (hd (newline # t))" by (simp add: lineEnd_def)
  with takeWhile_app [OF all] show "takeWhile (\<lambda>c. \<not> lineEnd c) (s @ newline # t) = s" by blast
  from takeWhile_app [OF all, of "[]"] show "takeWhile (\<lambda>c. \<not> lineEnd c) s = s" by simp
qed

lemma gitLabFooter_below:
  assumes "\<not> list_ex lineEnd s" "footerNumber s = None" "\<not> list_ex lineEnd f" "footerNumber f = Some n"
  shows "gitLabFooter (s @ newline # f) = Some n"
proof -
  have "lineStarts (s @ newline # f) = [s @ newline # f, f]"
    using assms by (simp add: lineStarts_def afterBreaks_app afterBreaks_none)
  moreover have "takeWhile (\<lambda>c. \<not> lineEnd c) (s @ newline # f) = s" by (rule firstLine_whole [OF assms(1)])
  moreover have "takeWhile (\<lambda>c. \<not> lineEnd c) f = f" by (rule firstLine_whole [OF assms(3)])
  ultimately show ?thesis using assms(2,4)
    unfolding gitLabFooter_def by (simp only: map_filter_simps option.case list.case)
qed

text \<open>The merge commits the platforms write give their request up: GitHub's its number and the branch
  it came from, with its slashes, whatever the fork it came from and whatever the body says; GitLab's
  its branch from the subject and its number from the footer.\<close>

theorem a_merge_commit_names_its_request:
  assumes "branch \<noteq> []" "\<not> list_ex isSpace branch" "CHR 0x27 \<notin> set branch"
    and "\<not> list_ex isSpace owner" "CHR ''/'' \<notin> set owner"
    and "path \<noteq> []" "\<not> list_ex isSpace path"
    and "\<not> list_ex lineEnd into" "into \<noteq> []" "\<not> isSpace (List.last into)"
  shows "readMergeCommit (mergeSubject n (owner @ ''/'' @ branch) @ newline # body) kind =
      \<lparr>mr'_number = Some n, mr'_branch = Some branch\<rparr> \<and>
    readMergeCommit (branchSubject branch into @ newline # requestFooter path n) kind =
      \<lparr>mr'_number = Some n, mr'_branch = Some branch\<rparr>"
proof
  define head where "head = owner @ ''/'' @ branch"
  have head: "head \<noteq> []" "\<not> list_ex isSpace head" using assms(2,4) by (simp_all add: isSpace_def head_def)
  have "splitOn (CHR ''/'') head = owner # splitOn (CHR ''/'') branch"
    using splitOn_append [OF assms(5)] by (simp add: head_def)
  then have "readMergeCommit (mergeSubject n head @ newline # body) kind = \<lparr>mr'_number = Some n, mr'_branch = Some branch\<rparr>"
    using splitOn_ne [of "CHR ''/''" branch]
    unfolding readMergeCommit_def subjectLine_app [OF mergeSubject_line [OF head]] gitHubMerge_written [OF head] Let_def
    by simp
  then show "readMergeCommit (mergeSubject n (owner @ ''/'' @ branch) @ newline # body) kind =
      \<lparr>mr'_number = Some n, mr'_branch = Some branch\<rparr>" unfolding head_def .
next
  note line = branchSubject_line [OF assms(2,8,9,10)]
  have "newline \<notin> set (branchSubject branch into)" using line(1) by (auto simp: list_ex_iff lineEnd_def)
  note subject = subjectLine_app [OF this line(2)]
  have "footerNumber (branchSubject branch into) = None" by (simp add: footerNumber_def branchSubject_def afterText_def)
  note footer = gitLabFooter_below [OF line(1) this requestFooter_line [OF assms(7)] footerNumber_written [OF assms(6,7)]]
  show "readMergeCommit (branchSubject branch into @ newline # requestFooter path n) kind = \<lparr>mr'_number = Some n, mr'_branch = Some branch\<rparr>"
    unfolding readMergeCommit_def subject gitHubMerge_branchSubject footer gitLabMerge_written [OF assms(1,3)] Let_def
      option.case ..
qed

theorem a_merge_commit_names_its_request_witness:
  "readMergeCommit (mergeSubject 42 (''fork'' @ ''/'' @ ''feature/ABC-1'') @ newline # ''body'') GitHub =
     \<lparr>mr'_number = Some 42, mr'_branch = Some ''feature/ABC-1''\<rparr>"
  using a_merge_commit_names_its_request [of "''feature/ABC-1''" "''fork''" "''acme/widget''" "''main''" 42 "''body''" GitHub]
  by (simp add: isSpace_def lineEnd_def)

section \<open>What linking leaves of a text\<close>

text \<open>A text as it reads: each link as its label.\<close>

function unlinked :: "string \<Rightarrow> string" where
  "unlinked [] = []"
| "unlinked (c # s) =
     (case linkSpan (c # s) of
        Some (label, url) \<Rightarrow> label @ unlinked (drop (length (asLink label url) - 1) s)
      | None \<Rightarrow> c # unlinked s)"
  by pat_completeness auto
termination
  by (relation "measure length") simp_all

declare unlinked.simps(2) [simp del]

lemma update_fresh: "map_of m k = None \<Longrightarrow> AList.update k v m = m @ [(k, v)]"
  by (induction m) (auto split: if_splits)

lemma keyUrls_from: "e \<in> set (keyUrls tickets) \<Longrightarrow> \<exists>t \<in> set tickets. fst e = tk_key t \<and> tk_url t = Some (snd e)"
proof (induction tickets arbitrary: e rule: rev_induct)
  case (snoc t ts)
  have step: "keyUrls (ts @ [t]) = (case orNull (tk_url t) of
       Some u \<Rightarrow> if map_of (keyUrls ts) (tk_key t) = None then AList.update (tk_key t) u (keyUrls ts) else keyUrls ts
     | None \<Rightarrow> keyUrls ts)" unfolding keyUrls_def foldl_append foldl.simps ..
  show ?case
  proof (cases "e \<in> set (keyUrls ts)")
    case False
    then obtain u where u: "orNull (tk_url t) = Some u" "map_of (keyUrls ts) (tk_key t) = None"
      using snoc.prems step by (auto split: option.splits if_splits)
    then have "keyUrls (ts @ [t]) = keyUrls ts @ [(tk_key t, u)]"
      using step by (simp add: update_fresh)
    with False snoc.prems have "e = (tk_key t, u)" by simp
    with u(1) show ?thesis by (auto simp: orNull_def split: option.splits if_splits)
  qed (use snoc.IH in fastforce)
qed (simp add: keyUrls_def)

lemma linkSpan_asLink:
  assumes "rbrack \<notin> set label" "CHR '')'' \<notin> set url"
  shows "linkSpan (asLink label url @ rest) = Some (label, url)"
proof -
  have "asLink label url @ rest = ''['' @ label @ rbrack # (''('' @ url @ CHR '')'' # rest)" by (simp add: asLink_def)
  moreover have "past rbrack (label @ rbrack # (''('' @ url @ CHR '')'' # rest)) = ''('' @ url @ CHR '')'' # rest"
    "before rbrack (label @ rbrack # (''('' @ url @ CHR '')'' # rest)) = label"
    using past_append [OF assms(1)] before_append [OF assms(1)] by blast+
  moreover have "before (CHR '')'') (url @ CHR '')'' # rest) = url" using before_append [OF assms(2)] .
  ultimately show ?thesis unfolding linkSpan_def by (simp add: afterText_def)
qed

lemma unlinked_asLink:
  assumes "rbrack \<notin> set label" "CHR '')'' \<notin> set url"
  shows "unlinked (asLink label url @ rest) = label @ unlinked rest"
proof -
  define x where "x = label @ ''](''@ url @ '')''"
  define s where "s = x @ rest"
  have "length (asLink label url) = Suc (length x)" by (simp add: asLink_def x_def)
  then have s: "asLink label url @ rest = CHR ''['' # s" "drop (length (asLink label url) - 1) s = rest"
    by (simp_all add: s_def) (simp add: asLink_def x_def)
  have "unlinked (CHR ''['' # s) = (case linkSpan (CHR ''['' # s) of
        Some (label, url) \<Rightarrow> label @ unlinked (drop (length (asLink label url) - 1) s) | None \<Rightarrow> CHR ''['' # unlinked s)"
    by (rule unlinked.simps)
  with linkSpan_asLink [OF assms, of rest] s show ?thesis by simp
qed

lemma unlinked_plain: "c \<noteq> CHR ''['' \<Longrightarrow> unlinked (c # s) = c # unlinked s"
  by (simp add: unlinked.simps(2) linkSpan_def afterText_def)

lemma find_SomeD: "List.find P xs = Some x \<Longrightarrow> P x"
  by (induction xs) (auto split: if_splits)

lemma find_in_set: "List.find P xs = Some x \<Longrightarrow> x \<in> set xs"
  by (induction xs) (auto split: if_splits)

lemma tokenAt_plain:
  assumes "c \<noteq> CHR ''[''" "c \<noteq> CHR 0x60"
  shows "tokenAt urls defaults prev (c # s) = None \<or>
    (\<exists>key url r. (key, url) \<in> set urls \<and> key \<noteq> [] \<and> c # s = key @ r \<and>
       tokenAt urls defaults prev (c # s) = Some (key, asLink key url))"
proof -
  let ?found = "List.find (\<lambda>e. fst e \<noteq> [] \<and> standsAlone prev (c # s) (fst e)) (sort_key (\<lambda>e. - int (length (fst e))) urls)"
  have token: "tokenAt urls defaults prev (c # s) = map_option (\<lambda>e. (fst e, asLink (fst e) (snd e))) ?found"
    using assms by (simp add: tokenAt_def codeSpan_def linkSpan_def afterText_def)
  show ?thesis
  proof (cases ?found)
    case None
    with token show ?thesis by simp
  next
    case (Some e)
    then have e: "e \<in> set urls" "fst e \<noteq> []" "standsAlone prev (c # s) (fst e)"
      using find_SomeD [OF Some] find_in_set [OF Some] by simp_all
    then obtain r where "c # s = fst e @ r" by (auto simp: standsAlone_def afterText_def prefix_def split: if_splits)
    moreover have "tokenAt urls defaults prev (c # s) = Some (fst e, asLink (fst e) (snd e))" unfolding token Some by simp
    moreover have "(fst e, snd e) \<in> set urls" using e(1) by simp
    ultimately show ?thesis using e(2) by blast
  qed
qed

lemma unlinked_relink:
  assumes "\<forall>(key, url) \<in> set urls. rbrack \<notin> set key \<and> CHR '')'' \<notin> set url"
  shows "set m \<inter> {CHR ''['', CHR 0x60} = {} \<Longrightarrow> unlinked (relink urls None prev m) = m"
proof (induction "length m" arbitrary: m prev rule: less_induct)
  case less
  show ?case
  proof (cases m)
    case (Cons c s)
    with less.prems have c: "c \<noteq> CHR ''[''" "c \<noteq> CHR 0x60" by auto
    from tokenAt_plain [OF this, of urls None prev s] show ?thesis
    proof
      assume "tokenAt urls None prev (c # s) = None"
      with less Cons c show ?thesis by (simp add: relink.simps(2) unlinked_plain)
    next
      assume "\<exists>key url r. (key, url) \<in> set urls \<and> key \<noteq> [] \<and> c # s = key @ r \<and>
        tokenAt urls None prev (c # s) = Some (key, asLink key url)"
      then obtain key url r where k: "(key, url) \<in> set urls" "key \<noteq> []" "c # s = key @ r"
        and t: "tokenAt urls None prev (c # s) = Some (key, asLink key url)" by blast
      from k(2,3) have d: "drop (length key - 1) s = r" by (cases key) auto
      have "unlinked (relink urls None (Some (List.last key)) r) = r"
        using less.prems k(2,3) Cons by (intro less.hyps) auto
      moreover have "rbrack \<notin> set key" "CHR '')'' \<notin> set url" using assms k(1) by auto
      moreover have "relink urls None prev m = asLink key url @ relink urls None (Some (List.last key)) r"
        unfolding Cons relink.simps(2) t d option.case prod.case ..
      ultimately show ?thesis using Cons k(3) by (simp add: unlinked_asLink)
    qed
  qed simp
qed

text \<open>Linking adds links and nothing else: a text with no link and no code in it reads, once its
  tickets are linked, exactly as it was written.\<close>

theorem a_linked_text_reads_the_same:
  assumes "CHR ''['' \<notin> set markdown" "CHR 0x60 \<notin> set markdown"
    and "\<And>t url. t \<in> set tickets \<Longrightarrow> tk_url t = Some url \<Longrightarrow> rbrack \<notin> set (tk_key t) \<and> CHR '')'' \<notin> set url"
  shows "unlinked (linkTickets markdown tickets None) = markdown"
proof -
  have plain: "unlinked s = s" if "CHR ''['' \<notin> set s" for s using that by (induction s) (auto simp: unlinked_plain)
  have "\<forall>(key, url) \<in> set (keyUrls tickets). rbrack \<notin> set key \<and> CHR '')'' \<notin> set url"
    using keyUrls_from assms(3) by fastforce
  from unlinked_relink [OF this, of markdown None] assms(1,2) plain show ?thesis
    by (simp add: linkTickets_def Let_def)
qed

theorem a_linked_text_reads_the_same_witness:
  "let ops = \<lparr>tk_key = ''OPS-1'', tk_url = Some ''https://j/OPS-1'', tk_foundIn = TicketSource.Commit,
         tk_tracker = \<lparr>trk_id = ''t'', trk_name = ''Jira'', trk_kind = Jira\<rparr>\<rparr>
   in linkTickets ''fix OPS-1, OPS-12'' [ops] None = ''fix [OPS-1](https://j/OPS-1), OPS-12'' \<and>
      unlinked (linkTickets ''fix OPS-1, OPS-12'' [ops] None) = ''fix OPS-1, OPS-12''"
proof -
  let ?ops = "\<lparr>tk_key = ''OPS-1'', tk_url = Some ''https://j/OPS-1'', tk_foundIn = TicketSource.Commit,
         tk_tracker = \<lparr>trk_id = ''t'', trk_name = ''Jira'', trk_kind = Jira\<rparr>\<rparr>"
  have "linkTickets ''fix OPS-1, OPS-12'' [?ops] None = ''fix [OPS-1](https://j/OPS-1), OPS-12''" by code_simp
  moreover have "unlinked (linkTickets ''fix OPS-1, OPS-12'' [?ops] None) = ''fix OPS-1, OPS-12''"
    by (rule a_linked_text_reads_the_same) auto
  ultimately show ?thesis by simp
qed

end
