(* ===== verification/Release_Notes.thy ===== *)
theory Release_Notes
  imports Commit_Messages Readers Connector_GitHub Connector_GitLab
begin

text \<open>
  Release notes: \<open>back/src/release-notes/release-notes.service.ts\<close> and \<open>changelog.ts\<close>. A range of
  commits is listed, each commit is given the request it came in on, a squash is replaced by the
  commits it was made of, each is parsed and given its tickets, and the entries are grouped, rendered
  and linked.

  A connector is a record of calls bound to a context; \<open>gitHubRange\<close> and \<open>gitLabRange\<close> are the ones
  of the program. The writer of the \<open>conventional-changelog\<close> packages is a parameter, as is the answer
  of a model provider. The texts are UTF-8 bytes.
\<close>

section \<open>The calls of a connector about a range\<close>

text \<open>A commit as the platform dates it: the date is compared as the text it is.\<close>

record DatedCommit =
  dk_sha :: string
  dk_committedAt :: "string option"

record 'w RangeConnector =
  nc_listTags :: "string \<Rightarrow> ('w, Tag list) call"
  nc_listBranches :: "string \<Rightarrow> ('w, Branch list) call"
  nc_defaultBranch :: "string \<Rightarrow> ('w, string) call"
  nc_refCommit :: "string \<Rightarrow> string \<Rightarrow> ('w, DatedCommit option) call"
  nc_mergeBase :: "string \<Rightarrow> string \<Rightarrow> string \<Rightarrow> ('w, DatedCommit option) call"
  nc_listCommitsBetween :: "string \<Rightarrow> string option \<Rightarrow> string \<Rightarrow> ('w, Commit list) call"
  nc_commitPullRequests :: "string \<Rightarrow> string list \<Rightarrow> ('w, (string, CommitPullRequest) jsmap) call"
  nc_pullRequestCommits :: "string \<Rightarrow> int list \<Rightarrow> ('w, (int, Commit list) jsmap) call"
  nc_mayEnrich :: "('w, bool) call"

text \<open>
  \<open>written\<close> is how the platform writes the date of a commit, which it is given: GitHub writes all of
  them in UTC, GitLab each with the offset of its committer.
\<close>

definition dated :: "(string \<Rightarrow> instant \<Rightarrow> string) \<Rightarrow> RefCommit option \<Rightarrow> DatedCommit option" where
  "dated written = map_option (\<lambda>c. \<lparr>dk_sha = rc_sha c, dk_committedAt = map_option (written (rc_sha c)) (rc_committedAt c)\<rparr>)"

definition gitHubRange :: "(string \<Rightarrow> instant \<Rightarrow> string) \<Rightarrow> 'w GhApi \<Rightarrow> 'w ConnectorContext \<Rightarrow> 'w RangeConnector" where
  "gitHubRange written gh ctx =
     \<lparr>nc_listTags = listTags gh, nc_listBranches = listBranches gh, nc_defaultBranch = api_defaultBranch gh,
      nc_refCommit = (\<lambda>repo ref. andThen (refCommit gh repo ref) (\<lambda>c. returns (dated written c))),
      nc_mergeBase = (\<lambda>repo ref other. andThen (mergeBase gh repo ref other) (\<lambda>c. returns (dated written c))),
      nc_listCommitsBetween = listCommitsBetween gh,
      nc_commitPullRequests = commitPullRequests gh ctx, nc_pullRequestCommits = pullRequestCommits gh ctx,
      nc_mayEnrich = mayEnrich ctx\<rparr>"

definition gitLabRange :: "(string \<Rightarrow> instant \<Rightarrow> string) \<Rightarrow> 'w GlApi \<Rightarrow> 'w ConnectorContext \<Rightarrow> 'w RangeConnector" where
  "gitLabRange written gl ctx =
     \<lparr>nc_listTags = listTags_gl gl, nc_listBranches = listBranches_gl gl, nc_defaultBranch = defaultBranch_gl gl,
      nc_refCommit = (\<lambda>repo ref. andThen (refCommit_gl gl repo ref) (\<lambda>c. returns (dated written c))),
      nc_mergeBase = (\<lambda>repo ref other. andThen (mergeBase_gl gl repo ref other) (\<lambda>c. returns (dated written c))),
      nc_listCommitsBetween = listCommitsBetween_gl gl ctx,
      nc_commitPullRequests = commitPullRequests_gl gl ctx, nc_pullRequestCommits = pullRequestCommits_gl gl ctx,
      nc_mayEnrich = mayEnrich ctx\<rparr>"

section \<open>The request a commit came in on\<close>

record PullRequestRef =
  pq_number :: int
  pq_url :: string

record RequestOf =
  ld_ref :: "PullRequestRef option"
  ld_branch :: "string option"
  ld_title :: "string option"
  ld_body :: "string option"

record Landed = RequestOf +
  ld_commit :: Commit

record ReleaseNoteEntry =
  rn_summary :: string
  rn_message :: string
  rn_scope :: "string option"
  rn_breaking :: bool
  rn_sha :: string
  rn_author :: string
  rn_url :: string
  rn_tickets :: "TicketRef list"
  rn_pullRequest :: "PullRequestRef option"

definition readOf :: "RepoLocation \<Rightarrow> Commit \<Rightarrow> MergeCommitRef" where
  "readOf location c = readMergeCommit (cm_message c) (rl_kind location)"

definition unresolved :: "TicketSource list \<Rightarrow> RepoLocation \<Rightarrow> Commit \<Rightarrow> bool" where
  "unresolved wanted location c \<longleftrightarrow>
     mr'_number (readOf location c) = None \<or> Title \<in> set wanted \<or> Body \<in> set wanted \<or>
     (TicketSource.Branch \<in> set wanted \<and> mr'_branch (readOf location c) = None)"

definition requestOf :: "RepoLocation \<Rightarrow> (string, CommitPullRequest) jsmap \<Rightarrow> Commit \<Rightarrow> RequestOf" where
  "requestOf location resolved c =
     (let found = map_of resolved (cm_sha c);
          number = orElse (map_option int (mr'_number (readOf location c))) (map_option cp_number found)
      in \<lparr>ld_ref = map_option (\<lambda>n. \<lparr>pq_number = n, pq_url = requestUrl location n\<rparr>) number,
          ld_branch = orElse (mr'_branch (readOf location c)) (map_option cp_headRef found),
          ld_title = map_option cp_title found, ld_body = map_option cp_body found\<rparr>)"

definition requestsOf :: "'w RangeConnector \<Rightarrow> TicketSource list \<Rightarrow> RepoLocation \<Rightarrow> Commit list \<Rightarrow> ('w, RequestOf list) call" where
  "requestsOf c wanted location commits =
     (let asked = filter (unresolved wanted location) commits
      in andThen (if asked \<noteq> [] then nc_commitPullRequests c (rl_repo location) (map cm_sha asked) else returns []) (\<lambda>resolved.
         returns (map (requestOf location resolved) commits)))"

section \<open>Squashes\<close>

text \<open>\<open>[...new Set(xs)]\<close>\<close>

definition firstSeen :: "'a list \<Rightarrow> 'a list" where
  "firstSeen xs = rev (remdups (rev xs))"

definition isSquash :: "RepoLocation \<Rightarrow> Commit \<Rightarrow> bool" where
  "isSquash location c \<longleftrightarrow> cm_parents c = 1 \<and> mr'_number (readOf location c) \<noteq> None"

definition requestNumber :: "Landed \<Rightarrow> int" where
  "requestNumber entry = (case ld_ref entry of Some ref \<Rightarrow> pq_number ref | None \<Rightarrow> - 1)"

text \<open>What replaces an entry: the commits of its request not held yet, or itself.\<close>

definition freshOf :: "string list \<Rightarrow> (int, Commit list) jsmap \<Rightarrow> string set \<Rightarrow> Landed \<Rightarrow> Commit list" where
  "freshOf squashes byRequest held entry =
     filter (\<lambda>c. cm_sha c \<notin> held)
       (if cm_sha (ld_commit entry) \<in> set squashes
        then (case map_of byRequest (requestNumber entry) of Some children \<Rightarrow> children | None \<Rightarrow> []) else [])"

primrec expanded :: "string list \<Rightarrow> (int, Commit list) jsmap \<Rightarrow> string set \<Rightarrow> Landed list \<Rightarrow> Landed list" where
  "expanded squashes byRequest held [] = []"
| "expanded squashes byRequest held (entry # rest) =
     (let fresh = freshOf squashes byRequest held entry
      in if fresh = [] then entry # expanded squashes byRequest held rest
         else map (\<lambda>c. entry\<lparr>ld_commit := c\<rparr>) fresh @
              expanded squashes byRequest (held \<union> set (map cm_sha fresh)) rest)"

definition expandSquashes :: "'w RangeConnector \<Rightarrow> RepoLocation \<Rightarrow> Landed list \<Rightarrow> ('w, Landed list) call" where
  "expandSquashes c location landed =
     (let squashed = filter (isSquash location \<circ> ld_commit) landed
      in if squashed = [] then returns landed
         else
           andThen (nc_pullRequestCommits c (rl_repo location)
               (firstSeen (List.map_filter (map_option pq_number \<circ> ld_ref) squashed))) (\<lambda>byRequest.
             returns (if byRequest = [] then landed
               else expanded (map (cm_sha \<circ> ld_commit) squashed) byRequest (set (map (cm_sha \<circ> ld_commit) landed)) landed)))"

section \<open>Entries\<close>

definition ticketTexts :: "Landed \<Rightarrow> TicketTexts" where
  "ticketTexts entry source =
     (case source of
        TicketSource.Branch \<Rightarrow> Some (required (ld_branch entry)) | Title \<Rightarrow> Some (required (ld_title entry))
      | Body \<Rightarrow> Some (required (ld_body entry)) | TicketSource.Commit \<Rightarrow> Some (cm_message (ld_commit entry)))"

definition entryOfCommit :: "TicketRef list \<Rightarrow> Landed \<Rightarrow> ReleaseNoteEntry" where
  "entryOfCommit tickets entry =
     (let c = ld_commit entry; parsed = parseConventionalCommit (cm_message c)
      in \<lparr>rn_summary = (case parsed of Some p \<Rightarrow> pm_summary p | None \<Rightarrow> subjectLine (cm_message c)),
          rn_message = cm_message c,
          rn_scope = Option.bind parsed pm_scope,
          rn_breaking = (case parsed of Some p \<Rightarrow> pm_breaking p | None \<Rightarrow> False),
          rn_sha = cm_sha c, rn_author = cm_author c, rn_url = cm_url c,
          rn_tickets = tickets, rn_pullRequest = ld_ref entry\<rparr>)"

definition toEntries ::
  "RegexEngine \<Rightarrow> TicketRuleDb \<Rightarrow> string \<Rightarrow> 'w RangeConnector \<Rightarrow> RepoLocation \<Rightarrow> Commit list \<Rightarrow> ('w, ReleaseNoteEntry list) call" where
  "toEntries rx rules sourceId c location commits =
     andThen (requestsOf c (sourcesFor rules sourceId) location commits) (\<lambda>requests.
     andThen (expandSquashes c location (map2 (\<lambda>commit r. RequestOf.extend r (Landed.fields commit)) commits requests)) (\<lambda>landed.
       returns (map2 entryOfCommit
         (extractMany rx rules sourceId (map ticketTexts landed)
            (map (\<lambda>_. \<lparr>to_owner = rl_owner location, to_repo = rl_repo location\<rparr>) landed)) landed)))"

section \<open>Sections\<close>

record ReleaseNoteSection =
  rs_type :: string
  rs_entries :: "ReleaseNoteEntry list"

definition typeOf :: "ReleaseNoteEntry \<Rightarrow> string" where
  "typeOf entry = (case parseConventionalCommit (rn_message entry) of Some p \<Rightarrow> pm_type p | None \<Rightarrow> ''other'')"

text \<open>Sorted by rank, then by name: the sort is stable.\<close>

definition groupByType :: "(string \<Rightarrow> string) \<Rightarrow> ReleaseNoteEntry list \<Rightarrow> ReleaseNoteSection list" where
  "groupByType collate entries =
     sort_key (sectionRank \<circ> rs_type) (sort_key (collate \<circ> rs_type)
       (map (\<lambda>(kind, es). \<lparr>rs_type = kind, rs_entries = es\<rparr>) (groupBy typeOf entries)))"

section \<open>Markdown\<close>

definition MIDDLE_DOT :: string where "MIDDLE_DOT = [CHR 0xC2, CHR 0xB7]"
definition WARNING_SIGN :: string where "WARNING_SIGN = [CHR 0xE2, CHR 0x9A, CHR 0xA0]"

definition ticketLink :: "TicketRef \<Rightarrow> string" where
  "ticketLink t = (case orNull (tk_url t) of Some url \<Rightarrow> asLink (tk_key t) url | None \<Rightarrow> tk_key t)"

definition bullet :: "ReleaseNoteEntry \<Rightarrow> string" where
  "bullet entry =
     (let scope = (case orNull (rn_scope entry) of Some s \<Rightarrow> ''**'' @ s @ ''**: '' | None \<Rightarrow> []);
          tickets = joinWith '', '' (map ticketLink (rn_tickets entry));
          request = (case rn_pullRequest entry of Some r \<Rightarrow> asLink (''#'' @ showInt (pq_number r)) (pq_url r) | None \<Rightarrow> []);
          refs = joinWith ('' '' @ MIDDLE_DOT @ '' '') (filter (\<lambda>s. s \<noteq> [])
            [tickets, request, asLink ([CHR 0x60] @ take 7 (rn_sha entry) @ [CHR 0x60]) (rn_url entry)])
      in ''- '' @ scope @ rn_summary entry @ '' '' @ EM_DASH @ '' '' @ refs)"

definition renderNotes :: "string \<Rightarrow> string option \<Rightarrow> string \<Rightarrow> ReleaseNoteSection list \<Rightarrow> ReleaseNoteEntry list \<Rightarrow> string" where
  "renderNotes repo from' to sections breaking =
     (let range = (case orNull from' of Some f \<Rightarrow> f @ ''...'' @ to | None \<Rightarrow> to)
      in joinWith [newline]
        ([''## '' @ repo @ '' '' @ EM_DASH @ '' '' @ range, []] @
         (if breaking \<noteq> [] then [''### '' @ WARNING_SIGN @ '' Breaking changes'', []] @ map bullet breaking @ [[]] else []) @
         concat (map (\<lambda>s. [''### '' @ rs_type s, []] @ map bullet (rs_entries s) @ [[]]) sections) @
         (if sections = [] then [''_No change in this range._'', []] else [])))"

section \<open>The other renderer\<close>

definition issuePath :: "SourceKind \<Rightarrow> string" where
  "issuePath kind = (case kind of GitHub \<Rightarrow> ''issues'' | GitLab \<Rightarrow> ''-/issues'')"

definition hexLower :: "char \<Rightarrow> bool" where
  "hexLower c \<longleftrightarrow> isDigit c \<or> c \<in> set ''abcdef''"

text \<open>\<open>/\/commit\/([0-9a-f]+)\)/\<close>, its first match in a line.\<close>

definition commitOf :: "string \<Rightarrow> string option" where
  "commitOf line =
     (case List.map_filter (\<lambda>t. case afterText ''/commit/'' t of
             None \<Rightarrow> None
           | Some r \<Rightarrow>
               let sha = takeWhile hexLower r
               in if sha \<noteq> [] \<and> prefix '')'' (dropWhile hexLower r) then Some sha else None) (rev (suffixes line)) of
        [] \<Rightarrow> None | sha # _ \<Rightarrow> Some sha)"

definition mentioned :: "(string, TicketRef list) jsmap \<Rightarrow> string \<Rightarrow> string" where
  "mentioned byCommit line =
     (let tickets = (case Option.bind (commitOf line) (map_of byCommit) of Some ts \<Rightarrow> ts | None \<Rightarrow> []);
          missing = filter (\<lambda>t. \<not> mentionsKey line (tk_key t)) tickets
      in if missing = [] then line else line @ '', '' @ joinWith '', '' (map ticketLink missing))"

definition mentionTickets :: "string \<Rightarrow> ReleaseNoteEntry list \<Rightarrow> string" where
  "mentionTickets markdown entries =
     joinWith [newline] (map (mentioned (fold (\<lambda>e. AList.update (rn_sha e) (rn_tickets e)) entries [])) (splitOn newline markdown))"

definition renderChangelog ::
  "(RepoLocation \<Rightarrow> string option \<Rightarrow> string \<Rightarrow> ReleaseNoteEntry list \<Rightarrow> string) \<Rightarrow>
   RepoLocation \<Rightarrow> string option \<Rightarrow> string \<Rightarrow> ReleaseNoteEntry list \<Rightarrow> string" where
  "renderChangelog writer location from' to entries =
     mentionTickets
       (linkTickets (writer location from' to entries) (concat (map rn_tickets entries))
          (Some \<lparr>dl_prefix = repoUrl location @ ''/'' @ issuePath (rl_kind location) @ ''/'',
                 dl_keep = fold (\<lambda>r. AList.update (''#'' @ showInt (pq_number r)) (pq_url r))
                   (List.map_filter rn_pullRequest entries) []\<rparr>))
       entries"

section \<open>The service\<close>

text \<open>
  What an installation answers with. \<open>ni_dial\<close> makes the connector of a context, bound to it;
  \<open>ni_writer\<close> is the writer of the packages, and \<open>answers\<close> a model provider, given the provider
  asked for and the prompt, under the fixed instructions.
\<close>

record RewriteResult =
  rw_markdown :: string
  rw_providerId :: string
  rw_providerName :: string
  rw_model :: string

record LlmAnswer =
  la_text :: string
  la_id :: string
  la_name :: string
  la_model :: string

datatype NotesError = NotesSource SourceError | NotesApi apiError

record ('c, 'w) NotesInstall =
  ni_rx :: RegexEngine
  ni_collate :: "string \<Rightarrow> string"
  ni_vault :: "'c Vault"
  ni_settings :: AppSettings
  ni_sources :: "'c SourcesDb"
  ni_rules :: TicketRuleDb
  ni_dial :: "ResolvedContext \<Rightarrow> 'w RangeConnector"
  ni_writer :: "RepoLocation \<Rightarrow> string option \<Rightarrow> string \<Rightarrow> ReleaseNoteEntry list \<Rightarrow> string"

record ReleaseNotes =
  no_repo :: string
  no_from :: "string option"
  no_to :: string
  no_fromUrl :: "string option"
  no_toUrl :: string
  no_sections :: "ReleaseNoteSection list"
  no_breaking :: "ReleaseNoteEntry list"
  no_markdown :: string
  no_generator :: string

record ReleaseNotesQuery = RangeQuery +
  nq_repo :: string
  nq_tagPattern :: "string option"

definition locationOf :: "ResolvedContext \<Rightarrow> string \<Rightarrow> RepoLocation" where
  "locationOf ctx repo = \<lparr>rl_kind = xc_kind ctx, rl_baseUrl = xc_baseUrl ctx, rl_owner = fst (xc_scope ctx), rl_repo = repo\<rparr>"

definition renderRange ::
  "('c, 'w) NotesInstall \<Rightarrow> RepoLocation \<Rightarrow> string option \<Rightarrow> string \<Rightarrow> ReleaseNoteEntry list \<Rightarrow> string \<times> string" where
  "renderRange inst location from' to entries =
     (let generator = st_releaseNotesGenerator (ni_settings inst)
      in (if generator = ''conventional-changelog'' then renderChangelog (ni_writer inst) location from' to entries
          else linkTickets (renderNotes (rl_repo location) from' to (groupByType (ni_collate inst) entries) (filter rn_breaking entries))
                 (concat (map rn_tickets entries)) None,
          generator))"

text \<open>A call made in the context a source resolves to.\<close>

definition inContext :: "('c, 'w) NotesInstall \<Rightarrow> string \<Rightarrow> (ResolvedContext \<Rightarrow> 'w RangeConnector \<Rightarrow> ('w, 'a) call) \<Rightarrow>
    'w \<Rightarrow> 'w \<times> (NotesError + 'a)" where
  "inContext inst sourceId body w =
     (case resolveContext (ni_vault inst) (ni_settings inst) sourceId (ni_sources inst) of
        Inl e \<Rightarrow> (w, Inl (NotesSource e))
      | Inr ctx \<Rightarrow> (case body ctx (ni_dial inst ctx) w of (w', answer) \<Rightarrow> (w', map_sum NotesApi id answer)))"

definition tagsOf :: "('c, 'w) NotesInstall \<Rightarrow> string \<Rightarrow> string \<Rightarrow> string option \<Rightarrow> 'w \<Rightarrow> 'w \<times> (NotesError + Tag list)" where
  "tagsOf inst sourceId repo pattern =
     inContext inst sourceId (\<lambda>ctx c. andThen (nc_listTags c repo) (\<lambda>tags. returns (tagsMatching (ni_rx inst) tags pattern)))"

definition branchesOf :: "('c, 'w) NotesInstall \<Rightarrow> string \<Rightarrow> string \<Rightarrow> 'w \<Rightarrow> 'w \<times> (NotesError + Branch list)" where
  "branchesOf inst sourceId repo = inContext inst sourceId (\<lambda>ctx c. nc_listBranches c repo)"

definition notesFor ::
  "('c, 'w) NotesInstall \<Rightarrow> string \<Rightarrow> ReleaseNotesQuery \<Rightarrow> RepoLocation \<Rightarrow> 'w RangeConnector \<Rightarrow> ('w, ReleaseNotes) call" where
  "notesFor inst sourceId query location c =
     (let repo = nq_repo query in
      andThen (nc_listTags c repo) (\<lambda>listed.
      andThen (resolveRange (RangeQuery.truncate query) (tagsMatching (ni_rx inst) listed (nq_tagPattern query)) (nc_defaultBranch c repo)) (\<lambda>(from', to).
      andThen (nc_listCommitsBetween c repo from' to) (\<lambda>commits.
      andThen (toEntries (ni_rx inst) (ni_rules inst) sourceId c location commits) (\<lambda>entries.
        let (markdown, generator) = renderRange inst location from' to entries
        in returns \<lparr>no_repo = repo, no_from = from', no_to = to, no_fromUrl = map_option (refUrl location) from',
             no_toUrl = refUrl location to, no_sections = groupByType (ni_collate inst) entries,
             no_breaking = filter rn_breaking entries, no_markdown = markdown, no_generator = generator\<rparr>)))))"

definition generate :: "('c, 'w) NotesInstall \<Rightarrow> string \<Rightarrow> ReleaseNotesQuery \<Rightarrow> 'w \<Rightarrow> 'w \<times> (NotesError + ReleaseNotes)" where
  "generate inst sourceId query =
     inContext inst sourceId (\<lambda>ctx c. notesFor inst sourceId query (locationOf ctx (nq_repo query)) c)"

definition rewriteNotes ::
  "(string option \<Rightarrow> string \<Rightarrow> 'e + LlmAnswer) \<Rightarrow> string option \<Rightarrow> string \<Rightarrow> string option \<Rightarrow> 'e + RewriteResult" where
  "rewriteNotes answers providerId markdown language =
     map_sum id (\<lambda>answer. \<lparr>rw_markdown = readRewritten (la_text answer), rw_providerId = la_id answer,
         rw_providerName = la_name answer, rw_model = la_model answer\<rparr>)
       (answers providerId (buildRewritePrompt markdown language))"

section \<open>Every entry is listed once\<close>

lemma groupByType_mset:
  "mset (groupByType collate entries) = mset (map (\<lambda>(kind, es). \<lparr>rs_type = kind, rs_entries = es\<rparr>) (groupBy typeOf entries))"
  by (simp add: groupByType_def)

lemma groupByType_map:
  "mset (map f (groupByType collate entries)) =
   mset (map (\<lambda>e. f \<lparr>rs_type = fst e, rs_entries = snd e\<rparr>) (groupBy typeOf entries))"
  unfolding mset_map groupByType_mset by (simp add: image_mset.compositionality comp_def split_def)

lemma concat_mset_cong: "mset xs = mset ys \<Longrightarrow> mset (concat xs) = mset (concat ys)"
proof -
  assume e: "mset xs = mset ys"
  have m: "mset (concat zs) = sum_mset (image_mset mset (mset zs))" for zs :: "'a list list"
    by (induction zs) simp_all
  show ?thesis unfolding m e ..
qed

lemma groupByType_types: "distinct (map rs_type (groupByType collate entries))"
proof -
  have "mset (map rs_type (groupByType collate entries)) = mset (map fst (groupBy typeOf entries))"
    by (simp add: groupByType_map del: mset_map)
  from mset_eq_imp_distinct_iff [OF this] show ?thesis by simp
qed

text \<open>The sections of a release note hold each entry of the range exactly once: one section for each
  type that occurs, its entries in the order of the range, and the sections in the order readers look for
  them; what follows no convention comes last and is listed all the same.\<close>

theorem every_entry_is_listed_once:
  "mset (concat (map rs_entries (groupByType collate entries))) = mset entries \<and>
   distinct (map rs_type (groupByType collate entries)) \<and>
   list_all (\<lambda>s. rs_entries s \<noteq> [] \<and> rs_entries s = filter (\<lambda>e. typeOf e = rs_type s) entries) (groupByType collate entries) \<and>
   sorted (map (sectionRank \<circ> rs_type) (groupByType collate entries))"
proof (intro conjI)
  have "mset (map rs_entries (groupByType collate entries)) = mset (map snd (groupBy typeOf entries))"
    by (simp add: groupByType_map del: mset_map)
  then have "mset (concat (map rs_entries (groupByType collate entries))) = mset (concat (map snd (groupBy typeOf entries)))"
    by (rule concat_mset_cong)
  then show "mset (concat (map rs_entries (groupByType collate entries))) = mset entries" by (simp add: groupBy_mset)
  have "set (groupByType collate entries) = (\<lambda>(kind, es). \<lparr>rs_type = kind, rs_entries = es\<rparr>) ` set (groupBy typeOf entries)"
    by (simp add: groupByType_def)
  then show "list_all (\<lambda>s. rs_entries s \<noteq> [] \<and> rs_entries s = filter (\<lambda>e. typeOf e = rs_type s) entries) (groupByType collate entries)"
    by (auto simp: list_all_iff dest: groupBy_entry)
  show "sorted (map (sectionRank \<circ> rs_type) (groupByType collate entries))" by (simp add: groupByType_def)
qed (rule groupByType_types)

section \<open>An expansion neither loses nor repeats\<close>

abbreviation shaOf :: "Landed \<Rightarrow> string" where "shaOf entry \<equiv> cm_sha (ld_commit entry)"

lemma freshOf_squash: "commit \<in> set (freshOf squashes byRequest held entry) \<Longrightarrow> shaOf entry \<in> set squashes \<and> cm_sha commit \<notin> held"
  unfolding freshOf_def by (cases "shaOf entry \<in> set squashes") simp_all

lemma freshOf_fresh:
  assumes "list_all (\<lambda>e. distinct (map cm_sha (snd e))) byRequest"
  shows "distinct (map cm_sha (freshOf squashes byRequest held entry))"
    and "set (map cm_sha (freshOf squashes byRequest held entry)) \<inter> held = {}"
proof -
  have "distinct (map cm_sha (case map_of byRequest (requestNumber entry) of Some children \<Rightarrow> children | None \<Rightarrow> []))"
    using assms map_of_SomeD [of byRequest "requestNumber entry"]
    by (cases "map_of byRequest (requestNumber entry)") (simp_all add: list_all_iff, fastforce)
  then show "distinct (map cm_sha (freshOf squashes byRequest held entry))"
    unfolding freshOf_def by (cases "shaOf entry \<in> set squashes") (simp_all add: distinct_map_filter)
  show "set (map cm_sha (freshOf squashes byRequest held entry)) \<inter> held = {}"
    using freshOf_squash by force
qed

lemma expanded_shas:
  assumes "list_all (\<lambda>e. distinct (map cm_sha (snd e))) byRequest"
  shows "distinct (map shaOf landed) \<Longrightarrow> set (map shaOf landed) \<subseteq> held \<Longrightarrow>
    distinct (map shaOf (expanded squashes byRequest held landed)) \<and>
    set (map shaOf (expanded squashes byRequest held landed)) \<inter> held \<subseteq> set (map shaOf landed)"
proof (induction landed arbitrary: held)
  case (Cons entry rest)
  let ?fresh = "freshOf squashes byRequest held entry"
  note fresh = freshOf_fresh [OF assms, of squashes held entry]
  from Cons.prems have rest: "distinct (map shaOf rest)" "shaOf entry \<notin> set (map shaOf rest)"
    and held: "shaOf entry \<in> held" "set (map shaOf rest) \<subseteq> held" by auto
  show ?case
  proof (cases "?fresh = []")
    case True
    from Cons.IH [OF rest(1) held(2)] rest(2) held True show ?thesis by (auto simp: image_iff)
  next
    case False
    let ?more = "set (map cm_sha ?fresh)" and ?out = "expanded squashes byRequest (held \<union> set (map cm_sha ?fresh)) rest"
    have "set (map shaOf rest) \<subseteq> held \<union> ?more" using held(2) by blast
    note IH = Cons.IH [OF rest(1) this]
    have out: "map shaOf (expanded squashes byRequest held (entry # rest)) = map cm_sha ?fresh @ map shaOf ?out"
      using False by (simp add: Let_def comp_def)
    have "?more \<inter> set (map shaOf ?out) = {}" using IH fresh(2) held(2) by blast
    then have "distinct (map shaOf (expanded squashes byRequest held (entry # rest)))"
      unfolding out distinct_append using IH fresh(1) by blast
    moreover have "set (map shaOf (expanded squashes byRequest held (entry # rest))) \<inter> held \<subseteq> set (map shaOf rest)"
      unfolding out set_append using IH fresh(2) by blast
    ultimately show ?thesis by auto
  qed
qed simp

lemma expanded_Cons:
  "set (expanded squashes byRequest held (entry # rest)) =
     (let fresh = freshOf squashes byRequest held entry
      in (if fresh = [] then {entry} else (\<lambda>c. entry\<lparr>ld_commit := c\<rparr>) ` set fresh) \<union>
         set (expanded squashes byRequest (held \<union> set (map cm_sha fresh)) rest))"
  by (simp add: Let_def)

text \<open>What the platform lists for the squashes of a range, and for one entry of it.\<close>

definition listedFor :: "'w RangeConnector \<Rightarrow> RepoLocation \<Rightarrow> Landed list \<Rightarrow> 'w \<Rightarrow> (int, Commit list) jsmap" where
  "listedFor c location landed w =
     (let squashed = filter (isSquash location \<circ> ld_commit) landed
      in if squashed = [] then []
         else case snd (nc_pullRequestCommits c (rl_repo location)
                (firstSeen (List.map_filter (map_option pq_number \<circ> ld_ref) squashed)) w) of
           Inl _ \<Rightarrow> []
         | Inr byRequest \<Rightarrow> byRequest)"

definition childrenOf :: "(int, Commit list) jsmap \<Rightarrow> Landed \<Rightarrow> Commit list" where
  "childrenOf byRequest entry =
     (case map_of byRequest (requestNumber entry) of Some children \<Rightarrow> children | None \<Rightarrow> [])"

text \<open>The lines that stand for an entry: itself, or commits of its own request the range did not hold.\<close>

definition standsFor :: "bool \<Rightarrow> (int, Commit list) jsmap \<Rightarrow> string set \<Rightarrow> Landed \<Rightarrow> Landed list \<Rightarrow> bool" where
  "standsFor squash byRequest held entry lines \<longleftrightarrow> lines = [entry] \<or>
     (squash \<and> lines \<noteq> [] \<and> (\<exists>cs. lines = map (\<lambda>c. entry\<lparr>ld_commit := c\<rparr>) cs \<and>
        set cs \<subseteq> set (childrenOf byRequest entry) \<and> cm_sha ` set cs \<inter> held = {}))"

lemma freshOf_children: "set (freshOf squashes byRequest held entry) \<subseteq> set (childrenOf byRequest entry)"
  by (cases "shaOf entry \<in> set squashes") (auto simp: freshOf_def childrenOf_def)

lemma expanded_lines:
  "H \<subseteq> held \<Longrightarrow> \<exists>lines. expanded squashes byRequest held landed = concat lines \<and>
     list_all2 (\<lambda>entry. standsFor (shaOf entry \<in> set squashes) byRequest H entry) landed lines"
proof (induction landed arbitrary: held)
  case (Cons entry rest)
  let ?fresh = "freshOf squashes byRequest held entry"
  have "H \<subseteq> held \<union> set (map cm_sha ?fresh)" using Cons.prems by blast
  from Cons.IH [OF this] obtain lines where
    l: "expanded squashes byRequest (held \<union> set (map cm_sha ?fresh)) rest = concat lines"
    "list_all2 (\<lambda>entry. standsFor (shaOf entry \<in> set squashes) byRequest H entry) rest lines" by blast
  let ?first = "if ?fresh = [] then [entry] else map (\<lambda>c. entry\<lparr>ld_commit := c\<rparr>) ?fresh"
  have "standsFor (shaOf entry \<in> set squashes) byRequest H entry ?first"
  proof (cases "?fresh = []")
    case False
    then obtain c where c: "c \<in> set ?fresh" by (cases ?fresh) auto
    have "cm_sha ` set ?fresh \<inter> H = {}" using Cons.prems freshOf_squash [of _ squashes byRequest held entry] by blast
    with False freshOf_squash [OF c] freshOf_children show ?thesis unfolding standsFor_def by auto
  qed (simp add: standsFor_def)
  with l show ?case
    by (intro exI [of _ "?first # lines"]) (cases "?fresh = []"; simp add: Let_def)
qed simp

lemma expanded_children:
  "entry \<in> set landed \<Longrightarrow> shaOf entry \<in> set squashes \<Longrightarrow> child \<in> set (childrenOf byRequest entry) \<Longrightarrow>
   cm_sha child \<in> held \<union> set (map shaOf (expanded squashes byRequest held landed))"
proof (induction landed arbitrary: held)
  case (Cons first rest)
  let ?fresh = "freshOf squashes byRequest held first"
  have made: "cm_sha c \<in> set (map shaOf (expanded squashes byRequest held (first # rest)))" if "c \<in> set ?fresh" for c
    using that unfolding set_map expanded_Cons Let_def by (cases "?fresh = []") (auto simp: image_Un image_image)
  show ?case
  proof (cases "entry = first")
    case True
    have "child \<in> set ?fresh" if "cm_sha child \<notin> held"
      using that True Cons.prems(2,3) by (auto simp: freshOf_def childrenOf_def)
    with made show ?thesis by blast
  next
    case False
    with Cons.prems have "entry \<in> set rest" by simp
    from Cons.IH [OF this Cons.prems(2,3), of "held \<union> set (map cm_sha ?fresh)"] made show ?thesis
      unfolding expanded_Cons set_map Let_def by auto
  qed
qed simp

text \<open>C35. Expanding the squashes of a range neither loses work nor counts it twice. When the commits of
  the range are distinct and the platform lists no commit of a request twice, the result lists no commit
  twice, and keeps the order of the range: at the place of each commit stands that commit itself, or, for
  a squash, commits the platform listed for its own request and the range did not hold, with the request,
  the branch and the texts of the squash. And no work is lost: every commit the platform listed for the
  request of a squash is in the range or in the result.\<close>

theorem an_expansion_neither_loses_nor_repeats:
  assumes "distinct (map shaOf landed)"
    and "list_all (\<lambda>e. distinct (map cm_sha (snd e))) (listedFor c location landed w)"
    and "expandSquashes c location landed w = (w', Inr out)"
  shows "distinct (map shaOf out) \<and>
    (\<exists>lines. out = concat lines \<and>
       list_all2 (\<lambda>entry. standsFor (isSquash location (ld_commit entry)) (listedFor c location landed w)
         (set (map shaOf landed)) entry) landed lines) \<and>
    (\<forall>entry \<in> set landed. isSquash location (ld_commit entry) \<longrightarrow>
       (\<forall>child \<in> set (childrenOf (listedFor c location landed w) entry).
          cm_sha child \<in> set (map shaOf landed) \<union> set (map shaOf out)))"
proof -
  let ?squashed = "filter (isSquash location \<circ> ld_commit) landed"
  let ?m = "listedFor c location landed w"
  have squash: "shaOf entry \<in> set (map shaOf ?squashed) \<longleftrightarrow> isSquash location (ld_commit entry)"
    if e: "entry \<in> set landed" for entry
  proof
    assume "shaOf entry \<in> set (map shaOf ?squashed)"
    then obtain other where "other \<in> set landed" "isSquash location (ld_commit other)" "shaOf other = shaOf entry"
      by auto
    with assms(1) e show "isSquash location (ld_commit entry)" by (metis distinct_map inj_onD)
  qed (use e in auto)
  have itself: "\<exists>lines. landed = concat lines \<and>
      list_all2 (\<lambda>entry. standsFor (isSquash location (ld_commit entry)) ?m (set (map shaOf landed)) entry) landed lines"
    by (rule exI [of _ "map (\<lambda>entry. [entry]) landed"]) (simp add: standsFor_def list.rel_map list.rel_refl)
  consider "out = landed" "?m = []" | "out = expanded (map shaOf ?squashed) ?m (set (map shaOf landed)) landed"
  proof (cases "?squashed = []")
    case True
    with assms(3) have "out = landed" by (simp add: expandSquashes_def returns_def)
    moreover have "?m = []" unfolding listedFor_def Let_def using True by (rule if_P)
    ultimately show ?thesis by (rule that(1))
  next
    case False
    let ?ns = "firstSeen (List.map_filter (map_option pq_number \<circ> ld_ref) ?squashed)"
    obtain w1 r where r: "nc_pullRequestCommits c (rl_repo location) ?ns w = (w1, r)" by force
    have out: "(case r of Inl e \<Rightarrow> (w1, Inl e) | Inr m \<Rightarrow> (w1, Inr (if m = [] then landed
        else expanded (map (cm_sha \<circ> ld_commit) ?squashed) m (set (map (cm_sha \<circ> ld_commit) landed)) landed))) = (w', Inr out)"
      using assms(3) unfolding expandSquashes_def Let_def if_not_P [OF False] andThen_def r prod.case returns_def .
    then obtain m where m: "r = Inr m" by (cases r) simp_all
    have "?m = m" unfolding listedFor_def Let_def if_not_P [OF False] r m by simp
    moreover from out m have "out = (if m = [] then landed
        else expanded (map (cm_sha \<circ> ld_commit) ?squashed) m (set (map (cm_sha \<circ> ld_commit) landed)) landed)" by simp
    ultimately show ?thesis using that by (auto simp: comp_def split: if_splits)
  qed
  then show ?thesis
  proof cases
    case 1
    with assms(1) itself show ?thesis by (simp add: childrenOf_def)
  next
    case 2
    have "distinct (map shaOf out)" using expanded_shas [OF assms(2,1) subset_refl] 2 by blast
    moreover obtain lines where l: "out = concat lines"
      "list_all2 (\<lambda>entry. standsFor (shaOf entry \<in> set (map shaOf ?squashed)) ?m (set (map shaOf landed)) entry) landed lines"
      using expanded_lines [OF subset_refl] 2 by blast
    have "list_all2 (\<lambda>entry. standsFor (isSquash location (ld_commit entry)) ?m (set (map shaOf landed)) entry) landed lines"
      using l(2) by (rule list.rel_mono_strong) (simp only: squash)
    moreover have "cm_sha child \<in> set (map shaOf landed) \<union> set (map shaOf out)"
      if "entry \<in> set landed" "isSquash location (ld_commit entry)" "child \<in> set (childrenOf ?m entry)" for entry child
      using expanded_children [OF that(1) _ that(3), of "map shaOf ?squashed" "set (map shaOf landed)"] squash [OF that(1)] that(2) 2
      by blast
    ultimately show ?thesis using l(1) by blast
  qed
qed

definition sample_range :: "(int, Commit list) jsmap \<Rightarrow> unit RangeConnector" where
  "sample_range requests =
     \<lparr>nc_listTags = (\<lambda>_. returns []), nc_listBranches = (\<lambda>_. returns []), nc_defaultBranch = (\<lambda>_. returns ''main''),
      nc_refCommit = (\<lambda>_ _. returns None), nc_mergeBase = (\<lambda>_ _ _. returns None),
      nc_listCommitsBetween = (\<lambda>_ _ _. returns []), nc_commitPullRequests = (\<lambda>_ _. returns []),
      nc_pullRequestCommits = (\<lambda>_ _. returns requests), nc_mayEnrich = returns True\<rparr>"

definition sample_listed :: "string \<Rightarrow> string \<Rightarrow> Commit" where
  "sample_listed sha message =
     \<lparr>cm_sha = sha, cm_message = message, cm_author = ''ada'', cm_authoredAt = 0, cm_url = [], cm_parents = 1\<rparr>"

definition sample_landed :: "string \<Rightarrow> string \<Rightarrow> int \<Rightarrow> Landed" where
  "sample_landed sha message number =
     \<lparr>ld_ref = Some \<lparr>pq_number = number, pq_url = []\<rparr>, ld_branch = None, ld_title = None, ld_body = None,
      ld_commit = sample_listed sha message\<rparr>"

theorem an_expansion_neither_loses_nor_repeats_witness:
  "let landed = [sample_landed ''c4'' ''feat: add it (#7)'' 7, sample_landed ''c1'' ''fix: typo'' 7];
       out = [sample_landed ''c2'' ''wip'' 7, sample_landed ''c3'' ''wip 2'' 7, sample_landed ''c1'' ''fix: typo'' 7]
   in expandSquashes (sample_range [(7, [sample_listed ''c1'' ''fix: typo'', sample_listed ''c2'' ''wip'', sample_listed ''c3'' ''wip 2''])])
        \<lparr>rl_kind = GitHub, rl_baseUrl = [], rl_owner = ''acme'', rl_repo = ''shop''\<rparr> landed () = ((), Inr out) \<and>
      distinct (map shaOf out)"
proof -
  let ?c = "sample_range [(7, [sample_listed ''c1'' ''fix: typo'', sample_listed ''c2'' ''wip'', sample_listed ''c3'' ''wip 2''])]"
  let ?loc = "\<lparr>rl_kind = GitHub, rl_baseUrl = [], rl_owner = ''acme'', rl_repo = ''shop''\<rparr>"
  let ?landed = "[sample_landed ''c4'' ''feat: add it (#7)'' 7, sample_landed ''c1'' ''fix: typo'' 7]"
  let ?out = "[sample_landed ''c2'' ''wip'' 7, sample_landed ''c3'' ''wip 2'' 7, sample_landed ''c1'' ''fix: typo'' 7]"
  have run: "expandSquashes ?c ?loc ?landed () = ((), Inr ?out)" by code_simp
  have "list_all (\<lambda>e. distinct (map cm_sha (snd e))) (listedFor ?c ?loc ?landed ())" by code_simp
  moreover have "distinct (map shaOf ?landed)" by (simp add: sample_landed_def sample_listed_def)
  ultimately show ?thesis using an_expansion_neither_loses_nor_repeats [OF _ _ run] run unfolding Let_def by blast
qed

section \<open>What needs no call\<close>

text \<open>A history whose messages name their requests costs nothing when no rule reads the requests.\<close>

lemma a_named_history_costs_no_call:
  assumes "list_all (\<lambda>commit. mr'_number (readOf location commit) \<noteq> None) commits"
    and "set wanted \<subseteq> {TicketSource.Commit}"
  shows "requestsOf c wanted location commits w = (w, Inr (map (requestOf location []) commits))"
proof -
  have "filter (unresolved wanted location) commits = []"
    using assms by (auto simp: filter_empty_conv list_all_iff unresolved_def)
  then show ?thesis by (simp add: requestsOf_def returns_def andThen_def)
qed

end
