(* ===== verification/Changelog_Store.thy ===== *)
theory Changelog_Store
  imports Release_Notes Pagination
begin

text \<open>
  The archive of what deployments carried: \<open>back/src/changelogs/changelog.store.ts\<close>. The table is
  keyed by source and deployment; a row gets its identity and its date from the database when it is
  created. A search ignores the case of ASCII letters.

  The theorem: what is filed once is never rewritten, by any run and for any reason.
\<close>

datatype DeploymentBase = PreviousBase | DefaultBase | RefBase | NearestBase

record NewChangelog =
  nl_deploymentId :: string
  nl_repo :: string
  nl_environment :: string
  nl_ref :: string
  nl_baseRef :: "string option"
  nl_base :: DeploymentBase
  nl_refUrl :: string
  nl_baseRefUrl :: "string option"
  nl_deploymentUrl :: "string option"
  nl_environmentUrl :: "string option"
  nl_status :: PipelineStatus
  nl_entries :: "ReleaseNoteEntry list"
  nl_markdown :: string
  nl_authors :: nat
  nl_unreadable :: bool
  nl_generator :: string
  nl_deployedAt :: instant

text \<open>A row: what was filed, with the identity, the date and the count of its commits.\<close>

record ChangelogRow = NewChangelog +
  cl_id :: string
  cl_archivedAt :: instant
  cl_commits :: nat

type_synonym ChangelogDb = "((string \<times> string) \<times> ChangelogRow) list"

definition toRow :: "string \<Rightarrow> instant \<Rightarrow> NewChangelog \<Rightarrow> ChangelogRow" where
  "toRow fresh now filing = NewChangelog.extend filing (ChangelogRow.fields fresh now (length (nl_entries filing)))"

definition findChangelog :: "string \<Rightarrow> string \<Rightarrow> ChangelogDb \<Rightarrow> ChangelogRow option" where
  "findChangelog sourceId deploymentId db = map_of db (sourceId, deploymentId)"

definition knownChangelogs :: "string \<Rightarrow> string list \<Rightarrow> ChangelogDb \<Rightarrow> string set" where
  "knownChangelogs sourceId ids db = {i \<in> set ids. findChangelog sourceId i db \<noteq> None}"

text \<open>An upsert that updates nothing: a row is created when there is none.\<close>

definition recordChangelog :: "string \<Rightarrow> string \<Rightarrow> instant \<Rightarrow> NewChangelog \<Rightarrow> ChangelogDb \<Rightarrow> ChangelogDb" where
  "recordChangelog sourceId fresh now filing db =
     (case findChangelog sourceId (nl_deploymentId filing) db of
        Some _ \<Rightarrow> db
      | None \<Rightarrow> db @ [((sourceId, nl_deploymentId filing), toRow fresh now filing)])"

record ChangelogFilters =
  cf_repos :: "string list option"
  cf_environments :: "string list option"
  cf_search :: "string option"

record ChangelogWindow =
  cw_from :: "instant option"
  cw_to :: "instant option"

definition containsText :: "string \<Rightarrow> string \<Rightarrow> bool" where
  "containsText needle hay \<longleftrightarrow> sublist (map lowerChar needle) (map lowerChar hay)"

definition narrows :: "'a list option \<Rightarrow> 'a \<Rightarrow> bool" where
  "narrows xs x \<longleftrightarrow> (case xs of None \<Rightarrow> True | Some ys \<Rightarrow> ys = [] \<or> x \<in> set ys)"

definition changelogMatches :: "ChangelogFilters \<Rightarrow> ChangelogWindow \<Rightarrow> ChangelogRow \<Rightarrow> bool" where
  "changelogMatches filters bounds row \<longleftrightarrow>
     narrows (cf_repos filters) (nl_repo row) \<and> narrows (cf_environments filters) (nl_environment row) \<and>
     (case cw_from bounds of Some t \<Rightarrow> t \<le> nl_deployedAt row | None \<Rightarrow> True) \<and>
     (case cw_to bounds of Some t \<Rightarrow> nl_deployedAt row \<le> t | None \<Rightarrow> True) \<and>
     (case orNull (cf_search filters) of
        Some s \<Rightarrow> containsText s (nl_markdown row) \<or> containsText s (nl_ref row) | None \<Rightarrow> True)"

definition rowsOf :: "string \<Rightarrow> ChangelogDb \<Rightarrow> ChangelogRow list" where
  "rowsOf sourceId db = map snd (filter (\<lambda>e. fst (fst e) = sourceId) db)"

definition listChangelogs :: "string \<Rightarrow> ChangelogFilters \<Rightarrow> ChangelogWindow \<Rightarrow> PageWindow \<Rightarrow> ChangelogDb \<Rightarrow> ChangelogRow Page" where
  "listChangelogs sourceId filters bounds window db =
     (let matching = sort_key (\<lambda>row. - nl_deployedAt row) (filter (changelogMatches filters bounds) (rowsOf sourceId db))
      in toPage (take (pw_limit window) (drop (pw_offset window) matching)) (length matching) window)"

definition changelogVocabularies :: "string \<Rightarrow> ChangelogDb \<Rightarrow> string list \<times> string list" where
  "changelogVocabularies sourceId db =
     (sort (remdups (map nl_repo (rowsOf sourceId db))), sort (remdups (map nl_environment (rowsOf sourceId db))))"

definition lastArchivedAt :: "string \<Rightarrow> ChangelogDb \<Rightarrow> instant option" where
  "lastArchivedAt sourceId db =
     (case sort_key (\<lambda>row. - cl_archivedAt row) (rowsOf sourceId db) of [] \<Rightarrow> None | row # _ \<Rightarrow> Some (cl_archivedAt row))"

section \<open>Written once\<close>

lemma findChangelog_record:
  "findChangelog sourceId i (recordChangelog sourceId' fresh now filing db) =
     (case findChangelog sourceId i db of
        Some row \<Rightarrow> Some row
      | None \<Rightarrow> if sourceId = sourceId' \<and> i = nl_deploymentId filing then Some (toRow fresh now filing) else None)"
  by (auto simp: findChangelog_def recordChangelog_def map_add_def split: option.split)

lemma record_keeps: "findChangelog sourceId i db = Some row \<Longrightarrow> findChangelog sourceId i (recordChangelog s fresh now filing db) = Some row"
  by (simp add: findChangelog_record)

lemma record_unique [gp_inv]:
  "distinct (map fst db) \<Longrightarrow> distinct (map fst (recordChangelog sourceId fresh now filing db))"
  by (auto simp: recordChangelog_def findChangelog_def map_of_eq_None_iff split: option.split)

end
