(* ===== verification/Deployments.thy ===== *)
theory Deployments
  imports Dora_Service Changelog_Store
begin

text \<open>
  The deployments of a source: \<open>back/src/deployments/filter.ts\<close>, \<open>git-ref.ts\<close>, \<open>nearest-branch.ts\<close>
  and \<open>deployments.service.ts\<close>. A listed deployment carries what its environment was found to mean and
  the address it answers at. The contents of a comparison (commits described and rendered) are made by
  the release notes, a parameter here; the archive of changelogs and the readings of versions are asked
  by functions.
\<close>

record ClassifiedDeployment = Deployment +
  cd_attributes :: dims
  cd_metaEnvironments :: "string list"
  cd_refUrl :: string

section \<open>Filters\<close>

record DeploymentFilters =
  df_environments :: "string list option"
  df_statuses :: "PipelineStatus list option"
  df_dimensions :: "dims option"

definition META_KEY :: string where "META_KEY = ''@meta''"

definition statusName :: "PipelineStatus \<Rightarrow> string" where
  "statusName s = (case s of Success \<Rightarrow> ''success'' | Failed \<Rightarrow> ''failed'' | Running \<Rightarrow> ''running'' | Pending \<Rightarrow> ''pending''
     | Canceled \<Rightarrow> ''canceled'' | Skipped \<Rightarrow> ''skipped'' | Unknown \<Rightarrow> ''unknown'')"

record Vocabulary =
  vo_environments :: "string list"
  vo_statuses :: "PipelineStatus list"
  vo_dimensions :: "(string, string list) jsmap"

text \<open>The pairs a deployment offers: its attributes, and its meta-environments under their own key.\<close>

definition offered :: "'a ClassifiedDeployment_scheme \<Rightarrow> (string \<times> string) list" where
  "offered d = cd_attributes d @ map (\<lambda>meta. (META_KEY, meta)) (cd_metaEnvironments d)"

definition addValue :: "string \<times> string \<Rightarrow> (string, string list) jsmap \<Rightarrow> (string, string list) jsmap" where
  "addValue pair m =
     (case map_of m (fst pair) of
        Some seen \<Rightarrow> AList.update (fst pair) (if snd pair \<in> set seen then seen else seen @ [snd pair]) m
      | None \<Rightarrow> AList.update (fst pair) [snd pair] m)"

definition vocabularies :: "(string \<Rightarrow> string) \<Rightarrow> ClassifiedDeployment list \<Rightarrow> Vocabulary" where
  "vocabularies collate ds =
     \<lparr>vo_environments = sort (remdups (map dp_environment ds)),
      vo_statuses = sort_key statusName (remdups (map dp_status ds)),
      vo_dimensions = map (\<lambda>(key, vs). (key, sort vs))
        (sort_key (collate \<circ> fst) (fold addValue (concat (map offered ds)) []))\<rparr>"

definition given :: "'a list option \<Rightarrow> 'a list" where
  "given xs = (case xs of Some ys \<Rightarrow> ys | None \<Rightarrow> [])"

definition passes :: "DeploymentFilters \<Rightarrow> ClassifiedDeployment \<Rightarrow> bool" where
  "passes filters d \<longleftrightarrow>
     (given (df_environments filters) \<noteq> [] \<longrightarrow> dp_environment d \<in> set (given (df_environments filters))) \<and>
     (given (df_statuses filters) \<noteq> [] \<longrightarrow> dp_status d \<in> set (given (df_statuses filters))) \<and>
     list_all (\<lambda>(key, v). if key = META_KEY then v \<in> set (cd_metaEnvironments d) else map_of (cd_attributes d) key = Some v)
       (given (df_dimensions filters))"

definition applyFilters :: "ClassifiedDeployment list \<Rightarrow> DeploymentFilters \<Rightarrow> ClassifiedDeployment list" where
  "applyFilters ds filters = filter (passes filters) ds"

definition byMostRecent :: "ClassifiedDeployment list \<Rightarrow> ClassifiedDeployment list" where
  "byMostRecent ds = sort_key (\<lambda>d. - dp_createdAt d) ds"

definition previousDeployment :: "ClassifiedDeployment list \<Rightarrow> ClassifiedDeployment \<Rightarrow> ClassifiedDeployment option" where
  "previousDeployment ds target =
     (case byMostRecent (filter (\<lambda>d. dp_id d \<noteq> dp_id target \<and> dp_repo d = dp_repo target \<and>
         dp_environment d = dp_environment target \<and> dp_status d = Success \<and> dp_createdAt d \<le> dp_createdAt target) ds) of
        [] \<Rightarrow> None | d # _ \<Rightarrow> Some d)"

section \<open>References\<close>

text \<open>\<open>/[\s~^:?*[\\]/\<close>: what git forbids; white space is that of the first 256 characters.\<close>

definition forbiddenRefChar :: "char \<Rightarrow> bool" where
  "forbiddenRefChar c \<longleftrightarrow>
     (let n = (of_char c :: nat) in (9 \<le> n \<and> n \<le> 13) \<or> n = 32 \<or> n = 160) \<or>
     c \<in> set ''~^:?*['' \<or> c = CHR 92"

definition isValidGitRef :: "string \<Rightarrow> bool" where
  "isValidGitRef ref \<longleftrightarrow>
     ref \<noteq> [] \<and> length ref \<le> 255 \<and> \<not> sublist ''..'' ref \<and> \<not> prefix ''-'' ref \<and> \<not> list_ex forbiddenRefChar ref"

section \<open>The nearest branch\<close>

definition NEAREST_CANDIDATES :: nat where "NEAREST_CANDIDATES = 12"

record BranchBase =
  bb_branch :: string
  bb_isDefault :: bool
  bb_base :: "DatedCommit option"

text \<open>\<open>ref.slice(0, ref.lastIndexOf('/') + 1)\<close>\<close>

definition linePrefix :: "string \<Rightarrow> string option" where
  "linePrefix ref = (if CHR ''/'' \<in> set ref then Some (rev (dropWhile (\<lambda>c. c \<noteq> CHR ''/'') (rev ref))) else None)"

definition branchRank :: "string \<Rightarrow> Branch \<Rightarrow> nat" where
  "branchRank ref branch =
     (if br_isDefault branch then 0
      else case linePrefix ref of Some p \<Rightarrow> if prefix p (br_name branch) then 1 else 2 | None \<Rightarrow> 2)"

definition candidateBranches :: "Branch list \<Rightarrow> string \<Rightarrow> nat \<Rightarrow> Branch list" where
  "candidateBranches branches ref limit =
     take limit (sort_key (branchRank ref) (filter (\<lambda>b. br_name b \<noteq> ref) branches))"

definition usableBase :: "DatedCommit option \<Rightarrow> BranchBase \<Rightarrow> bool" where
  "usableBase tip candidate \<longleftrightarrow>
     (case bb_base candidate of
        None \<Rightarrow> False
      | Some base \<Rightarrow> orNull (dk_committedAt base) \<noteq> None \<and> (case tip of None \<Rightarrow> True | Some t \<Rightarrow> dk_sha base \<noteq> dk_sha t))"

definition baseDate :: "BranchBase \<Rightarrow> string" where
  "baseDate candidate = (case Option.bind (bb_base candidate) dk_committedAt of Some d \<Rightarrow> d | None \<Rightarrow> [])"

definition nearer :: "BranchBase option \<Rightarrow> BranchBase \<Rightarrow> BranchBase option" where
  "nearer best candidate =
     (case best of
        None \<Rightarrow> Some candidate
      | Some b \<Rightarrow>
          if baseDate b < baseDate candidate \<or> (baseDate candidate = baseDate b \<and> bb_isDefault candidate \<and> \<not> bb_isDefault b)
          then Some candidate else Some b)"

definition nearestBranch :: "BranchBase list \<Rightarrow> DatedCommit option \<Rightarrow> string option" where
  "nearestBranch candidates tip = map_option bb_branch (foldl nearer None (filter (usableBase tip) candidates))"

section \<open>The list\<close>

datatype DeployFault = DeploySource SourceError | DeployReader string | DeployInvalidRange instant instant
  | DeploymentNotFound string | InvalidRef string | ContentsLost string string instant | DeployApi apiError

record ('c, 'w) DeployInstall = "'c DoraInstall" +
  dz_urls :: UrlDb
  dz_range :: "ResolvedContext \<Rightarrow> 'w RangeConnector"
  dz_writer :: "RepoLocation \<Rightarrow> string option \<Rightarrow> string \<Rightarrow> ReleaseNoteEntry list \<Rightarrow> string"

definition scopeRepos :: "string list \<Rightarrow> string list option \<Rightarrow> string list" where
  "scopeRepos all wanted = (case wanted of None \<Rightarrow> all | Some ws \<Rightarrow> if ws = [] then all else filter (\<lambda>r. r \<in> set ws) all)"

definition classifiedAs :: "('c, 'w) DeployInstall \<Rightarrow> string \<Rightarrow> Sources.SourceSpec \<Rightarrow> (string, ClassifiedEnvironment) jsmap \<Rightarrow>
    Deployment \<Rightarrow> ClassifiedDeployment" where
  "classifiedAs inst sourceId spec classified d =
     (let env = map_of classified (subjectKey (subject (dp_environment d) (Some (dp_repo d))));
          attributes = (case env of Some e \<Rightarrow> ce_attributes e | None \<Rightarrow> []);
          (rules, declared) = addressBook sourceId (dz_urls inst)
      in Deployment.extend
           (d\<lparr>dp_environmentUrl := environmentUrlFor (di_rx inst)
                \<lparr>ps_repo = dp_repo d, ps_environment = dp_environment d, ps_ref = Some (dp_ref d),
                 ps_environmentUrl = dp_environmentUrl d, ps_attributes = attributes\<rparr> rules declared\<rparr>)
           (ClassifiedDeployment.fields attributes (case env of Some e \<Rightarrow> ce_metaEnvironments e | None \<Rightarrow> [])
              (refUrl \<lparr>rl_kind = Sources.SourceSpec.sp_kind spec, rl_baseUrl = Sources.SourceSpec.sp_baseUrl spec,
                 rl_owner = fst (Sources.SourceSpec.sp_scope spec), rl_repo = dp_repo d\<rparr> (dp_ref d))))"

definition classifyDeployments :: "('c, 'w) DeployInstall \<Rightarrow> string \<Rightarrow> Deployment list \<Rightarrow> DeployFault + ClassifiedDeployment list" where
  "classifyDeployments inst sourceId ds =
     (case readSpec sourceId (di_sources inst) of
        Inl e \<Rightarrow> Inl (DeploySource e)
      | Inr spec \<Rightarrow>
          Inr (map (classifiedAs inst sourceId spec (classifyByPair (di_rx inst) (di_envRules inst) sourceId
            (map (\<lambda>d. subject (dp_environment d) (Some (dp_repo d))) ds) OnEnvironment)) ds))"

definition classifiedIn :: "('c, 'w) DeployInstall \<Rightarrow> string \<Rightarrow> Reader \<Rightarrow> string list \<Rightarrow> DoraPeriod \<Rightarrow> DeployFault + ClassifiedDeployment list" where
  "classifiedIn inst sourceId reader rs period =
     (case snd (rd_deployments reader rs (Some (dpd_from period))) of
        Inl e \<Rightarrow> Inl (DeployReader e)
      | Inr raw \<Rightarrow> classifyDeployments inst sourceId (filter (\<lambda>d. within_period (dp_createdAt d) period) raw))"

record DeploymentsQuery = DoraQuery +
  yq_environments :: "string list option"
  yq_statuses :: "PipelineStatus list option"

record 'v DeploymentReport =
  dy_deployments :: "ClassifiedDeployment Page"
  dy_repos :: "string list"
  dy_vocabulary :: Vocabulary
  dy_versions :: 'v
  dy_period :: DoraPeriod

definition filtersOf :: "DeploymentsQuery \<Rightarrow> DeploymentFilters" where
  "filtersOf query = \<lparr>df_environments = yq_environments query, df_statuses = yq_statuses query, df_dimensions = dq_dimensions query\<rparr>"

definition readerOf :: "('c, 'w) DeployInstall \<Rightarrow> instant \<Rightarrow> string \<Rightarrow> DeployFault + Reader" where
  "readerOf inst now sourceId =
     map_sum DeploySource id (readerFor (di_vault inst) (di_dial inst) (di_settings inst) now (di_sync inst) sourceId (di_sources inst))"

definition windowOf :: "('c, 'w) DeployInstall \<Rightarrow> int" where
  "windowOf inst = \<lfloor>st_doraWindowDays (di_settings inst)\<rfloor>"

text \<open>\<open>versions\<close> answers for the page: what was frozen for its deployments, what runs now, the rules.\<close>

definition listDeploymentReport :: "('c, 'w) DeployInstall \<Rightarrow> (string list \<Rightarrow> 'v) \<Rightarrow> instant \<Rightarrow> string \<Rightarrow> DeploymentsQuery \<Rightarrow> PageWindow \<Rightarrow>
    DeployFault + 'v DeploymentReport" where
  "listDeploymentReport inst versions now sourceId query window =
     (case resolvePeriod (PeriodQuery.truncate query) (windowOf inst) now of
        Inl (from', to') \<Rightarrow> Inl (DeployInvalidRange from' to')
      | Inr period \<Rightarrow>
          (case readerOf inst now sourceId of
             Inl e \<Rightarrow> Inl e
           | Inr reader \<Rightarrow>
               (case rd_repositories reader of
                  Inl e \<Rightarrow> Inl (DeployReader e)
                | Inr allRepos \<Rightarrow>
                    (case classifiedIn inst sourceId reader (scopeRepos allRepos (dq_repos query)) period of
                       Inl e \<Rightarrow> Inl e
                     | Inr classified \<Rightarrow>
                         let page = paginate (byMostRecent (applyFilters classified (filtersOf query))) window
                         in Inr \<lparr>dy_deployments = page, dy_repos = allRepos, dy_vocabulary = vocabularies (di_collate inst) classified,
                              dy_versions = versions (map dp_id (pg_items page)), dy_period = period\<rparr>))))"

section \<open>What a deployment carried\<close>

record DeploymentChanges =
  dh_deployment :: ClassifiedDeployment
  dh_repo :: string
  dh_head :: string
  dh_base :: DeploymentBase
  dh_baseRef :: "string option"
  dh_baseRefUrl :: "string option"
  dh_entries :: "ReleaseNoteEntry list"
  dh_authors :: nat
  dh_markdown :: string
  dh_archivedAt :: "instant option"

text \<open>Every deployment of a period, for the archiver.\<close>

definition classifiedOver :: "('c, 'w) DeployInstall \<Rightarrow> instant \<Rightarrow> string \<Rightarrow> DoraPeriod \<Rightarrow> DeployFault + ClassifiedDeployment list" where
  "classifiedOver inst now sourceId period =
     (case readerOf inst now sourceId of
        Inl e \<Rightarrow> Inl e
      | Inr reader \<Rightarrow>
          (case rd_repositories reader of Inl e \<Rightarrow> Inl (DeployReader e) | Inr rs \<Rightarrow> classifiedIn inst sourceId reader rs period))"

definition nearestBase :: "'w RangeConnector \<Rightarrow> string \<Rightarrow> string \<Rightarrow> ('w, string) call" where
  "nearestBase c repo ref =
     andThen (nc_mayEnrich c) (\<lambda>may.
       if \<not> may then nc_defaultBranch c repo
       else
         andThen (nc_listBranches c repo) (\<lambda>branches.
           let candidates = candidateBranches branches ref NEAREST_CANDIDATES
           in if candidates = [] then nc_defaultBranch c repo
              else
                andThen (nc_refCommit c repo ref) (\<lambda>tip.
                andThen (forEach (\<lambda>b. andThen (nc_mergeBase c repo ref (br_name b)) (\<lambda>base.
                    returns [\<lparr>bb_branch = br_name b, bb_isDefault = br_isDefault b, bb_base = base\<rparr>])) candidates) (\<lambda>bases.
                  case nearestBranch bases tip of Some b \<Rightarrow> returns b | None \<Rightarrow> nc_defaultBranch c repo))))"

text \<open>An answer of the platform, its error among the faults of the service.\<close>

type_synonym ('w, 'a) served = "'w \<Rightarrow> 'w \<times> (DeployFault + 'a)"

definition viaApi :: "('w, 'a) call \<Rightarrow> ('w, 'a) served" where
  "viaApi m = (\<lambda>w. case m w of (w', r) \<Rightarrow> (w', map_sum DeployApi id r))"

definition resolveBase :: "'w RangeConnector \<Rightarrow> DeploymentBase \<Rightarrow> string option \<Rightarrow> ClassifiedDeployment list \<Rightarrow>
    ClassifiedDeployment \<Rightarrow> ('w, string option) served" where
  "resolveBase c base customRef classified target w =
     (case base of
        RefBase \<Rightarrow>
          (case orNull customRef of
             Some ref \<Rightarrow> (w, if isValidGitRef ref then Inr (Some ref) else Inl (InvalidRef ref))
           | None \<Rightarrow> (w, Inl (InvalidRef [])))
      | DefaultBase \<Rightarrow> viaApi (andThen (nc_defaultBranch c (dp_repo target)) (\<lambda>b. returns (Some b))) w
      | NearestBase \<Rightarrow> viaApi (andThen (nearestBase c (dp_repo target) (dp_ref target)) (\<lambda>b. returns (Some b))) w
      | PreviousBase \<Rightarrow> (w, Inr (map_option dp_ref (previousDeployment classified target))))"

definition notesOf :: "('c, 'w) DeployInstall \<Rightarrow> ('c, 'w) NotesInstall" where
  "notesOf inst =
     \<lparr>ni_rx = di_rx inst, ni_collate = di_collate inst, ni_vault = di_vault inst, ni_settings = di_settings inst,
      ni_sources = di_sources inst, ni_rules = di_ticketRules inst, ni_dial = dz_range inst, ni_writer = dz_writer inst\<rparr>"

definition comparedWith :: "('c, 'w) DeployInstall \<Rightarrow> string \<Rightarrow> ResolvedContext \<Rightarrow> ClassifiedDeployment \<Rightarrow> DeploymentBase \<Rightarrow>
    string \<Rightarrow> ('w, DeploymentChanges) call" where
  "comparedWith inst sourceId ctx target base baseRef =
     (let c = dz_range inst ctx; repo = dp_repo target; location = locationOf ctx repo
      in andThen (nc_listCommitsBetween c repo (Some baseRef) (dp_ref target)) (\<lambda>commits.
         andThen (toEntries (di_rx inst) (di_ticketRules inst) sourceId c location commits) (\<lambda>entries.
           returns \<lparr>dh_deployment = target, dh_repo = repo, dh_head = dp_ref target, dh_base = base, dh_baseRef = Some baseRef,
             dh_baseRefUrl = Some (refUrl location baseRef), dh_entries = entries,
             dh_authors = length (remdups (map rn_author entries)),
             dh_markdown = fst (renderRange (notesOf inst) location (Some baseRef) (dp_ref target) entries),
             dh_archivedAt = None\<rparr>)))"

definition nothingBefore :: "ClassifiedDeployment \<Rightarrow> DeploymentBase \<Rightarrow> DeploymentChanges" where
  "nothingBefore target base =
     \<lparr>dh_deployment = target, dh_repo = dp_repo target, dh_head = dp_ref target, dh_base = base, dh_baseRef = None,
      dh_baseRefUrl = None, dh_entries = [], dh_authors = 0, dh_markdown = [], dh_archivedAt = None\<rparr>"

definition contentsOf :: "('c, 'w) DeployInstall \<Rightarrow> string \<Rightarrow> ClassifiedDeployment \<Rightarrow> ClassifiedDeployment list \<Rightarrow>
    DeploymentBase \<Rightarrow> string option \<Rightarrow> ('w, DeploymentChanges) served" where
  "contentsOf inst sourceId target classified base customRef w =
     (case resolveContext (di_vault inst) (di_settings inst) sourceId (di_sources inst) of
        Inl e \<Rightarrow> (w, Inl (DeploySource e))
      | Inr ctx \<Rightarrow>
          (case resolveBase (dz_range inst ctx) base customRef classified target w of
             (w', Inl e) \<Rightarrow> (w', Inl e)
           | (w', Inr None) \<Rightarrow> (w', Inr (nothingBefore target base))
           | (w', Inr (Some baseRef)) \<Rightarrow> viaApi (comparedWith inst sourceId ctx target base baseRef) w'))"

definition fromArchive :: "('c, 'w) DeployInstall \<Rightarrow> string \<Rightarrow> ChangelogRow \<Rightarrow> DeployFault + DeploymentChanges" where
  "fromArchive inst sourceId filed =
     (if nl_unreadable filed then Inl (ContentsLost (nl_repo filed) (nl_ref filed) (cl_archivedAt filed))
      else
        let env = hd (classifyMany (di_rx inst) (di_envRules inst) sourceId
              [subject (nl_environment filed) (Some (nl_repo filed))] OnEnvironment);
            (rules, declared) = addressBook sourceId (dz_urls inst)
        in Inr \<lparr>dh_deployment =
             \<lparr>dp_id = nl_deploymentId filed, dp_repo = nl_repo filed, dp_environment = nl_environment filed,
              dp_ref = nl_ref filed, dp_status = nl_status filed, dp_createdAt = nl_deployedAt filed,
              dp_environmentUrl = environmentUrlFor (di_rx inst)
                \<lparr>ps_repo = nl_repo filed, ps_environment = nl_environment filed, ps_ref = Some (nl_ref filed),
                 ps_environmentUrl = nl_environmentUrl filed, ps_attributes = ce_attributes env\<rparr> rules declared,
              dp_url = nl_deploymentUrl filed, cd_attributes = ce_attributes env, cd_metaEnvironments = ce_metaEnvironments env, cd_refUrl = nl_refUrl filed\<rparr>,
             dh_repo = nl_repo filed, dh_head = nl_ref filed, dh_base = nl_base filed, dh_baseRef = nl_baseRef filed,
             dh_baseRefUrl = nl_baseRefUrl filed, dh_entries = nl_entries filed, dh_authors = nl_authors filed,
             dh_markdown = nl_markdown filed, dh_archivedAt = Some (cl_archivedAt filed)\<rparr>)"

definition liveChanges :: "('c, 'w) DeployInstall \<Rightarrow> instant \<Rightarrow> string \<Rightarrow> string \<Rightarrow> string \<Rightarrow> DeploymentBase \<Rightarrow>
    string option \<Rightarrow> PeriodQuery \<Rightarrow> ('w, DeploymentChanges) served" where
  "liveChanges inst now sourceId deploymentId repo base customRef query w =
     (case resolvePeriod query (windowOf inst) now of
        Inl (from', to') \<Rightarrow> (w, Inl (DeployInvalidRange from' to'))
      | Inr period \<Rightarrow>
          (case readerOf inst now sourceId of
             Inl e \<Rightarrow> (w, Inl e)
           | Inr reader \<Rightarrow>
               (case classifiedIn inst sourceId reader [repo] period of
                  Inl e \<Rightarrow> (w, Inl e)
                | Inr classified \<Rightarrow>
                    (case List.find (\<lambda>d. dp_id d = deploymentId) classified of
                       None \<Rightarrow> (w, Inl (DeploymentNotFound deploymentId))
                     | Some target \<Rightarrow> contentsOf inst sourceId target classified base customRef w))))"

definition changes :: "('c, 'w) DeployInstall \<Rightarrow> ChangelogDb \<Rightarrow> instant \<Rightarrow> string \<Rightarrow> string \<Rightarrow> string \<Rightarrow> DeploymentBase \<Rightarrow>
    string option \<Rightarrow> PeriodQuery \<Rightarrow> ('w, DeploymentChanges) served" where
  "changes inst archive now sourceId deploymentId repo base customRef query w =
     (case (if base = PreviousBase then findChangelog sourceId deploymentId archive else None) of
        Some filed \<Rightarrow> (w, fromArchive inst sourceId filed)
      | None \<Rightarrow> liveChanges inst now sourceId deploymentId repo base customRef query w)"

section \<open>Every filter offered finds something\<close>

lemma addValue_member:
  assumes "(key, vs) \<in> set (addValue pair m)" "v \<in> set vs"
  shows "(key, v) = pair \<or> (\<exists>ws. (key, ws) \<in> set m \<and> v \<in> set ws)"
proof -
  have upd: "e \<in> set (AList.update k x m) \<Longrightarrow> e = (k, x) \<or> e \<in> set m" for e k x
    by (induction m) (auto split: if_splits)
  show ?thesis
  proof (cases "map_of m (fst pair)")
    case None
    with assms(1) have "(key, vs) \<in> set (AList.update (fst pair) [snd pair] m)" by (simp add: addValue_def)
    from upd [OF this] assms(2) show ?thesis by auto
  next
    case (Some seen)
    with assms(1) have "(key, vs) \<in> set (AList.update (fst pair) (if snd pair \<in> set seen then seen else seen @ [snd pair]) m)"
      by (simp add: addValue_def)
    from upd [OF this] assms(2) map_of_SomeD [OF Some] show ?thesis by (auto split: if_splits)
  qed
qed

lemma fold_addValue_member:
  "(key, vs) \<in> set (fold addValue pairs m) \<Longrightarrow> v \<in> set vs \<Longrightarrow>
   (key, v) \<in> set pairs \<or> (\<exists>ws. (key, ws) \<in> set m \<and> v \<in> set ws)"
proof (induction pairs arbitrary: m)
  case (Cons pair pairs)
  from Cons.IH [of "addValue pair m"] Cons.prems
  consider "(key, v) \<in> set pairs" | ws where "(key, ws) \<in> set (addValue pair m)" "v \<in> set ws" by auto
  then show ?case
  proof cases
    case 2
    from addValue_member [OF this] show ?thesis by auto
  qed simp
qed auto

definition onlyEnvironment :: "string \<Rightarrow> DeploymentFilters" where
  "onlyEnvironment e = \<lparr>df_environments = Some [e], df_statuses = None, df_dimensions = None\<rparr>"

definition onlyStatus :: "PipelineStatus \<Rightarrow> DeploymentFilters" where
  "onlyStatus s = \<lparr>df_environments = None, df_statuses = Some [s], df_dimensions = None\<rparr>"

definition onlyDimension :: "string \<Rightarrow> string \<Rightarrow> DeploymentFilters" where
  "onlyDimension key v = \<lparr>df_environments = None, df_statuses = None, df_dimensions = Some [(key, v)]\<rparr>"

lemma passes_offered:
  assumes "(key, v) \<in> set (offered d)" "distinct (map fst (cd_attributes d))" "META_KEY \<notin> fst ` set (cd_attributes d)"
  shows "passes (onlyDimension key v) d"
proof (cases "key = META_KEY")
  case True
  with assms(1,3) have "v \<in> set (cd_metaEnvironments d)" by (force simp: offered_def)
  with True show ?thesis by (simp add: passes_def onlyDimension_def given_def)
next
  case False
  with assms(1) have "(key, v) \<in> set (cd_attributes d)" by (auto simp: offered_def)
  with assms(2) have "map_of (cd_attributes d) key = Some v" by (rule map_of_is_SomeI)
  with False show ?thesis by (simp add: passes_def onlyDimension_def given_def)
qed

text \<open>C36. No filter the page offers is a dead end: each environment, each status and each value of each
  dimension in the vocabulary, chosen alone, finds at least one of the deployments the vocabulary was
  made from. Attributes have one value each, and none is named as the meta-environments are.\<close>

theorem every_filter_offered_finds_something:
  assumes "list_all (\<lambda>d. distinct (map fst (cd_attributes d)) \<and> META_KEY \<notin> fst ` set (cd_attributes d)) ds"
  shows "(\<forall>e \<in> set (vo_environments (vocabularies collate ds)). applyFilters ds (onlyEnvironment e) \<noteq> []) \<and>
    (\<forall>s \<in> set (vo_statuses (vocabularies collate ds)). applyFilters ds (onlyStatus s) \<noteq> []) \<and>
    (\<forall>(key, vs) \<in> set (vo_dimensions (vocabularies collate ds)). \<forall>v \<in> set vs. applyFilters ds (onlyDimension key v) \<noteq> [])"
proof (intro conjI ballI)
  fix e assume "e \<in> set (vo_environments (vocabularies collate ds))"
  then show "applyFilters ds (onlyEnvironment e) \<noteq> []"
    by (auto simp: vocabularies_def applyFilters_def filter_empty_conv passes_def onlyEnvironment_def given_def)
next
  fix s assume "s \<in> set (vo_statuses (vocabularies collate ds))"
  then show "applyFilters ds (onlyStatus s) \<noteq> []"
    by (auto simp: vocabularies_def applyFilters_def filter_empty_conv passes_def onlyStatus_def given_def)
next
  fix entry assume e: "entry \<in> set (vo_dimensions (vocabularies collate ds))"
  obtain key vs where kv: "entry = (key, vs)" by (cases entry)
  have "applyFilters ds (onlyDimension key v) \<noteq> []" if "v \<in> set vs" for v
  proof -
    from e kv that obtain ws where "(key, ws) \<in> set (fold addValue (concat (map offered ds)) [])" "v \<in> set ws"
      by (auto simp: vocabularies_def)
    from fold_addValue_member [OF this] obtain d where d: "d \<in> set ds" "(key, v) \<in> set (offered d)" by auto
    with assms have "passes (onlyDimension key v) d" by (intro passes_offered) (auto simp: list_all_iff)
    with d(1) show ?thesis by (auto simp: applyFilters_def filter_empty_conv)
  qed
  with kv show "case entry of (key, vs) \<Rightarrow> \<forall>v \<in> set vs. applyFilters ds (onlyDimension key v) \<noteq> []" by simp
qed

definition sample_deployed :: "string \<Rightarrow> string \<Rightarrow> PipelineStatus \<Rightarrow> instant \<Rightarrow> ClassifiedDeployment" where
  "sample_deployed ident ref status t =
     \<lparr>dp_id = ident, dp_repo = ''shop'', dp_environment = ''prod'', dp_ref = ref, dp_status = status, dp_createdAt = t,
      dp_environmentUrl = None, dp_url = None, cd_attributes = [(''stage'', ''live'')], cd_metaEnvironments = [''eu''],
      cd_refUrl = []\<rparr>"

theorem every_filter_offered_finds_something_witness:
  "let ds = [sample_deployed ''1'' ''v1'' Success 5, sample_deployed ''2'' ''v2'' Failed 9]
   in (META_KEY, [''eu'']) \<in> set (vo_dimensions (vocabularies (\<lambda>s. s) ds)) \<and> applyFilters ds (onlyDimension META_KEY ''eu'') \<noteq> []"
proof -
  let ?ds = "[sample_deployed ''1'' ''v1'' Success 5, sample_deployed ''2'' ''v2'' Failed 9]"
  have "(META_KEY, [''eu'']) \<in> set (vo_dimensions (vocabularies (\<lambda>s. s) ?ds))"
    by (simp add: vocabularies_def sample_deployed_def offered_def addValue_def META_KEY_def)
  moreover have "list_all (\<lambda>d. distinct (map fst (cd_attributes d)) \<and> META_KEY \<notin> fst ` set (cd_attributes d)) ?ds"
    by (simp add: sample_deployed_def META_KEY_def)
  ultimately show ?thesis
    using every_filter_offered_finds_something [of ?ds "\<lambda>s. s"] unfolding Let_def by fastforce
qed

section \<open>The nearest branch is the nearest\<close>

definition asNear :: "BranchBase \<Rightarrow> BranchBase \<Rightarrow> bool" where
  "asNear best other \<longleftrightarrow> baseDate other < baseDate best \<or>
     (baseDate other = baseDate best \<and> (bb_isDefault other \<longrightarrow> bb_isDefault best))"

lemma asNear_trans: "asNear a b \<Longrightarrow> asNear b c \<Longrightarrow> asNear a c"
  by (auto simp: asNear_def)

lemma foldl_nearer:
  "foldl nearer (Some b) cs = Some r \<Longrightarrow> (r = b \<or> r \<in> set cs) \<and> asNear r b \<and> list_all (asNear r) cs"
proof (induction cs arbitrary: b)
  case (Cons c cs)
  obtain b' where b': "nearer (Some b) c = Some b'" "b' = c \<or> b' = b" "asNear b' b" "asNear b' c"
    by (cases "baseDate b < baseDate c \<or> (baseDate c = baseDate b \<and> bb_isDefault c \<and> \<not> bb_isDefault b)")
      (auto simp: nearer_def asNear_def not_less le_less)
  with Cons.prems have "foldl nearer (Some b') cs = Some r" by simp
  from Cons.IH [OF this] b'(2,3,4) asNear_trans show ?case by auto
qed (simp add: asNear_def)

lemma foldl_nearer_some: "\<exists>r. foldl nearer (Some b) cs = Some r"
  by (induction cs arbitrary: b) (auto simp: nearer_def)

lemma nearestBranch_in_text:
  "case nearestBranch candidates tip of
     None \<Rightarrow> filter (usableBase tip) candidates = []
   | Some branch \<Rightarrow> \<exists>c \<in> set (filter (usableBase tip) candidates). bb_branch c = branch \<and>
       (\<forall>other \<in> set (filter (usableBase tip) candidates). asNear c other)"
proof (cases "filter (usableBase tip) candidates")
  case Nil
  then show ?thesis by (simp add: nearestBranch_def)
next
  case (Cons b cs)
  obtain r where r: "foldl nearer (Some b) cs = Some r" using foldl_nearer_some by blast
  then have "nearestBranch candidates tip = Some (bb_branch r)" by (simp add: nearestBranch_def Cons nearer_def)
  moreover have "(r = b \<or> r \<in> set cs) \<and> asNear r b \<and> list_all (asNear r) cs" by (rule foldl_nearer [OF r])
  ultimately show ?thesis by (auto simp: Cons list_all_iff)
qed

text \<open>In time: the shared commit of the one is younger, or as old and no less the default branch's.\<close>

definition asYoung :: "(string \<Rightarrow> instant) \<Rightarrow> BranchBase \<Rightarrow> BranchBase \<Rightarrow> bool" where
  "asYoung instantOf best other \<longleftrightarrow> instantOf (baseDate other) < instantOf (baseDate best) \<or>
     (instantOf (baseDate other) = instantOf (baseDate best) \<and> (bb_isDefault other \<longrightarrow> bb_isDefault best))"

text \<open>The texts of the dates stand in the order of the instants they spell.\<close>

definition spelledInOrder :: "(string \<Rightarrow> instant) \<Rightarrow> BranchBase list \<Rightarrow> bool" where
  "spelledInOrder instantOf cs \<longleftrightarrow> list_all (\<lambda>x. list_all (\<lambda>y.
     baseDate x < baseDate y \<longleftrightarrow> instantOf (baseDate x) < instantOf (baseDate y)) cs) cs"

text \<open>C37. The branch a comparison falls back to is one of the candidates asked about, its shared commit
  is dated and is not the deployed commit itself; and when the platform writes the dates of the shared
  commits so that they stand as texts in the order of the instants they spell (all in UTC, as GitHub
  does), no other such candidate shares a younger commit, and among those that share one of the same
  instant the default branch is preferred. There is no answer only when no candidate is usable. Dates
  written with an offset of their own, as GitLab passes them on, are not in that order: the code compares
  the texts, and the older of two commits can win.\<close>

theorem the_nearest_branch_is_nearest:
  assumes "spelledInOrder instantOf (filter (usableBase tip) candidates)"
  shows "case nearestBranch candidates tip of
     None \<Rightarrow> filter (usableBase tip) candidates = []
   | Some branch \<Rightarrow> list_ex (\<lambda>c. bb_branch c = branch \<and>
       list_all (asYoung instantOf c) (filter (usableBase tip) candidates)) (filter (usableBase tip) candidates)"
proof (cases "nearestBranch candidates tip")
  case None
  then show ?thesis using nearestBranch_in_text [of tip candidates] by simp
next
  case (Some branch)
  let ?usable = "filter (usableBase tip) candidates"
  obtain c where c: "c \<in> set ?usable" "bb_branch c = branch" "\<forall>other \<in> set ?usable. asNear c other"
    using nearestBranch_in_text [of tip candidates] Some by auto
  have order: "baseDate x < baseDate y \<longleftrightarrow> instantOf (baseDate x) < instantOf (baseDate y)"
    if "x \<in> set ?usable" "y \<in> set ?usable" for x y
    using assms that unfolding spelledInOrder_def list_all_iff by blast
  have "asYoung instantOf c other" if o': "other \<in> set ?usable" for other
    using c(3) o' order [OF o' c(1)] by (auto simp: asNear_def asYoung_def)
  with c(1,2) Some show ?thesis by (auto simp: list_ex_iff list_all_iff)
qed

definition sample_base :: "string \<Rightarrow> bool \<Rightarrow> string \<Rightarrow> BranchBase" where
  "sample_base branch isDefault date =
     \<lparr>bb_branch = branch, bb_isDefault = isDefault, bb_base = Some \<lparr>dk_sha = ''c'', dk_committedAt = Some date\<rparr>\<rparr>"

text \<open>The minutes since the month began of a date written \<open>2026-07-10T23:00:00+02:00\<close>.\<close>

definition minutesOf :: "string \<Rightarrow> instant" where
  "minutesOf s =
     (let two = (\<lambda>i. int (readNat (take 2 (drop i s))));
          offset = two 20 * 60 + two 23
      in (two 8 * 24 + two 11) * 60 + two 14 - (if s ! 19 = CHR ''-'' then - offset else offset))"

theorem the_nearest_branch_is_nearest_witness:
  "spelledInOrder minutesOf [sample_base ''main'' True ''2026-07-09T08:00:00+00:00'', sample_base ''release/1'' False ''2026-07-10T07:30:00+00:00''] \<and>
   nearestBranch [sample_base ''main'' True ''2026-07-09T08:00:00+00:00'', sample_base ''release/1'' False ''2026-07-10T07:30:00+00:00''] None =
     Some ''release/1'' \<and>
   asYoung minutesOf (sample_base ''release/1'' False ''2026-07-10T07:30:00+00:00'') (sample_base ''main'' True ''2026-07-09T08:00:00+00:00'')"
proof -
  let ?main = "sample_base ''main'' True ''2026-07-09T08:00:00+00:00''"
  let ?line = "sample_base ''release/1'' False ''2026-07-10T07:30:00+00:00''"
  have usable: "filter (usableBase None) [?main, ?line] = [?main, ?line]" by code_simp
  have order: "spelledInOrder minutesOf [?main, ?line]" by code_simp
  have picked: "nearestBranch [?main, ?line] None = Some ''release/1''" by code_simp
  have "bb_branch ?main \<noteq> ''release/1''" by (simp add: sample_base_def)
  with the_nearest_branch_is_nearest [of minutesOf None "[?main, ?line]", unfolded usable, OF order] order picked
  show ?thesis by simp
qed

text \<open>
  With an offset of its own in each date, the texts stand in another order than the instants: the base
  of 21:00 UTC is taken for younger than the one of 22:30 UTC.
\<close>

lemma text_order_is_not_time_order:
  "nearestBranch [sample_base ''old'' False ''2026-07-10T23:00:00+02:00'', sample_base ''young'' False ''2026-07-10T22:30:00+00:00''] None =
     Some ''old'' \<and>
   minutesOf ''2026-07-10T23:00:00+02:00'' < minutesOf ''2026-07-10T22:30:00+00:00''"
  by code_simp

lemma candidates_bounded:
  "length (candidateBranches branches ref limit) \<le> limit \<and>
   set (candidateBranches branches ref limit) \<subseteq> {b \<in> set branches. br_name b \<noteq> ref}"
  by (auto simp: candidateBranches_def dest: in_set_takeD)

text \<open>The default branch is never cut by the cap.\<close>

lemma default_never_cut:
  assumes "b \<in> set branches" "br_isDefault b" "br_name b \<noteq> ref" "1 \<le> limit"
    and "\<And>other. other \<in> set branches \<Longrightarrow> br_isDefault other \<Longrightarrow> other = b"
  shows "b \<in> set (candidateBranches branches ref limit)"
proof -
  let ?sorted = "sort_key (branchRank ref) (filter (\<lambda>b. br_name b \<noteq> ref) branches)"
  have b: "b \<in> set ?sorted" using assms(1,3) by simp
  then obtain first rest where s: "?sorted = first # rest" by (cases ?sorted) auto
  have "sorted (map (branchRank ref) (first # rest))" unfolding s [symmetric] by (rule sorted_sort_key)
  moreover have "b = first \<or> b \<in> set rest" using b unfolding s by simp
  ultimately have "branchRank ref first \<le> branchRank ref b" by auto
  then have "br_isDefault first" using assms(2) by (auto simp: branchRank_def split: if_splits option.splits)
  moreover have "first \<in> set ?sorted" unfolding s by simp
  then have "first \<in> set branches" by simp
  ultimately have "first = b" using assms(5) by blast
  with s assms(4) show ?thesis by (cases limit) (simp_all add: candidateBranches_def)
qed

end
