(* ===== verification/Changelogs.thy ===== *)
theory Changelogs
  imports Deployments Dora_History
begin

text \<open>
  The archiver: \<open>back/src/changelogs/changelogs.service.ts\<close> and \<open>pending.ts\<close>. A run looks at the
  deployments of the window, files the oldest successes not filed yet, one comparison each, and stops
  at the batch size or when the API reserve is reached. \<open>allows\<close> is the answer of the quota service,
  asked before each deployment; \<open>stamp\<close> is the identity and the date the database gives the row of a
  deployment. A failure of the database itself is not modelled.

  The theorems: a run accounts for every deployment it considered and rewrites nothing; while the
  platform answers, runs catch up with everything; what was filed is what is answered ever after.
\<close>

section \<open>What a run will do\<close>

definition ARCHIVE_BATCH :: nat where "ARCHIVE_BATCH = 25"

record PendingSelection =
  pe_targets :: "ClassifiedDeployment list"
  pe_known :: nat
  pe_deferred :: nat

definition pendingOf :: "string set \<Rightarrow> ClassifiedDeployment list \<Rightarrow> ClassifiedDeployment list" where
  "pendingOf filed ds = filter (\<lambda>d. dp_status d = Success \<and> dp_id d \<notin> filed) ds"

definition selectPending :: "ClassifiedDeployment list \<Rightarrow> string set \<Rightarrow> nat \<Rightarrow> PendingSelection" where
  "selectPending ds filed limit =
     (let pending = sort_key dp_createdAt (pendingOf filed ds)
      in \<lparr>pe_targets = take limit pending, pe_known = length (filter (\<lambda>d. dp_id d \<in> filed) ds),
          pe_deferred = length pending - limit\<rparr>)"

section \<open>What is filed\<close>

definition toRecord :: "ClassifiedDeployment \<Rightarrow> DeploymentChanges \<Rightarrow> string \<Rightarrow> NewChangelog" where
  "toRecord target ch generator =
     \<lparr>nl_deploymentId = dp_id target, nl_repo = dp_repo target, nl_environment = dp_environment target,
      nl_ref = dp_ref target, nl_baseRef = dh_baseRef ch, nl_base = dh_base ch, nl_refUrl = cd_refUrl target,
      nl_baseRefUrl = dh_baseRefUrl ch, nl_deploymentUrl = dp_url target, nl_environmentUrl = dp_environmentUrl target,
      nl_status = dp_status target, nl_entries = dh_entries ch, nl_markdown = dh_markdown ch, nl_authors = dh_authors ch,
      nl_unreadable = False, nl_generator = generator, nl_deployedAt = dp_createdAt target\<rparr>"

definition toUnreadable :: "ClassifiedDeployment \<Rightarrow> string \<Rightarrow> NewChangelog" where
  "toUnreadable target generator =
     \<lparr>nl_deploymentId = dp_id target, nl_repo = dp_repo target, nl_environment = dp_environment target,
      nl_ref = dp_ref target, nl_baseRef = None, nl_base = PreviousBase, nl_refUrl = cd_refUrl target,
      nl_baseRefUrl = None, nl_deploymentUrl = dp_url target, nl_environmentUrl = dp_environmentUrl target,
      nl_status = dp_status target, nl_entries = [], nl_markdown = [], nl_authors = 0,
      nl_unreadable = True, nl_generator = generator, nl_deployedAt = dp_createdAt target\<rparr>"

text \<open>\<open>code.startsWith('errors.compare.')\<close>\<close>

definition isUnresolvable :: "DeployFault \<Rightarrow> bool" where
  "isUnresolvable e =
     (case e of DeployApi (UnknownRef _ _) \<Rightarrow> True | DeployApi (Unresolvable _ _ _) \<Rightarrow> True | _ \<Rightarrow> False)"

definition carried :: "('c, 'w) DeployInstall \<Rightarrow> string \<Rightarrow> ClassifiedDeployment list \<Rightarrow> ClassifiedDeployment \<Rightarrow>
    ('w, DeploymentChanges) served" where
  "carried inst sourceId classified target w =
     (case contentsOf inst sourceId target classified PreviousBase None w of
        (w', Inl e) \<Rightarrow> (w', Inl e)
      | (w', Inr ch) \<Rightarrow>
          if dh_entries ch \<noteq> [] then (w', Inr ch)
          else (case contentsOf inst sourceId target classified NearestBase None w' of
                  (w'', Inr against) \<Rightarrow> (w'', Inr (if dh_entries against \<noteq> [] then against else ch))
                | (w'', Inl _) \<Rightarrow> (w'', Inr ch)))"

section \<open>A run\<close>

record ArchiveOutcome =
  ao_archived :: nat
  ao_known :: nat
  ao_deferred :: nat
  ao_unreadable :: nat
  ao_failed :: nat

record 'w Archiver =
  ar_carried :: "ClassifiedDeployment \<Rightarrow> ('w, DeploymentChanges) served"
  ar_allows :: "'w \<Rightarrow> bool"
  ar_stamp :: "string \<Rightarrow> string \<times> instant"
  ar_generator :: string

definition filing :: "'w Archiver \<Rightarrow> string \<Rightarrow> NewChangelog \<Rightarrow> ChangelogDb \<Rightarrow> ChangelogDb" where
  "filing a sourceId entry db =
     recordChangelog sourceId (fst (ar_stamp a (nl_deploymentId entry))) (snd (ar_stamp a (nl_deploymentId entry))) entry db"

text \<open>What becomes of one target: its filing, and the tally.\<close>

definition archiveOne :: "'w Archiver \<Rightarrow> string \<Rightarrow> ClassifiedDeployment \<Rightarrow> 'w \<times> ChangelogDb \<times> ArchiveOutcome \<Rightarrow>
    'w \<times> ChangelogDb \<times> ArchiveOutcome" where
  "archiveOne a sourceId target st =
     (case st of (w, db, out) \<Rightarrow>
        (case ar_carried a target w of
           (w', Inr ch) \<Rightarrow>
             (w', filing a sourceId (toRecord target ch (ar_generator a)) db, out\<lparr>ao_archived := ao_archived out + 1\<rparr>)
         | (w', Inl e) \<Rightarrow>
             if isUnresolvable e
             then (w', filing a sourceId (toUnreadable target (ar_generator a)) db, out\<lparr>ao_unreadable := ao_unreadable out + 1\<rparr>)
             else (w', db, out\<lparr>ao_failed := ao_failed out + 1\<rparr>)))"

primrec archiveEach :: "'w Archiver \<Rightarrow> string \<Rightarrow> ClassifiedDeployment list \<Rightarrow> 'w \<times> ChangelogDb \<times> ArchiveOutcome \<Rightarrow>
    'w \<times> ChangelogDb \<times> ArchiveOutcome" where
  "archiveEach a sourceId [] st = st"
| "archiveEach a sourceId (target # rest) st =
     (if \<not> ar_allows a (fst st)
      then (fst st, fst (snd st), (snd (snd st))\<lparr>ao_deferred := ao_deferred (snd (snd st)) + length (target # rest)\<rparr>)
      else archiveEach a sourceId rest (archiveOne a sourceId target st))"

definition archiveAll :: "'w Archiver \<Rightarrow> string \<Rightarrow> ClassifiedDeployment list \<Rightarrow> 'w \<times> ChangelogDb \<Rightarrow> 'w \<times> ChangelogDb \<times> ArchiveOutcome" where
  "archiveAll a sourceId classified st =
     (let sel = selectPending classified (knownChangelogs sourceId (map dp_id classified) (snd st)) ARCHIVE_BATCH
      in archiveEach a sourceId (pe_targets sel)
           (fst st, snd st, \<lparr>ao_archived = 0, ao_known = pe_known sel, ao_deferred = pe_deferred sel, ao_unreadable = 0, ao_failed = 0\<rparr>))"

definition archiverOf :: "('c, 'w) DeployInstall \<Rightarrow> ('w \<Rightarrow> bool) \<Rightarrow> (string \<Rightarrow> string \<times> instant) \<Rightarrow> string \<Rightarrow>
    ClassifiedDeployment list \<Rightarrow> 'w Archiver" where
  "archiverOf inst allows stamp sourceId classified =
     \<lparr>ar_carried = carried inst sourceId classified, ar_allows = allows, ar_stamp = stamp,
      ar_generator = st_releaseNotesGenerator (di_settings inst)\<rparr>"

definition archive :: "('c, 'w) DeployInstall \<Rightarrow> ('w \<Rightarrow> bool) \<Rightarrow> (string \<Rightarrow> string \<times> instant) \<Rightarrow> instant \<Rightarrow> string \<Rightarrow>
    'w \<times> ChangelogDb \<Rightarrow> 'w \<times> ChangelogDb \<times> (DeployFault + ArchiveOutcome)" where
  "archive inst allows stamp now sourceId st =
     (case resolvePeriod \<lparr>PeriodQuery.pq_from = None, pq_to = None, pq_windowDays = None\<rparr> (windowOf inst) now of
        Inl (from', to') \<Rightarrow> (fst st, snd st, Inl (DeployInvalidRange from' to'))
      | Inr period \<Rightarrow>
          (case classifiedOver inst now sourceId period of
             Inl e \<Rightarrow> (fst st, snd st, Inl e)
           | Inr classified \<Rightarrow>
               (case archiveAll (archiverOf inst allows stamp sourceId classified) sourceId classified st of
                  (w', db', out) \<Rightarrow> (w', db', Inr out))))"

section \<open>Reading the archive\<close>

record ChangelogReport =
  cp'_changelogs :: "ChangelogRow Page"
  cp'_repos :: "string list"
  cp'_environments :: "string list"
  cp'_lastArchivedAt :: "instant option"

definition changelogReport :: "string \<Rightarrow> ChangelogFilters \<Rightarrow> ChangelogWindow \<Rightarrow> PageWindow \<Rightarrow> ChangelogDb \<Rightarrow> ChangelogReport" where
  "changelogReport sourceId filters bounds window db =
     \<lparr>cp'_changelogs = listChangelogs sourceId filters bounds window db,
      cp'_repos = fst (changelogVocabularies sourceId db), cp'_environments = snd (changelogVocabularies sourceId db),
      cp'_lastArchivedAt = lastArchivedAt sourceId db\<rparr>"

definition getChangelog :: "string \<Rightarrow> string \<Rightarrow> ChangelogDb \<Rightarrow> string + ChangelogRow" where
  "getChangelog sourceId deploymentId db =
     (case findChangelog sourceId deploymentId db of Some row \<Rightarrow> Inr row | None \<Rightarrow> Inl deploymentId)"

section \<open>A run accounts for what it considered\<close>

definition handled :: "ArchiveOutcome \<Rightarrow> nat" where
  "handled out = ao_archived out + ao_unreadable out + ao_failed out"

definition isFiled :: "string \<Rightarrow> ChangelogDb \<Rightarrow> ClassifiedDeployment \<Rightarrow> bool" where
  "isFiled sourceId db d \<longleftrightarrow> findChangelog sourceId (dp_id d) db \<noteq> None"

definition extends :: "ChangelogDb \<Rightarrow> ChangelogDb \<Rightarrow> bool" where
  "extends db db' \<longleftrightarrow> (\<forall>s i row. findChangelog s i db = Some row \<longrightarrow> findChangelog s i db' = Some row)"

lemma extends_refl [simp]: "extends db db"
  by (simp add: extends_def)

lemma extends_trans: "extends a b \<Longrightarrow> extends b c \<Longrightarrow> extends a c"
  by (simp add: extends_def)

lemma filing_extends: "extends db (filing a sourceId entry db)"
  by (simp add: extends_def filing_def findChangelog_record)

lemma filing_files:
  "findChangelog sourceId i (filing a sourceId entry db) \<noteq> None \<longleftrightarrow>
     findChangelog sourceId i db \<noteq> None \<or> i = nl_deploymentId entry"
  by (auto simp: filing_def findChangelog_record split: option.split)

lemma isFiled_filing: "isFiled sourceId (filing a sourceId entry db) d \<longleftrightarrow> isFiled sourceId db d \<or> dp_id d = nl_deploymentId entry"
  unfolding isFiled_def by (rule filing_files)

lemma filing_length:
  "length (filing a sourceId entry db) =
     length db + (if findChangelog sourceId (nl_deploymentId entry) db = None then 1 else 0)"
  by (simp add: filing_def recordChangelog_def split: option.split)

lemma record_ids [simp]:
  "nl_deploymentId (toRecord target ch generator) = dp_id target"
  "nl_deploymentId (toUnreadable target generator) = dp_id target"
  by (simp_all add: toRecord_def toUnreadable_def)

lemma archiveOne_cases:
  obtains (filed) w' entry out' where "archiveOne a sourceId target (w, db, out) = (w', filing a sourceId entry db, out')"
      "nl_deploymentId entry = dp_id target" "ao_archived out' + ao_unreadable out' = Suc (ao_archived out + ao_unreadable out)"
      "ao_failed out' = ao_failed out" "ao_deferred out' = ao_deferred out"
  | (failed) w' e where "archiveOne a sourceId target (w, db, out) = (w', db, out\<lparr>ao_failed := ao_failed out + 1\<rparr>)"
      "ar_carried a target w = (w', Inl e)" "\<not> isUnresolvable e"
proof (cases "ar_carried a target w")
  case (Pair w' r)
  show ?thesis
  proof (cases r)
    case (Inl e)
    show ?thesis
    proof (cases "isUnresolvable e")
      case True
      show ?thesis
        by (rule filed [of w' "toUnreadable target (ar_generator a)" "out\<lparr>ao_unreadable := ao_unreadable out + 1\<rparr>"])
          (simp_all add: archiveOne_def Pair Inl True)
    next
      case False
      show ?thesis by (rule failed [of w' e]) (simp_all add: archiveOne_def Pair Inl False)
    qed
  next
    case (Inr ch)
    show ?thesis
      by (rule filed [of w' "toRecord target ch (ar_generator a)" "out\<lparr>ao_archived := ao_archived out + 1\<rparr>"])
        (simp_all add: archiveOne_def Pair Inr)
  qed
qed

lemma archiveEach_accounts:
  "distinct (map dp_id targets) \<Longrightarrow> list_all (\<lambda>d. \<not> isFiled sourceId db d) targets \<Longrightarrow>
   archiveEach a sourceId targets (w, db, out) = (w', db', out') \<Longrightarrow>
   extends db db' \<and>
   handled out' + ao_deferred out' = handled out + ao_deferred out + length targets \<and>
   handled out' \<le> handled out + length targets \<and>
   length db' + ao_archived out + ao_unreadable out = length db + ao_archived out' + ao_unreadable out' \<and>
   (\<forall>i. findChangelog sourceId i db' \<noteq> None \<longrightarrow> findChangelog sourceId i db \<noteq> None \<or> i \<in> dp_id ` set targets)"
proof (induction targets arbitrary: w db out)
  case (Cons target rest)
  show ?case
  proof (cases "ar_allows a w")
    case False
    with Cons.prems(3) show ?thesis by (auto simp: handled_def)
  next
    case True
    from Cons.prems(1) have rest: "distinct (map dp_id rest)" "dp_id target \<notin> dp_id ` set rest" by auto
    from True Cons.prems(3) have run: "archiveEach a sourceId rest (archiveOne a sourceId target (w, db, out)) = (w', db', out')"
      by simp
    show ?thesis
    proof (cases rule: archiveOne_cases [where a = a and sourceId = sourceId and target = target and w = w and db = db and out = out])
      case (filed w1 entry out1)
      have "list_all (\<lambda>d. \<not> isFiled sourceId (filing a sourceId entry db) d) rest"
        using Cons.prems(2) rest(2) filed(2) unfolding list_all_iff isFiled_filing by (metis image_eqI list.set_intros(2))
      note IH = Cons.IH [OF rest(1) this run [unfolded filed(1)]]
      have "length (filing a sourceId entry db) = Suc (length db)"
        using Cons.prems(2) filed(2) by (simp add: filing_length isFiled_def)
      moreover have "\<forall>i. findChangelog sourceId i db' \<noteq> None \<longrightarrow> findChangelog sourceId i db \<noteq> None \<or> i \<in> dp_id ` set (target # rest)"
        using IH filing_files filed(2) by (metis image_eqI insert_iff list.set(2) image_insert)
      moreover have "extends db db'" using extends_trans [OF filing_extends] IH by blast
      ultimately show ?thesis using IH filed(3,4,5) by (simp add: handled_def)
    next
      case (failed w1)
      from Cons.prems(2) have "list_all (\<lambda>d. \<not> isFiled sourceId db d) rest" by simp
      note IH = Cons.IH [OF rest(1) this run [unfolded failed(1)]]
      then show ?thesis by (auto simp: handled_def)
    qed
  qed
qed (simp add: handled_def)

lemma known_isFiled:
  "d \<in> set ds \<Longrightarrow> dp_id d \<in> knownChangelogs sourceId (map dp_id ds) db \<longleftrightarrow> isFiled sourceId db d"
  by (simp add: knownChangelogs_def isFiled_def)

abbreviation unfiled :: "string \<Rightarrow> ChangelogDb \<Rightarrow> ClassifiedDeployment list \<Rightarrow> ClassifiedDeployment list" where
  "unfiled sourceId db ds \<equiv> filter (\<lambda>d. dp_status d = Success \<and> \<not> isFiled sourceId db d) ds"

lemma pending_unfiled: "pendingOf (knownChangelogs sourceId (map dp_id ds) db) ds = unfiled sourceId db ds"
  unfolding pendingOf_def by (rule filter_cong) (simp_all add: known_isFiled)

definition batchOf :: "string \<Rightarrow> ChangelogDb \<Rightarrow> ClassifiedDeployment list \<Rightarrow> ClassifiedDeployment list" where
  "batchOf sourceId db ds = take ARCHIVE_BATCH (sort_key dp_createdAt (unfiled sourceId db ds))"

lemma batchOf_facts:
  "set (batchOf sourceId db ds) \<subseteq> set (unfiled sourceId db ds)"
  "length (batchOf sourceId db ds) = min ARCHIVE_BATCH (length (unfiled sourceId db ds))"
  "distinct (map dp_id ds) \<Longrightarrow> distinct (map dp_id (batchOf sourceId db ds))"
proof -
  show "set (batchOf sourceId db ds) \<subseteq> set (unfiled sourceId db ds)"
    unfolding batchOf_def using set_take_subset [of ARCHIVE_BATCH "sort_key dp_createdAt (unfiled sourceId db ds)"] by simp
  show "length (batchOf sourceId db ds) = min ARCHIVE_BATCH (length (unfiled sourceId db ds))"
    by (simp add: batchOf_def min.commute)
  assume "distinct (map dp_id ds)"
  then have "distinct (map dp_id (unfiled sourceId db ds))" by (simp add: distinct_map_filter)
  moreover have "mset (map dp_id (sort_key dp_createdAt (unfiled sourceId db ds))) = mset (map dp_id (unfiled sourceId db ds))" by simp
  ultimately have "distinct (map dp_id (sort_key dp_createdAt (unfiled sourceId db ds)))" using mset_eq_imp_distinct_iff by blast
  then show "distinct (map dp_id (batchOf sourceId db ds))" by (simp add: batchOf_def take_map [symmetric] distinct_take)
qed

lemma archiveAll_alt:
  "archiveAll a sourceId ds (w, db) = archiveEach a sourceId (batchOf sourceId db ds)
     (w, db, \<lparr>ao_archived = 0, ao_known = length (filter (isFiled sourceId db) ds),
       ao_deferred = length (unfiled sourceId db ds) - ARCHIVE_BATCH, ao_unreadable = 0, ao_failed = 0\<rparr>)"
proof -
  have "filter (\<lambda>d. dp_id d \<in> knownChangelogs sourceId (map dp_id ds) db) ds = filter (isFiled sourceId db) ds"
    by (rule filter_cong) (simp_all add: known_isFiled)
  then show ?thesis by (simp add: archiveAll_def selectPending_def pending_unfiled batchOf_def Let_def)
qed

text \<open>C38. An archiving run accounts for every deployment it considers and rewrites nothing. What was filed,
  by this source or any other, is there unchanged after the run; every success of the window not filed
  before is counted once, as archived, unreadable, failed or deferred; the table grows by exactly the
  archived and the unreadable; at most a batch is tried; and only successful deployments of the window
  are ever added.\<close>

theorem a_run_accounts_for_every_deployment:
  assumes "distinct (map dp_id ds)" and "archiveAll a sourceId ds (w, db) = (w', db', out)"
  shows "extends db db' \<and>
    ao_archived out + ao_unreadable out + ao_failed out + ao_deferred out = length (unfiled sourceId db ds) \<and>
    ao_archived out + ao_unreadable out + ao_failed out \<le> ARCHIVE_BATCH \<and>
    length db' = length db + ao_archived out + ao_unreadable out \<and>
    (\<forall>i. findChangelog sourceId i db' \<noteq> None \<longrightarrow> findChangelog sourceId i db \<noteq> None \<or>
       (\<exists>d \<in> set ds. dp_id d = i \<and> dp_status d = Success))"
proof -
  note batch = batchOf_facts [where sourceId = sourceId and db = db and ds = ds]
  have fresh: "list_all (\<lambda>d. \<not> isFiled sourceId db d) (batchOf sourceId db ds)" using batch(1) by (auto simp: list_all_iff)
  note acc = archiveEach_accounts [OF batch(3) [OF assms(1)] fresh assms(2) [unfolded archiveAll_alt]]
  have "\<forall>i. findChangelog sourceId i db' \<noteq> None \<longrightarrow> findChangelog sourceId i db \<noteq> None \<or>
       (\<exists>d \<in> set ds. dp_id d = i \<and> dp_status d = Success)"
    using acc batch(1) by (auto 0 4)
  moreover have "ao_archived out + ao_unreadable out + ao_failed out + ao_deferred out = length (unfiled sourceId db ds)"
    using acc batch(2) by (simp add: handled_def)
  ultimately show ?thesis using acc batch(2) by (simp add: handled_def)
qed

section \<open>Runs catch up\<close>

text \<open>One run after another over the same window, the store read back each time.\<close>

definition runOf :: "'w Archiver \<Rightarrow> string \<Rightarrow> ClassifiedDeployment list \<Rightarrow> 'w \<times> ChangelogDb \<Rightarrow> 'w \<times> ChangelogDb" where
  "runOf a sourceId ds st = (case archiveAll a sourceId ds st of (w', db', _) \<Rightarrow> (w', db'))"

lemma archiveEach_extends:
  "archiveEach a sourceId targets (w, db, out) = (w', db', out') \<Longrightarrow> extends db db'"
proof (induction targets arbitrary: w db out)
  case (Cons target rest)
  show ?case
  proof (cases "ar_allows a w")
    case True
    with Cons.prems have run: "archiveEach a sourceId rest (archiveOne a sourceId target (w, db, out)) = (w', db', out')" by simp
    show ?thesis
    proof (cases rule: archiveOne_cases [where a = a and sourceId = sourceId and target = target and w = w and db = db and out = out])
      case (filed w1 entry out1)
      from Cons.IH [OF run [unfolded filed(1)]] show ?thesis by (rule extends_trans [OF filing_extends])
    next
      case (failed w1 e)
      from Cons.IH [OF run [unfolded failed(1)]] show ?thesis .
    qed
  qed (use Cons.prems in auto)
qed simp

text \<open>When calls are allowed and the platform never fails but to say a range is gone.\<close>

definition steady :: "'w Archiver \<Rightarrow> bool" where
  "steady a \<longleftrightarrow> (\<forall>w. ar_allows a w) \<and> (\<forall>target w w' e. ar_carried a target w = (w', Inl e) \<longrightarrow> isUnresolvable e)"

lemma steady_files:
  assumes "steady a"
  shows "archiveEach a sourceId targets (w, db, out) = (w', db', out') \<Longrightarrow> list_all (isFiled sourceId db') targets"
proof (induction targets arbitrary: w db out)
  case (Cons target rest)
  have run: "archiveEach a sourceId rest (archiveOne a sourceId target (w, db, out)) = (w', db', out')"
    using Cons.prems assms by (simp add: steady_def)
  show ?case
  proof (cases rule: archiveOne_cases [where a = a and sourceId = sourceId and target = target and w = w and db = db and out = out])
    case (filed w1 entry out1)
    from archiveEach_extends [OF run [unfolded filed(1)]] have "extends (filing a sourceId entry db) db'" .
    moreover have "isFiled sourceId (filing a sourceId entry db) target" by (simp add: isFiled_filing filed(2))
    ultimately have "isFiled sourceId db' target" by (auto simp: isFiled_def extends_def)
    with Cons.IH [OF run [unfolded filed(1)]] show ?thesis by simp
  next
    case (failed w1 e)
    with assms show ?thesis by (auto simp: steady_def)
  qed
qed simp

lemma unfiled_shrinks:
  assumes "steady a" and "runOf a sourceId ds (w, db) = (w', db')"
  shows "length (unfiled sourceId db' ds) \<le> length (unfiled sourceId db ds) - ARCHIVE_BATCH"
proof -
  obtain out where run: "archiveAll a sourceId ds (w, db) = (w', db', out)"
    using assms(2) by (cases "archiveAll a sourceId ds (w, db)") (auto simp: runOf_def)
  note each = run [unfolded archiveAll_alt]
  have filed: "list_all (isFiled sourceId db') (batchOf sourceId db ds)" by (rule steady_files [OF assms(1) each])
  have ext: "extends db db'" by (rule archiveEach_extends [OF each])
  have mono: "isFiled sourceId db d \<Longrightarrow> isFiled sourceId db' d" for d using ext by (auto simp: isFiled_def extends_def)
  let ?sorted = "sort_key dp_createdAt (unfiled sourceId db ds)"
  let ?rest = "drop ARCHIVE_BATCH ?sorted"
  have "unfiled sourceId db' ds = unfiled sourceId db' (unfiled sourceId db ds)"
    unfolding filter_filter using mono by (intro filter_cong) auto
  then have "length (unfiled sourceId db' ds) = length (unfiled sourceId db' ?sorted)"
    by (simp add: sort_key_filter_commute)
  also have "?sorted = batchOf sourceId db ds @ ?rest" by (simp add: batchOf_def)
  then have "length (unfiled sourceId db' ?sorted) = length (unfiled sourceId db' (batchOf sourceId db ds @ ?rest))"
    by (rule arg_cong)
  also have "unfiled sourceId db' (batchOf sourceId db ds @ ?rest) = unfiled sourceId db' ?rest"
    using filed by (auto simp: filter_empty_conv list_all_iff)
  also have "length \<dots> \<le> length ?rest" by (rule length_filter_le)
  finally show ?thesis by simp
qed

text \<open>C39. The archive catches up. While the reserve allows calls and the platform fails only to say that a
  range is gone, as many runs as the successes of the window fill batches leave every one of them
  filed, with its contents or as unreadable, however many there were and whatever was filed before.\<close>

theorem runs_catch_up:
  assumes "steady a" and "length (unfiled sourceId db ds) \<le> n * ARCHIVE_BATCH"
  shows "list_all (\<lambda>d. dp_status d = Success \<longrightarrow> isFiled sourceId (snd ((runOf a sourceId ds ^^ n) (w, db))) d) ds"
proof -
  have "length (unfiled sourceId (snd ((runOf a sourceId ds ^^ k) (w, db))) ds) \<le> length (unfiled sourceId db ds) - k * ARCHIVE_BATCH" for k
  proof (induction k)
    case (Suc k)
    obtain w1 db1 where k: "(runOf a sourceId ds ^^ k) (w, db) = (w1, db1)" by force
    obtain w2 db2 where s: "runOf a sourceId ds (w1, db1) = (w2, db2)" by force
    from unfiled_shrinks [OF assms(1) s] Suc k s show ?case by simp
  qed simp
  from this [of n] assms(2) have "unfiled sourceId (snd ((runOf a sourceId ds ^^ n) (w, db))) ds = []" by simp
  then show ?thesis by (auto simp: list_all_iff filter_empty_conv)
qed

section \<open>What was filed is what is answered\<close>

text \<open>C40. A filed changelog answers for ever. Once a comparison is filed for a deployment that was not, then
  whatever is filed after, whatever the installation becomes and whatever has become of the platform,
  asking what that deployment carried against its predecessor makes no call and gives the comparison as
  it was: its base, its commits, its authors and its text, dated from the filing.\<close>

theorem a_filed_changelog_answers_for_ever:
  assumes "findChangelog sourceId (dp_id target) db = None"
    and "extends (recordChangelog sourceId fresh filedAt (toRecord target ch generator) db) later"
  shows "\<exists>d. changes inst later now sourceId (dp_id target) repo PreviousBase customRef query w = (w, Inr d) \<and>
    dh_entries d = dh_entries ch \<and> dh_markdown d = dh_markdown ch \<and> dh_authors d = dh_authors ch \<and>
    dh_base d = dh_base ch \<and> dh_baseRef d = dh_baseRef ch \<and> dh_baseRefUrl d = dh_baseRefUrl ch \<and>
    dh_head d = dp_ref target \<and> dp_id (dh_deployment d) = dp_id target \<and> dh_archivedAt d = Some filedAt"
proof -
  have "findChangelog sourceId (dp_id target) (recordChangelog sourceId fresh filedAt (toRecord target ch generator) db) =
      Some (toRow fresh filedAt (toRecord target ch generator))"
    using assms(1) by (simp add: findChangelog_record)
  with assms(2) have "findChangelog sourceId (dp_id target) later = Some (toRow fresh filedAt (toRecord target ch generator))"
    by (simp add: extends_def)
  then show ?thesis
    by (simp add: changes_def fromArchive_def toRow_def toRecord_def NewChangelog.defs ChangelogRow.defs Let_def split_def)
qed

section \<open>Witnesses\<close>

text \<open>An archiver over a platform that has lost one of its refs.\<close>

definition sample_archiver :: "nat Archiver" where
  "sample_archiver =
     \<lparr>ar_carried = (\<lambda>target w. (Suc w, if dp_ref target = ''gone'' then Inl (DeployApi (UnknownRef ''shop'' ''gone''))
        else Inr (nothingBefore target PreviousBase))),
      ar_allows = (\<lambda>_. True), ar_stamp = (\<lambda>i. (i, 7)), ar_generator = ''builtin''\<rparr>"

definition sample_window :: "ClassifiedDeployment list" where
  "sample_window = [sample_deployed ''2'' ''gone'' Success 9, sample_deployed ''3'' ''v3'' Failed 8, sample_deployed ''1'' ''v1'' Success 5]"

lemma sample_window_unfiled: "length (unfiled ''s'' [] sample_window) = 2"
  by (simp add: sample_window_def sample_deployed_def isFiled_def findChangelog_def)

theorem a_run_accounts_for_every_deployment_witness:
  "\<exists>w' db' out. archiveAll sample_archiver ''s'' sample_window (0, []) = (w', db', out) \<and>
     ao_archived out + ao_unreadable out + ao_failed out + ao_deferred out = 2"
proof -
  obtain w' db' out where run: "archiveAll sample_archiver ''s'' sample_window (0, []) = (w', db', out)"
    by (cases "archiveAll sample_archiver ''s'' sample_window (0, [])")
  have "distinct (map dp_id sample_window)" by (simp add: sample_window_def sample_deployed_def)
  from a_run_accounts_for_every_deployment [OF this run] sample_window_unfiled run show ?thesis by auto
qed

theorem runs_catch_up_witness:
  "list_all (isFiled ''s'' (snd ((runOf sample_archiver ''s'' sample_window ^^ 1) (0, []))))
     [sample_deployed ''2'' ''gone'' Success 9, sample_deployed ''1'' ''v1'' Success 5]"
proof -
  have "steady sample_archiver"
    by (auto simp: steady_def sample_archiver_def isUnresolvable_def split: if_splits)
  moreover have "length (unfiled ''s'' [] sample_window) \<le> 1 * ARCHIVE_BATCH" by (simp add: sample_window_unfiled ARCHIVE_BATCH_def)
  ultimately have "list_all (\<lambda>d. dp_status d = Success \<longrightarrow> isFiled ''s'' (snd ((runOf sample_archiver ''s'' sample_window ^^ 1) (0, []))) d) sample_window"
    by (rule runs_catch_up)
  then show ?thesis unfolding sample_window_def by (simp add: sample_deployed_def)
qed

definition deploy_install :: "(Plaintext, unit) DeployInstall" where
  "deploy_install = DoraInstall.extend dora_install
     (DeployInstall.fields \<lparr>ud_sources = [], ud_rules = [], ud_selected = [], ud_declared = []\<rparr>
        (\<lambda>_. sample_range []) (\<lambda>_ _ _ _. []))"

theorem a_filed_changelog_answers_for_ever_witness:
  "let target = sample_deployed ''1'' ''v1'' Success 5; ch = (nothingBefore target PreviousBase)\<lparr>dh_markdown := ''notes''\<rparr>;
       later = recordChangelog ''s'' ''b'' 9 (toUnreadable target ''builtin'') (recordChangelog ''s'' ''a'' 7 (toRecord target ch ''builtin'') [])
   in \<exists>d. changes deploy_install later 11 ''s'' ''1'' ''shop'' PreviousBase None
          \<lparr>PeriodQuery.pq_from = None, pq_to = None, pq_windowDays = None\<rparr> () = ((), Inr d) \<and>
        dh_markdown d = ''notes'' \<and> dh_archivedAt d = Some 7"
proof -
  define target where "target = sample_deployed ''1'' ''v1'' Success 5"
  define ch where "ch = (nothingBefore target PreviousBase)\<lparr>dh_markdown := ''notes''\<rparr>"
  define filed where "filed = recordChangelog ''s'' ''a'' 7 (toRecord target ch ''builtin'') []"
  define later where "later = recordChangelog ''s'' ''b'' 9 (toUnreadable target ''builtin'') filed"
  define query where "query = \<lparr>PeriodQuery.pq_from = None, pq_to = None, pq_windowDays = None\<rparr>"
  have "findChangelog ''s'' (dp_id target) [] = None" by (simp add: findChangelog_def)
  moreover have "extends (recordChangelog ''s'' ''a'' 7 (toRecord target ch ''builtin'') []) later"
    unfolding later_def filed_def by (simp add: extends_def findChangelog_record)
  ultimately have "\<exists>d. changes deploy_install later 11 ''s'' (dp_id target) ''shop'' PreviousBase None query () = ((), Inr d) \<and>
      dh_entries d = dh_entries ch \<and> dh_markdown d = dh_markdown ch \<and> dh_authors d = dh_authors ch \<and>
      dh_base d = dh_base ch \<and> dh_baseRef d = dh_baseRef ch \<and> dh_baseRefUrl d = dh_baseRefUrl ch \<and>
      dh_head d = dp_ref target \<and> dp_id (dh_deployment d) = dp_id target \<and> dh_archivedAt d = Some 7"
    by (rule a_filed_changelog_answers_for_ever)
  moreover have "dh_markdown ch = ''notes''" "dp_id target = ''1''" by (simp_all add: ch_def target_def sample_deployed_def)
  ultimately have "\<exists>d. changes deploy_install later 11 ''s'' ''1'' ''shop'' PreviousBase None query () = ((), Inr d) \<and>
      dh_markdown d = ''notes'' \<and> dh_archivedAt d = Some 7" by metis
  then show ?thesis unfolding Let_def later_def filed_def ch_def target_def query_def .
qed

end
