(* ===== verification/Spec2Isabelle.thy ===== *)
theory Spec2Isabelle
  imports Merge Store Store_Concurrency Sync Dora_Metrics Dora_Readings Dora_Fold Webhook_Events Connectors Connector_GitHub Connector_GitLab Jobs Webhooks
    Version_Template Private_Address Version_Target Version_Readings
    Settings Rule_Engines Catalogue Env_Urls Rule_Services Slugs Sources Pagination Login_Throttle Passwords Auth Auth_Safety
    Periods Incidents Readers Dora_Service Dora_History Retention
    Commit_Messages Release_Notes Changelog_Store Deployments Changelogs
begin

text \<open>
  Git Pulse reads what happens on Git platforms (requests, pipelines, deployments), keeps a copy of
  it, and reports on delivery. The development models the server, \<open>back/src\<close>, with the part of
  \<open>packages/shared/src/index.ts\<close> it rests on. Paths below are relative to \<open>back/src\<close>.

  THE PARTS AND HOW THEY MEET

  A source is a platform account an administrator declares (\<open>sources\<close>, \<open>trackers\<close>, \<open>settings\<close>,
  guarded by \<open>auth\<close>). A connector (\<open>sources/connectors\<close>) lists what the platform holds. The
  synchronisation (\<open>ingest/sync.service.ts\<close>) writes those listings to the store
  (\<open>ingest/store.service.ts\<close>) through the merges of \<open>ingest/merge.ts\<close>; the webhook handlers
  (\<open>ingest/webhooks\<close>) write single events to the same rows, and a nightly sweep
  (\<open>ingest/retention.service.ts\<close>) deletes what no report reaches. A reader
  (\<open>ingest/reader.factory.ts\<close>) gives what a source holds, from the store or from the platform. The
  readings (\<open>dora\<close>) are computed from that, with the incidents of a tracker (\<open>incidents\<close>). The rule
  engines (\<open>env-rules\<close>, \<open>env-urls\<close>, \<open>ticket-rules\<close>) say what the names in it mean, and the probes
  (\<open>version-rules\<close>) ask each environment which version it runs. The deployments (\<open>deployments\<close>) are
  listed and compared, the commits between two of them become release notes (\<open>release-notes\<close>), and
  the archive (\<open>changelogs\<close>) files those once for every deployment.

  THEORIES AND FILES

  Prelude, Shared_Types, Tables, Pagination, Catalogue: what the components share. \<open>Map\<close> and stable
  \<open>sort\<close> of JavaScript, the vocabulary of the shared package, tables of rows under a unique key
  (\<open>updateMany\<close>, \<open>upsert\<close>, \<open>deleteMany\<close> of Prisma), page windows, rows under a drawn identifier.
  The locale \<open>run_invariant\<close> of Prelude carries every theorem about any sequence of requests.

  Merge: \<open>ingest/merge.ts\<close>. Store: \<open>ingest/store.service.ts\<close>; its state is one table per resource
  and per source. Store_Concurrency: the same writes cut at their awaits, two writers interleaved.
  Sync: \<open>ingest/sync.service.ts\<close> and \<open>ingest/sync-cadence.ts\<close>; the state is the store with a cursor
  and two dates per resource. The lemmas show that merges lose no fact and never unsettle a status,
  that writes keep every table well formed, that a sweep closes what the listing left out, and that a
  reconciliation leaves what the platform listed. Retention: \<open>ingest/retention.service.ts\<close> and
  \<open>ingest/coverage.service.ts\<close>; the lemmas show that no reader sees what a sweep deletes.

  Connectors, Connector_GitHub, Connector_GitLab: \<open>sources/connectors\<close>. A platform is a record of API
  calls, each of which may fail; a connector turns it into the record of operations Sync calls. The
  lemmas bound what a listing reads, show when it says that it is incomplete, and that the events and
  the listings of GitHub describe one change alike. Paging loops recurse on the pages left, at most the cap.

  Webhook_Events, Webhooks, Jobs: \<open>ingest/webhooks\<close>, \<open>collection/collector.service.ts\<close> (the
  queueing) and \<open>version-rules/probe-job.ts\<close> with its processor. A payload is a JSON value; the
  queue is a table of jobs under their identifiers, and its \<open>add\<close> is a parameter that may refuse.

  Dora_Metrics, Dora_Readings, Dora_Fold: \<open>dora/dora-metrics.ts\<close>, \<open>dora/aggregate.ts\<close>,
  \<open>dora/trend.ts\<close>, \<open>dora/series.ts\<close>, \<open>overview/flow.ts\<close>. Dates are milliseconds, durations are
  rationals where the code divides. The lemmas show what each reading counts, which deployment an
  incident is blamed on, and that folding the parts of a reading gives the reading of the whole.

  Periods, Incidents, Readers, Dora_Service, Dora_History: \<open>common/period.ts\<close>, \<open>incidents\<close>,
  \<open>ingest/reader.factory.ts\<close>, \<open>dora/dora.service.ts\<close>. An installation is a record of what the service
  is wired to (\<open>DoraInstall\<close>); a bounded listing is what it told the sink of cut reads together with
  how it ended. The lemmas show what a trend and a replay keep and what a refused listing spoils.

  Version_Template, Private_Address, Version_Target, Version_Readings: \<open>version-rules\<close>. A probe is
  the walk over the rules of an environment, a guarded request, an extraction and a filing.

  Rule_Engines: \<open>env-rules/env-classifier.ts\<close>, \<open>env-urls/env-url.ts\<close>,
  \<open>ticket-rules/ticket-extractor.ts\<close>. Env_Urls: \<open>env-urls/env-urls.service.ts\<close>. Rule_Services:
  \<open>env-rules/env-rules.service.ts\<close> and \<open>ticket-rules/ticket-rules.service.ts\<close>. The engines are pure;
  the services keep the catalogues they read, and the lemmas are about both.

  Commit_Messages, Release_Notes: \<open>release-notes\<close>. The patterns over messages are functions on
  texts, written out one by one; the calls of a connector about a range are a record that
  \<open>gitHubRange\<close> and \<open>gitLabRange\<close> fill. Deployments: \<open>deployments\<close>. Changelog_Store, Changelogs:
  \<open>changelogs\<close>; the table is keyed by source and deployment, a run is the walk over its batch with
  the answer of the quota as a parameter. The lemmas show that messages read back as they are
  written, that an expansion loses no work, that every filter offered finds something, that a
  deployment is filed once, and that runs on a steady platform file all of them.

  Slugs, Sources: \<open>sources/sources.service.ts\<close>, \<open>trackers/trackers.service.ts\<close> and what they use of
  \<open>crypto/credentials.service.ts\<close>. Settings: \<open>settings/settings.service.ts\<close>, a table of texts.
  Login_Throttle, Passwords, Auth, Auth_Safety: \<open>auth\<close>, with the guard in front of every route.

  PARAMETERS

  What is not under the repository is an argument: the regular expression, JSON and XML engines, the
  URL parser and the resolver, scrypt and SHA-256, the cipher, the queue, the API of a platform, the
  identifiers, tokens and clock a request would draw. What a theorem needs of one is a hypothesis of
  it, and its witness instantiates it.

  BOUNDS

  Recursion follows the data wherever it can. The exceptions end by a measure: the counter of a free
  slug (the slugs taken), the pages of a listing (the cap left), the pages of a comparison (the
  commits left to read), the days of a replay (the days left), the placeholders of a template (the
  text left).

  CONCURRENCY

  A request is one step, but in Store_Concurrency, where a write is the steps between its awaits. The
  theorems about accounts, links, the throttle and sources are therefore about requests one after
  another.

  NOT MODELLED

  The front end; the wiring of the framework, its controllers but those of \<open>auth\<close>, and the
  validation decorators; the Prisma client, whose tables are lists here; the calls to a language
  model and the writer of the \<open>conventional-changelog\<close> packages, which are parameters; the dashboards,
  which arrange what the readings and the store give; the quota meters; the test of a connection;
  log lines; the demonstration seed and the other scripts.
\<close>

end
